(* ===== verification/Prelude.thy ===== *)
theory Prelude
  imports "HOL-Library.Word"
begin

text \<open>
  Shared vocabulary of the development: the machine integer types of the C sources, the combinators in
  which the state-changing functions are written, and generic facts on lists and masked words.

  A C function that mutates its channel structure is a function from states to states.  Statements are
  sequenced with \<open>steps\<close>, a list of them run from left to right, and an \<open>if\<close> without \<open>else\<close> is \<open>ifthen\<close>,
  so a definition lists its statements in the order of the C body.
\<close>

unbundle bit_operations_syntax

type_synonym u8 = "8 word"
type_synonym u16 = "16 word"
type_synonym u32 = "32 word"
type_synonym s32 = "32 word"

named_theorems bufq_defs "operations of the message buffers"
named_theorems sl_defs "operations of the signalling link"
named_theorems sl_ctl "effect of an operation on the control state"
named_theorems sl_win "effect of an operation on the transmit window"

section \<open>Statement combinators\<close>

primrec steps :: "('s \<Rightarrow> 's) list \<Rightarrow> 's \<Rightarrow> 's" where
  "steps [] s = s"
| "steps (f # fs) s = steps fs (f s)"

definition ifthen :: "('s \<Rightarrow> bool) \<Rightarrow> ('s \<Rightarrow> 's) \<Rightarrow> 's \<Rightarrow> 's" where
  "ifthen b f s = (if b s then f s else s)"

definition ifelse :: "('s \<Rightarrow> bool) \<Rightarrow> ('s \<Rightarrow> 'a) \<Rightarrow> ('s \<Rightarrow> 'a) \<Rightarrow> 's \<Rightarrow> 'a" where
  "ifelse b f g s = (if b s then f s else g s)"

text \<open>A call whose return value the caller ignores.\<close>

definition exec :: "('s \<Rightarrow> 'a \<times> 's) \<Rightarrow> 's \<Rightarrow> 's" where
  "exec f s = snd (f s)"

lemma ifthen_True [simp]: "b s \<Longrightarrow> ifthen b f s = f s"
  by (simp add: ifthen_def)

lemma ifthen_False [simp]: "\<not> b s \<Longrightarrow> ifthen b f s = s"
  by (simp add: ifthen_def)

lemma ifthen_cases: "\<lbrakk>b s \<Longrightarrow> P (f s); \<not> b s \<Longrightarrow> P s\<rbrakk> \<Longrightarrow> P (ifthen b f s)"
  by (simp add: ifthen_def)

lemma ifelse_True [simp]: "b s \<Longrightarrow> ifelse b f g s = f s"
  by (simp add: ifelse_def)

lemma ifelse_False [simp]: "\<not> b s \<Longrightarrow> ifelse b f g s = g s"
  by (simp add: ifelse_def)

text \<open>An observation that a statement leaves alone is left alone by \<open>ifthen\<close> and by sequencing.\<close>

lemma obs_ifthen: "(\<And>s. v (f s) = v s) \<Longrightarrow> v (ifthen b f s) = v s"
  by (simp add: ifthen_def)

lemma obs_steps: "(\<And>f s. f \<in> set fs \<Longrightarrow> v (f s) = v s) \<Longrightarrow> v (steps fs s) = v s"
  by (induction fs arbitrary: s) simp_all

section \<open>Masked words\<close>

lemma unat_and_mask_eq_mod:
  fixes x :: "'a::len word"
  shows "unat (x AND mask k) = unat x mod 2 ^ k"
  by (simp only: take_bit_eq_mask[symmetric] unsigned_take_bit_eq) (simp add: take_bit_eq_mod)

lemma and_mask_idem:
  fixes x :: "'a::len word"
  shows "x AND mask k = x \<longleftrightarrow> take_bit k x = x"
  by (simp add: take_bit_eq_mask)

section \<open>Lists\<close>

lemma sum_list_append_single: "sum_list (map f (xs @ [x])) = sum_list (map f xs) + (f x :: nat)"
  by simp

lemma sum_list_tl:
  "xs \<noteq> [] \<Longrightarrow> sum_list (map f (tl xs)) = sum_list (map f xs) - (f (hd xs) :: nat)"
  by (cases xs) auto

lemma rev_exhaust_last: "xs \<noteq> [] \<Longrightarrow> xs = butlast xs @ [last xs]"
  by simp

section \<open>Doubly linked segments\<close>

text \<open>Blocks are named by numbers and pointers are \<open>nat option\<close>, \<open>None\<close> being the null pointer.  The first block of
  a segment followed by \<open>n\<close>, and the last one of a segment preceded by \<open>p\<close>.\<close>

definition first :: "nat list \<Rightarrow> nat option \<Rightarrow> nat option" where
  "first xs n = (case xs of [] \<Rightarrow> n | x # _ \<Rightarrow> Some x)"

definition final :: "nat option \<Rightarrow> nat list \<Rightarrow> nat option" where
  "final p xs = (if xs = [] then p else Some (last xs))"

lemma first_simps [simp]: "first [] n = n" "first (x # xs) n = Some x" "first (xs @ ys) n = first xs (first ys n)"
  by (simp_all add: first_def split: list.split)

lemma final_simps [simp]: "final p [] = p" "final p (xs @ [x]) = Some x" "final p (x # xs) = final (Some x) xs"
  by (simp_all add: final_def)

lemma final_append [simp]: "final p (xs @ ys) = final (final p xs) ys"
  by (simp add: final_def)

lemma final_Some_in: "final (Some a) xs = Some y \<Longrightarrow> y = a \<or> y \<in> set xs"
  by (auto simp: final_def split: if_splits)

lemma first_Some_in: "first xs (Some y) = Some a \<Longrightarrow> a = y \<or> a \<in> set xs"
  by (auto simp: first_def split: list.splits)

lemma first_final_Some [simp]:
  "\<exists>y. final (Some a) xs = Some y" "\<exists>y. first xs (Some a) = Some y"
  by (auto simp: first_def final_def split: list.splits)

text \<open>The blocks \<open>xs\<close> are linked both ways, from \<open>p\<close> to \<open>n\<close>.\<close>

fun links :: "(nat \<Rightarrow> nat option) \<Rightarrow> (nat \<Rightarrow> nat option) \<Rightarrow> nat option \<Rightarrow> nat list \<Rightarrow> nat option \<Rightarrow> bool" where
  "links nx pv p [] n \<longleftrightarrow> True"
| "links nx pv p (x # xs) n \<longleftrightarrow> pv x = p \<and> nx x = first xs n \<and> links nx pv (Some x) xs n"

lemma links_append [simp]:
  "links nx pv p (xs @ ys) n \<longleftrightarrow> links nx pv p xs (first ys n) \<and> links nx pv (final p xs) ys n"
  by (induction xs arbitrary: p) auto

lemma links_cong:
  "(\<And>x. x \<in> set xs \<Longrightarrow> nx x = nx' x \<and> pv x = pv' x) \<Longrightarrow> links nx pv p xs n = links nx' pv' p xs n"
  by (induction xs arbitrary: p) auto

end
