(* ===== verification/Bufq.thy ===== *)
theory Bufq
  imports Prelude
begin

text \<open>
  The message buffers of \<open>src/src/include/sys/os7/bufq.h\<close>.  A message block chain is identified by
  the address of its data (\<open>mid\<close>) and has the octets between its read and write pointers, over all its
  continuation blocks.  A buffer is the list from \<open>q_head\<close> to \<open>q_tail\<close> along \<open>b_next\<close>, with the two
  counters of the C structure; the counters are kept separately because the C code keeps them
  separately, and the invariant \<open>bufq_ok\<close> says they agree with the list.
\<close>

record msg =
  mid :: nat
  octets :: "u8 list"

abbreviation msgdsize :: "msg \<Rightarrow> nat" where
  "msgdsize mp \<equiv> length (octets mp)"

record bufq =
  q_list :: "msg list"
  q_msgs :: nat
  q_count :: nat

section \<open>Operations\<close>

definition bufq_init :: bufq where
  "bufq_init = \<lparr>q_list = [], q_msgs = 0, q_count = 0\<rparr>"

definition bufq_length :: "bufq \<Rightarrow> nat" where
  "bufq_length q = q_msgs q"

definition bufq_size :: "bufq \<Rightarrow> nat" where
  "bufq_size q = q_count q"

definition bufq_head :: "bufq \<Rightarrow> msg option" where
  "bufq_head q = (case q_list q of [] \<Rightarrow> None | mp # _ \<Rightarrow> Some mp)"

definition bufq_tail :: "bufq \<Rightarrow> msg option" where
  "bufq_tail q = (if q_list q = [] then None else Some (last (q_list q)))"

text \<open>The accounting halves: \<open>__bufq_sub\<close> saturates at zero and clears the octet count when the last
  message leaves.\<close>

definition bufq_add :: "msg \<Rightarrow> bufq \<Rightarrow> bufq" where
  "bufq_add mp q = q\<lparr>q_msgs := q_msgs q + 1, q_count := q_count q + msgdsize mp\<rparr>"

definition bufq_sub :: "msg \<Rightarrow> bufq \<Rightarrow> bufq" where
  "bufq_sub mp q =
     (let q = (if msgdsize mp \<le> q_count q then q\<lparr>q_count := q_count q - msgdsize mp\<rparr>
               else q\<lparr>q_count := 0\<rparr>);
          q = q\<lparr>q_msgs := q_msgs q - 1\<rparr>
      in if q_msgs q = 0 then q\<lparr>q_count := 0\<rparr> else q)"

definition bufq_queue :: "msg \<Rightarrow> bufq \<Rightarrow> bufq" where
  "bufq_queue mp q = bufq_add mp (q\<lparr>q_list := q_list q @ [mp]\<rparr>)"

definition bufq_queue_head :: "msg \<Rightarrow> bufq \<Rightarrow> bufq" where
  "bufq_queue_head mp q = bufq_add mp (q\<lparr>q_list := mp # q_list q\<rparr>)"

definition bufq_dequeue :: "bufq \<Rightarrow> msg option \<times> bufq" where
  "bufq_dequeue q = (case q_list q of
      [] \<Rightarrow> (None, q)
    | mp # ms \<Rightarrow> (Some mp, bufq_sub mp (q\<lparr>q_list := ms\<rparr>)))"

definition bufq_dequeue_tail :: "bufq \<Rightarrow> msg option \<times> bufq" where
  "bufq_dequeue_tail q =
     (if q_list q = [] then (None, q)
      else (Some (last (q_list q)), bufq_sub (last (q_list q)) (q\<lparr>q_list := butlast (q_list q)\<rparr>)))"

text \<open>The splices and \<open>bufq_purge\<close> are loops over the dequeue operations; each iteration shortens the
  source list.\<close>

lemma q_list_bufq_sub [simp]: "q_list (bufq_sub mp q) = q_list q"
  by (simp add: bufq_sub_def Let_def)

lemma dequeue_shortens: "bufq_dequeue q = (Some mp, q') \<Longrightarrow> length (q_list q') < length (q_list q)"
  by (auto simp: bufq_dequeue_def split: list.splits)

lemma dequeue_tail_shortens:
  "bufq_dequeue_tail q = (Some mp, q') \<Longrightarrow> length (q_list q') < length (q_list q)"
  by (auto simp: bufq_dequeue_tail_def split: if_splits)

function bufq_splice_tail :: "bufq \<Rightarrow> bufq \<Rightarrow> bufq \<times> bufq" where
  "bufq_splice_tail q1 q2 = (case bufq_dequeue q2 of
      (None, q2') \<Rightarrow> (q1, q2')
    | (Some mp, q2') \<Rightarrow> bufq_splice_tail (bufq_queue mp q1) q2')"
  by pat_completeness auto
termination
  by (relation "measure (\<lambda>(q1, q2). length (q_list q2))") (auto dest: sym dequeue_shortens)

function bufq_splice_head :: "bufq \<Rightarrow> bufq \<Rightarrow> bufq \<times> bufq" where
  "bufq_splice_head q1 q2 = (case bufq_dequeue_tail q2 of
      (None, q2') \<Rightarrow> (q1, q2')
    | (Some mp, q2') \<Rightarrow> bufq_splice_head (bufq_queue_head mp q1) q2')"
  by pat_completeness auto
termination
  by (relation "measure (\<lambda>(q1, q2). length (q_list q2))") (auto dest: sym dequeue_tail_shortens)

text \<open>\<open>bufq_purge\<close> frees every message from the head on: it returns what it frees, in order.\<close>

function bufq_purge :: "bufq \<Rightarrow> msg list \<times> bufq" where
  "bufq_purge q = (case bufq_dequeue q of
      (None, q') \<Rightarrow> ([], q')
    | (Some mp, q') \<Rightarrow> (let (ms, q'') = bufq_purge q' in (mp # ms, q'')))"
  by pat_completeness auto
termination
  by (relation "measure (\<lambda>q. length (q_list q))") (auto dest: sym dequeue_shortens)

definition bufq_freehead :: "bufq \<Rightarrow> msg list \<times> bufq" where
  "bufq_freehead q = (case bufq_dequeue q of (None, q') \<Rightarrow> ([], q') | (Some mp, q') \<Rightarrow> ([mp], q'))"

declare bufq_splice_tail.simps [simp del] bufq_splice_head.simps [simp del] bufq_purge.simps [simp del]

section \<open>Invariant\<close>

text \<open>The counters agree with the list.\<close>

definition msgs_size :: "msg list \<Rightarrow> nat" where
  "msgs_size ms = sum_list (map msgdsize ms)"

definition bufq_ok :: "bufq \<Rightarrow> bool" where
  "bufq_ok q \<longleftrightarrow> q_msgs q = length (q_list q) \<and> q_count q = msgs_size (q_list q)"

lemma msgs_size_simps [simp]:
  "msgs_size [] = 0"
  "msgs_size (m # ms) = msgdsize m + msgs_size ms"
  "msgs_size (ms @ ns) = msgs_size ms + msgs_size ns"
  by (simp_all add: msgs_size_def)

lemma bufq_ok_init [simp]: "bufq_ok bufq_init"
  by (simp add: bufq_ok_def bufq_init_def)

lemma q_list_simps [simp]:
  "q_list bufq_init = []"
  "q_list (bufq_add mp q) = q_list q"
  "q_list (bufq_queue mp q) = q_list q @ [mp]"
  "q_list (bufq_queue_head mp q) = mp # q_list q"
  by (simp_all add: bufq_init_def bufq_add_def bufq_queue_def bufq_queue_head_def)

lemma bufq_queue_ok [simp]: "bufq_ok q \<Longrightarrow> bufq_ok (bufq_queue mp q)"
  by (simp add: bufq_ok_def bufq_queue_def bufq_add_def)

lemma bufq_queue_head_ok [simp]: "bufq_ok q \<Longrightarrow> bufq_ok (bufq_queue_head mp q)"
  by (simp add: bufq_ok_def bufq_queue_head_def bufq_add_def)

lemma bufq_dequeue_ok: "bufq_ok q \<Longrightarrow> bufq_dequeue q = (r, q') \<Longrightarrow> bufq_ok q'"
  by (auto simp: bufq_ok_def bufq_dequeue_def bufq_sub_def Let_def split: list.splits if_splits)

lemma msgs_size_butlast:
  "ms \<noteq> [] \<Longrightarrow> msgs_size (butlast ms) = msgs_size ms - msgdsize (last ms)"
  by (metis append_butlast_last_id diff_add_inverse2 msgs_size_simps(1,2,3) add_0_right)

lemma msgdsize_last_le: "ms \<noteq> [] \<Longrightarrow> msgdsize (last ms) \<le> msgs_size ms"
  by (metis append_butlast_last_id le_add2 msgs_size_simps(1,2,3) add_0_right)

lemma bufq_dequeue_tail_ok: "bufq_ok q \<Longrightarrow> bufq_dequeue_tail q = (r, q') \<Longrightarrow> bufq_ok q'"
  by (cases "q_list q" rule: rev_cases)
    (auto simp: bufq_ok_def bufq_dequeue_tail_def bufq_sub_def Let_def split: if_splits)

lemma bufq_count_zero: "bufq_ok q \<Longrightarrow> (\<forall>m \<in> set (q_list q). octets m \<noteq> []) \<Longrightarrow>
    q_count q = 0 \<longleftrightarrow> q_list q = []"
  by (cases "q_list q") (auto simp: bufq_ok_def)

section \<open>The buffer as a first-in first-out interface\<close>

text \<open>What the signalling link relies on: a message goes in at the tail, messages come out at the head
  in the order they went in, and purging hands back all of them.\<close>

locale fifo_buffer =
  fixes content :: "'q \<Rightarrow> 'm list"
    and wf :: "'q \<Rightarrow> bool"
    and enq :: "'m \<Rightarrow> 'q \<Rightarrow> 'q"
    and deq :: "'q \<Rightarrow> 'm option \<times> 'q"
  assumes content_enq: "wf q \<Longrightarrow> content (enq m q) = content q @ [m]"
    and wf_enq: "wf q \<Longrightarrow> wf (enq m q)"
    and deq_empty: "wf q \<Longrightarrow> content q = [] \<Longrightarrow> deq q = (None, q)"
    and deq_head: "wf q \<Longrightarrow> content q = m # ms \<Longrightarrow> fst (deq q) = Some m \<and> content (snd (deq q)) = ms"
    and wf_deq: "wf q \<Longrightarrow> wf (snd (deq q))"
begin

fun enq_all :: "'m list \<Rightarrow> 'q \<Rightarrow> 'q" where
  "enq_all [] q = q"
| "enq_all (m # ms) q = enq_all ms (enq m q)"

fun deq_n :: "nat \<Rightarrow> 'q \<Rightarrow> 'm list \<times> 'q" where
  "deq_n 0 q = ([], q)"
| "deq_n (Suc n) q = (case deq q of
      (None, q') \<Rightarrow> ([], q')
    | (Some m, q') \<Rightarrow> (let (ms, q'') = deq_n n q' in (m # ms, q'')))"

lemma enq_all_content: "wf q \<Longrightarrow> wf (enq_all ms q) \<and> content (enq_all ms q) = content q @ ms"
  by (induction ms arbitrary: q) (simp_all add: content_enq wf_enq)

lemma deq_n_content:
  "wf q \<Longrightarrow> fst (deq_n n q) = take n (content q) \<and> content (snd (deq_n n q)) = drop n (content q)
     \<and> wf (snd (deq_n n q))"
proof (induction n arbitrary: q)
  case (Suc n)
  show ?case
  proof (cases "content q")
    case Nil
    then show ?thesis using Suc.prems by (simp add: deq_empty)
  next
    case (Cons m ms)
    obtain q' where q': "deq q = (Some m, q')" "content q' = ms" "wf q'"
      using deq_head[OF Suc.prems Cons] wf_deq[OF Suc.prems] by (metis prod.collapse snd_conv)
    then show ?thesis using Suc.IH[of q'] Cons by (simp add: case_prod_unfold Let_def)
  qed
qed simp

theorem fifo_order:
  "wf q \<Longrightarrow> content q = [] \<Longrightarrow> fst (deq_n (length ms) (enq_all ms q)) = ms"
  using deq_n_content[of "enq_all ms q" "length ms"] enq_all_content[of q ms] by simp

end

lemma bufq_fifo_laws: "fifo_buffer q_list bufq_ok bufq_queue bufq_dequeue"
proof
  fix q m ms
  assume "bufq_ok q" "q_list q = m # ms"
  then show "fst (bufq_dequeue q) = Some m \<and> q_list (snd (bufq_dequeue q)) = ms"
    by (simp add: bufq_dequeue_def)
next
  fix q assume "bufq_ok q"
  then show "bufq_ok (snd (bufq_dequeue q))"
    by (metis bufq_dequeue_ok prod.collapse)
qed (simp_all add: bufq_dequeue_def)

interpretation bq: fifo_buffer q_list bufq_ok bufq_queue bufq_dequeue
  by (rule bufq_fifo_laws)

section \<open>Purge and splice\<close>

lemma bufq_purge_all: "fst (bufq_purge q) = q_list q \<and> q_list (snd (bufq_purge q)) = []"
proof (induction q rule: bufq_purge.induct)
  case (1 q)
  show ?case
    by (subst (1 2) bufq_purge.simps)
      (use 1 in \<open>auto simp: bufq_dequeue_def case_prod_unfold Let_def split: list.split\<close>)
qed

lemma bufq_purge_ok: "bufq_ok q \<Longrightarrow> bufq_ok (snd (bufq_purge q))"
proof (induction q rule: bufq_purge.induct)
  case (1 q)
  obtain r q' where d: "bufq_dequeue q = (r, q')" by fastforce
  have "bufq_ok q'" by (rule bufq_dequeue_ok[OF 1(2) d])
  then show ?case
    by (subst bufq_purge.simps) (use 1 d in \<open>auto simp: case_prod_unfold Let_def split: option.split\<close>)
qed

lemma bufq_purge_empties: "bufq_ok q \<Longrightarrow> snd (bufq_purge q) = bufq_init"
  using bufq_purge_ok[of q] bufq_purge_all[of q]
  by (cases "snd (bufq_purge q)") (simp add: bufq_ok_def bufq_init_def)

lemma bufq_splice_tail_all:
  "q_list (fst (bufq_splice_tail q1 q2)) = q_list q1 @ q_list q2 \<and>
   q_list (snd (bufq_splice_tail q1 q2)) = []"
proof (induction q1 q2 rule: bufq_splice_tail.induct)
  case (1 q1 q2)
  show ?case
    by (subst (1 2) bufq_splice_tail.simps) (use 1 in \<open>auto simp: bufq_dequeue_def split: list.split\<close>)
qed

lemma bufq_splice_head_all:
  "q_list (fst (bufq_splice_head q1 q2)) = q_list q2 @ q_list q1 \<and>
   q_list (snd (bufq_splice_head q1 q2)) = []"
proof (induction q1 q2 rule: bufq_splice_head.induct)
  case (1 q1 q2)
  show ?case
    by (subst (1 2) bufq_splice_head.simps)
      (use 1 in \<open>auto simp: bufq_dequeue_tail_def\<close>)
qed

lemmas bufq_ops [bufq_defs] =
  bufq_queue_def bufq_queue_head_def bufq_dequeue_def bufq_dequeue_tail_def bufq_add_def bufq_sub_def
  bufq_head_def bufq_tail_def bufq_length_def bufq_size_def bufq_init_def

section \<open>Order and accounting\<close>

lemma bufq_splice_tail_ok:
  "bufq_ok q1 \<Longrightarrow> bufq_ok q2 \<Longrightarrow> bufq_ok (fst (bufq_splice_tail q1 q2)) \<and> bufq_ok (snd (bufq_splice_tail q1 q2))"
proof (induction q1 q2 rule: bufq_splice_tail.induct)
  case (1 q1 q2)
  obtain r q where d: "bufq_dequeue q2 = (r, q)" by fastforce
  show ?case
    by (subst (1 2) bufq_splice_tail.simps)
      (use 1 d bufq_dequeue_ok[OF 1(3) d] in \<open>auto split: option.split\<close>)
qed

lemma bufq_ok_eqI: "bufq_ok a \<Longrightarrow> bufq_ok b \<Longrightarrow> q_list a = q_list b \<Longrightarrow> a = b"
  by (cases a; cases b) (simp add: bufq_ok_def)

lemma fold_queue: "bufq_ok q \<Longrightarrow> bufq_ok (fold bufq_queue ms q) \<and> q_list (fold bufq_queue ms q) = q_list q @ ms"
  using bq.enq_all_content[of q ms] by (induction ms arbitrary: q) (simp_all add: bq.enq_all_content)

text \<open>A buffer is first in, first out with exact accounting: purging a buffer to which messages were queued
  takes out what it held before and then those messages, in order, and leaves an empty buffer with both
  counters zero; splicing one buffer onto the tail of another is the same as queueing its messages one by
  one.\<close>

theorem bufq_fifo:
  assumes "bufq_ok q" "bufq_ok q2"
  shows "bufq_purge (fold bufq_queue ms q) = (q_list q @ ms, bufq_init) \<and>
    bufq_splice_tail q q2 = (fold bufq_queue (q_list q2) q, bufq_init)"
proof -
  note f = fold_queue[OF assms(1)]
  have "bufq_purge (fold bufq_queue ms q) = (q_list q @ ms, bufq_init)"
    using f[of ms] bufq_purge_all[of "fold bufq_queue ms q"] bufq_purge_empties[of "fold bufq_queue ms q"]
    by (metis prod.collapse)
  moreover have "fst (bufq_splice_tail q q2) = fold bufq_queue (q_list q2) q"
    using f[of "q_list q2"] bufq_splice_tail_ok[OF assms] bufq_splice_tail_all[of q q2] by (intro bufq_ok_eqI) simp_all
  moreover have "snd (bufq_splice_tail q q2) = bufq_init"
    using bufq_splice_tail_ok[OF assms] bufq_splice_tail_all[of q q2] by (intro bufq_ok_eqI) simp_all
  ultimately show ?thesis by (metis prod.collapse)
qed

theorem bufq_fifo_witness:
  "bufq_purge (fold bufq_queue [\<lparr>mid = 1, octets = [7]\<rparr>, \<lparr>mid = 2, octets = []\<rparr>] bufq_init) =
     ([\<lparr>mid = 1, octets = [7]\<rparr>, \<lparr>mid = 2, octets = []\<rparr>], bufq_init)"
  using bufq_fifo[OF bufq_ok_init bufq_ok_init, of "[\<lparr>mid = 1, octets = [7]\<rparr>, \<lparr>mid = 2, octets = []\<rparr>]"] by simp

end
