(* ===== verification/Bufq_Heap.thy ===== *)
theory Bufq_Heap
  imports Bufq
begin

text \<open>
  The message buffers of \<open>src/src/include/sys/os7/bufq.h\<close> as the C code has them: message blocks in a heap, doubly
  linked through \<open>b_next\<close> and \<open>b_prev\<close>, with head and tail pointers and counters in the buffer structure.  The
  operations assign the pointers one by one in the order of the C code, and each is shown to implement the
  operation on lists of theory \<open>Bufq\<close>.
\<close>

section \<open>Heap and pointers\<close>

text \<open>The part of a message block the buffers use: its links and the octets of the message.\<close>

record mblk =
  b_nxt :: "nat option"
  b_prv :: "nat option"
  b_size :: nat

type_synonym heap = "nat \<Rightarrow> mblk"

record bufq_s =
  h_head :: "nat option"
  h_tail :: "nat option"
  h_msgs :: nat
  h_count :: nat

type_synonym hstate = "heap \<times> bufq_s"

definition set_next :: "nat \<Rightarrow> nat option \<Rightarrow> hstate \<Rightarrow> hstate" where
  "set_next x v = map_prod (\<lambda>h. h(x := (h x)\<lparr>b_nxt := v\<rparr>)) id"

definition set_prev :: "nat \<Rightarrow> nat option \<Rightarrow> hstate \<Rightarrow> hstate" where
  "set_prev x v = map_prod (\<lambda>h. h(x := (h x)\<lparr>b_prv := v\<rparr>)) id"

definition set_head :: "nat option \<Rightarrow> hstate \<Rightarrow> hstate" where
  "set_head v = map_prod id (h_head_update (\<lambda>_. v))"

definition set_tail :: "nat option \<Rightarrow> hstate \<Rightarrow> hstate" where
  "set_tail v = map_prod id (h_tail_update (\<lambda>_. v))"

text \<open>\<open>if ((p = e)) A; else B;\<close> on pointers.\<close>

definition if_ptr :: "nat option \<Rightarrow> (nat \<Rightarrow> hstate \<Rightarrow> hstate) \<Rightarrow> (hstate \<Rightarrow> hstate) \<Rightarrow> hstate \<Rightarrow> hstate" where
  "if_ptr p f g = (case p of Some x \<Rightarrow> f x | None \<Rightarrow> g)"

section \<open>Operations\<close>

definition heap_add :: "nat \<Rightarrow> hstate \<Rightarrow> hstate" where
  "heap_add mp s = (fst s, (snd s)\<lparr>h_msgs := h_msgs (snd s) + 1, h_count := h_count (snd s) + b_size (fst s mp)\<rparr>)"

definition heap_sub :: "nat \<Rightarrow> hstate \<Rightarrow> hstate" where
  "heap_sub mp s =
     (let q = snd s;
          q = (if b_size (fst s mp) \<le> h_count q then q\<lparr>h_count := h_count q - b_size (fst s mp)\<rparr>
               else q\<lparr>h_count := 0\<rparr>);
          q = q\<lparr>h_msgs := h_msgs q - 1\<rparr>
      in (fst s, if h_msgs q = 0 then q\<lparr>h_count := 0\<rparr> else q))"

definition heap_queue :: "nat \<Rightarrow> hstate \<Rightarrow> hstate" where
  "heap_queue mp s = steps [
     set_prev mp (h_tail (snd s)),
     if_ptr (h_tail (snd s)) (\<lambda>p. set_next p (Some mp)) (set_head (Some mp)),
     set_next mp None,
     set_tail (Some mp),
     heap_add mp] s"

definition heap_queue_head :: "nat \<Rightarrow> hstate \<Rightarrow> hstate" where
  "heap_queue_head mp s = steps [
     set_next mp (h_head (snd s)),
     if_ptr (h_head (snd s)) (\<lambda>n. set_prev n (Some mp)) (set_tail (Some mp)),
     set_prev mp None,
     set_head (Some mp),
     heap_add mp] s"

definition heap_insert :: "nat \<Rightarrow> nat \<Rightarrow> hstate \<Rightarrow> hstate" where
  "heap_insert mp np s = steps [
     set_prev np (b_prv (fst s mp)),
     if_ptr (b_prv (fst s mp)) (\<lambda>p. set_next p (Some np)) (set_head (Some np)),
     set_prev mp (Some np),
     set_next np (Some mp),
     heap_add np] s"

definition heap_append :: "nat \<Rightarrow> nat \<Rightarrow> hstate \<Rightarrow> hstate" where
  "heap_append mp np s = steps [
     set_next np (b_nxt (fst s mp)),
     if_ptr (b_nxt (fst s mp)) (\<lambda>n. set_prev n (Some np)) (set_tail (Some np)),
     set_next mp (Some np),
     set_prev np (Some mp),
     heap_add np] s"

definition heap_dequeue :: "hstate \<Rightarrow> nat option \<times> hstate" where
  "heap_dequeue s = (case h_head (snd s) of
      None \<Rightarrow> (None, s)
    | Some mp \<Rightarrow> (Some mp, steps [
        set_head (b_nxt (fst s mp)),
        if_ptr (b_nxt (fst s mp)) (\<lambda>n. set_prev n None) (set_tail None),
        set_next mp None,
        set_prev mp None,
        heap_sub mp] s))"

definition heap_dequeue_tail :: "hstate \<Rightarrow> nat option \<times> hstate" where
  "heap_dequeue_tail s = (case h_tail (snd s) of
      None \<Rightarrow> (None, s)
    | Some mp \<Rightarrow> (Some mp, steps [
        set_tail (b_prv (fst s mp)),
        if_ptr (b_prv (fst s mp)) (\<lambda>p. set_next p None) (set_head None),
        set_next mp None,
        set_prev mp None,
        heap_sub mp] s))"

text \<open>\<open>__bufq_unlink\<close>: \<open>None\<close> is the software error of a block that is not where its links say.\<close>

definition heap_unlink :: "nat \<Rightarrow> hstate \<Rightarrow> hstate option" where
  "heap_unlink mp s =
     (let n = b_nxt (fst s mp); p = b_prv (fst s mp) in
      if n = None \<and> h_tail (snd s) \<noteq> Some mp then None
      else
        (let s1 = if_ptr n (\<lambda>x. set_prev x p) (set_tail p) s in
         if p = None \<and> h_head (snd s1) \<noteq> Some mp then None
         else Some (steps [
           if_ptr p (\<lambda>x. set_next x n) (set_head n),
           set_next mp None,
           set_prev mp None,
           heap_sub mp] s1)))"

section \<open>Doubly linked segments\<close>

definition dseg :: "heap \<Rightarrow> nat option \<Rightarrow> nat list \<Rightarrow> nat option \<Rightarrow> bool" where
  "dseg h = links (\<lambda>x. b_nxt (h x)) (\<lambda>x. b_prv (h x))"

lemma dseg_simps [simp]:
  "dseg h p [] n"
  "dseg h p (x # xs) n \<longleftrightarrow> b_prv (h x) = p \<and> b_nxt (h x) = first xs n \<and> dseg h (Some x) xs n"
  by (simp_all add: dseg_def)

lemma dseg_append [simp]:
  "dseg h p (xs @ ys) n \<longleftrightarrow> dseg h p xs (first ys n) \<and> dseg h (final p xs) ys n"
  by (simp add: dseg_def)

lemma dseg_upd [simp]: "x \<notin> set xs \<Longrightarrow> dseg (h(x := v)) p xs n = dseg h p xs n"
  by (auto simp: dseg_def intro!: links_cong)

text \<open>A buffer in the heap represents a buffer of theory \<open>Bufq\<close>.\<close>

definition represents :: "hstate \<Rightarrow> bufq \<Rightarrow> bool" where
  "represents s b \<longleftrightarrow>
     (let ids = map mid (q_list b) in
      distinct ids \<and> h_head (snd s) = first ids None \<and> h_tail (snd s) = final None ids \<and>
      dseg (fst s) None ids None \<and> (\<forall>m \<in> set (q_list b). b_size (fst s (mid m)) = msgdsize m) \<and>
      h_msgs (snd s) = q_msgs b \<and> h_count (snd s) = q_count b)"

lemmas heap_defs = represents_def set_next_def set_prev_def set_head_def set_tail_def if_ptr_def heap_add_def
  heap_sub_def bufq_add_def bufq_sub_def

lemma queue_refines:
  assumes "represents s b" "mid m \<notin> mid ` set (q_list b)" "b_size (fst s (mid m)) = msgdsize m"
  shows "represents (heap_queue (mid m) s) (bufq_queue m b)"
proof (cases "q_list b" rule: rev_cases)
  case Nil
  then show ?thesis using assms by (cases s) (simp add: heap_queue_def bufq_queue_def heap_defs)
next
  case (snoc ms l)
  then show ?thesis using assms
    by (cases s) (auto simp: heap_queue_def bufq_queue_def heap_defs)
qed

lemma queue_head_refines:
  assumes "represents s b" "mid m \<notin> mid ` set (q_list b)" "b_size (fst s (mid m)) = msgdsize m"
  shows "represents (heap_queue_head (mid m) s) (bufq_queue_head m b)"
  using assms
  by (cases s; cases "q_list b") (auto simp: heap_queue_head_def bufq_queue_head_def heap_defs)

lemma dequeue_refines:
  assumes "represents s b"
  shows "fst (heap_dequeue s) = map_option mid (fst (bufq_dequeue b)) \<and>
    represents (snd (heap_dequeue s)) (snd (bufq_dequeue b))"
proof (cases "q_list b")
  case Nil
  then show ?thesis using assms by (cases s) (simp add: heap_dequeue_def bufq_dequeue_def heap_defs)
next
  case (Cons m ms)
  then show ?thesis using assms
    by (cases s; cases ms) (auto simp: heap_dequeue_def bufq_dequeue_def heap_defs Let_def)
qed

lemma dequeue_tail_refines:
  assumes "represents s b"
  shows "fst (heap_dequeue_tail s) = map_option mid (fst (bufq_dequeue_tail b)) \<and>
    represents (snd (heap_dequeue_tail s)) (snd (bufq_dequeue_tail b))"
proof (cases "q_list b" rule: rev_cases)
  case Nil
  then show ?thesis using assms by (cases s) (simp add: heap_dequeue_tail_def bufq_dequeue_tail_def heap_defs)
next
  case (snoc ms m)
  then show ?thesis using assms
    by (cases s; cases ms rule: rev_cases)
      (auto simp: heap_dequeue_tail_def bufq_dequeue_tail_def heap_defs Let_def butlast_append)
qed

text \<open>Operations in the middle: the list is \<open>xs @ m # ys\<close> and the block designated is \<open>m\<close>.\<close>

lemma unlink_refines:
  assumes "represents s b" "q_list b = xs @ m # ys"
  shows "\<exists>s'. heap_unlink (mid m) s = Some s' \<and> represents s' (bufq_sub m (b\<lparr>q_list := xs @ ys\<rparr>))"
  using assms
  by (cases s; cases xs rule: rev_cases; cases ys)
    (auto simp: heap_unlink_def heap_defs Let_def image_iff Ball_def)

lemma insert_refines:
  assumes "represents s b" "q_list b = xs @ m # ys"
    "mid np \<notin> mid ` set (q_list b)" "b_size (fst s (mid np)) = msgdsize np"
  shows "represents (heap_insert (mid m) (mid np) s) (bufq_add np (b\<lparr>q_list := xs @ np # m # ys\<rparr>))"
  using assms by (cases s; cases xs rule: rev_cases) (auto simp: heap_insert_def heap_defs image_iff Ball_def)

lemma append_refines:
  assumes "represents s b" "q_list b = xs @ m # ys"
    "mid np \<notin> mid ` set (q_list b)" "b_size (fst s (mid np)) = msgdsize np"
  shows "represents (heap_append (mid m) (mid np) s) (bufq_add np (b\<lparr>q_list := xs @ m # np # ys\<rparr>))"
  using assms by (cases s; cases ys) (auto simp: heap_append_def heap_defs image_iff Ball_def)

section \<open>Sequences of operations\<close>

datatype bufq_op = Op_queue msg | Op_queue_head msg | Op_dequeue | Op_dequeue_tail

fun list_do :: "bufq_op \<Rightarrow> bufq \<Rightarrow> msg option \<times> bufq" where
  "list_do (Op_queue m) b = (None, bufq_queue m b)"
| "list_do (Op_queue_head m) b = (None, bufq_queue_head m b)"
| "list_do Op_dequeue b = bufq_dequeue b"
| "list_do Op_dequeue_tail b = bufq_dequeue_tail b"

fun heap_do :: "bufq_op \<Rightarrow> hstate \<Rightarrow> nat option \<times> hstate" where
  "heap_do (Op_queue m) s = (None, heap_queue (mid m) s)"
| "heap_do (Op_queue_head m) s = (None, heap_queue_head (mid m) s)"
| "heap_do Op_dequeue s = heap_dequeue s"
| "heap_do Op_dequeue_tail s = heap_dequeue_tail s"

fun list_dos :: "bufq_op list \<Rightarrow> bufq \<Rightarrow> msg option list \<times> bufq" where
  "list_dos [] b = ([], b)"
| "list_dos (p # ps) b = (case list_do p b of (r, b') \<Rightarrow> (case list_dos ps b' of (rs, b'') \<Rightarrow> (r # rs, b'')))"

fun heap_dos :: "bufq_op list \<Rightarrow> hstate \<Rightarrow> nat option list \<times> hstate" where
  "heap_dos [] s = ([], s)"
| "heap_dos (p # ps) s = (case heap_do p s of (r, s') \<Rightarrow> (case heap_dos ps s' of (rs, s'') \<Rightarrow> (r # rs, s'')))"

text \<open>Callers queue a block only while it is on no list; its size is that of the message it holds.\<close>

fun op_msg :: "bufq_op \<Rightarrow> msg option" where
  "op_msg (Op_queue m) = Some m"
| "op_msg (Op_queue_head m) = Some m"
| "op_msg _ = None"

fun fresh :: "bufq_op list \<Rightarrow> bufq \<Rightarrow> bool" where
  "fresh [] b \<longleftrightarrow> True"
| "fresh (p # ps) b \<longleftrightarrow> (case op_msg p of None \<Rightarrow> True | Some m \<Rightarrow> mid m \<notin> mid ` set (q_list b)) \<and>
     fresh ps (snd (list_do p b))"

definition sizes :: "bufq_op list \<Rightarrow> heap \<Rightarrow> bool" where
  "sizes ps h \<longleftrightarrow> (\<forall>p \<in> set ps. case op_msg p of None \<Rightarrow> True | Some m \<Rightarrow> b_size (h (mid m)) = msgdsize m)"

lemma heap_do_size [simp]: "b_size (fst (snd (heap_do p s)) x) = b_size (fst s x)"
  by (cases s; cases p) (simp_all add: heap_queue_def heap_queue_head_def heap_dequeue_def heap_dequeue_tail_def
      heap_defs Let_def split: option.split)

lemma do_refines:
  assumes "represents s b" "fresh [p] b" "sizes [p] (fst s)"
  shows "fst (heap_do p s) = map_option mid (fst (list_do p b)) \<and> represents (snd (heap_do p s)) (snd (list_do p b))"
  using assms
  by (cases p) (simp_all add: sizes_def queue_refines queue_head_refines dequeue_refines dequeue_tail_refines)

text \<open>C10. The pointer code implements the lists: whatever sequence of queue, queue at head, dequeue and dequeue from
  tail operations is run on a buffer, each returns the block of the message that the operation on the list
  returns, and afterwards the links, the head and tail pointers and both counters represent the resulting list.\<close>

theorem heap_refines_lists:
  assumes "represents s b" "fresh ps b" "sizes ps (fst s)"
  shows "fst (heap_dos ps s) = map (map_option mid) (fst (list_dos ps b)) \<and>
    represents (snd (heap_dos ps s)) (snd (list_dos ps b))"
  using assms
proof (induction ps arbitrary: s b)
  case (Cons p ps)
  have d: "fst (heap_do p s) = map_option mid (fst (list_do p b))" "represents (snd (heap_do p s)) (snd (list_do p b))"
    using do_refines[of s b p] Cons.prems by (simp_all add: sizes_def)
  have "sizes ps (fst (snd (heap_do p s)))" using Cons.prems(3) by (auto simp: sizes_def split: option.split)
  then show ?case using Cons.IH[OF d(2)] Cons.prems(2) d(1) by (simp add: case_prod_unfold)
qed simp

theorem heap_refines_lists_witness:
  "fst (heap_dos [Op_queue \<lparr>mid = 1, octets = [7]\<rparr>, Op_queue_head \<lparr>mid = 2, octets = []\<rparr>, Op_dequeue, Op_dequeue_tail]
     (\<lambda>x. \<lparr>b_nxt = None, b_prv = None, b_size = (if x = 1 then 1 else 0)\<rparr>,
      \<lparr>h_head = None, h_tail = None, h_msgs = 0, h_count = 0\<rparr>)) = [None, None, Some 2, Some 1]"
proof -
  let ?s = "(\<lambda>x. \<lparr>b_nxt = None, b_prv = None, b_size = (if x = 1 then 1 else 0)\<rparr>,
      \<lparr>h_head = None, h_tail = None, h_msgs = 0, h_count = 0\<rparr>) :: hstate"
  let ?ps = "[Op_queue \<lparr>mid = 1, octets = [7]\<rparr>, Op_queue_head \<lparr>mid = 2, octets = []\<rparr>, Op_dequeue, Op_dequeue_tail]"
  have h: "represents ?s bufq_init" "fresh ?ps bufq_init" "sizes ?ps (fst ?s)"
    by (simp_all add: represents_def bufq_init_def sizes_def bufq_queue_def bufq_queue_head_def bufq_add_def)
  have "fst (list_dos ?ps bufq_init) = [None, None, Some \<lparr>mid = 2, octets = []\<rparr>, Some \<lparr>mid = 1, octets = [7]\<rparr>]"
    by (simp add: bufq_defs Let_def)
  then show ?thesis using heap_refines_lists[OF h] by simp
qed

text \<open>Taking a block out of the middle of a buffer, or putting one before or after a block of it, keeps the
  links, pointers and counters of the buffer consistent: the result represents the list without the block, or
  with the new block in its place.\<close>

theorem heap_middle_operations:
  assumes "represents s b" "q_list b = xs @ m # ys"
  shows "(\<exists>s'. heap_unlink (mid m) s = Some s' \<and> represents s' (bufq_sub m (b\<lparr>q_list := xs @ ys\<rparr>))) \<and>
    (mid np \<notin> mid ` set (q_list b) \<and> b_size (fst s (mid np)) = msgdsize np \<longrightarrow>
      represents (heap_insert (mid m) (mid np) s) (bufq_add np (b\<lparr>q_list := xs @ np # m # ys\<rparr>)) \<and>
      represents (heap_append (mid m) (mid np) s) (bufq_add np (b\<lparr>q_list := xs @ m # np # ys\<rparr>)))"
  using unlink_refines[OF assms] insert_refines[OF assms] append_refines[OF assms] by blast

theorem heap_middle_operations_witness:
  "\<exists>s'. heap_unlink 1 (snd (heap_do (Op_queue \<lparr>mid = 1, octets = [7]\<rparr>)
     (\<lambda>x. \<lparr>b_nxt = None, b_prv = None, b_size = 1\<rparr>, \<lparr>h_head = None, h_tail = None, h_msgs = 0, h_count = 0\<rparr>))) = Some s' \<and>
     h_msgs (snd s') = 0"
proof -
  let ?s = "(\<lambda>x. \<lparr>b_nxt = None, b_prv = None, b_size = 1\<rparr>,
      \<lparr>h_head = None, h_tail = None, h_msgs = 0, h_count = 0\<rparr>) :: hstate"
  let ?m = "\<lparr>mid = 1, octets = [7]\<rparr>"
  have "represents ?s bufq_init" by (simp add: represents_def bufq_init_def)
  then have r: "represents (snd (heap_do (Op_queue ?m) ?s)) (bufq_queue ?m bufq_init)"
    using queue_refines[of ?s bufq_init ?m] by simp
  have q: "q_list (bufq_queue ?m bufq_init) = [] @ ?m # []" by simp
  obtain s' where "heap_unlink (mid ?m) (snd (heap_do (Op_queue ?m) ?s)) = Some s'"
    "represents s' (bufq_sub ?m ((bufq_queue ?m bufq_init)\<lparr>q_list := [] @ []\<rparr>))"
    using heap_middle_operations[OF r q, of ?m] by blast
  then show ?thesis
    by (intro exI[of _ s']) (simp add: represents_def bufq_sub_def bufq_queue_def bufq_add_def bufq_init_def Let_def)
qed

end
