(* ===== verification/Seqno.thy ===== *)
theory Seqno
  imports Prelude
begin

text \<open>
  Sequence number arithmetic of the signalling link.  Sequence numbers are 16-bit words kept below a mask
  (\<open>sn_mask\<close>): 7-bit numbers, or 15-bit numbers with extended sequence numbers.  The locale
  \<open>seq_space\<close> has the facts the window proofs use; it is interpreted for the two masks that
  \<open>sl_txc_start\<close> installs.
\<close>

text \<open>The macro \<open>SN_OUTSIDE\<close> of \<open>src/src/drivers/sl_x400p.c\<close>.\<close>

definition SN_OUTSIDE :: "'a::linorder \<Rightarrow> 'a \<Rightarrow> 'a \<Rightarrow> bool" where
  "SN_OUTSIDE lower middle upper =
     (if lower \<le> upper then middle < lower \<or> middle > upper
      else middle < lower \<and> middle > upper)"

definition sn_dist :: "u16 \<Rightarrow> u16 \<Rightarrow> u16 \<Rightarrow> nat" where
  "sn_dist msk a b = unat ((b - a) AND msk)"

definition sn_valid :: "u16 \<Rightarrow> u16 \<Rightarrow> bool" where
  "sn_valid msk a \<longleftrightarrow> a AND msk = a"

definition sn_mask_ok :: "u16 \<Rightarrow> bool" where
  "sn_mask_ok msk \<longleftrightarrow> msk = 0x7f \<or> msk = 0x7fff"

fun sn_adv :: "u16 \<Rightarrow> nat \<Rightarrow> u16 \<Rightarrow> u16" where
  "sn_adv msk 0 a = a"
| "sn_adv msk (Suc n) a = sn_adv msk n ((a + 1) AND msk)"

locale seq_space =
  fixes msk :: u16 and k :: nat
  assumes msk_mask: "msk = mask k" and k_pos: "1 < k" and k_le: "k \<le> 15"
begin

lemma modulus_dvd: "(2::int) ^ k dvd 65536"
  using le_imp_power_dvd[of k 16 "2::int"] k_le by simp

lemma modulus_gt: "(2::int) < 2 ^ k"
  using power_strict_increasing[of 1 k "2::int"] k_pos by simp

lemma uint_and: "uint (x AND msk) = uint x mod 2 ^ k"
  by (simp only: msk_mask take_bit_eq_mask[symmetric] unsigned_take_bit_eq) (simp add: take_bit_eq_mod)

lemma valid_iff: "sn_valid msk a \<longleftrightarrow> uint a < 2 ^ k"
proof
  assume "sn_valid msk a"
  then have "uint a mod 2 ^ k = uint a" using uint_and[of a] by (simp add: sn_valid_def)
  then show "uint a < 2 ^ k" using pos_mod_bound[of "2 ^ k" "uint a"] by simp
next
  assume "uint a < 2 ^ k"
  then have "uint (a AND msk) = uint a" by (simp add: uint_and)
  then show "sn_valid msk a" by (simp only: sn_valid_def word_uint_eq_iff)
qed

lemma valid_and [simp]: "sn_valid msk (x AND msk)"
  using modulus_gt by (simp add: valid_iff uint_and)

lemma valid_0 [simp]: "sn_valid msk 0"
  by (simp add: sn_valid_def)

lemma valid_msk [simp]: "sn_valid msk msk"
  by (simp add: sn_valid_def)

lemma dist_int: "int (sn_dist msk a b) = (uint b - uint a) mod 2 ^ k"
  using modulus_dvd by (simp add: sn_dist_def uint_and uint_word_ariths mod_mod_cancel)

lemma dist_if:
  assumes "sn_valid msk a" "sn_valid msk b"
  shows "int (sn_dist msk a b) =
    (if uint a \<le> uint b then uint b - uint a else uint b - uint a + 2 ^ k)"
proof (cases "uint a \<le> uint b")
  case True
  then have "(uint b - uint a) mod 2 ^ k = uint b - uint a"
    using assms uint_ge_0[of a] by (simp only: valid_iff) (rule mod_pos_pos_trivial; linarith)
  then show ?thesis using True by (simp add: dist_int)
next
  case False
  have "(uint b - uint a) mod 2 ^ k = (uint b - uint a + 2 ^ k) mod 2 ^ k" by simp
  also have "\<dots> = uint b - uint a + 2 ^ k"
    using False assms uint_ge_0[of b] by (simp only: valid_iff) (rule mod_pos_pos_trivial; linarith)
  finally show ?thesis using False by (simp add: dist_int)
qed

lemma uint_succ:
  assumes "sn_valid msk a"
  shows "uint ((a + 1) AND msk) = (if uint a = 2 ^ k - 1 then 0 else uint a + 1)"
proof -
  have "uint ((a + 1) AND msk) = (uint a + 1) mod 2 ^ k"
    using modulus_dvd by (simp add: uint_and uint_word_ariths mod_mod_cancel)
  then show ?thesis using assms uint_ge_0[of a] by (simp add: valid_iff)
qed

lemma uint_pred:
  assumes "sn_valid msk a"
  shows "uint ((a - 1) AND msk) = (if uint a = 0 then 2 ^ k - 1 else uint a - 1)"
proof -
  have "uint ((a - 1) AND msk) = (uint a - 1) mod 2 ^ k"
    using modulus_dvd by (simp add: uint_and uint_word_ariths mod_mod_cancel)
  moreover have "uint a \<noteq> 0 \<Longrightarrow> (uint a - 1) mod 2 ^ k = uint a - 1"
    using assms uint_ge_0[of a] by (simp only: valid_iff) (rule mod_pos_pos_trivial; linarith)
  ultimately show ?thesis by (simp add: zmod_minus1)
qed

lemma dist_bound: "int (sn_dist msk a b) < 2 ^ k"
  using modulus_gt by (simp add: dist_int)

lemma dist_self [simp]: "sn_dist msk a a = 0"
  by (simp add: sn_dist_def)

text \<open>The arithmetic below is linear in the values of the words; \<open>num_of\<close> names such a value.\<close>

lemma num_of: obtains A :: int where "uint (a :: u16) = A" "0 \<le> A"
  by simp

lemma dist_zero:
  assumes "sn_valid msk a" "sn_valid msk b"
  shows "sn_dist msk a b = 0 \<longleftrightarrow> a = b"
proof -
  obtain A B where ab: "uint a = A" "uint b = B" "0 \<le> A" "0 \<le> B" using num_of by metis
  then show ?thesis
    using dist_if[OF assms] assms by (auto simp: valid_iff word_uint_eq_iff split: if_splits)
qed

lemma pred_succ [simp]:
  assumes "sn_valid msk a"
  shows "(((a - 1) AND msk) + 1) AND msk = a"
proof -
  obtain A where "uint a = A" "0 \<le> A" using num_of by metis
  then show ?thesis
    using uint_succ[of "(a - 1) AND msk"] uint_pred[OF assms] assms modulus_gt
    by (auto simp: valid_iff word_uint_eq_iff[of _ a] split: if_splits)
qed

lemma succ_pred [simp]:
  assumes "sn_valid msk a"
  shows "(((a + 1) AND msk) - 1) AND msk = a"
proof -
  obtain A where "uint a = A" "0 \<le> A" using num_of by metis
  then show ?thesis
    using uint_pred[of "(a + 1) AND msk"] uint_succ[OF assms] assms modulus_gt
    by (auto simp: valid_iff word_uint_eq_iff[of _ a] split: if_splits)
qed

lemma succ_inj: "sn_valid msk a \<Longrightarrow> sn_valid msk b \<Longrightarrow> (a + 1) AND msk = (b + 1) AND msk \<longleftrightarrow> a = b"
  by (metis succ_pred)

lemma dist_succ_left:
  assumes v: "sn_valid msk a" "sn_valid msk b" and "a \<noteq> b"
  shows "sn_dist msk a b = Suc (sn_dist msk ((a + 1) AND msk) b)"
proof -
  obtain A B where "uint a = A" "uint b = B" "0 \<le> A" "0 \<le> B" using num_of by metis
  then show ?thesis
    using dist_if[OF v] dist_if[OF valid_and v(2), of "a + 1"] uint_succ[OF v(1)] v \<open>a \<noteq> b\<close>
    by (auto simp: valid_iff word_uint_eq_iff[of a b] split: if_splits)
qed

lemma dist_succ_right:
  assumes v: "sn_valid msk a" "sn_valid msk b" and n: "(b + 1) AND msk \<noteq> a"
  shows "sn_dist msk a ((b + 1) AND msk) = Suc (sn_dist msk a b)"
proof -
  obtain A B where "uint a = A" "uint b = B" "0 \<le> A" "0 \<le> B" using num_of by metis
  then show ?thesis
    using dist_if[OF v] dist_if[OF v(1) valid_and, of "b + 1"] uint_succ[OF v(2)] v n
    by (auto simp: valid_iff word_uint_eq_iff[of "(b + 1) AND msk" a] split: if_splits)
qed

lemma dist_succ_both:
  assumes v: "sn_valid msk a" "sn_valid msk b"
  shows "sn_dist msk ((a + 1) AND msk) ((b + 1) AND msk) = sn_dist msk a b"
proof -
  obtain A B where "uint a = A" "uint b = B" "0 \<le> A" "0 \<le> B" using num_of by metis
  then show ?thesis
    using dist_if[OF v] dist_if[OF valid_and valid_and, of "a + 1" "b + 1"] uint_succ[OF v(1)]
      uint_succ[OF v(2)] v modulus_gt
    by (auto simp: valid_iff split: if_splits)
qed

text \<open>The test of the driver is the modular one: outside means strictly further along than the end.\<close>

lemma outside_iff:
  assumes v: "sn_valid msk l" "sn_valid msk m" "sn_valid msk u"
  shows "SN_OUTSIDE l m u \<longleftrightarrow> sn_dist msk l u < sn_dist msk l m"
proof -
  obtain A B C where "uint l = A" "uint m = B" "uint u = C" "0 \<le> A" "0 \<le> B" "0 \<le> C"
    using num_of by metis
  then show ?thesis
    using dist_if[OF v(1,3)] dist_if[OF v(1,2)] v
    by (auto simp: SN_OUTSIDE_def valid_iff word_le_def word_less_def split: if_splits)
qed

text \<open>Walking forward from \<open>a\<close> first meets \<open>b\<close> after \<open>sn_dist\<close> steps.\<close>

lemma adv_dist:
  "sn_valid msk a \<Longrightarrow> sn_valid msk b \<Longrightarrow> sn_adv msk (sn_dist msk a b) a = b"
proof (induction "sn_dist msk a b" arbitrary: a)
  case 0
  then show ?case using dist_zero by simp
next
  case (Suc n)
  then have "a \<noteq> b" by auto
  then have "sn_dist msk a b = Suc (sn_dist msk ((a + 1) AND msk) b)"
    using Suc.prems dist_succ_left by blast
  then show ?case using Suc by simp
qed

lemma dist_split:
  assumes v: "sn_valid msk a" "sn_valid msk b" "sn_valid msk c"
    and le: "sn_dist msk a b \<le> sn_dist msk a c"
  shows "sn_dist msk a c = sn_dist msk a b + sn_dist msk b c"
proof -
  obtain A B C where "uint a = A" "uint b = B" "uint c = C" "0 \<le> A" "0 \<le> B" "0 \<le> C"
    using num_of by metis
  then show ?thesis
    using dist_if[OF v(1,2)] dist_if[OF v(1,3)] dist_if[OF v(2,3)] v le
    by (auto simp: valid_iff split: if_splits)
qed

end

interpretation sn7: seq_space "0x7f" 7
  by unfold_locales (simp_all add: mask_eq_exp_minus_1)

interpretation sn15: seq_space "0x7fff" 15
  by unfold_locales (simp_all add: mask_eq_exp_minus_1)

text \<open>The facts for whichever of the two masks is installed.\<close>

lemma sn_mask_cases:
  assumes "sn_mask_ok m"
  obtains k where "seq_space m k"
  using assms sn7.seq_space_axioms sn15.seq_space_axioms by (auto simp: sn_mask_ok_def)

context seq_space
begin

lemma dist_le: "sn_dist msk a b \<le> unat msk"
  using word_and_le1[of "b - a" msk] by (simp add: sn_dist_def word_le_nat_alt and.commute)

lemma uint_msk: "uint msk = 2 ^ k - 1"
proof -
  have "uint msk = mask k" using k_le by (simp add: msk_mask uint_mask_eq min_def)
  then show ?thesis by (simp add: mask_eq_exp_minus_1)
qed

text \<open>The test for the last free number: the window has all but one of the numbers.\<close>

lemma dist_full:
  assumes v: "sn_valid msk a" "sn_valid msk b"
  shows "b = (a - 2) AND msk \<longleftrightarrow> sn_dist msk a ((b + 1) AND msk) = unat msk"
proof -
  have two: "(a - 2) AND msk = (((a - 1) AND msk) - 1) AND msk"
    using modulus_dvd
    by (simp add: word_uint_eq_iff uint_and uint_word_ariths mod_mod_cancel mod_diff_left_eq)
  have d: "sn_dist msk a ((b + 1) AND msk) = unat msk \<longleftrightarrow>
      int (sn_dist msk a ((b + 1) AND msk)) = 2 ^ k - 1"
    using uint_msk by (metis int_eq_iff of_nat_eq_iff uint_nat)
  obtain A B where "uint a = A" "uint b = B" "0 \<le> A" "0 \<le> B" using num_of by metis
  then show ?thesis unfolding two d dist_if[OF v(1) valid_and]
    using uint_succ[OF v(2)] uint_pred[OF v(1)] uint_pred[OF valid_and, of "a - 1"] v modulus_gt
    by (simp add: valid_iff word_uint_eq_iff[of b]) linarith
qed

lemma dist_wrap:
  assumes v: "sn_valid msk a" "sn_valid msk b" and e: "(b + 1) AND msk = a"
  shows "sn_dist msk a b = unat msk"
proof -
  have "int (sn_dist msk a b) = uint msk"
    using dist_if[OF v] uint_succ[OF v(2)] e uint_msk v modulus_gt
    by (auto simp: valid_iff split: if_splits)
  then show ?thesis by (metis nat_int unat_eq_nat_uint)
qed

text \<open>A backward sequence number that is not outside the window acknowledges at most the whole window.\<close>

lemma acceptable:
  assumes v: "sn_valid msk f" "sn_valid msk r" "sn_valid msk l"
  shows "\<not> SN_OUTSIDE ((f - 1) AND msk) r l \<longleftrightarrow>
    sn_dist msk f ((r + 1) AND msk) \<le> sn_dist msk f ((l + 1) AND msk)"
proof -
  have e: "sn_dist msk f ((x + 1) AND msk) = sn_dist msk ((f - 1) AND msk) x" if "sn_valid msk x" for x
    using dist_succ_both[OF valid_and that, of "f - 1"] v(1) by simp
  show ?thesis using outside_iff[OF valid_and v(2,3), of "f - 1"] e v by auto
qed

end

lemma sn_valid_mask: "sn_mask_ok m \<Longrightarrow> sn_valid m (x AND m)"
  by (metis sn_mask_cases seq_space.valid_and)

lemma sn_dist_zero: "sn_mask_ok m \<Longrightarrow> sn_valid m a \<Longrightarrow> sn_valid m b \<Longrightarrow> sn_dist m a b = 0 \<longleftrightarrow> a = b"
  by (metis sn_mask_cases seq_space.dist_zero)

lemma sn_dist_succ_left:
  "sn_mask_ok m \<Longrightarrow> sn_valid m a \<Longrightarrow> sn_valid m b \<Longrightarrow> a \<noteq> b \<Longrightarrow>
    sn_dist m a b = Suc (sn_dist m ((a + 1) AND m) b)"
  by (metis sn_mask_cases seq_space.dist_succ_left)

lemma sn_dist_succ_right:
  "sn_mask_ok m \<Longrightarrow> sn_valid m a \<Longrightarrow> sn_valid m b \<Longrightarrow> (b + 1) AND m \<noteq> a \<Longrightarrow>
    sn_dist m a ((b + 1) AND m) = Suc (sn_dist m a b)"
  by (metis sn_mask_cases seq_space.dist_succ_right)

lemma sn_dist_le: "sn_mask_ok m \<Longrightarrow> sn_dist m a b \<le> unat m"
  by (metis sn_mask_cases seq_space.dist_le)

lemma sn_dist_full:
  "sn_mask_ok m \<Longrightarrow> sn_valid m a \<Longrightarrow> sn_valid m b \<Longrightarrow>
    b = (a - 2) AND m \<longleftrightarrow> sn_dist m a ((b + 1) AND m) = unat m"
  by (metis sn_mask_cases seq_space.dist_full)

lemma sn_dist_wrap:
  "sn_mask_ok m \<Longrightarrow> sn_valid m a \<Longrightarrow> sn_valid m b \<Longrightarrow> (b + 1) AND m = a \<Longrightarrow>
    sn_dist m a b = unat m"
  by (metis sn_mask_cases seq_space.dist_wrap)

lemma sn_succ_inj:
  "sn_mask_ok m \<Longrightarrow> sn_valid m a \<Longrightarrow> sn_valid m b \<Longrightarrow> (a + 1) AND m = (b + 1) AND m \<longleftrightarrow> a = b"
  by (metis sn_mask_cases seq_space.succ_inj)

lemma sn_pred_succ: "sn_mask_ok m \<Longrightarrow> sn_valid m a \<Longrightarrow> (((a - 1) AND m) + 1) AND m = a"
  by (metis sn_mask_cases seq_space.pred_succ)

lemma sn_dist_inj:
  "sn_mask_ok m \<Longrightarrow> sn_valid m a \<Longrightarrow> sn_valid m b \<Longrightarrow> sn_valid m c \<Longrightarrow>
    sn_dist m a b = sn_dist m a c \<Longrightarrow> b = c"
  by (metis sn_mask_cases seq_space.adv_dist)

lemma sn_dist_split:
  "sn_mask_ok m \<Longrightarrow> sn_valid m a \<Longrightarrow> sn_valid m b \<Longrightarrow> sn_valid m c \<Longrightarrow>
    sn_dist m a b \<le> sn_dist m a c \<Longrightarrow> sn_dist m a c = sn_dist m a b + sn_dist m b c"
  by (metis sn_mask_cases seq_space.dist_split)

lemma sn_acceptable:
  "sn_mask_ok m \<Longrightarrow> sn_valid m f \<Longrightarrow> sn_valid m r \<Longrightarrow> sn_valid m l \<Longrightarrow>
    \<not> SN_OUTSIDE ((f - 1) AND m) r l \<longleftrightarrow>
    sn_dist m f ((r + 1) AND m) \<le> sn_dist m f ((l + 1) AND m)"
  by (metis sn_mask_cases seq_space.acceptable)

lemma sn_adv_Suc: "sn_adv m (Suc n) a = (sn_adv m n a + 1) AND m"
  by (induction n arbitrary: a) simp_all

lemma sn_adv_valid: "sn_mask_ok m \<Longrightarrow> sn_valid m a \<Longrightarrow> sn_valid m (sn_adv m n a)"
  by (induction n arbitrary: a) (simp_all add: sn_valid_mask)

lemma sn_dist_adv:
  assumes m: "sn_mask_ok m" and v: "sn_valid m a"
  shows "n \<le> unat m \<Longrightarrow> sn_dist m a (sn_adv m n a) = n"
proof (induction n)
  case 0
  then show ?case by (simp add: sn_dist_def)
next
  case (Suc n)
  let ?x = "sn_adv m n a"
  have d: "sn_dist m a ?x = n" and lt: "n < unat m" using Suc by simp_all
  have vx: "sn_valid m ?x" using m v by (rule sn_adv_valid)
  have "(?x + 1) AND m \<noteq> a" using sn_dist_wrap[OF m v vx] d lt by auto
  then show ?case using sn_dist_succ_right[OF m v vx] d by (simp add: sn_adv_Suc del: sn_adv.simps)
qed

text \<open>C34. For numbers below the mask, the comparison chain of \<open>SN_OUTSIDE\<close>, wrapped intervals included, is the
  modular question whether walking forward from the lower bound meets the upper bound before the number.\<close>

theorem sn_outside_is_modular:
  assumes "sn_mask_ok m" "sn_valid m lower" "sn_valid m middle" "sn_valid m upper"
  shows "SN_OUTSIDE lower middle upper \<longleftrightarrow> sn_dist m lower upper < sn_dist m lower middle"
  using assms by (metis sn_mask_cases seq_space.outside_iff)

theorem sn_outside_is_modular_witness: "SN_OUTSIDE (0x7e :: u16) 5 3 \<and> \<not> SN_OUTSIDE (0x7e :: u16) 1 3"
  using sn_outside_is_modular[of "0x7f" "0x7e" 5 3] sn_outside_is_modular[of "0x7f" "0x7e" 1 3]
  by (simp add: sn_mask_ok_def sn_valid_def sn_dist_def)

end
