(* ===== verification/SL_State.thy ===== *)
theory SL_State
  imports Bufq Seqno
begin

text \<open>
  The state of a signalling link channel: the structure \<open>struct ch\<close> of
  \<open>src/src/drivers/sl_x400p.c\<close> with the parts of it that the level 2 state machines use
  (\<open>sl_statem_t\<close>, \<open>sl_config_t\<close> of \<open>sli_ioctl.h\<close>, \<open>sdt_statem_t\<close>, \<open>sdt_config_t\<close> of \<open>sdti_ioctl.h\<close>,
  the buffers and the timers).  Each state variable gets a datatype of its own: the C code numbers the
  states of all machines with one set of macros.  Variables that only hold 0 and 1 are booleans.
\<close>

section \<open>State variables\<close>

datatype lsc = LSC_POWER_OFF | LSC_OUT_OF_SERVICE | LSC_INITIAL_ALIGNMENT | LSC_ALIGNED_READY
  | LSC_ALIGNED_NOT_READY | LSC_IN_SERVICE | LSC_PROCESSOR_OUTAGE

datatype iac = IAC_IDLE | IAC_NOT_ALIGNED | IAC_ALIGNED | IAC_PROVING

datatype act = ST_IDLE | ST_IN_SERVICE

datatype cc = CC_NORMAL | CC_BUSY

datatype poc = POC_IDLE | POC_LOCAL | POC_REMOTE | POC_BOTH

datatype timer = T1 | T2 | T3 | T4 | T5 | T6 | T7 | T8

abbreviation (input) LSSU_SIO :: u8 where "LSSU_SIO \<equiv> 0"
abbreviation (input) LSSU_SIN :: u8 where "LSSU_SIN \<equiv> 1"
abbreviation (input) LSSU_SIE :: u8 where "LSSU_SIE \<equiv> 2"
abbreviation (input) LSSU_SIOS :: u8 where "LSSU_SIOS \<equiv> 3"
abbreviation (input) LSSU_SIPO :: u8 where "LSSU_SIPO \<equiv> 4"
abbreviation (input) LSSU_SIB :: u8 where "LSSU_SIB \<equiv> 5"

abbreviation (input) SL_FAIL_CONG_TIMEOUT :: u32 where "SL_FAIL_CONG_TIMEOUT \<equiv> 0x0002"
abbreviation (input) SL_FAIL_ACK_TIMEOUT :: u32 where "SL_FAIL_ACK_TIMEOUT \<equiv> 0x0004"
abbreviation (input) SL_FAIL_ABNORMAL_BSNR :: u32 where "SL_FAIL_ABNORMAL_BSNR \<equiv> 0x0008"
abbreviation (input) SL_FAIL_ABNORMAL_FIBR :: u32 where "SL_FAIL_ABNORMAL_FIBR \<equiv> 0x0010"
abbreviation (input) SL_FAIL_SUERM_EIM :: u32 where "SL_FAIL_SUERM_EIM \<equiv> 0x0020"
abbreviation (input) SL_FAIL_ALIGNMENT_NOT_POSSIBLE :: u32 where "SL_FAIL_ALIGNMENT_NOT_POSSIBLE \<equiv> 0x0040"
abbreviation (input) SL_FAIL_RECEIVED_SIO :: u32 where "SL_FAIL_RECEIVED_SIO \<equiv> 0x0080"
abbreviation (input) SL_FAIL_RECEIVED_SIN :: u32 where "SL_FAIL_RECEIVED_SIN \<equiv> 0x0100"
abbreviation (input) SL_FAIL_RECEIVED_SIE :: u32 where "SL_FAIL_RECEIVED_SIE \<equiv> 0x0200"
abbreviation (input) SL_FAIL_RECEIVED_SIOS :: u32 where "SL_FAIL_RECEIVED_SIOS \<equiv> 0x0400"
abbreviation (input) SL_FAIL_T1_TIMEOUT :: u32 where "SL_FAIL_T1_TIMEOUT \<equiv> 0x0800"
abbreviation (input) SL_EVT_CONGEST_ONSET_IND :: u32 where "SL_EVT_CONGEST_ONSET_IND \<equiv> 0x4000"
abbreviation (input) SL_EVT_CONGEST_DISCD_IND :: u32 where "SL_EVT_CONGEST_DISCD_IND \<equiv> 0x8000"

abbreviation (input) SS7_PVAR_ITUT_93 :: u32 where "SS7_PVAR_ITUT_93 \<equiv> 0x0101"
abbreviation (input) SS7_PVAR_ITUT_96 :: u32 where "SS7_PVAR_ITUT_96 \<equiv> 0x0102"
abbreviation (input) SS7_PVAR_ANSI_92 :: u32 where "SS7_PVAR_ANSI_92 \<equiv> 0x0301"
abbreviation (input) SS7_POPT_MPLEV :: u32 where "SS7_POPT_MPLEV \<equiv> 0x01"
abbreviation (input) SS7_POPT_PCR :: u32 where "SS7_POPT_PCR \<equiv> 0x02"
abbreviation (input) SS7_POPT_HSL :: u32 where "SS7_POPT_HSL \<equiv> 0x04"
abbreviation (input) SS7_POPT_XSN :: u32 where "SS7_POPT_XSN \<equiv> 0x08"

section \<open>Sequence numbers\<close>

text \<open>The fields of \<open>tx_sni_t\<close> and \<open>rx_sni_t\<close> that the code uses, named by structure and field:
  \<open>N_fsn\<close> is \<open>tx.N.fsn\<close>, \<open>rX_fsn\<close> is \<open>rx.X.fsn\<close>.\<close>

record tx_sni =
  N_bib :: u16
  N_bsn :: u16
  N_fib :: u16
  N_fsn :: u16
  F_fsn :: u16
  L_fsn :: u16
  C_fsn :: u16
  X_fsn :: u16
  R_bsn :: u16
  R_bib :: u16
  tx_sio :: u8

record rx_sni =
  rX_fsn :: u16
  rX_fib :: u16
  rF_fsn :: u16
  rR_bib :: u16
  rR_bsn :: u16
  rR_fib :: u16
  rR_fsn :: u16
  rT_fsn :: u16
  rT_bsn :: u16
  rx_sio :: u8
  rx_len :: u16

section \<open>State machine variables\<close>

record sl_statem =
  lsc_state :: lsc
  local_processor_outage :: bool
  remote_processor_outage :: bool
  processor_outage :: bool
  emergency :: bool
  l3_indication_received :: bool
  failure_reason :: u32
  iac_state :: iac
  further_proving :: bool
  t4v :: u32
  Cp :: u32
  ib_mask :: u16
  sn_mask :: u16
  txc_state :: act
  msu_inhibited :: bool
  lssu_available :: bool
  rtb_full :: bool
  clear_rtb :: bool
  sib_received :: bool
  retrans_cycle :: bool
  forced_retransmission :: bool
  Cm :: u32
  Ct :: u32
  cong_status :: u32
  disc_status :: u32
  Z_sn :: u32
  z_ptr :: "nat option"
  rc_state :: act
  rtr :: bool
  unb :: bool
  unf :: bool
  msu_fisu_accepted :: bool
  abnormal_bsnr :: bool
  abnormal_fibr :: bool
  congestion_discard :: bool
  congestion_accept :: bool
  l2_congestion_detect :: bool
  l3_congestion_detect :: bool
  Cr :: u32
  cc_state :: cc
  poc_state :: poc

record sl_config =
  cfg_t1 :: u32
  cfg_t2 :: u32
  cfg_t2l :: u32
  cfg_t2h :: u32
  cfg_t3 :: u32
  cfg_t4n :: u32
  cfg_t4e :: u32
  cfg_t5 :: u32
  cfg_t6 :: u32
  cfg_t7 :: u32
  rb_abate :: u32
  rb_accept :: u32
  rb_discard :: u32
  tb_abate_1 :: u32
  tb_onset_1 :: u32
  tb_discd_1 :: u32
  tb_abate_2 :: u32
  tb_onset_2 :: u32
  tb_discd_2 :: u32
  tb_abate_3 :: u32
  tb_onset_3 :: u32
  tb_discd_3 :: u32
  cfg_N1 :: u32
  cfg_N2 :: u32
  cfg_M :: u32

record sl_stats =
  sl_fail_align_or_proving :: u32
  sl_nacks_received :: u32
  sl_sibs_sent :: u32
  sl_recv_msus :: u32
  sl_cong_onset_ind :: "u32 list"
  sl_cong_discd_ind :: "u32 list"

text \<open>\<open>sdt_long\<close> counters are signed 32-bit integers: words read with \<open>sint\<close>.\<close>

record sdt_statem =
  aerm_state :: act
  aborted_proving :: bool
  Ca :: s32
  Ti :: u32
  suerm_state :: act
  Cs :: s32
  Ns :: u32
  eim_state :: act
  Ce :: s32
  su_received :: bool
  interval_error :: bool
  daedt_state :: act
  daedr_state :: act

record sdt_config =
  cfg_t8 :: u32
  cfg_Tin :: u32
  cfg_Tie :: u32
  cfg_T :: u32
  cfg_D :: u32
  cfg_Te :: u32
  cfg_De :: u32
  cfg_Ue :: u32

record sdt_stats =
  rx_sus_compressed :: u32
  rx_buffer_overflows :: u32
  tx_sus_repeated :: u32
  tx_buffer_overflows :: u32

section \<open>Primitives and the stream above\<close>

text \<open>The indications of \<open>sli.h\<close>, with the fields the code fills in; time stamps are left out.\<close>

datatype sl_prim =
    SL_LINK_CONGESTED_IND u32 u32
  | SL_LINK_CONGESTION_CEASED_IND u32 u32
  | SL_RETRIEVED_MESSAGE_IND msg
  | SL_RETRIEVAL_COMPLETE_IND
  | SL_RB_CLEARED_IND
  | SL_BSNT_IND u32
  | SL_IN_SERVICE_IND
  | SL_OUT_OF_SERVICE_IND u32
  | SL_REMOTE_PROCESSOR_OUTAGE_IND
  | SL_REMOTE_PROCESSOR_RECOVERED_IND
  | SL_RTB_CLEARED_IND
  | SDT_RC_SIGNAL_UNIT_IND msg u32

text \<open>A message on the read queue: \<open>M_DATA\<close>, or \<open>M_PROTO\<close> with the message block it was built in when
  that is the block of a request that is being reused.\<close>

datatype rqmsg = RData msg | RProto sl_prim "nat option"

fun prim_size :: "sl_prim \<Rightarrow> nat" where
  "prim_size (SL_LINK_CONGESTED_IND _ _) = 16"
| "prim_size (SL_LINK_CONGESTION_CEASED_IND _ _) = 16"
| "prim_size (SL_RETRIEVED_MESSAGE_IND mp) = 8 + msgdsize mp"
| "prim_size SL_RETRIEVAL_COMPLETE_IND = 8"
| "prim_size SL_RB_CLEARED_IND = 4"
| "prim_size (SL_BSNT_IND _) = 8"
| "prim_size SL_IN_SERVICE_IND = 4"
| "prim_size (SL_OUT_OF_SERVICE_IND _) = 12"
| "prim_size SL_REMOTE_PROCESSOR_OUTAGE_IND = 8"
| "prim_size SL_REMOTE_PROCESSOR_RECOVERED_IND = 8"
| "prim_size SL_RTB_CLEARED_IND = 4"
| "prim_size (SDT_RC_SIGNAL_UNIT_IND mp _) = 8 + msgdsize mp"

fun rqmsg_size :: "rqmsg \<Rightarrow> nat" where
  "rqmsg_size (RData mp) = msgdsize mp"
| "rqmsg_size (RProto p _) = prim_size p"

text \<open>The stream attached to the channel: its read queue, and what \<open>canput\<close> and \<open>canputnext\<close> answer,
  which the streams above decide.\<close>

record xp =
  rq :: "rqmsg list"
  rq_canput :: bool
  rq_canputnext :: bool

text \<open>What the code does to the outside, in order.\<close>

datatype event =
    Freemsg nat
  | Flushq_wq
  | Flushq_rq
  | Qenable_rq
  | Qenable_wq
  | Putnext rqmsg

text \<open>\<open>path_cmp\<close> and \<open>path_repeat\<close> are the compression buffers of the two directions
  (\<open>xp_path_t\<close>); \<open>allocs\<close> decides the coming memory allocations: \<open>None\<close> is a failure, \<open>Some bs\<close> a block
  whose memory starts with \<open>bs\<close>; past its end allocations succeed.\<close>

record ch =
  pvar :: u32
  popt :: u32
  ch_xp :: "xp option"
  rb :: bufq
  tb :: bufq
  rtb :: bufq
  tid :: "timer \<Rightarrow> bool"
  pending :: "timer \<Rightarrow> u32 option"
  config :: sl_config
  statem :: sl_statem
  tx_sn :: tx_sni
  rx_sn :: rx_sni
  events :: u32
  stats :: sl_stats
  sdt_tb :: bufq
  sdt_cfg :: sdt_config
  sdt_sm :: sdt_statem
  sdt_st :: sdt_stats
  sdl_tb :: bufq
  sdl_ifflags :: u32
  sdl_tx_state :: act
  sdl_rx_state :: act
  sdl_tx_buffer_overflows :: u32
  tx_cmp :: "u8 list option"
  tx_repeat :: u32
  rx_cmp :: "u8 list option"
  rx_repeat :: u32
  allocs :: "u8 list option list"
  log :: "event list"

section \<open>Assignments\<close>

text \<open>An assignment to a member of one of the nested structures, as a state transformer.\<close>

abbreviation set_lsc_state :: "lsc \<Rightarrow> ch \<Rightarrow> ch" where
  "set_lsc_state v \<equiv> statem_update (lsc_state_update (\<lambda>_. v))"

abbreviation set_local_processor_outage :: "bool \<Rightarrow> ch \<Rightarrow> ch" where
  "set_local_processor_outage v \<equiv> statem_update (local_processor_outage_update (\<lambda>_. v))"

abbreviation set_remote_processor_outage :: "bool \<Rightarrow> ch \<Rightarrow> ch" where
  "set_remote_processor_outage v \<equiv> statem_update (remote_processor_outage_update (\<lambda>_. v))"

abbreviation set_processor_outage :: "bool \<Rightarrow> ch \<Rightarrow> ch" where
  "set_processor_outage v \<equiv> statem_update (processor_outage_update (\<lambda>_. v))"

abbreviation set_emergency :: "bool \<Rightarrow> ch \<Rightarrow> ch" where
  "set_emergency v \<equiv> statem_update (emergency_update (\<lambda>_. v))"

abbreviation set_l3_indication_received :: "bool \<Rightarrow> ch \<Rightarrow> ch" where
  "set_l3_indication_received v \<equiv> statem_update (l3_indication_received_update (\<lambda>_. v))"

abbreviation set_failure_reason :: "u32 \<Rightarrow> ch \<Rightarrow> ch" where
  "set_failure_reason v \<equiv> statem_update (failure_reason_update (\<lambda>_. v))"

abbreviation set_iac_state :: "iac \<Rightarrow> ch \<Rightarrow> ch" where
  "set_iac_state v \<equiv> statem_update (iac_state_update (\<lambda>_. v))"

abbreviation set_further_proving :: "bool \<Rightarrow> ch \<Rightarrow> ch" where
  "set_further_proving v \<equiv> statem_update (further_proving_update (\<lambda>_. v))"

abbreviation set_t4v :: "u32 \<Rightarrow> ch \<Rightarrow> ch" where
  "set_t4v v \<equiv> statem_update (t4v_update (\<lambda>_. v))"

abbreviation set_Cp :: "u32 \<Rightarrow> ch \<Rightarrow> ch" where
  "set_Cp v \<equiv> statem_update (Cp_update (\<lambda>_. v))"

abbreviation set_ib_mask :: "u16 \<Rightarrow> ch \<Rightarrow> ch" where
  "set_ib_mask v \<equiv> statem_update (ib_mask_update (\<lambda>_. v))"

abbreviation set_sn_mask :: "u16 \<Rightarrow> ch \<Rightarrow> ch" where
  "set_sn_mask v \<equiv> statem_update (sn_mask_update (\<lambda>_. v))"

abbreviation set_txc_state :: "act \<Rightarrow> ch \<Rightarrow> ch" where
  "set_txc_state v \<equiv> statem_update (txc_state_update (\<lambda>_. v))"

abbreviation set_msu_inhibited :: "bool \<Rightarrow> ch \<Rightarrow> ch" where
  "set_msu_inhibited v \<equiv> statem_update (msu_inhibited_update (\<lambda>_. v))"

abbreviation set_lssu_available :: "bool \<Rightarrow> ch \<Rightarrow> ch" where
  "set_lssu_available v \<equiv> statem_update (lssu_available_update (\<lambda>_. v))"

abbreviation set_rtb_full :: "bool \<Rightarrow> ch \<Rightarrow> ch" where
  "set_rtb_full v \<equiv> statem_update (rtb_full_update (\<lambda>_. v))"

abbreviation set_clear_rtb :: "bool \<Rightarrow> ch \<Rightarrow> ch" where
  "set_clear_rtb v \<equiv> statem_update (clear_rtb_update (\<lambda>_. v))"

abbreviation set_sib_received :: "bool \<Rightarrow> ch \<Rightarrow> ch" where
  "set_sib_received v \<equiv> statem_update (sib_received_update (\<lambda>_. v))"

abbreviation set_retrans_cycle :: "bool \<Rightarrow> ch \<Rightarrow> ch" where
  "set_retrans_cycle v \<equiv> statem_update (retrans_cycle_update (\<lambda>_. v))"

abbreviation set_forced_retransmission :: "bool \<Rightarrow> ch \<Rightarrow> ch" where
  "set_forced_retransmission v \<equiv> statem_update (forced_retransmission_update (\<lambda>_. v))"

abbreviation set_Cm :: "u32 \<Rightarrow> ch \<Rightarrow> ch" where
  "set_Cm v \<equiv> statem_update (Cm_update (\<lambda>_. v))"

abbreviation set_Ct :: "u32 \<Rightarrow> ch \<Rightarrow> ch" where
  "set_Ct v \<equiv> statem_update (Ct_update (\<lambda>_. v))"

abbreviation set_cong_status :: "u32 \<Rightarrow> ch \<Rightarrow> ch" where
  "set_cong_status v \<equiv> statem_update (cong_status_update (\<lambda>_. v))"

abbreviation set_disc_status :: "u32 \<Rightarrow> ch \<Rightarrow> ch" where
  "set_disc_status v \<equiv> statem_update (disc_status_update (\<lambda>_. v))"

abbreviation set_Z_sn :: "u32 \<Rightarrow> ch \<Rightarrow> ch" where
  "set_Z_sn v \<equiv> statem_update (Z_sn_update (\<lambda>_. v))"

abbreviation set_z_ptr :: "nat option \<Rightarrow> ch \<Rightarrow> ch" where
  "set_z_ptr v \<equiv> statem_update (z_ptr_update (\<lambda>_. v))"

abbreviation set_rc_state :: "act \<Rightarrow> ch \<Rightarrow> ch" where
  "set_rc_state v \<equiv> statem_update (rc_state_update (\<lambda>_. v))"

abbreviation set_rtr :: "bool \<Rightarrow> ch \<Rightarrow> ch" where
  "set_rtr v \<equiv> statem_update (rtr_update (\<lambda>_. v))"

abbreviation set_unb :: "bool \<Rightarrow> ch \<Rightarrow> ch" where
  "set_unb v \<equiv> statem_update (unb_update (\<lambda>_. v))"

abbreviation set_unf :: "bool \<Rightarrow> ch \<Rightarrow> ch" where
  "set_unf v \<equiv> statem_update (unf_update (\<lambda>_. v))"

abbreviation set_msu_fisu_accepted :: "bool \<Rightarrow> ch \<Rightarrow> ch" where
  "set_msu_fisu_accepted v \<equiv> statem_update (msu_fisu_accepted_update (\<lambda>_. v))"

abbreviation set_abnormal_bsnr :: "bool \<Rightarrow> ch \<Rightarrow> ch" where
  "set_abnormal_bsnr v \<equiv> statem_update (abnormal_bsnr_update (\<lambda>_. v))"

abbreviation set_abnormal_fibr :: "bool \<Rightarrow> ch \<Rightarrow> ch" where
  "set_abnormal_fibr v \<equiv> statem_update (abnormal_fibr_update (\<lambda>_. v))"

abbreviation set_congestion_discard :: "bool \<Rightarrow> ch \<Rightarrow> ch" where
  "set_congestion_discard v \<equiv> statem_update (congestion_discard_update (\<lambda>_. v))"

abbreviation set_congestion_accept :: "bool \<Rightarrow> ch \<Rightarrow> ch" where
  "set_congestion_accept v \<equiv> statem_update (congestion_accept_update (\<lambda>_. v))"

abbreviation set_l2_congestion_detect :: "bool \<Rightarrow> ch \<Rightarrow> ch" where
  "set_l2_congestion_detect v \<equiv> statem_update (l2_congestion_detect_update (\<lambda>_. v))"

abbreviation set_l3_congestion_detect :: "bool \<Rightarrow> ch \<Rightarrow> ch" where
  "set_l3_congestion_detect v \<equiv> statem_update (l3_congestion_detect_update (\<lambda>_. v))"

abbreviation set_Cr :: "u32 \<Rightarrow> ch \<Rightarrow> ch" where
  "set_Cr v \<equiv> statem_update (Cr_update (\<lambda>_. v))"

abbreviation set_cc_state :: "cc \<Rightarrow> ch \<Rightarrow> ch" where
  "set_cc_state v \<equiv> statem_update (cc_state_update (\<lambda>_. v))"

abbreviation set_poc_state :: "poc \<Rightarrow> ch \<Rightarrow> ch" where
  "set_poc_state v \<equiv> statem_update (poc_state_update (\<lambda>_. v))"

abbreviation set_N_bib :: "u16 \<Rightarrow> ch \<Rightarrow> ch" where
  "set_N_bib v \<equiv> tx_sn_update (N_bib_update (\<lambda>_. v))"

abbreviation set_N_bsn :: "u16 \<Rightarrow> ch \<Rightarrow> ch" where
  "set_N_bsn v \<equiv> tx_sn_update (N_bsn_update (\<lambda>_. v))"

abbreviation set_N_fib :: "u16 \<Rightarrow> ch \<Rightarrow> ch" where
  "set_N_fib v \<equiv> tx_sn_update (N_fib_update (\<lambda>_. v))"

abbreviation set_N_fsn :: "u16 \<Rightarrow> ch \<Rightarrow> ch" where
  "set_N_fsn v \<equiv> tx_sn_update (N_fsn_update (\<lambda>_. v))"

abbreviation set_F_fsn :: "u16 \<Rightarrow> ch \<Rightarrow> ch" where
  "set_F_fsn v \<equiv> tx_sn_update (F_fsn_update (\<lambda>_. v))"

abbreviation set_L_fsn :: "u16 \<Rightarrow> ch \<Rightarrow> ch" where
  "set_L_fsn v \<equiv> tx_sn_update (L_fsn_update (\<lambda>_. v))"

abbreviation set_C_fsn :: "u16 \<Rightarrow> ch \<Rightarrow> ch" where
  "set_C_fsn v \<equiv> tx_sn_update (C_fsn_update (\<lambda>_. v))"

abbreviation set_X_fsn :: "u16 \<Rightarrow> ch \<Rightarrow> ch" where
  "set_X_fsn v \<equiv> tx_sn_update (X_fsn_update (\<lambda>_. v))"

abbreviation set_R_bsn :: "u16 \<Rightarrow> ch \<Rightarrow> ch" where
  "set_R_bsn v \<equiv> tx_sn_update (R_bsn_update (\<lambda>_. v))"

abbreviation set_R_bib :: "u16 \<Rightarrow> ch \<Rightarrow> ch" where
  "set_R_bib v \<equiv> tx_sn_update (R_bib_update (\<lambda>_. v))"

abbreviation set_tx_sio :: "u8 \<Rightarrow> ch \<Rightarrow> ch" where
  "set_tx_sio v \<equiv> tx_sn_update (tx_sio_update (\<lambda>_. v))"

abbreviation set_rX_fsn :: "u16 \<Rightarrow> ch \<Rightarrow> ch" where
  "set_rX_fsn v \<equiv> rx_sn_update (rX_fsn_update (\<lambda>_. v))"

abbreviation set_rX_fib :: "u16 \<Rightarrow> ch \<Rightarrow> ch" where
  "set_rX_fib v \<equiv> rx_sn_update (rX_fib_update (\<lambda>_. v))"

abbreviation set_rF_fsn :: "u16 \<Rightarrow> ch \<Rightarrow> ch" where
  "set_rF_fsn v \<equiv> rx_sn_update (rF_fsn_update (\<lambda>_. v))"

abbreviation set_rR_bib :: "u16 \<Rightarrow> ch \<Rightarrow> ch" where
  "set_rR_bib v \<equiv> rx_sn_update (rR_bib_update (\<lambda>_. v))"

abbreviation set_rR_bsn :: "u16 \<Rightarrow> ch \<Rightarrow> ch" where
  "set_rR_bsn v \<equiv> rx_sn_update (rR_bsn_update (\<lambda>_. v))"

abbreviation set_rR_fib :: "u16 \<Rightarrow> ch \<Rightarrow> ch" where
  "set_rR_fib v \<equiv> rx_sn_update (rR_fib_update (\<lambda>_. v))"

abbreviation set_rR_fsn :: "u16 \<Rightarrow> ch \<Rightarrow> ch" where
  "set_rR_fsn v \<equiv> rx_sn_update (rR_fsn_update (\<lambda>_. v))"

abbreviation set_rT_fsn :: "u16 \<Rightarrow> ch \<Rightarrow> ch" where
  "set_rT_fsn v \<equiv> rx_sn_update (rT_fsn_update (\<lambda>_. v))"

abbreviation set_rT_bsn :: "u16 \<Rightarrow> ch \<Rightarrow> ch" where
  "set_rT_bsn v \<equiv> rx_sn_update (rT_bsn_update (\<lambda>_. v))"

abbreviation set_rx_sio :: "u8 \<Rightarrow> ch \<Rightarrow> ch" where
  "set_rx_sio v \<equiv> rx_sn_update (rx_sio_update (\<lambda>_. v))"

abbreviation set_rx_len :: "u16 \<Rightarrow> ch \<Rightarrow> ch" where
  "set_rx_len v \<equiv> rx_sn_update (rx_len_update (\<lambda>_. v))"

abbreviation set_aerm_state :: "act \<Rightarrow> ch \<Rightarrow> ch" where
  "set_aerm_state v \<equiv> sdt_sm_update (aerm_state_update (\<lambda>_. v))"

abbreviation set_aborted_proving :: "bool \<Rightarrow> ch \<Rightarrow> ch" where
  "set_aborted_proving v \<equiv> sdt_sm_update (aborted_proving_update (\<lambda>_. v))"

abbreviation set_Ca :: "s32 \<Rightarrow> ch \<Rightarrow> ch" where
  "set_Ca v \<equiv> sdt_sm_update (Ca_update (\<lambda>_. v))"

abbreviation set_Ti :: "u32 \<Rightarrow> ch \<Rightarrow> ch" where
  "set_Ti v \<equiv> sdt_sm_update (Ti_update (\<lambda>_. v))"

abbreviation set_suerm_state :: "act \<Rightarrow> ch \<Rightarrow> ch" where
  "set_suerm_state v \<equiv> sdt_sm_update (suerm_state_update (\<lambda>_. v))"

abbreviation set_Cs :: "s32 \<Rightarrow> ch \<Rightarrow> ch" where
  "set_Cs v \<equiv> sdt_sm_update (Cs_update (\<lambda>_. v))"

abbreviation set_Ns :: "u32 \<Rightarrow> ch \<Rightarrow> ch" where
  "set_Ns v \<equiv> sdt_sm_update (Ns_update (\<lambda>_. v))"

abbreviation set_eim_state :: "act \<Rightarrow> ch \<Rightarrow> ch" where
  "set_eim_state v \<equiv> sdt_sm_update (eim_state_update (\<lambda>_. v))"

abbreviation set_Ce :: "s32 \<Rightarrow> ch \<Rightarrow> ch" where
  "set_Ce v \<equiv> sdt_sm_update (Ce_update (\<lambda>_. v))"

abbreviation set_su_received :: "bool \<Rightarrow> ch \<Rightarrow> ch" where
  "set_su_received v \<equiv> sdt_sm_update (su_received_update (\<lambda>_. v))"

abbreviation set_interval_error :: "bool \<Rightarrow> ch \<Rightarrow> ch" where
  "set_interval_error v \<equiv> sdt_sm_update (interval_error_update (\<lambda>_. v))"

abbreviation set_daedt_state :: "act \<Rightarrow> ch \<Rightarrow> ch" where
  "set_daedt_state v \<equiv> sdt_sm_update (daedt_state_update (\<lambda>_. v))"

abbreviation set_daedr_state :: "act \<Rightarrow> ch \<Rightarrow> ch" where
  "set_daedr_state v \<equiv> sdt_sm_update (daedr_state_update (\<lambda>_. v))"

abbreviation set_sl_fail_align_or_proving :: "u32 \<Rightarrow> ch \<Rightarrow> ch" where
  "set_sl_fail_align_or_proving v \<equiv> stats_update (sl_fail_align_or_proving_update (\<lambda>_. v))"

abbreviation set_sl_nacks_received :: "u32 \<Rightarrow> ch \<Rightarrow> ch" where
  "set_sl_nacks_received v \<equiv> stats_update (sl_nacks_received_update (\<lambda>_. v))"

abbreviation set_sl_sibs_sent :: "u32 \<Rightarrow> ch \<Rightarrow> ch" where
  "set_sl_sibs_sent v \<equiv> stats_update (sl_sibs_sent_update (\<lambda>_. v))"

abbreviation set_sl_recv_msus :: "u32 \<Rightarrow> ch \<Rightarrow> ch" where
  "set_sl_recv_msus v \<equiv> stats_update (sl_recv_msus_update (\<lambda>_. v))"

abbreviation set_sl_cong_onset_ind :: "u32 list \<Rightarrow> ch \<Rightarrow> ch" where
  "set_sl_cong_onset_ind v \<equiv> stats_update (sl_cong_onset_ind_update (\<lambda>_. v))"

abbreviation set_sl_cong_discd_ind :: "u32 list \<Rightarrow> ch \<Rightarrow> ch" where
  "set_sl_cong_discd_ind v \<equiv> stats_update (sl_cong_discd_ind_update (\<lambda>_. v))"

abbreviation set_rx_sus_compressed :: "u32 \<Rightarrow> ch \<Rightarrow> ch" where
  "set_rx_sus_compressed v \<equiv> sdt_st_update (rx_sus_compressed_update (\<lambda>_. v))"

abbreviation set_rx_buffer_overflows :: "u32 \<Rightarrow> ch \<Rightarrow> ch" where
  "set_rx_buffer_overflows v \<equiv> sdt_st_update (rx_buffer_overflows_update (\<lambda>_. v))"

abbreviation set_tx_sus_repeated :: "u32 \<Rightarrow> ch \<Rightarrow> ch" where
  "set_tx_sus_repeated v \<equiv> sdt_st_update (tx_sus_repeated_update (\<lambda>_. v))"

abbreviation set_tx_buffer_overflows :: "u32 \<Rightarrow> ch \<Rightarrow> ch" where
  "set_tx_buffer_overflows v \<equiv> sdt_st_update (tx_buffer_overflows_update (\<lambda>_. v))"

section \<open>Option tests\<close>

text \<open>The test that guards the ANSI 1992 (and later) procedures.\<close>

definition ansi_92 :: "ch \<Rightarrow> bool" where
  "ansi_92 ch \<longleftrightarrow> pvar ch AND 0xff00 = 0x0300 \<and> pvar ch AND 0x00ff > 0x0000"

definition pcr :: "ch \<Rightarrow> bool" where
  "pcr ch \<longleftrightarrow> popt ch AND SS7_POPT_PCR \<noteq> 0"

definition xsn :: "ch \<Rightarrow> bool" where
  "xsn ch \<longleftrightarrow> popt ch AND SS7_POPT_XSN \<noteq> 0"

definition hsl :: "ch \<Rightarrow> bool" where
  "hsl ch \<longleftrightarrow> popt ch AND SS7_POPT_HSL \<noteq> 0"

definition mplev :: "ch \<Rightarrow> bool" where
  "mplev ch \<longleftrightarrow> popt ch AND SS7_POPT_MPLEV \<noteq> 0"

section \<open>Definitions as rewrite rules\<close>

text \<open>Unfolded only where the operation is applied to a state.\<close>

lemmas sl_state_ops [sl_defs] =
  ansi_92_def pcr_def xsn_def hsl_def mplev_def

end
