(* ===== verification/SL_Upper.thy ===== *)
theory SL_Upper
  imports SL_State
begin

text \<open>
  What the state machines do to their surroundings: freeing and allocating message blocks, the read queue
  of the attached stream and the indications issued upstream (\<open>sl_flush_wq\<close> to \<open>sl_rtb_cleared_ind\<close>),
  and the protocol timers (\<open>xp_stop_timer\<close> to \<open>xp_timer_start\<close>).

  \<open>put(xp->rq, mp)\<close> runs the read put procedure \<open>xp_rput\<close>, which puts the message on the read queue;
  \<open>putq\<close> does so directly.  \<open>xp_rsrv\<close> is the service procedure that passes the queued messages on.
\<close>

datatype errno = OK | ENOBUFS | ENXIO | EFAULT | EMSGSIZE | EBUSY | EPROTO

section \<open>Message blocks\<close>

definition emit :: "event \<Rightarrow> ch \<Rightarrow> ch" where
  "emit e ch = ch\<lparr>log := log ch @ [e]\<rparr>"

definition freemsg :: "nat option \<Rightarrow> ch \<Rightarrow> ch" where
  "freemsg mp = (case mp of None \<Rightarrow> id | Some m \<Rightarrow> emit (Freemsg m))"

definition freemsgs :: "msg list \<Rightarrow> ch \<Rightarrow> ch" where
  "freemsgs ms = fold (\<lambda>m. emit (Freemsg (mid m))) ms"

definition allocb :: "nat \<Rightarrow> ch \<Rightarrow> u8 list option \<times> ch" where
  "allocb n ch = (case allocs ch of
      [] \<Rightarrow> (Some (replicate n 0), ch)
    | None # as \<Rightarrow> (None, ch\<lparr>allocs := as\<rparr>)
    | Some bs # as \<Rightarrow> (Some (take n (bs @ replicate n 0)), ch\<lparr>allocs := as\<rparr>))"

section \<open>The read queue\<close>

definition rq_putq :: "rqmsg \<Rightarrow> ch \<Rightarrow> ch" where
  "rq_putq r ch = ch\<lparr>ch_xp := map_option (\<lambda>x. x\<lparr>rq := rq x @ [r]\<rparr>) (ch_xp ch)\<rparr>"

definition sl_flush_wq :: "ch \<Rightarrow> ch" where
  "sl_flush_wq ch = (if ch_xp ch \<noteq> None then emit Flushq_wq ch else ch)"

text \<open>\<open>FLUSHDATA\<close> removes messages of type \<open>M_DATA\<close> and \<open>M_PROTO\<close>: everything modelled here.\<close>

definition sl_flush_rq :: "ch \<Rightarrow> ch" where
  "sl_flush_rq ch = (if ch_xp ch \<noteq> None
     then emit Flushq_rq (ch\<lparr>ch_xp := map_option (\<lambda>x. x\<lparr>rq := []\<rparr>) (ch_xp ch)\<rparr>) else ch)"

definition sl_enable_rq :: "ch \<Rightarrow> ch" where
  "sl_enable_rq ch = (if ch_xp ch \<noteq> None then emit Qenable_rq ch else ch)"

definition sl_count_rq :: "ch \<Rightarrow> u32" where
  "sl_count_rq ch = (case ch_xp ch of
      Some x \<Rightarrow> of_nat (sum_list (map rqmsg_size (rq x)))
    | None \<Rightarrow> 0)"

definition sl_data_ind :: "msg \<Rightarrow> ch \<Rightarrow> errno \<times> ch" where
  "sl_data_ind mp ch = (if ch_xp ch \<noteq> None then (OK, rq_putq (RData mp) ch)
     else (ENXIO, freemsg (Some (mid mp)) ch))"

definition sl_pdu_ind :: "msg \<Rightarrow> ch \<Rightarrow> errno \<times> ch" where
  "sl_pdu_ind mp ch = (if ch_xp ch \<noteq> None
     then (OK, steps [rq_putq (RData mp), set_sl_recv_msus (sl_recv_msus (stats ch) + 1)] ch)
     else (ENXIO, ch))"

section \<open>Indications\<close>

text \<open>The common body of the indications that may reuse the block of a request.\<close>

definition ind_reuse :: "sl_prim \<Rightarrow> nat option \<Rightarrow> ch \<Rightarrow> errno \<times> ch" where
  "ind_reuse p mp ch = (case ch_xp ch of
      None \<Rightarrow> (OK, freemsg mp ch)
    | Some x \<Rightarrow> (case mp of
        Some m \<Rightarrow> (OK, rq_putq (RProto p (Some m)) ch)
      | None \<Rightarrow> (case allocb (prim_size p) ch of
          (Some _, ch) \<Rightarrow> (OK, rq_putq (RProto p None) ch)
        | (None, ch) \<Rightarrow> (ENOBUFS, ch))))"

definition sl_link_congested_ind :: "nat option \<Rightarrow> ch \<Rightarrow> errno \<times> ch" where
  "sl_link_congested_ind mp ch =
     ind_reuse (SL_LINK_CONGESTED_IND (cong_status (statem ch)) (disc_status (statem ch))) mp ch"

definition sl_link_congestion_ceased_ind :: "nat option \<Rightarrow> ch \<Rightarrow> errno \<times> ch" where
  "sl_link_congestion_ceased_ind mp ch =
     ind_reuse (SL_LINK_CONGESTION_CEASED_IND (cong_status (statem ch)) (disc_status (statem ch))) mp ch"

definition sl_retrieved_message_ind :: "msg \<Rightarrow> ch \<Rightarrow> errno \<times> ch" where
  "sl_retrieved_message_ind dp ch = (case allocb 8 ch of
      (Some _, ch) \<Rightarrow> (OK, rq_putq (RProto (SL_RETRIEVED_MESSAGE_IND dp) None) ch)
    | (None, ch) \<Rightarrow> (ENOBUFS, ch))"

definition sl_retrieval_complete_ind :: "nat \<Rightarrow> ch \<Rightarrow> ch" where
  "sl_retrieval_complete_ind mp = rq_putq (RProto SL_RETRIEVAL_COMPLETE_IND (Some mp))"

definition sl_rb_cleared_ind :: "nat \<Rightarrow> ch \<Rightarrow> ch" where
  "sl_rb_cleared_ind mp = rq_putq (RProto SL_RB_CLEARED_IND (Some mp))"

definition sl_bsnt_ind :: "nat \<Rightarrow> ch \<Rightarrow> ch" where
  "sl_bsnt_ind mp ch = rq_putq (RProto (SL_BSNT_IND (ucast (rT_bsn (rx_sn ch)))) (Some mp)) ch"

text \<open>The autonomous indications allocate their block; without memory the indication is not issued.\<close>

definition ind_alloc :: "sl_prim \<Rightarrow> ch \<Rightarrow> ch" where
  "ind_alloc p ch = (case ch_xp ch of
      None \<Rightarrow> ch
    | Some x \<Rightarrow> (case allocb (prim_size p) ch of
        (Some _, ch) \<Rightarrow> rq_putq (RProto p None) ch
      | (None, ch) \<Rightarrow> ch))"

definition sl_in_service_ind :: "ch \<Rightarrow> ch" where
  "sl_in_service_ind =
     ifthen (\<lambda>ch. failure_reason (statem ch) = 0) (ind_alloc SL_IN_SERVICE_IND)"

definition sl_out_of_service_ind :: "ch \<Rightarrow> ch" where
  "sl_out_of_service_ind =
     ifthen (\<lambda>ch. failure_reason (statem ch) \<noteq> 0)
       (\<lambda>ch. ind_alloc (SL_OUT_OF_SERVICE_IND (failure_reason (statem ch))) ch)"

definition sl_remote_processor_outage_ind :: "nat option \<Rightarrow> ch \<Rightarrow> errno \<times> ch" where
  "sl_remote_processor_outage_ind mp ch =
     (if remote_processor_outage (statem ch)
         \<or> poc_state (statem ch) = POC_REMOTE \<or> poc_state (statem ch) = POC_BOTH
      then ind_reuse SL_REMOTE_PROCESSOR_OUTAGE_IND mp ch
      else (OK, freemsg mp ch))"

definition sl_remote_processor_recovered_ind :: "ch \<Rightarrow> ch" where
  "sl_remote_processor_recovered_ind =
     ifthen (\<lambda>ch. \<not> remote_processor_outage (statem ch)
               \<and> poc_state (statem ch) \<noteq> POC_REMOTE \<and> poc_state (statem ch) \<noteq> POC_BOTH)
       (ind_alloc SL_REMOTE_PROCESSOR_RECOVERED_IND)"

definition sl_rtb_cleared_ind :: "nat option \<Rightarrow> ch \<Rightarrow> errno \<times> ch" where
  "sl_rtb_cleared_ind mp = ind_reuse SL_RTB_CLEARED_IND mp"

definition sdt_rc_signal_unit_ind :: "msg \<Rightarrow> u32 \<Rightarrow> ch \<Rightarrow> errno \<times> ch" where
  "sdt_rc_signal_unit_ind dp count ch = (case ch_xp ch of
      None \<Rightarrow> (ENXIO, ch)
    | Some x \<Rightarrow>
        if count \<noteq> 0 then
          if rq_canput x then
            (case allocb 8 ch of
               (Some _, ch) \<Rightarrow> (OK, rq_putq (RProto (SDT_RC_SIGNAL_UNIT_IND dp count) None) ch)
             | (None, ch) \<Rightarrow> (ENOBUFS, ch))
          else (EBUSY, ch)
        else (EFAULT, ch))"

section \<open>The read service procedure\<close>

text \<open>One message of \<open>xp_r_prim_srv\<close>: \<open>Some\<close> is a message passed on, \<open>None\<close> a message put back.  Data is
  counted out of the receive buffer by \<open>__xp_r_data\<close>.\<close>

definition xp_r_prim_srv :: "rqmsg \<Rightarrow> ch \<Rightarrow> ch option" where
  "xp_r_prim_srv r ch = (case ch_xp ch of
      None \<Rightarrow> None
    | Some x \<Rightarrow>
        if rq_canputnext x then
          Some (case r of
              RData _ \<Rightarrow> steps [set_Cr (Cr (statem ch) - 1), emit (Putnext r)] ch
            | RProto _ _ \<Rightarrow> emit (Putnext r) ch)
        else None)"

text \<open>\<open>canputnext\<close> is asked for every message; \<open>room\<close> gives its coming answers, which the stream above
  decides (it is asked again after an answer of true only).\<close>

fun rq_srv :: "bool list \<Rightarrow> ch \<Rightarrow> ch" where
  "rq_srv room ch = (case ch_xp ch of
      None \<Rightarrow> ch
    | Some x \<Rightarrow> (case rq x of
        [] \<Rightarrow> ch
      | r # rs \<Rightarrow> (case room of
          [] \<Rightarrow> ch
        | b # room' \<Rightarrow>
            let ch1 = ch\<lparr>ch_xp := Some (x\<lparr>rq := rs, rq_canputnext := b\<rparr>)\<rparr>
            in (case xp_r_prim_srv r ch1 of
                  Some ch2 \<Rightarrow> rq_srv room' ch2
                | None \<Rightarrow> ch1\<lparr>ch_xp := Some (x\<lparr>rq := r # rs, rq_canputnext := b\<rparr>)\<rparr>))))"

declare rq_srv.simps [simp del]

section \<open>Timers\<close>

text \<open>\<open>tid\<close> is the timer identifier being non-zero; \<open>pending\<close> is the callback queued with the kernel and its
  ticks.  An expired timer keeps its identifier until it is stopped or started again.\<close>

definition xp_stop_timer :: "timer \<Rightarrow> ch \<Rightarrow> ch" where
  "xp_stop_timer t ch = (if tid ch t
     then ch\<lparr>tid := (tid ch)(t := False), pending := (pending ch)(t := None)\<rparr> else ch)"

definition xp_start_timer :: "timer \<Rightarrow> u32 \<Rightarrow> ch \<Rightarrow> ch" where
  "xp_start_timer t ticks ch =
     (let ch = (if tid ch t
                then ch\<lparr>tid := (tid ch)(t := False), pending := (pending ch)(t := None)\<rparr> else ch)
      in ch\<lparr>tid := (tid ch)(t := True), pending := (pending ch)(t := Some ticks)\<rparr>)"

definition xp_timer_stop :: "timer \<Rightarrow> ch \<Rightarrow> ch" where
  "xp_timer_stop t = xp_stop_timer t"

definition xp_timer_stop_all :: "ch \<Rightarrow> ch" where
  "xp_timer_stop_all =
     steps [xp_stop_timer T1, xp_stop_timer T2, xp_stop_timer T3, xp_stop_timer T4,
            xp_stop_timer T5, xp_stop_timer T6, xp_stop_timer T7, xp_stop_timer T8]"

fun timer_ticks :: "timer \<Rightarrow> ch \<Rightarrow> u32" where
  "timer_ticks T1 ch = cfg_t1 (config ch)"
| "timer_ticks T2 ch = cfg_t2 (config ch)"
| "timer_ticks T3 ch = cfg_t3 (config ch)"
| "timer_ticks T4 ch = t4v (statem ch)"
| "timer_ticks T5 ch = cfg_t5 (config ch)"
| "timer_ticks T6 ch = cfg_t6 (config ch)"
| "timer_ticks T7 ch = cfg_t7 (config ch)"
| "timer_ticks T8 ch = cfg_t8 (sdt_cfg ch)"

definition xp_timer_start :: "timer \<Rightarrow> ch \<Rightarrow> ch" where
  "xp_timer_start t ch = xp_start_timer t (timer_ticks t ch) ch"

section \<open>Definitions as rewrite rules\<close>

text \<open>Unfolded only where the operation is applied to a state.\<close>

lemmas sl_upper_ops [sl_defs] =
  emit_def freemsg_def[THEN fun_cong] freemsgs_def[THEN fun_cong] allocb_def rq_putq_def
  sl_flush_wq_def sl_flush_rq_def sl_enable_rq_def sl_count_rq_def sl_data_ind_def sl_pdu_ind_def
  ind_reuse_def sl_link_congested_ind_def sl_link_congestion_ceased_ind_def
  sl_retrieved_message_ind_def sl_retrieval_complete_ind_def[THEN fun_cong]
  sl_rb_cleared_ind_def[THEN fun_cong] sl_bsnt_ind_def ind_alloc_def sl_in_service_ind_def[THEN
  fun_cong] sl_out_of_service_ind_def[THEN fun_cong] sl_remote_processor_outage_ind_def
  sl_remote_processor_recovered_ind_def[THEN fun_cong] sl_rtb_cleared_ind_def[THEN fun_cong]
  sdt_rc_signal_unit_ind_def xp_r_prim_srv_def xp_stop_timer_def xp_start_timer_def
  xp_timer_stop_def[THEN fun_cong] xp_timer_stop_all_def[THEN fun_cong] xp_timer_start_def

end
