(* ===== verification/SL_Congestion.thy ===== *)
theory SL_Congestion
  imports SL_Upper
begin

text \<open>
  The transmit congestion algorithm \<open>sl_check_congestion\<close>: congestion and discard levels 0 to 3 with
  onset, discard and abatement thresholds on the octets held in the read queue, the transmission buffer
  and the retransmission buffer.
\<close>

text \<open>The \<open>switch\<close> over the current congestion status: new congestion and discard status.\<close>

definition congestion_levels :: "sl_config \<Rightarrow> bool \<Rightarrow> u32 \<Rightarrow> u32 \<times> u32 \<Rightarrow> u32 \<times> u32" where
  "congestion_levels c multi occupancy cd = (case cd of (cong, disc) \<Rightarrow>
     if cong = 0 then
       if occupancy < tb_onset_1 c then (cong, disc)
       else if occupancy < tb_discd_1 c then (1, disc)
       else if occupancy < tb_onset_2 c \<or> \<not> multi then (1, 1)
       else if occupancy < tb_discd_2 c then (2, 1)
       else if occupancy < tb_onset_3 c then (2, 2)
       else if occupancy < tb_discd_3 c then (3, 2)
       else (3, 3)
     else if cong = 1 then
       if occupancy < tb_abate_1 c then (0, 0)
       else if occupancy < tb_onset_2 c \<or> \<not> multi then (cong, disc)
       else if occupancy < tb_discd_2 c then (2, disc)
       else if occupancy < tb_onset_3 c then (2, 2)
       else if occupancy < tb_discd_3 c then (3, 2)
       else (3, 3)
     else if cong = 2 then
       if occupancy < tb_abate_1 c then (0, 0)
       else if occupancy < tb_abate_2 c \<or> \<not> multi then (1, 1)
       else if occupancy < tb_onset_3 c then (cong, disc)
       else if occupancy < tb_discd_3 c then (3, disc)
       else (3, 3)
     else if cong = 3 then
       if occupancy < tb_abate_1 c then (0, 0)
       else if occupancy < tb_abate_2 c \<or> \<not> multi then (1, 1)
       else if occupancy < tb_abate_3 c then (2, 2)
       else (cong, disc)
     else (cong, disc))"

definition tx_occupancy :: "ch \<Rightarrow> u32" where
  "tx_occupancy ch = sl_count_rq ch + of_nat (q_count (tb ch)) + of_nat (q_count (rtb ch))"

definition bump :: "u32 \<Rightarrow> u32 list \<Rightarrow> u32 list" where
  "bump i xs = xs[unat i := xs ! unat i + 1]"

definition sl_check_congestion :: "nat option \<Rightarrow> ch \<Rightarrow> errno \<times> ch" where
  "sl_check_congestion mp ch =
     (let old_cong = cong_status (statem ch);
          old_disc = disc_status (statem ch);
          (cong, disc) = congestion_levels (config ch) (mplev ch) (tx_occupancy ch) (old_cong, old_disc);
          ch = steps [set_cong_status cong, set_disc_status disc] ch
      in if cong \<noteq> old_cong \<or> disc \<noteq> old_disc then
           if cong < old_cong then sl_link_congestion_ceased_ind mp ch
           else if cong > old_cong then
             sl_link_congested_ind mp
               (ifthen (\<lambda>ch. events ch AND SL_EVT_CONGEST_ONSET_IND \<noteq> 0)
                  (set_sl_cong_onset_ind (bump cong (sl_cong_onset_ind (stats ch)))) ch)
           else
             sl_link_congested_ind mp
               (ifthen (\<lambda>ch. events ch AND SL_EVT_CONGEST_DISCD_IND \<noteq> 0)
                  (set_sl_cong_discd_ind (bump disc (sl_cong_discd_ind (stats ch)))) ch)
         else (OK, freemsg mp ch))"

section \<open>Definitions as rewrite rules\<close>

text \<open>Unfolded only where the operation is applied to a state.\<close>

lemmas sl_congestion_ops [sl_defs] =
  congestion_levels_def tx_occupancy_def bump_def sl_check_congestion_def

end
