(* ===== verification/SL_Tx.thy ===== *)
theory SL_Tx
  imports SL_Congestion
begin

text \<open>
  Transmission control (TXC) of \<open>src/src/drivers/sl_x400p.c\<close>: what is idled on the link, the
  retransmission buffer and its acknowledgement, the buffers' clearing and retrieval, and the choice and
  formatting of the next signal unit.
\<close>

section \<open>Congestion control, monitors and the small stops\<close>

definition sl_cc_normal :: "ch \<Rightarrow> ch" where
  "sl_cc_normal = steps [xp_timer_stop T5, set_cc_state CC_NORMAL]"

definition sl_rc_stop :: "ch \<Rightarrow> ch" where
  "sl_rc_stop = steps [sl_cc_normal, set_rc_state ST_IDLE]"

definition sl_aerm_stop :: "ch \<Rightarrow> ch" where
  "sl_aerm_stop = steps [set_aerm_state ST_IDLE, (\<lambda>ch. set_Ti (cfg_Tin (sdt_cfg ch)) ch)]"

definition sl_iac_stop :: "ch \<Rightarrow> ch" where
  "sl_iac_stop = ifthen (\<lambda>ch. iac_state (statem ch) \<noteq> IAC_IDLE)
     (steps [xp_timer_stop T3, xp_timer_stop T2, xp_timer_stop T4,
             sl_aerm_stop,
             set_emergency False,
             set_iac_state IAC_IDLE])"

definition sl_txc_send_sios :: "ch \<Rightarrow> ch" where
  "sl_txc_send_sios = steps [xp_timer_stop T7, ifthen ansi_92 (xp_timer_stop T6),
                             set_lssu_available True, set_tx_sio LSSU_SIOS]"

definition sl_poc_stop :: "ch \<Rightarrow> ch" where
  "sl_poc_stop = set_poc_state POC_IDLE"

definition sl_eim_stop :: "ch \<Rightarrow> ch" where
  "sl_eim_stop = steps [set_eim_state ST_IDLE, xp_timer_stop T8]"

definition sl_suerm_stop :: "ch \<Rightarrow> ch" where
  "sl_suerm_stop = steps [sl_eim_stop, set_suerm_state ST_IDLE]"

definition sl_lsc_link_failure :: "u32 \<Rightarrow> ch \<Rightarrow> ch" where
  "sl_lsc_link_failure reason = ifthen (\<lambda>ch. lsc_state (statem ch) \<noteq> LSC_OUT_OF_SERVICE)
     (steps [set_failure_reason reason,
             sl_out_of_service_ind,
             sl_iac_stop,
             xp_timer_stop T1,
             sl_suerm_stop,
             sl_rc_stop,
             sl_txc_send_sios,
             sl_poc_stop,
             set_emergency False,
             set_local_processor_outage False,
             set_remote_processor_outage False,
             set_lsc_state LSC_OUT_OF_SERVICE])"

section \<open>What is sent\<close>

definition sl_txc_send_sib :: "ch \<Rightarrow> ch" where
  "sl_txc_send_sib = steps [set_tx_sio LSSU_SIB, set_lssu_available True]"

definition sl_txc_send_sipo :: "ch \<Rightarrow> ch" where
  "sl_txc_send_sipo = steps [xp_timer_stop T7, ifthen ansi_92 (xp_timer_stop T6),
                             set_tx_sio LSSU_SIPO, set_lssu_available True]"

definition sl_txc_send_sio :: "ch \<Rightarrow> ch" where
  "sl_txc_send_sio = steps [set_tx_sio LSSU_SIO, set_lssu_available True]"

definition sl_txc_send_sin :: "ch \<Rightarrow> ch" where
  "sl_txc_send_sin = steps [set_tx_sio LSSU_SIN, set_lssu_available True]"

definition sl_txc_send_sie :: "ch \<Rightarrow> ch" where
  "sl_txc_send_sie = steps [set_tx_sio LSSU_SIE, set_lssu_available True]"

definition sl_txc_send_msu :: "ch \<Rightarrow> ch" where
  "sl_txc_send_msu = steps [ifthen (\<lambda>ch. q_count (rtb ch) \<noteq> 0) (xp_timer_start T7),
                            set_msu_inhibited False, set_lssu_available False]"

definition sl_txc_send_fisu :: "ch \<Rightarrow> ch" where
  "sl_txc_send_fisu = steps [xp_timer_stop T7,
                             ifthen (\<lambda>ch. ansi_92 ch \<and> \<not> pcr ch) (xp_timer_stop T6),
                             set_msu_inhibited True, set_lssu_available False]"

definition sl_txc_fsnx_value :: "ch \<Rightarrow> ch" where
  "sl_txc_fsnx_value = ifthen (\<lambda>ch. X_fsn (tx_sn ch) \<noteq> rX_fsn (rx_sn ch))
     (\<lambda>ch. set_X_fsn (rX_fsn (rx_sn ch)) ch)"

definition sl_txc_nack_to_be_sent :: "ch \<Rightarrow> ch" where
  "sl_txc_nack_to_be_sent ch =
     set_N_bib (if N_bib (tx_sn ch) \<noteq> 0 then 0 else ib_mask (statem ch)) ch"

definition sl_lsc_rtb_cleared :: "ch \<Rightarrow> ch" where
  "sl_lsc_rtb_cleared = ifthen (\<lambda>ch. lsc_state (statem ch) = LSC_PROCESSOR_OUTAGE)
     (steps [set_remote_processor_outage False,
             ifthen (\<lambda>ch. \<not> local_processor_outage (statem ch))
               (steps [sl_remote_processor_recovered_ind,
                       exec (sl_rtb_cleared_ind None),
                       sl_txc_send_msu,
                       set_lsc_state LSC_IN_SERVICE])])"

section \<open>The retransmission buffer\<close>

definition rtb_purge :: "ch \<Rightarrow> ch" where
  "rtb_purge ch = (case bufq_purge (rtb ch) of (ms, q) \<Rightarrow> freemsgs ms (ch\<lparr>rtb := q\<rparr>))"

definition tb_purge :: "ch \<Rightarrow> ch" where
  "tb_purge ch = (case bufq_purge (tb ch) of (ms, q) \<Rightarrow> freemsgs ms (ch\<lparr>tb := q\<rparr>))"

definition rb_purge :: "ch \<Rightarrow> ch" where
  "rb_purge ch = (case bufq_purge (rb ch) of (ms, q) \<Rightarrow> freemsgs ms (ch\<lparr>rb := q\<rparr>))"

text \<open>One turn of the acknowledgement loops: drop the head of the retransmission buffer and advance
  \<open>tx.F.fsn\<close>.\<close>

definition rtb_drop :: "ch \<Rightarrow> ch" where
  "rtb_drop ch = (case bufq_dequeue (rtb ch) of (r, q) \<Rightarrow>
     steps [freemsg (map_option mid r),
            set_Ct (Ct (statem ch) - 1),
            set_F_fsn ((F_fsn (tx_sn ch) + 1) AND sn_mask (statem ch))] (ch\<lparr>rtb := q\<rparr>))"

text \<open>The \<open>do .. while\<close> loop of \<open>sl_txc_bsnr_and_bibr\<close>; the first argument bounds the turns and is
  \<open>sn_mask + 1\<close>, which the loop never exhausts (\<open>rtb_ack_fuel\<close>).\<close>

fun rtb_ack :: "nat \<Rightarrow> u16 \<Rightarrow> ch \<Rightarrow> ch" where
  "rtb_ack 0 stop ch = ch"
| "rtb_ack (Suc n) stop ch =
     (let ch = rtb_drop ch in if F_fsn (tx_sn ch) \<noteq> stop then rtb_ack n stop ch else ch)"

declare rtb_ack.simps [simp del]

lemma rtb_ack_numeral:
  "rtb_ack (numeral k) stop ch =
     (let ch = rtb_drop ch in
      if F_fsn (tx_sn ch) \<noteq> stop then rtb_ack (pred_numeral k) stop ch else ch)"
  by (simp add: numeral_eq_Suc rtb_ack.simps)

definition bufq_first :: "bufq \<Rightarrow> nat option" where
  "bufq_first q = map_option mid (bufq_head q)"

definition bsnr_clear_rtb :: "ch \<Rightarrow> ch" where
  "bsnr_clear_rtb =
     steps [rtb_purge,
            set_Ct 0,
            exec (sl_check_congestion None),
            (\<lambda>ch. set_F_fsn ((R_bsn (tx_sn ch) + 1) AND sn_mask (statem ch)) ch),
            (\<lambda>ch. set_L_fsn (R_bsn (tx_sn ch)) ch),
            (\<lambda>ch. set_N_fsn (R_bsn (tx_sn ch)) ch),
            (\<lambda>ch. set_N_fib (R_bib (tx_sn ch)) ch),
            (\<lambda>ch. set_Z_sn (ucast ((R_bsn (tx_sn ch) + 1) AND sn_mask (statem ch))) ch),
            set_z_ptr None,
            sl_lsc_rtb_cleared,
            set_clear_rtb False,
            set_rtb_full False]"

definition sib_ends :: "ch \<Rightarrow> ch" where
  "sib_ends = ifthen (\<lambda>ch. sib_received (statem ch)) (steps [set_sib_received False, xp_timer_stop T6])"

definition bsnr_ack :: "ch \<Rightarrow> ch" where
  "bsnr_ack =
     steps [sib_ends,
            (\<lambda>ch. rtb_ack (Suc (unat (sn_mask (statem ch))))
                    ((R_bsn (tx_sn ch) + 1) AND sn_mask (statem ch)) ch),
            exec (sl_check_congestion None),
            ifelse (\<lambda>ch. q_count (rtb ch) = 0) (xp_timer_stop T7) (xp_timer_start T7),
            ifthen (\<lambda>ch. \<not> pcr ch \<or> (q_msgs (rtb ch) < unat (cfg_N1 (config ch))
                                     \<and> q_count (rtb ch) < unat (cfg_N2 (config ch))))
              (set_rtb_full False),
            ifthen (\<lambda>ch. SN_OUTSIDE (ucast (F_fsn (tx_sn ch)) :: u32) (Z_sn (statem ch))
                           (ucast (L_fsn (tx_sn ch))) \<or> q_count (rtb ch) = 0)
              (steps [(\<lambda>ch. set_Z_sn (ucast (F_fsn (tx_sn ch))) ch),
                      (\<lambda>ch. set_z_ptr (bufq_first (rtb ch)) ch)])]"

definition bsnr_nack :: "ch \<Rightarrow> ch" where
  "bsnr_nack =
     steps [sib_ends,
            (\<lambda>ch. set_N_fib (R_bib (tx_sn ch)) ch),
            (\<lambda>ch. set_N_fsn ((F_fsn (tx_sn ch) - 1) AND sn_mask (statem ch)) ch),
            (\<lambda>ch. set_z_ptr (bufq_first (rtb ch)) ch),
            ifthen (\<lambda>ch. z_ptr (statem ch) \<noteq> None) (set_retrans_cycle True)]"

definition sl_txc_bsnr_and_bibr :: "ch \<Rightarrow> ch" where
  "sl_txc_bsnr_and_bibr =
     steps [(\<lambda>ch. set_R_bsn (rR_bsn (rx_sn ch)) ch),
       (\<lambda>ch. set_R_bib (rR_bib (rx_sn ch)) ch),
       ifelse (\<lambda>ch. clear_rtb (statem ch)) bsnr_clear_rtb
         (steps [ifthen (\<lambda>ch. F_fsn (tx_sn ch) \<noteq> (R_bsn (tx_sn ch) + 1) AND sn_mask (statem ch)) bsnr_ack,
            ifthen (\<lambda>ch. \<not> pcr ch \<and> N_fib (tx_sn ch) \<noteq> R_bib (tx_sn ch)) bsnr_nack])]"

definition sl_txc_sib_received :: "ch \<Rightarrow> ch" where
  "sl_txc_sib_received =
     ifthen (\<lambda>ch. \<not> (ansi_92 ch \<and> lssu_available (statem ch) \<and> tx_sio (tx_sn ch) \<noteq> LSSU_SIB)
               \<and> \<not> (pvar ch \<noteq> SS7_PVAR_ITUT_93 \<and> q_count (rtb ch) = 0))
       (steps [ifthen (\<lambda>ch. \<not> sib_received (statem ch)) (steps [xp_timer_start T6, set_sib_received True]),
               xp_timer_start T7])"

definition sl_txc_clear_rtb :: "nat option \<Rightarrow> ch \<Rightarrow> ch" where
  "sl_txc_clear_rtb mp =
     steps [rtb_purge, set_Ct 0, set_clear_rtb True, set_rtb_full False,
            exec (sl_check_congestion mp)]"

definition sl_txc_clear_tb :: "nat option \<Rightarrow> ch \<Rightarrow> ch" where
  "sl_txc_clear_tb mp =
     steps [tb_purge, sl_flush_wq, set_Cm 0, exec (sl_check_congestion mp)]"

definition sl_txc_flush_buffers :: "ch \<Rightarrow> ch" where
  "sl_txc_flush_buffers =
     steps [rtb_purge,
            set_rtb_full False,
            set_Ct 0,
            tb_purge,
            sl_flush_wq,
            set_Cm 0,
            set_Z_sn 0,
            set_z_ptr None,
            (\<lambda>ch. set_F_fsn ((R_bsn (tx_sn ch) + 1) AND sn_mask (statem ch)) ch),
            (\<lambda>ch. set_Z_sn (ucast (F_fsn (tx_sn ch))) ch),
            (\<lambda>ch. set_L_fsn (rR_bsn (rx_sn ch)) ch),
            (\<lambda>ch. set_rT_fsn (rR_bsn (rx_sn ch)) ch),
            xp_timer_stop T7]"

definition sl_rc_fsnt_value :: "ch \<Rightarrow> ch" where
  "sl_rc_fsnt_value ch = set_rT_fsn (N_fsn (tx_sn ch)) ch"

section \<open>Retrieval\<close>

text \<open>The three loops of \<open>sl_txc_retrieval_request_and_fsnc\<close>.  Each is bounded by the messages in the
  buffer it empties: the first one tests the octet count, which is zero once the buffer is empty.\<close>

fun retr_skip :: "nat \<Rightarrow> u16 \<Rightarrow> ch \<Rightarrow> ch" where
  "retr_skip 0 stop ch = ch"
| "retr_skip (Suc n) stop ch =
     (if q_count (rtb ch) \<noteq> 0 \<and> F_fsn (tx_sn ch) \<noteq> stop then retr_skip n stop (rtb_drop ch) else ch)"

fun retr_join :: "nat \<Rightarrow> ch \<Rightarrow> ch" where
  "retr_join 0 ch = ch"
| "retr_join (Suc n) ch = (case bufq_dequeue (tb ch) of
      (None, _) \<Rightarrow> ch
    | (Some mp, q) \<Rightarrow> retr_join n
        (steps [set_Cm (Cm (statem ch) - 1),
                rtb_update (bufq_queue mp),
                set_Ct (Ct (statem ch) + 1),
                ifthen (\<lambda>ch. Cm (statem ch) = 0) (emit Qenable_wq)] (ch\<lparr>tb := q\<rparr>)))"

fun retr_deliver :: "nat \<Rightarrow> ch \<Rightarrow> errno \<times> ch" where
  "retr_deliver 0 ch = (OK, ch)"
| "retr_deliver (Suc n) ch = (case bufq_dequeue (rtb ch) of
      (None, _) \<Rightarrow> (OK, ch)
    | (Some mp, q) \<Rightarrow> (case sl_retrieved_message_ind mp (set_Ct (Ct (statem ch) - 1) (ch\<lparr>rtb := q\<rparr>)) of
        (OK, ch) \<Rightarrow> retr_deliver n ch
      | (err, ch) \<Rightarrow> (err, ch)))"

declare retr_skip.simps [simp del] retr_join.simps [simp del] retr_deliver.simps [simp del]

definition sl_txc_retrieval_request_and_fsnc :: "nat \<Rightarrow> u32 \<Rightarrow> ch \<Rightarrow> errno \<times> ch" where
  "sl_txc_retrieval_request_and_fsnc rp fsnc ch =
     (let ch = steps [(\<lambda>ch. set_C_fsn (ucast fsnc AND sn_mask (statem ch)) ch),
                      (\<lambda>ch. retr_skip (length (q_list (rtb ch))) (ucast (fsnc + 1) AND sn_mask (statem ch)) ch),
                      (\<lambda>ch. retr_join (length (q_list (tb ch))) ch),
                      (\<lambda>ch. set_F_fsn ((C_fsn (tx_sn ch) + 1) AND sn_mask (statem ch)) ch),
                      (\<lambda>ch. set_Z_sn (ucast (F_fsn (tx_sn ch))) ch)] ch
      in case retr_deliver (length (q_list (rtb ch))) ch of
           (OK, ch) \<Rightarrow> (OK, steps [set_rtb_full False,
                                  sl_retrieval_complete_ind rp,
                                  set_Cm 0,
                                  set_Ct 0,
                                  (\<lambda>ch. set_L_fsn (C_fsn (tx_sn ch)) ch),
                                  (\<lambda>ch. set_N_fsn (L_fsn (tx_sn ch)) ch)] ch)
         | (err, ch) \<Rightarrow> (err, ch))"

section \<open>Signal unit formats\<close>

definition htons :: "u16 \<Rightarrow> u8 list" where
  "htons w = [ucast (drop_bit 8 w), ucast w]"

definition su_header :: "ch \<Rightarrow> int \<Rightarrow> u8 list" where
  "su_header ch li =
     (if xsn ch then
        htons (N_bsn (tx_sn ch) OR N_bib (tx_sn ch)) @
        htons (N_fsn (tx_sn ch) OR N_fib (tx_sn ch)) @
        htons (word_of_int li)
      else [ucast (N_bsn (tx_sn ch) OR N_bib (tx_sn ch)),
            ucast (N_fsn (tx_sn ch) OR N_fib (tx_sn ch)),
            word_of_int li])"

definition sl_daedt_fisu :: "ch \<Rightarrow> u8 list" where
  "sl_daedt_fisu ch = su_header ch 0"

definition sl_daedt_lssu :: "ch \<Rightarrow> u8 list" where
  "sl_daedt_lssu ch = su_header ch 1 @ [tx_sio (tx_sn ch)]"

definition sl_daedt_msu :: "ch \<Rightarrow> msg \<Rightarrow> msg" where
  "sl_daedt_msu ch mp =
     (let len = int (msgdsize mp) in
      if xsn ch then
        mp\<lparr>octets := su_header ch (if len - 6 < 512 then len - 6 else 511) @ drop 6 (octets mp)\<rparr>
      else
        mp\<lparr>octets := su_header ch (if len - 3 < 64 then len - 3 else 63) @ drop 3 (octets mp)\<rparr>)"

section \<open>Transmission request\<close>

text \<open>The assignments every branch makes before it formats a unit with the last sequence number.\<close>

definition txc_fill :: "ch \<Rightarrow> ch" where
  "txc_fill =
     steps [(\<lambda>ch. set_N_fsn (L_fsn (tx_sn ch)) ch),
            (\<lambda>ch. set_N_bsn ((X_fsn (tx_sn ch) - 1) AND sn_mask (statem ch)) ch)]"

text \<open>A unit in a block from the driver's own pool has no message identity above: \<open>mid\<close> 0.\<close>

definition txc_fisu :: "ch \<Rightarrow> msg option \<times> ch" where
  "txc_fisu ch = (case allocb 6 ch of
      (None, ch) \<Rightarrow> (None, ch)
    | (Some _, ch) \<Rightarrow> (let ch = txc_fill ch in (Some \<lparr>mid = 0, octets = sl_daedt_fisu ch\<rparr>, ch)))"

definition txc_lssu :: "ch \<Rightarrow> msg option \<times> ch" where
  "txc_lssu ch = (case allocb 7 ch of
      (None, ch) \<Rightarrow> (None, ch)
    | (Some _, ch) \<Rightarrow>
        (let ch = ifthen (\<lambda>ch. tx_sio (tx_sn ch) = LSSU_SIB)
                    (steps [set_sl_sibs_sent (sl_sibs_sent (stats ch) + 1), set_lssu_available False]) ch;
             ch = txc_fill ch
         in (Some \<lparr>mid = 0, octets = sl_daedt_lssu ch\<rparr>, ch)))"

text \<open>A duplicate shares its data with the original: formatting it also formats the message in the
  retransmission buffer.\<close>

definition shared_write :: "msg \<Rightarrow> bufq \<Rightarrow> bufq" where
  "shared_write mp = q_list_update (map (\<lambda>m. if mid m = mid mp then m\<lparr>octets := octets mp\<rparr> else m))"

fun find_msg :: "nat \<Rightarrow> msg list \<Rightarrow> msg option" where
  "find_msg z [] = None"
| "find_msg z (m # ms) = (if mid m = z then Some m else find_msg z ms)"

fun b_next :: "nat \<Rightarrow> msg list \<Rightarrow> nat option" where
  "b_next z [] = None"
| "b_next z (m # ms) = (if mid m = z then (case ms of [] \<Rightarrow> None | m' # _ \<Rightarrow> Some (mid m')) else b_next z ms)"

text \<open>\<open>dupmsg\<close> of the message a pointer designates: \<open>None\<close> when it fails or the pointer is null.\<close>

definition dupmsg :: "nat option \<Rightarrow> ch \<Rightarrow> msg option \<times> ch" where
  "dupmsg bp ch = (case bp of
      None \<Rightarrow> (None, ch)
    | Some z \<Rightarrow> (case allocb 0 ch of
        (None, ch) \<Rightarrow> (None, ch)
      | (Some _, ch) \<Rightarrow> (find_msg z (q_list (rtb ch)), ch)))"

definition txc_send_dup :: "nat \<Rightarrow> msg \<Rightarrow> ch \<Rightarrow> msg option \<times> ch" where
  "txc_send_dup bp mp ch =
     (let ch = steps [(\<lambda>ch. set_z_ptr (b_next bp (q_list (rtb ch))) ch),
            ifelse pcr
              (steps [(\<lambda>ch. set_N_fsn (ucast (Z_sn (statem ch))) ch),
                      (\<lambda>ch. set_N_bsn ((X_fsn (tx_sn ch) - 1) AND sn_mask (statem ch)) ch),
                      (\<lambda>ch. set_Z_sn ((Z_sn (statem ch) + 1) AND ucast (sn_mask (statem ch))) ch)])
              (steps [(\<lambda>ch. set_N_fsn ((N_fsn (tx_sn ch) + 1) AND sn_mask (statem ch)) ch),
                      (\<lambda>ch. set_N_bsn ((X_fsn (tx_sn ch) - 1) AND sn_mask (statem ch)) ch)])] ch;
          mp = sl_daedt_msu ch mp
      in (Some mp,
          steps [rtb_update (shared_write mp),
                 ifthen (\<lambda>ch. N_fsn (tx_sn ch) = L_fsn (tx_sn ch) \<or> z_ptr (statem ch) = None)
                   (set_retrans_cycle False)] ch))"

definition txc_retransmit :: "ch \<Rightarrow> msg option \<times> ch" where
  "txc_retransmit ch = (case z_ptr (statem ch) of
      Some bp \<Rightarrow> (case dupmsg (Some bp) ch of
          (None, ch) \<Rightarrow> (None, ch)
        | (Some mp, ch) \<Rightarrow> txc_send_dup bp mp ch)
    | None \<Rightarrow>
        if pcr ch then
          (let ch = set_z_ptr (bufq_first (rtb ch)) ch in
           case z_ptr (statem ch) of
             Some bp \<Rightarrow> (case dupmsg (Some bp) ch of
                 (None, ch) \<Rightarrow> (None, ch)
               | (Some mp, ch) \<Rightarrow> txc_send_dup bp mp (set_Z_sn (ucast (F_fsn (tx_sn ch))) ch))
           | None \<Rightarrow> (None, set_Z_sn (ucast (F_fsn (tx_sn ch))) ch))
        else (None, ch))"

definition txc_rtb_limit :: "ch \<Rightarrow> ch" where
  "txc_rtb_limit =
     ifelse pcr
       (ifthen (\<lambda>ch. q_msgs (rtb ch) \<ge> unat (cfg_N1 (config ch)) \<or> q_count (rtb ch) \<ge> unat (cfg_N2 (config ch)))
          (steps [set_rtb_full True, set_forced_retransmission True]))
       (ifthen (\<lambda>ch. q_msgs (rtb ch) \<ge> unat (cfg_N1 (config ch)) \<or> q_count (rtb ch) \<ge> unat (cfg_N2 (config ch))
                   \<or> L_fsn (tx_sn ch) = (F_fsn (tx_sn ch) - 2) AND sn_mask (statem ch))
          (set_rtb_full True))"

definition txc_new_msu :: "ch \<Rightarrow> msg option \<times> ch" where
  "txc_new_msu ch = (case bufq_head (tb ch) of
      None \<Rightarrow> (None, ch)
    | Some mp \<Rightarrow> (case allocb 0 ch of
        (None, ch) \<Rightarrow> (None, ch)
      | (Some _, ch) \<Rightarrow>
          (let ch = steps [
                 (\<lambda>ch. ch\<lparr>tb := snd (bufq_dequeue (tb ch))\<rparr>),
                 (\<lambda>ch. set_Cm (Cm (statem ch) - 1) ch),
                 ifthen (\<lambda>ch. Cm (statem ch) = 0) sl_enable_rq,
                 (\<lambda>ch. set_L_fsn ((L_fsn (tx_sn ch) + 1) AND sn_mask (statem ch)) ch),
                 (\<lambda>ch. set_N_fsn (L_fsn (tx_sn ch)) ch),
                 ifthen (\<lambda>ch. q_count (rtb ch) = 0) (xp_timer_start T7),
                 rtb_update (bufq_queue mp),
                 (\<lambda>ch. set_Ct (Ct (statem ch) + 1) ch),
                 sl_rc_fsnt_value,
                 txc_rtb_limit,
                 (\<lambda>ch. set_N_bsn ((X_fsn (tx_sn ch) - 1) AND sn_mask (statem ch)) ch)] ch;
               mp = sl_daedt_msu ch mp
           in (Some mp, rtb_update (shared_write mp) ch))))"

definition txc_pcr_limits :: "ch \<Rightarrow> ch" where
  "txc_pcr_limits = ifthen pcr
     (steps [ifthen (\<lambda>ch. q_msgs (rtb ch) < unat (cfg_N1 (config ch)) \<and> q_count (rtb ch) < unat (cfg_N2 (config ch)))
          (steps [set_forced_retransmission False, set_rtb_full False]),
        ifthen (\<lambda>ch. q_count (tb ch) \<noteq> 0 \<and> rtb_full (statem ch)) (set_forced_retransmission True)])"

definition sl_txc_transmission_request :: "ch \<Rightarrow> msg option \<times> ch" where
  "sl_txc_transmission_request ch =
     (if txc_state (statem ch) \<noteq> ST_IN_SERVICE then (None, ch)
      else if lssu_available (statem ch) then txc_lssu ch
      else if msu_inhibited (statem ch) then txc_fisu ch
      else
        (let ch = txc_pcr_limits ch in
         if (\<not> pcr ch \<and> retrans_cycle (statem ch))
            \<or> (pcr ch \<and> (forced_retransmission (statem ch)
                          \<or> (q_count (tb ch) = 0 \<and> q_count (rtb ch) \<noteq> 0)))
         then txc_retransmit ch
         else if (\<not> pcr ch \<and> (q_count (tb ch) = 0 \<or> rtb_full (statem ch)))
                 \<or> (pcr ch \<and> q_count (tb ch) = 0 \<and> q_count (rtb ch) = 0)
         then txc_fisu ch
         else txc_new_msu ch))"

section \<open>Messages for transmission\<close>

definition sl_txc_message_for_transmission :: "msg \<Rightarrow> ch \<Rightarrow> ch" where
  "sl_txc_message_for_transmission mp =
     steps [tb_update (bufq_queue mp),
            (\<lambda>ch. set_Cm (Cm (statem ch) + 1) ch),
            exec (sl_check_congestion (Some (mid mp)))]"

definition sl_daedt_start :: "ch \<Rightarrow> ch" where
  "sl_daedt_start =
     steps [set_daedt_state ST_IN_SERVICE,
            sdl_tx_state_update (\<lambda>_. ST_IN_SERVICE),
            sdl_ifflags_update (\<lambda>f. f OR (1 OR 4))]"

definition sl_txc_start :: "ch \<Rightarrow> ch" where
  "sl_txc_start =
     steps [set_forced_retransmission False,
            set_sib_received False,
            set_Ct 0,
            set_rtb_full False,
            set_clear_rtb False,
            ifthen ansi_92 (steps [set_tx_sio LSSU_SIOS, set_lssu_available True]),
            set_msu_inhibited False,
            ifelse xsn
              (steps [set_sn_mask 0x7fff, set_ib_mask 0x8000])
              (steps [set_sn_mask 0x7f, set_ib_mask 0x80]),
            (\<lambda>ch. set_N_fsn (sn_mask (statem ch)) ch),
            (\<lambda>ch. set_L_fsn (N_fsn (tx_sn ch)) ch),
            set_X_fsn 0,
            (\<lambda>ch. set_N_bib (ib_mask (statem ch)) ch),
            (\<lambda>ch. set_N_fib (N_bib (tx_sn ch)) ch),
            set_F_fsn 0,
            set_Cm 0,
            set_Z_sn 0,
            set_z_ptr None,
            ifthen (\<lambda>ch. txc_state (statem ch) = ST_IDLE)
              (steps [ifthen (\<lambda>ch. \<not> ansi_92 ch) (set_lssu_available False), sl_daedt_start]),
            set_txc_state ST_IN_SERVICE]"

section \<open>Definitions as rewrite rules\<close>

text \<open>Unfolded only where the operation is applied to a state.\<close>

lemmas sl_tx_ops [sl_defs] =
  sl_cc_normal_def[THEN fun_cong] sl_rc_stop_def[THEN fun_cong] sl_aerm_stop_def[THEN fun_cong]
  sl_iac_stop_def[THEN fun_cong] sl_txc_send_sios_def[THEN fun_cong] sl_poc_stop_def[THEN fun_cong]
  sl_eim_stop_def[THEN fun_cong] sl_suerm_stop_def[THEN fun_cong] sl_lsc_link_failure_def[THEN
  fun_cong] sl_txc_send_sib_def[THEN fun_cong] sl_txc_send_sipo_def[THEN fun_cong]
  sl_txc_send_sio_def[THEN fun_cong] sl_txc_send_sin_def[THEN fun_cong] sl_txc_send_sie_def[THEN
  fun_cong] sl_txc_send_msu_def[THEN fun_cong] sl_txc_send_fisu_def[THEN fun_cong]
  sl_txc_fsnx_value_def[THEN fun_cong] sl_txc_nack_to_be_sent_def sl_lsc_rtb_cleared_def[THEN
  fun_cong] rtb_purge_def tb_purge_def rb_purge_def rtb_drop_def bufq_first_def
  bsnr_clear_rtb_def[THEN fun_cong] sib_ends_def[THEN fun_cong] bsnr_ack_def[THEN fun_cong]
  bsnr_nack_def[THEN fun_cong] sl_txc_bsnr_and_bibr_def[THEN fun_cong] sl_txc_sib_received_def[THEN
  fun_cong] sl_txc_clear_rtb_def[THEN fun_cong] sl_txc_clear_tb_def[THEN fun_cong]
  sl_txc_flush_buffers_def[THEN fun_cong] sl_rc_fsnt_value_def
  sl_txc_retrieval_request_and_fsnc_def htons_def su_header_def sl_daedt_fisu_def
  sl_daedt_lssu_def sl_daedt_msu_def txc_fill_def[THEN fun_cong] txc_fisu_def txc_lssu_def
  shared_write_def[THEN fun_cong] dupmsg_def txc_send_dup_def txc_retransmit_def
  txc_rtb_limit_def[THEN fun_cong] txc_new_msu_def txc_pcr_limits_def[THEN fun_cong]
  sl_txc_transmission_request_def sl_txc_message_for_transmission_def[THEN fun_cong]
  sl_daedt_start_def[THEN fun_cong] sl_txc_start_def[THEN fun_cong]

end
