(* ===== verification/SL_Link.thy ===== *)
theory SL_Link
  imports SL_Tx
begin

text \<open>
  The remaining state machines of the signalling link, in the order of
  \<open>src/src/drivers/sl_x400p.c\<close>: reception control (RC), congestion control (CC), initial alignment
  control (IAC), processor outage control (POC), link state control (LSC), the alignment, signal unit
  and interval error rate monitors (AERM, SUERM, EIM).
\<close>

section \<open>Reception control: starting, congestion\<close>

definition sl_daedr_start :: "ch \<Rightarrow> ch" where
  "sl_daedr_start =
     steps [set_daedr_state ST_IN_SERVICE,
            sdl_rx_state_update (\<lambda>_. ST_IN_SERVICE),
            sdl_ifflags_update (\<lambda>f. f OR (1 OR 2))]"

definition sl_rc_start :: "ch \<Rightarrow> ch" where
  "sl_rc_start = ifthen (\<lambda>ch. rc_state (statem ch) = ST_IDLE)
     (steps [set_rX_fsn 0,
             (\<lambda>ch. set_rX_fib (ib_mask (statem ch)) ch),
             set_rF_fsn 0,
             (\<lambda>ch. set_rT_fsn (sn_mask (statem ch)) ch),
             set_rtr False,
             ifelse ansi_92 (set_msu_fisu_accepted True) (set_msu_fisu_accepted False),
             set_abnormal_bsnr False,
             set_abnormal_fibr False,
             set_congestion_discard False,
             set_congestion_accept False,
             sl_daedr_start,
             set_rc_state ST_IN_SERVICE])"

definition sl_rc_reject_msu_fisu :: "ch \<Rightarrow> ch" where
  "sl_rc_reject_msu_fisu = set_msu_fisu_accepted False"

definition sl_rc_accept_msu_fisu :: "ch \<Rightarrow> ch" where
  "sl_rc_accept_msu_fisu = set_msu_fisu_accepted True"

definition sl_rc_retrieve_fsnx :: "ch \<Rightarrow> ch" where
  "sl_rc_retrieve_fsnx =
     steps [sl_txc_fsnx_value,
            set_congestion_discard False,
            set_congestion_accept False,
            sl_cc_normal,
            set_rtr False]"

definition sl_rc_align_fsnx :: "ch \<Rightarrow> ch" where
  "sl_rc_align_fsnx = sl_txc_fsnx_value"

definition sl_rc_clear_rb :: "nat \<Rightarrow> ch \<Rightarrow> ch" where
  "sl_rc_clear_rb mp = steps [rb_purge, sl_flush_rq, set_Cr 0, sl_rb_cleared_ind mp]"

definition sl_rc_retrieve_bsnt :: "nat \<Rightarrow> ch \<Rightarrow> ch" where
  "sl_rc_retrieve_bsnt mp =
     steps [(\<lambda>ch. set_rT_bsn ((rX_fsn (rx_sn ch) - 1) AND 0x7F) ch), sl_bsnt_ind mp]"

definition sl_cc_busy :: "ch \<Rightarrow> ch" where
  "sl_cc_busy = ifthen (\<lambda>ch. cc_state (statem ch) = CC_NORMAL)
     (steps [sl_txc_send_sib, xp_timer_start T5, set_cc_state CC_BUSY])"

definition sl_rc_congestion_discard :: "ch \<Rightarrow> ch" where
  "sl_rc_congestion_discard = steps [set_congestion_discard True, sl_cc_busy]"

definition sl_rc_congestion_accept :: "ch \<Rightarrow> ch" where
  "sl_rc_congestion_accept = steps [set_congestion_accept True, sl_cc_busy]"

definition toggle_rX_fib :: "ch \<Rightarrow> ch" where
  "toggle_rX_fib ch = set_rX_fib (if rX_fib (rx_sn ch) \<noteq> 0 then 0 else ib_mask (statem ch)) ch"

definition sl_rc_no_congestion :: "ch \<Rightarrow> ch" where
  "sl_rc_no_congestion =
     steps [set_congestion_discard False,
            set_congestion_accept False,
            sl_cc_normal,
            sl_txc_fsnx_value,
            ifthen (\<lambda>ch. rtr (statem ch)) (steps [sl_txc_nack_to_be_sent, toggle_rX_fib])]"

definition sl_lsc_congestion_discard :: "ch \<Rightarrow> ch" where
  "sl_lsc_congestion_discard = steps [sl_rc_congestion_discard, set_l3_congestion_detect True]"

definition sl_lsc_congestion_accept :: "ch \<Rightarrow> ch" where
  "sl_lsc_congestion_accept = steps [sl_rc_congestion_accept, set_l3_congestion_detect True]"

definition sl_lsc_no_congestion :: "ch \<Rightarrow> ch" where
  "sl_lsc_no_congestion = steps [sl_rc_no_congestion, set_l3_congestion_detect False]"

section \<open>Status indications SIO and SIOS\<close>

definition sl_lsc_sio :: "ch \<Rightarrow> ch" where
  "sl_lsc_sio = ifthen (\<lambda>ch. lsc_state (statem ch) \<notin> {LSC_OUT_OF_SERVICE, LSC_INITIAL_ALIGNMENT})
     (steps [xp_timer_stop T1,
             set_failure_reason SL_FAIL_RECEIVED_SIO,
             sl_out_of_service_ind,
             sl_rc_stop,
             sl_suerm_stop,
             sl_poc_stop,
             sl_txc_send_sios,
             set_emergency False,
             set_local_processor_outage False,
             set_remote_processor_outage False,
             set_lsc_state LSC_OUT_OF_SERVICE])"

definition sl_lsc_alignment_not_possible :: "ch \<Rightarrow> ch" where
  "sl_lsc_alignment_not_possible =
     steps [set_failure_reason SL_FAIL_ALIGNMENT_NOT_POSSIBLE,
            sl_out_of_service_ind,
            sl_rc_stop,
            sl_txc_send_sios,
            set_local_processor_outage False,
            set_emergency False,
            set_lsc_state LSC_OUT_OF_SERVICE,
            (\<lambda>ch. set_sl_fail_align_or_proving (sl_fail_align_or_proving (stats ch) + 1) ch)]"

definition sl_iac_sio :: "ch \<Rightarrow> ch" where
  "sl_iac_sio ch = (case iac_state (statem ch) of
      IAC_NOT_ALIGNED \<Rightarrow>
        steps [xp_timer_stop T2,
               ifelse (\<lambda>ch. emergency (statem ch))
                 (steps [(\<lambda>ch. set_t4v (cfg_t4e (config ch)) ch), sl_txc_send_sie])
                 (steps [(\<lambda>ch. set_t4v (cfg_t4n (config ch)) ch), sl_txc_send_sin]),
               xp_timer_start T3,
               set_iac_state IAC_ALIGNED] ch
    | IAC_PROVING \<Rightarrow>
        steps [xp_timer_stop T4,
               sl_aerm_stop,
               xp_timer_start T3,
               set_iac_state IAC_ALIGNED] ch
    | _ \<Rightarrow> ch)"

definition sl_iac_sios :: "ch \<Rightarrow> ch" where
  "sl_iac_sios = ifthen (\<lambda>ch. iac_state (statem ch) \<in> {IAC_ALIGNED, IAC_PROVING})
     (steps [xp_timer_stop T4,
             sl_lsc_alignment_not_possible,
             sl_aerm_stop,
             xp_timer_stop T3,
             set_emergency False,
             set_iac_state IAC_IDLE])"

definition sl_lsc_sios :: "ch \<Rightarrow> ch" where
  "sl_lsc_sios = ifthen (\<lambda>ch. lsc_state (statem ch) \<in>
       {LSC_ALIGNED_READY, LSC_ALIGNED_NOT_READY, LSC_IN_SERVICE, LSC_PROCESSOR_OUTAGE})
     (steps [ifthen (\<lambda>ch. lsc_state (statem ch) \<in> {LSC_ALIGNED_READY, LSC_ALIGNED_NOT_READY})
               (xp_timer_stop T1),
             set_failure_reason SL_FAIL_RECEIVED_SIOS,
             sl_out_of_service_ind,
             sl_suerm_stop,
             sl_rc_stop,
             sl_poc_stop,
             sl_txc_send_sios,
             set_emergency False,
             set_local_processor_outage False,
             set_remote_processor_outage False,
             set_lsc_state LSC_OUT_OF_SERVICE])"

section \<open>Processor outage\<close>

definition sl_lsc_no_processor_outage :: "ch \<Rightarrow> ch" where
  "sl_lsc_no_processor_outage = ifthen (\<lambda>ch. lsc_state (statem ch) = LSC_PROCESSOR_OUTAGE)
     (steps [set_processor_outage False,
             ifthen (\<lambda>ch. l3_indication_received (statem ch))
               (steps [set_l3_indication_received False,
                       sl_txc_send_msu,
                       set_local_processor_outage False,
                       sl_rc_accept_msu_fisu,
                       set_lsc_state LSC_IN_SERVICE])])"

definition sl_poc_remote_processor_recovered :: "ch \<Rightarrow> ch" where
  "sl_poc_remote_processor_recovered ch = (case poc_state (statem ch) of
      POC_REMOTE \<Rightarrow> steps [sl_remote_processor_recovered_ind, sl_lsc_no_processor_outage,
                                      set_poc_state POC_IDLE] ch
    | POC_BOTH \<Rightarrow> steps [sl_remote_processor_recovered_ind, set_poc_state POC_LOCAL] ch
    | _ \<Rightarrow> ch)"

definition sl_lsc_fisu_msu_received :: "ch \<Rightarrow> ch" where
  "sl_lsc_fisu_msu_received ch = (case lsc_state (statem ch) of
      LSC_ALIGNED_READY \<Rightarrow>
        steps [set_failure_reason 0,
               sl_in_service_ind,
               ifthen (\<lambda>ch. pvar ch = SS7_PVAR_ITUT_93) sl_rc_accept_msu_fisu,
               xp_timer_stop T1,
               sl_txc_send_msu,
               set_lsc_state LSC_IN_SERVICE] ch
    | LSC_ALIGNED_NOT_READY \<Rightarrow>
        steps [set_failure_reason 0,
               sl_in_service_ind,
               xp_timer_stop T1,
               set_lsc_state LSC_PROCESSOR_OUTAGE] ch
    | LSC_PROCESSOR_OUTAGE \<Rightarrow>
        ifelse ansi_92
          (ifthen (\<lambda>ch. remote_processor_outage (statem ch))
             (steps [sl_remote_processor_recovered_ind, set_remote_processor_outage False]))
          sl_poc_remote_processor_recovered ch
    | _ \<Rightarrow> ch)"

definition sl_poc_remote_processor_outage :: "ch \<Rightarrow> ch" where
  "sl_poc_remote_processor_outage ch = (case poc_state (statem ch) of
      POC_IDLE \<Rightarrow> steps [exec (sl_remote_processor_outage_ind None), set_poc_state POC_REMOTE] ch
    | POC_LOCAL \<Rightarrow> steps [exec (sl_remote_processor_outage_ind None), set_poc_state POC_BOTH] ch
    | _ \<Rightarrow> ch)"

definition sl_lsc_sib :: "ch \<Rightarrow> ch" where
  "sl_lsc_sib = ifthen (\<lambda>ch. lsc_state (statem ch) \<in> {LSC_IN_SERVICE, LSC_PROCESSOR_OUTAGE})
     sl_txc_sib_received"

definition sl_lsc_sipo :: "ch \<Rightarrow> ch" where
  "sl_lsc_sipo ch = (case lsc_state (statem ch) of
      LSC_ALIGNED_READY \<Rightarrow>
        ifelse ansi_92
          (steps [xp_timer_stop T1,
                  exec (sl_remote_processor_outage_ind None),
                  set_remote_processor_outage True,
                  set_lsc_state LSC_PROCESSOR_OUTAGE])
          (steps [xp_timer_stop T1,
                  sl_poc_remote_processor_outage,
                  set_lsc_state LSC_PROCESSOR_OUTAGE]) ch
    | LSC_ALIGNED_NOT_READY \<Rightarrow>
        ifelse ansi_92
          (steps [exec (sl_remote_processor_outage_ind None),
                  set_remote_processor_outage True,
                  xp_timer_stop T1,
                  set_lsc_state LSC_PROCESSOR_OUTAGE])
          (steps [sl_poc_remote_processor_outage,
                  xp_timer_stop T1,
                  set_lsc_state LSC_PROCESSOR_OUTAGE]) ch
    | LSC_IN_SERVICE \<Rightarrow>
        ifelse ansi_92
          (steps [sl_txc_send_fisu,
                  exec (sl_remote_processor_outage_ind None),
                  set_remote_processor_outage True,
                  sl_rc_align_fsnx,
                  sl_cc_normal,
                  set_lsc_state LSC_PROCESSOR_OUTAGE])
          (steps [sl_txc_send_fisu,
                  sl_poc_remote_processor_outage,
                  set_processor_outage True,
                  set_lsc_state LSC_PROCESSOR_OUTAGE]) ch
    | LSC_PROCESSOR_OUTAGE \<Rightarrow>
        ifelse ansi_92
          (ifthen (\<lambda>ch. \<not> remote_processor_outage (statem ch))
             (steps [set_remote_processor_outage True, exec (sl_remote_processor_outage_ind None)]))
          sl_poc_remote_processor_outage ch
    | _ \<Rightarrow> ch)"

definition sl_poc_local_processor_outage :: "ch \<Rightarrow> ch" where
  "sl_poc_local_processor_outage ch = (case poc_state (statem ch) of
      POC_IDLE \<Rightarrow> set_poc_state POC_LOCAL ch
    | POC_REMOTE \<Rightarrow> set_poc_state POC_BOTH ch
    | _ \<Rightarrow> ch)"

section \<open>Alignment completes; SIN and SIE\<close>

definition sl_eim_start :: "ch \<Rightarrow> ch" where
  "sl_eim_start =
     steps [set_Ce 0, set_interval_error False, set_su_received False,
            xp_timer_start T8, set_eim_state ST_IN_SERVICE]"

definition sl_suerm_start :: "ch \<Rightarrow> ch" where
  "sl_suerm_start = ifelse hsl sl_eim_start
     (steps [set_Cs 0, set_Ns 0, set_suerm_state ST_IN_SERVICE])"

definition sl_lsc_alignment_complete :: "ch \<Rightarrow> ch" where
  "sl_lsc_alignment_complete = ifthen (\<lambda>ch. lsc_state (statem ch) = LSC_INITIAL_ALIGNMENT)
     (steps [sl_suerm_start,
             xp_timer_start T1,
             ifelse (\<lambda>ch. local_processor_outage (statem ch))
               (steps [ifthen (\<lambda>ch. \<not> ansi_92 ch) sl_poc_local_processor_outage,
                       sl_txc_send_sipo,
                       ifthen (\<lambda>ch. pvar ch \<noteq> SS7_PVAR_ITUT_93) sl_rc_reject_msu_fisu,
                       set_lsc_state LSC_ALIGNED_NOT_READY])
               (steps [sl_txc_send_msu,
                       sl_rc_accept_msu_fisu,
                       set_lsc_state LSC_ALIGNED_READY])])"

text \<open>The common part of \<open>sl_lsc_sin\<close> and \<open>sl_lsc_sie\<close>, which differ in the failure reason.\<close>

definition lsc_aligning_su :: "u32 \<Rightarrow> ch \<Rightarrow> ch" where
  "lsc_aligning_su reason ch = (case lsc_state (statem ch) of
      LSC_IN_SERVICE \<Rightarrow>
        steps [set_failure_reason reason,
               sl_out_of_service_ind,
               sl_suerm_stop,
               sl_rc_stop,
               sl_txc_send_sios,
               set_emergency False,
               set_lsc_state LSC_OUT_OF_SERVICE] ch
    | LSC_PROCESSOR_OUTAGE \<Rightarrow>
        steps [set_failure_reason reason,
               sl_out_of_service_ind,
               sl_suerm_stop,
               sl_rc_stop,
               sl_poc_stop,
               sl_txc_send_sios,
               set_emergency False,
               set_local_processor_outage False,
               set_remote_processor_outage False,
               set_lsc_state LSC_OUT_OF_SERVICE] ch
    | _ \<Rightarrow> ch)"

definition sl_lsc_sin :: "ch \<Rightarrow> ch" where
  "sl_lsc_sin = lsc_aligning_su SL_FAIL_RECEIVED_SIN"

definition sl_aerm_set_ti_to_tie :: "ch \<Rightarrow> ch" where
  "sl_aerm_set_ti_to_tie = ifthen (\<lambda>ch. aerm_state (sdt_sm ch) = ST_IDLE)
     (\<lambda>ch. set_Ti (cfg_Tie (sdt_cfg ch)) ch)"

definition sl_aerm_start :: "ch \<Rightarrow> ch" where
  "sl_aerm_start = steps [set_Ca 0, set_aborted_proving False, set_aerm_state ST_IN_SERVICE]"

definition sl_iac_sin :: "ch \<Rightarrow> ch" where
  "sl_iac_sin ch = (case iac_state (statem ch) of
      IAC_NOT_ALIGNED \<Rightarrow>
        steps [xp_timer_stop T2,
               ifelse (\<lambda>ch. emergency (statem ch))
                 (steps [(\<lambda>ch. set_t4v (cfg_t4e (config ch)) ch), sl_txc_send_sie])
                 (steps [(\<lambda>ch. set_t4v (cfg_t4n (config ch)) ch), sl_txc_send_sin]),
               xp_timer_start T3,
               set_iac_state IAC_ALIGNED] ch
    | IAC_ALIGNED \<Rightarrow>
        steps [xp_timer_stop T3,
               ifthen (\<lambda>ch. t4v (statem ch) = cfg_t4e (config ch)) sl_aerm_set_ti_to_tie,
               sl_aerm_start,
               xp_timer_start T4,
               set_further_proving False,
               set_Cp 0,
               set_iac_state IAC_PROVING] ch
    | _ \<Rightarrow> ch)"

definition sl_lsc_sie :: "ch \<Rightarrow> ch" where
  "sl_lsc_sie = lsc_aligning_su SL_FAIL_RECEIVED_SIE"

definition sl_iac_sie :: "ch \<Rightarrow> ch" where
  "sl_iac_sie ch = (case iac_state (statem ch) of
      IAC_NOT_ALIGNED \<Rightarrow>
        steps [xp_timer_stop T2,
               ifelse (\<lambda>ch. emergency (statem ch))
                 (steps [(\<lambda>ch. set_t4v (cfg_t4e (config ch)) ch), sl_txc_send_sie])
                 (steps [(\<lambda>ch. set_t4v (cfg_t4e (config ch)) ch), sl_txc_send_sin]),
               xp_timer_start T3,
               set_iac_state IAC_ALIGNED] ch
    | IAC_ALIGNED \<Rightarrow>
        steps [(\<lambda>ch. set_t4v (cfg_t4e (config ch)) ch),
               xp_timer_stop T3,
               sl_aerm_set_ti_to_tie,
               sl_aerm_start,
               xp_timer_start T4,
               set_further_proving False,
               set_Cp 0,
               set_iac_state IAC_PROVING] ch
    | IAC_PROVING \<Rightarrow>
        ifthen (\<lambda>ch. t4v (statem ch) \<noteq> cfg_t4e (config ch))
          (steps [xp_timer_stop T4,
                  (\<lambda>ch. set_t4v (cfg_t4e (config ch)) ch),
                  sl_aerm_stop,
                  sl_aerm_set_ti_to_tie,
                  sl_aerm_start,
                  xp_timer_start T4,
                  set_further_proving False]) ch
    | _ \<Rightarrow> ch)"

section \<open>Receive congestion\<close>

definition canput_rq :: "ch \<Rightarrow> bool" where
  "canput_rq ch = (case ch_xp ch of None \<Rightarrow> True | Some x \<Rightarrow> rq_canput x)"

definition canputnext_rq :: "ch \<Rightarrow> bool" where
  "canputnext_rq ch = (case ch_xp ch of None \<Rightarrow> True | Some x \<Rightarrow> rq_canputnext x)"

definition sl_rb_congestion_function :: "ch \<Rightarrow> ch" where
  "sl_rb_congestion_function = ifthen (\<lambda>ch. \<not> l3_congestion_detect (statem ch))
     (ifelse (\<lambda>ch. l2_congestion_detect (statem ch))
        (ifthen (\<lambda>ch. Cr (statem ch) \<le> rb_abate (config ch) \<and> canputnext_rq ch)
           (steps [sl_rc_no_congestion, set_l2_congestion_detect False]))
        (ifelse (\<lambda>ch. Cr (statem ch) \<ge> rb_discard (config ch) \<or> \<not> canput_rq ch)
           (steps [sl_rc_congestion_discard, set_l2_congestion_detect True])
           (ifthen (\<lambda>ch. Cr (statem ch) \<ge> rb_accept (config ch) \<or> \<not> canputnext_rq ch)
              (steps [sl_rc_congestion_accept, set_l2_congestion_detect True]))))"

section \<open>A received signal unit\<close>

text \<open>Octets are read relative to \<open>b_rptr\<close>; the frame checks of the receiver keep the reads within the
  message, and past its end the model reads 0.\<close>

definition rd8 :: "u8 list \<Rightarrow> nat \<Rightarrow> u16" where
  "rd8 bs i = (if i < length bs then ucast (bs ! i) else 0)"

definition rd16 :: "u8 list \<Rightarrow> nat \<Rightarrow> u16" where
  "rd16 bs i = push_bit 8 (rd8 bs i) OR rd8 bs (i + 1)"

text \<open>The header: with extended sequence numbers the C code advances the octet pointer by one after
  reading each 16-bit field, and the model follows it.\<close>

definition rc_parse :: "u8 list \<Rightarrow> ch \<Rightarrow> u8 list \<times> ch" where
  "rc_parse bs ch =
     (let ch = (if xsn ch then
            steps [set_rR_bsn (rd16 bs 0 AND 0x0fff),
                   set_rR_bib (rd16 bs 0 AND 0x8000),
                   set_rR_fsn (rd16 bs 1 AND 0x0fff),
                   set_rR_fib (rd16 bs 1 AND 0x8000),
                   set_rx_len (rd16 bs 2 AND 0x01ff)] ch
          else
            steps [set_rR_bsn (rd8 bs 0 AND 0x7f),
                   set_rR_bib (rd8 bs 0 AND 0x80),
                   set_rR_fsn (rd8 bs 1 AND 0x7f),
                   set_rR_fib (rd8 bs 1 AND 0x80),
                   set_rx_len (rd8 bs 2 AND 0x3f)] ch);
          len = rx_len (rx_sn ch)
      in if len = 1 then (drop 4 bs, set_rx_sio (ucast (rd8 bs 3 AND 0x07)) ch)
         else if len = 2 then (drop 5 bs, set_rx_sio (ucast (rd8 bs 4 AND 0x07)) ch)
         else (drop 3 bs, ch))"

definition rc_lssu :: "ch \<Rightarrow> ch" where
  "rc_lssu ch =
     (let sio = rx_sio (rx_sn ch) in
      if sio = LSSU_SIO then steps [sl_iac_sio, sl_lsc_sio] ch
      else if sio = LSSU_SIN then steps [sl_iac_sin, sl_lsc_sin] ch
      else if sio = LSSU_SIE then steps [sl_iac_sie, sl_lsc_sie] ch
      else if sio = LSSU_SIOS then steps [sl_iac_sios, sl_lsc_sios] ch
      else if sio = LSSU_SIPO then sl_lsc_sipo ch
      else if sio = LSSU_SIB then sl_lsc_sib ch
      else ch)"

definition rc_acked :: "ch \<Rightarrow> ch" where
  "rc_acked ch = set_rF_fsn ((rR_bsn (rx_sn ch) + 1) AND sn_mask (statem ch)) ch"

definition rc_in_sequence :: "ch \<Rightarrow> bool" where
  "rc_in_sequence ch \<longleftrightarrow> rR_fsn (rx_sn ch) = rX_fsn (rx_sn ch) \<and> rx_len (rx_sn ch) > 2"

text \<open>Handing an in-sequence message up; \<open>drop\<close> is what is done when there is no stream.\<close>

definition rc_deliver :: "(ch \<Rightarrow> ch) \<Rightarrow> (ch \<Rightarrow> ch) \<Rightarrow> msg \<Rightarrow> ch \<Rightarrow> ch" where
  "rc_deliver taken dropped mp ch = (case sl_pdu_ind mp ch of
      (OK, ch) \<Rightarrow>
        steps [(\<lambda>ch. set_rX_fsn ((rX_fsn (rx_sn ch) + 1) AND sn_mask (statem ch)) ch),
               taken,
               (\<lambda>ch. set_Cr (Cr (statem ch) + 1) ch),
               ifelse (\<lambda>ch. congestion_accept (statem ch)) sl_cc_busy sl_txc_fsnx_value] ch
    | (_, ch) \<Rightarrow> dropped ch)"

definition rc_pcr :: "msg \<Rightarrow> ch \<Rightarrow> ch" where
  "rc_pcr mp =
     steps [sl_lsc_fisu_msu_received,
       sl_txc_bsnr_and_bibr,
       rc_acked,
       ifelse (\<lambda>ch. \<not> msu_fisu_accepted (statem ch)) (freemsg (Some (mid mp)))
         (steps [sl_rb_congestion_function,
            ifelse (\<lambda>ch. congestion_discard (statem ch)) (steps [sl_cc_busy, freemsg (Some (mid mp))])
              (ifelse rc_in_sequence
                 (rc_deliver id (steps [sl_cc_busy, freemsg (Some (mid mp))]) mp)
                 (freemsg (Some (mid mp))))])]"

definition rc_basic_accepted :: "msg \<Rightarrow> ch \<Rightarrow> ch" where
  "rc_basic_accepted mp =
     steps [sl_lsc_fisu_msu_received,
            sl_txc_bsnr_and_bibr,
            rc_acked,
            ifelse (\<lambda>ch. \<not> msu_fisu_accepted (statem ch)) (freemsg (Some (mid mp)))
              (steps [sl_rb_congestion_function,
                 ifelse (\<lambda>ch. congestion_discard (statem ch))
                   (steps [set_rtr True, freemsg (Some (mid mp)), sl_cc_busy])
                   (ifelse rc_in_sequence
                      (rc_deliver (set_rtr False) (steps [set_rtr True, freemsg (Some (mid mp)), sl_cc_busy]) mp)
                      (ifelse (\<lambda>ch. rR_fsn (rx_sn ch) = (rX_fsn (rx_sn ch) - 1) AND sn_mask (statem ch))
                         (freemsg (Some (mid mp)))
                         (ifelse (\<lambda>ch. congestion_accept (statem ch))
                            (steps [set_rtr True, sl_cc_busy, freemsg (Some (mid mp))])
                            (steps [sl_txc_nack_to_be_sent, set_rtr True, toggle_rX_fib,
                                    freemsg (Some (mid mp))]))))])]"

definition rc_basic :: "msg \<Rightarrow> ch \<Rightarrow> ch" where
  "rc_basic mp ch =
     (if rR_fib (rx_sn ch) = rX_fib (rx_sn ch) then
        if abnormal_fibr (statem ch) then
          if unf (statem ch) then steps [set_abnormal_fibr False, rc_basic_accepted mp] ch
          else steps [set_unf True, freemsg (Some (mid mp))] ch
        else rc_basic_accepted mp ch
      else if abnormal_fibr (statem ch) then
        steps [sl_lsc_link_failure SL_FAIL_ABNORMAL_FIBR, freemsg (Some (mid mp))] ch
      else if rtr (statem ch) then
        steps [set_sl_nacks_received (sl_nacks_received (stats ch) + 1),
               sl_txc_bsnr_and_bibr, rc_acked, freemsg (Some (mid mp))] ch
      else
        steps [set_abnormal_fibr True, set_unf False, freemsg (Some (mid mp))] ch)"

definition rc_msu_fisu :: "msg \<Rightarrow> ch \<Rightarrow> ch" where
  "rc_msu_fisu mp ch =
     (if SN_OUTSIDE ((rF_fsn (rx_sn ch) - 1) AND sn_mask (statem ch)) (rR_bsn (rx_sn ch))
           (rT_fsn (rx_sn ch)) then
        if abnormal_bsnr (statem ch) then
          steps [sl_lsc_link_failure SL_FAIL_ABNORMAL_BSNR, set_rc_state ST_IDLE,
                 freemsg (Some (mid mp))] ch
        else steps [set_abnormal_bsnr True, set_unb False, freemsg (Some (mid mp))] ch
      else if abnormal_bsnr (statem ch) \<and> \<not> unb (statem ch) then
        steps [set_unb True, freemsg (Some (mid mp))] ch
      else
        steps [ifthen (\<lambda>ch. abnormal_bsnr (statem ch)) (set_abnormal_bsnr False),
               ifelse pcr (rc_pcr mp) (rc_basic mp)] ch)"

definition sl_rc_signal_unit :: "msg \<Rightarrow> ch \<Rightarrow> ch" where
  "sl_rc_signal_unit mp ch =
     (if rc_state (statem ch) \<noteq> ST_IN_SERVICE then freemsg (Some (mid mp)) ch
      else
        (let (bs, ch) = rc_parse (octets mp) ch; mp = mp\<lparr>octets := bs\<rparr> in
         if rx_len (rx_sn ch) = 1 \<or> rx_len (rx_sn ch) = 2
         then steps [rc_lssu, freemsg (Some (mid mp))] ch
         else rc_msu_fisu mp ch))"

section \<open>Requests to link state control and initial alignment control\<close>

definition sl_lsc_stop :: "ch \<Rightarrow> ch" where
  "sl_lsc_stop = ifthen (\<lambda>ch. lsc_state (statem ch) \<noteq> LSC_OUT_OF_SERVICE)
     (steps [sl_iac_stop,
             xp_timer_stop T1,
             sl_rc_stop,
             sl_suerm_stop,
             sl_poc_stop,
             sl_txc_send_sios,
             set_emergency False,
             set_local_processor_outage False,
             set_remote_processor_outage False,
             set_lsc_state LSC_OUT_OF_SERVICE])"

definition sl_lsc_clear_rtb :: "nat \<Rightarrow> ch \<Rightarrow> ch" where
  "sl_lsc_clear_rtb mp = ifelse (\<lambda>ch. lsc_state (statem ch) = LSC_PROCESSOR_OUTAGE)
     (steps [set_local_processor_outage False, sl_txc_send_fisu, sl_txc_clear_rtb (Some mp)])
     (freemsg (Some mp))"

definition sl_iac_correct_su :: "ch \<Rightarrow> ch" where
  "sl_iac_correct_su = ifthen (\<lambda>ch. iac_state (statem ch) = IAC_PROVING \<and> further_proving (statem ch))
     (steps [xp_timer_stop T4, sl_aerm_start, xp_timer_start T4, set_further_proving False])"

definition sl_iac_abort_proving :: "ch \<Rightarrow> ch" where
  "sl_iac_abort_proving = ifthen (\<lambda>ch. iac_state (statem ch) = IAC_PROVING)
     (steps [(\<lambda>ch. set_Cp (Cp (statem ch) + 1) ch),
             ifelse (\<lambda>ch. Cp (statem ch) = cfg_M (config ch))
               (steps [sl_lsc_alignment_not_possible,
                       xp_timer_stop T4,
                       sl_aerm_stop,
                       set_emergency False,
                       set_iac_state IAC_IDLE])
               (set_further_proving True)])"

definition sl_lsc_clear_buffers :: "nat \<Rightarrow> ch \<Rightarrow> ch" where
  "sl_lsc_clear_buffers mp ch = (case lsc_state (statem ch) of
      LSC_OUT_OF_SERVICE \<Rightarrow>
        ifthen ansi_92 (steps [exec (sl_rtb_cleared_ind (Some mp)), set_local_processor_outage False]) ch
    | LSC_INITIAL_ALIGNMENT \<Rightarrow>
        ifthen ansi_92 (steps [exec (sl_rtb_cleared_ind (Some mp)), set_local_processor_outage False]) ch
    | LSC_ALIGNED_NOT_READY \<Rightarrow>
        ifthen ansi_92
          (steps [exec (sl_rtb_cleared_ind (Some mp)),
                  set_local_processor_outage False,
                  sl_txc_send_fisu,
                  set_lsc_state LSC_ALIGNED_READY]) ch
    | LSC_PROCESSOR_OUTAGE \<Rightarrow>
        ifelse ansi_92
          (steps [set_local_processor_outage False,
                  sl_rc_clear_rb mp,
                  sl_rc_accept_msu_fisu,
                  sl_txc_send_fisu,
                  sl_txc_clear_tb None,
                  sl_txc_clear_rtb None])
          (steps [sl_txc_flush_buffers,
                  set_l3_indication_received True,
                  ifthen (\<lambda>ch. \<not> processor_outage (statem ch))
                    (steps [set_l3_indication_received False,
                            sl_txc_send_msu,
                            set_local_processor_outage False,
                            sl_rc_accept_msu_fisu,
                            set_lsc_state LSC_IN_SERVICE])]) ch
    | _ \<Rightarrow> freemsg (Some mp) ch)"

definition sl_lsc_continue :: "ch \<Rightarrow> ch" where
  "sl_lsc_continue = ifthen (\<lambda>ch. lsc_state (statem ch) = LSC_PROCESSOR_OUTAGE)
     (steps [set_l3_indication_received True,
             ifthen (\<lambda>ch. \<not> processor_outage (statem ch))
               (steps [set_l3_indication_received False,
                       sl_txc_send_msu,
                       set_local_processor_outage False,
                       sl_rc_accept_msu_fisu,
                       set_lsc_state LSC_IN_SERVICE])])"

definition sl_poc_local_processor_recovered :: "ch \<Rightarrow> ch" where
  "sl_poc_local_processor_recovered ch = (case poc_state (statem ch) of
      POC_LOCAL \<Rightarrow> steps [sl_lsc_no_processor_outage, set_poc_state POC_IDLE] ch
    | POC_BOTH \<Rightarrow> set_poc_state POC_REMOTE ch
    | _ \<Rightarrow> ch)"

definition sl_lsc_local_processor_recovered :: "nat \<Rightarrow> ch \<Rightarrow> errno \<times> ch" where
  "sl_lsc_local_processor_recovered mp ch = (case lsc_state (statem ch) of
      LSC_OUT_OF_SERVICE \<Rightarrow> (OK, steps [set_local_processor_outage False, freemsg (Some mp)] ch)
    | LSC_INITIAL_ALIGNMENT \<Rightarrow> (OK, steps [set_local_processor_outage False, freemsg (Some mp)] ch)
    | LSC_ALIGNED_NOT_READY \<Rightarrow>
        (OK, steps [ifthen (\<lambda>ch. \<not> ansi_92 ch) sl_poc_local_processor_recovered,
                    set_local_processor_outage False,
                    sl_txc_send_fisu,
                    ifthen (\<lambda>ch. pvar ch = SS7_PVAR_ITUT_96) sl_rc_accept_msu_fisu,
                    set_lsc_state LSC_ALIGNED_READY,
                    freemsg (Some mp)] ch)
    | LSC_PROCESSOR_OUTAGE \<Rightarrow>
        if \<not> ansi_92 ch then
          (OK, steps [sl_poc_local_processor_recovered,
                      sl_rc_retrieve_fsnx,
                      ifthen (\<lambda>ch. poc_state (statem ch) \<noteq> POC_IDLE) sl_txc_send_fisu,
                      freemsg (Some mp)] ch)
        else
          (let ch = steps [set_local_processor_outage False, sl_rc_accept_msu_fisu] ch in
           if remote_processor_outage (statem ch) then
             sl_remote_processor_outage_ind (Some mp) (sl_txc_send_fisu ch)
           else (OK, steps [sl_txc_send_msu, set_lsc_state LSC_IN_SERVICE, freemsg (Some mp)] ch))
    | _ \<Rightarrow> (OK, freemsg (Some mp) ch))"

definition sl_lsc_local_processor_outage :: "ch \<Rightarrow> ch" where
  "sl_lsc_local_processor_outage ch = (case lsc_state (statem ch) of
      LSC_OUT_OF_SERVICE \<Rightarrow> set_local_processor_outage True ch
    | LSC_INITIAL_ALIGNMENT \<Rightarrow> set_local_processor_outage True ch
    | LSC_ALIGNED_READY \<Rightarrow>
        steps [ifelse ansi_92 (set_local_processor_outage True) sl_poc_local_processor_outage,
               sl_txc_send_sipo,
               ifthen (\<lambda>ch. pvar ch \<noteq> SS7_PVAR_ITUT_93) sl_rc_reject_msu_fisu,
               set_lsc_state LSC_ALIGNED_NOT_READY] ch
    | LSC_IN_SERVICE \<Rightarrow>
        steps [ifelse ansi_92 (set_local_processor_outage True)
                 (steps [sl_poc_local_processor_outage, set_processor_outage True]),
               sl_txc_send_sipo,
               sl_rc_reject_msu_fisu,
               ifthen ansi_92 (steps [sl_rc_align_fsnx, sl_cc_normal]),
               set_lsc_state LSC_PROCESSOR_OUTAGE] ch
    | LSC_PROCESSOR_OUTAGE \<Rightarrow>
        steps [ifelse ansi_92 (set_local_processor_outage True) sl_poc_local_processor_outage,
               sl_txc_send_sipo] ch
    | _ \<Rightarrow> ch)"

definition sl_iac_emergency :: "ch \<Rightarrow> ch" where
  "sl_iac_emergency ch = (case iac_state (statem ch) of
      IAC_PROVING \<Rightarrow>
        steps [sl_txc_send_sie,
               xp_timer_stop T4,
               (\<lambda>ch. set_t4v (cfg_t4e (config ch)) ch),
               sl_aerm_stop,
               sl_aerm_set_ti_to_tie,
               sl_aerm_start,
               xp_timer_start T4,
               set_further_proving False] ch
    | IAC_ALIGNED \<Rightarrow> steps [sl_txc_send_sie, (\<lambda>ch. set_t4v (cfg_t4e (config ch)) ch)] ch
    | IAC_IDLE \<Rightarrow> set_emergency True ch
    | IAC_NOT_ALIGNED \<Rightarrow> set_emergency True ch)"

definition sl_lsc_emergency :: "ch \<Rightarrow> ch" where
  "sl_lsc_emergency = steps [set_emergency True, sl_iac_emergency]"

definition sl_lsc_emergency_ceases :: "ch \<Rightarrow> ch" where
  "sl_lsc_emergency_ceases = set_emergency False"

definition sl_iac_start :: "ch \<Rightarrow> ch" where
  "sl_iac_start = ifthen (\<lambda>ch. iac_state (statem ch) = IAC_IDLE)
     (steps [sl_txc_send_sio, xp_timer_start T2, set_iac_state IAC_NOT_ALIGNED])"

definition sl_lsc_start :: "ch \<Rightarrow> ch" where
  "sl_lsc_start = ifthen (\<lambda>ch. lsc_state (statem ch) = LSC_OUT_OF_SERVICE)
     (steps [sl_rc_start,
             sl_txc_start,
             ifthen (\<lambda>ch. emergency (statem ch)) sl_iac_emergency,
             sl_iac_start,
             set_lsc_state LSC_INITIAL_ALIGNMENT])"

definition sl_lsc_retrieve_bsnt :: "nat \<Rightarrow> ch \<Rightarrow> ch" where
  "sl_lsc_retrieve_bsnt mp =
     ifelse (\<lambda>ch. lsc_state (statem ch) \<in> {LSC_OUT_OF_SERVICE, LSC_PROCESSOR_OUTAGE})
       (sl_rc_retrieve_bsnt mp) (freemsg (Some mp))"

definition sl_lsc_retrieval_request_and_fsnc :: "nat \<Rightarrow> u32 \<Rightarrow> ch \<Rightarrow> errno \<times> ch" where
  "sl_lsc_retrieval_request_and_fsnc mp fsnc =
     ifelse (\<lambda>ch. lsc_state (statem ch) \<in> {LSC_OUT_OF_SERVICE, LSC_PROCESSOR_OUTAGE})
       (sl_txc_retrieval_request_and_fsnc mp fsnc) (\<lambda>ch. (OK, freemsg (Some mp) ch))"

definition sl_aerm_set_ti_to_tin :: "ch \<Rightarrow> ch" where
  "sl_aerm_set_ti_to_tin = ifthen (\<lambda>ch. aerm_state (sdt_sm ch) = ST_IDLE)
     (\<lambda>ch. set_Ti (cfg_Tin (sdt_cfg ch)) ch)"

definition sl_lsc_power_on :: "ch \<Rightarrow> ch" where
  "sl_lsc_power_on = ifthen (\<lambda>ch. lsc_state (statem ch) = LSC_POWER_OFF)
     (steps [sl_txc_start,
             sl_txc_send_sios,
             sl_aerm_set_ti_to_tin,
             set_local_processor_outage False,
             set_emergency False,
             set_lsc_state LSC_OUT_OF_SERVICE])"

section \<open>Error rate monitors\<close>

definition sl_aerm_su_in_error :: "ch \<Rightarrow> ch" where
  "sl_aerm_su_in_error = ifthen (\<lambda>ch. aerm_state (sdt_sm ch) = ST_IN_SERVICE)
     (steps [(\<lambda>ch. set_Ca (Ca (sdt_sm ch) + 1) ch),
             ifthen (\<lambda>ch. Ca (sdt_sm ch) = Ti (sdt_sm ch))
               (steps [set_aborted_proving True,
                       sl_iac_abort_proving,
                       (\<lambda>ch. set_Ca (Ca (sdt_sm ch) - 1) ch),
                       set_aerm_state ST_IDLE])])"

definition sl_aerm_correct_su :: "ch \<Rightarrow> ch" where
  "sl_aerm_correct_su =
     ifthen (\<lambda>ch. aerm_state (sdt_sm ch) = ST_IDLE \<and> aborted_proving (sdt_sm ch))
       (steps [sl_iac_correct_su, set_aborted_proving False])"

text \<open>The leak of the SUERM counter after \<open>D\<close> signal units.\<close>

definition suerm_count_su :: "ch \<Rightarrow> ch" where
  "suerm_count_su =
     steps [(\<lambda>ch. set_Ns (Ns (sdt_sm ch) + 1) ch),
            ifthen (\<lambda>ch. Ns (sdt_sm ch) \<ge> cfg_D (sdt_cfg ch))
              (steps [set_Ns 0,
                 ifthen (\<lambda>ch. Cs (sdt_sm ch) \<noteq> 0) (\<lambda>ch. set_Cs (Cs (sdt_sm ch) - 1) ch)])]"

text \<open>\<open>Cs >= T\<close> compares an \<open>sdt_long\<close> with an \<open>sdt_ulong\<close>: both sides are unsigned.\<close>

definition sl_suerm_su_in_error :: "ch \<Rightarrow> ch" where
  "sl_suerm_su_in_error = ifthen (\<lambda>ch. suerm_state (sdt_sm ch) = ST_IN_SERVICE)
     (steps [(\<lambda>ch. set_Cs (Cs (sdt_sm ch) + 1) ch),
             ifelse (\<lambda>ch. Cs (sdt_sm ch) \<ge> cfg_T (sdt_cfg ch))
               (steps [sl_lsc_link_failure SL_FAIL_SUERM_EIM,
                       (\<lambda>ch. set_Ca (Ca (sdt_sm ch) - 1) ch),
                       set_suerm_state ST_IDLE])
               suerm_count_su])"

definition sl_eim_su_in_error :: "ch \<Rightarrow> ch" where
  "sl_eim_su_in_error = ifthen (\<lambda>ch. eim_state (sdt_sm ch) = ST_IN_SERVICE) (set_interval_error True)"

definition sl_suerm_correct_su :: "ch \<Rightarrow> ch" where
  "sl_suerm_correct_su = ifthen (\<lambda>ch. suerm_state (sdt_sm ch) = ST_IN_SERVICE) suerm_count_su"

definition sl_eim_correct_su :: "ch \<Rightarrow> ch" where
  "sl_eim_correct_su = ifthen (\<lambda>ch. eim_state (sdt_sm ch) = ST_IN_SERVICE) (set_su_received True)"

definition sl_daedr_correct_su :: "ch \<Rightarrow> ch" where
  "sl_daedr_correct_su = steps [sl_eim_correct_su, sl_suerm_correct_su, sl_aerm_correct_su]"

definition sl_daedr_su_in_error :: "ch \<Rightarrow> ch" where
  "sl_daedr_su_in_error = ifelse (\<lambda>ch. lsc_state (statem ch) \<noteq> LSC_POWER_OFF)
     (steps [sl_eim_su_in_error, sl_suerm_su_in_error, sl_aerm_su_in_error])
     (rx_cmp_update (\<lambda>_. None))"

section \<open>Definitions as rewrite rules\<close>

text \<open>Unfolded only where the operation is applied to a state.\<close>

lemmas sl_link_ops [sl_defs] =
  sl_daedr_start_def[THEN fun_cong] sl_rc_start_def[THEN fun_cong] sl_rc_reject_msu_fisu_def[THEN
  fun_cong] sl_rc_accept_msu_fisu_def[THEN fun_cong] sl_rc_retrieve_fsnx_def[THEN fun_cong]
  sl_rc_align_fsnx_def[THEN fun_cong] sl_rc_clear_rb_def[THEN fun_cong] sl_rc_retrieve_bsnt_def[THEN
  fun_cong] sl_cc_busy_def[THEN fun_cong] sl_rc_congestion_discard_def[THEN fun_cong]
  sl_rc_congestion_accept_def[THEN fun_cong] toggle_rX_fib_def sl_rc_no_congestion_def[THEN
  fun_cong] sl_lsc_congestion_discard_def[THEN fun_cong] sl_lsc_congestion_accept_def[THEN fun_cong]
  sl_lsc_no_congestion_def[THEN fun_cong] sl_lsc_sio_def[THEN fun_cong]
  sl_lsc_alignment_not_possible_def[THEN fun_cong] sl_iac_sio_def sl_iac_sios_def[THEN fun_cong]
  sl_lsc_sios_def[THEN fun_cong] sl_lsc_no_processor_outage_def[THEN fun_cong]
  sl_poc_remote_processor_recovered_def sl_lsc_fisu_msu_received_def
  sl_poc_remote_processor_outage_def sl_lsc_sib_def[THEN fun_cong] sl_lsc_sipo_def
  sl_poc_local_processor_outage_def sl_eim_start_def[THEN fun_cong] sl_suerm_start_def[THEN
  fun_cong] sl_lsc_alignment_complete_def[THEN fun_cong] lsc_aligning_su_def sl_lsc_sin_def[THEN
  fun_cong] sl_aerm_set_ti_to_tie_def[THEN fun_cong] sl_aerm_start_def[THEN fun_cong] sl_iac_sin_def
  sl_lsc_sie_def[THEN fun_cong] sl_iac_sie_def canput_rq_def canputnext_rq_def
  sl_rb_congestion_function_def[THEN fun_cong] rd8_def rd16_def rc_parse_def rc_lssu_def
  rc_acked_def rc_in_sequence_def rc_deliver_def rc_pcr_def[THEN fun_cong]
  rc_basic_accepted_def[THEN fun_cong] rc_basic_def rc_msu_fisu_def sl_rc_signal_unit_def
  sl_lsc_stop_def[THEN fun_cong] sl_lsc_clear_rtb_def[THEN fun_cong] sl_iac_correct_su_def[THEN
  fun_cong] sl_iac_abort_proving_def[THEN fun_cong] sl_lsc_clear_buffers_def
  sl_lsc_continue_def[THEN fun_cong] sl_poc_local_processor_recovered_def
  sl_lsc_local_processor_recovered_def sl_lsc_local_processor_outage_def sl_iac_emergency_def
  sl_lsc_emergency_def[THEN fun_cong] sl_lsc_emergency_ceases_def[THEN fun_cong]
  sl_iac_start_def[THEN fun_cong] sl_lsc_start_def[THEN fun_cong] sl_lsc_retrieve_bsnt_def[THEN
  fun_cong] sl_lsc_retrieval_request_and_fsnc_def[THEN fun_cong] sl_aerm_set_ti_to_tin_def[THEN
  fun_cong] sl_lsc_power_on_def[THEN fun_cong] sl_aerm_su_in_error_def[THEN fun_cong]
  sl_aerm_correct_su_def[THEN fun_cong] suerm_count_su_def[THEN fun_cong]
  sl_suerm_su_in_error_def[THEN fun_cong] sl_eim_su_in_error_def[THEN fun_cong]
  sl_suerm_correct_su_def[THEN fun_cong] sl_eim_correct_su_def[THEN fun_cong]
  sl_daedr_correct_su_def[THEN fun_cong] sl_daedr_su_in_error_def[THEN fun_cong]

end
