(* ===== verification/SL_Events.thy ===== *)
theory SL_Events
  imports SL_Link
begin

text \<open>
  The entry points of the signalling link: messages and requests from level 3 (\<open>sl_pdu_req\<close> to
  \<open>sl_power_on_req\<close>, dispatched by \<open>__sl_w_proto_slow\<close>), frames and errors from the receiver
  (\<open>sl_daedr_received_bits\<close>, \<open>sl_daedr_su_in_error\<close>), transmission requests
  (\<open>sl_daedt_transmission_request\<close>) and timer expiries (\<open>xp_t1_timeout\<close> to \<open>xp_expiry\<close>).  \<open>sl_step\<close> is one
  such event and \<open>sl_run\<close> a sequence of them.
\<close>

section \<open>Messages from level 3\<close>

text \<open>A message with a PDU: \<open>M_DATA\<close> blocks, with the octets in front of the read pointer of the first one;
  or an \<open>M_PROTO\<close> block, with the memory of that block and the data behind it.\<close>

datatype pdu =
    Pdu_data nat "u8 list" "u8 list"
  | Pdu_proto nat "u8 list" "u8 list option"

definition hlen :: "ch \<Rightarrow> nat" where
  "hlen ch = (if xsn ch then 6 else 3)"

definition sl_lsc_pdu :: "pdu \<Rightarrow> ch \<Rightarrow> errno \<times> ch" where
  "sl_lsc_pdu p ch =
     (if q_count (tb ch) > 1024 then (ENOBUFS, ch)
      else (case p of
          Pdu_proto m block None \<Rightarrow> (EFAULT, ch)
        | Pdu_proto m block (Some dp) \<Rightarrow>
            (OK, sl_txc_message_for_transmission
                   \<lparr>mid = m, octets = take (hlen ch) (block @ replicate (hlen ch) 0) @ dp\<rparr> ch)
        | Pdu_data m room dp \<Rightarrow>
            if length room \<ge> hlen ch then
              (OK, sl_txc_message_for_transmission
                     \<lparr>mid = m, octets = drop (length room - hlen ch) room @ dp\<rparr> ch)
            else (case allocb (hlen ch) ch of
                (Some h, ch) \<Rightarrow> (OK, sl_txc_message_for_transmission \<lparr>mid = m, octets = h @ dp\<rparr> ch)
              | (None, ch) \<Rightarrow> (ENOBUFS, ch))))"

definition pdu_mid :: "pdu \<Rightarrow> nat" where
  "pdu_mid p = (case p of Pdu_data m _ _ \<Rightarrow> m | Pdu_proto m _ _ \<Rightarrow> m)"

definition pdu_msg :: "pdu \<Rightarrow> msg" where
  "pdu_msg p = (case p of
      Pdu_data m room dp \<Rightarrow> \<lparr>mid = m, octets = dp\<rparr>
    | Pdu_proto m block dp \<Rightarrow> \<lparr>mid = m, octets = (case dp of None \<Rightarrow> [] | Some d \<Rightarrow> d)\<rparr>)"

text \<open>\<open>M_DATA\<close> from above, with the interface state already checked.  A message that is not taken
  (\<open>err\<close>) goes back on the write queue.\<close>

definition xp_send_data :: "pdu \<Rightarrow> ch \<Rightarrow> errno \<times> ch" where
  "xp_send_data p ch =
     (if lsc_state (statem ch) \<noteq> LSC_POWER_OFF then sl_lsc_pdu p ch
      else if daedt_state (sdt_sm ch) \<noteq> ST_IDLE then
        if q_count (sdt_tb ch) > 1024 then (EBUSY, ch)
        else (OK, ch\<lparr>sdt_tb := bufq_queue (pdu_msg p) (sdt_tb ch)\<rparr>)
      else if sdl_tx_state ch \<noteq> ST_IDLE then
        if q_count (sdl_tb ch) > 64 then (EBUSY, ch)
        else (OK, ch\<lparr>sdl_tb := bufq_queue (pdu_msg p) (sdl_tb ch)\<rparr>)
      else (OK, freemsg (Some (pdu_mid p)) ch))"

section \<open>Requests from level 3\<close>

datatype sl_req =
    SL_EMERGENCY_REQ
  | SL_EMERGENCY_CEASES_REQ
  | SL_START_REQ
  | SL_STOP_REQ
  | SL_RETRIEVE_BSNT_REQ
  | SL_RETRIEVAL_REQUEST_AND_FSNC_REQ "u32 option"
  | SL_CLEAR_BUFFERS_REQ
  | SL_CLEAR_RTB_REQ
  | SL_CONTINUE_REQ
  | SL_LOCAL_PROCESSOR_OUTAGE_REQ
  | SL_RESUME_REQ
  | SL_CONGESTION_DISCARD_REQ
  | SL_CONGESTION_ACCEPT_REQ
  | SL_NO_CONGESTION_REQ
  | SL_POWER_ON_REQ

definition sl_pdu_req :: "pdu \<Rightarrow> ch \<Rightarrow> errno \<times> ch" where
  "sl_pdu_req p ch = sl_lsc_pdu p ch"

definition sl_emergency_req :: "nat \<Rightarrow> ch \<Rightarrow> errno \<times> ch" where
  "sl_emergency_req mp ch = (OK, steps [sl_lsc_emergency, freemsg (Some mp)] ch)"

definition sl_emergency_ceases_req :: "nat \<Rightarrow> ch \<Rightarrow> errno \<times> ch" where
  "sl_emergency_ceases_req mp ch = (OK, steps [sl_lsc_emergency_ceases, freemsg (Some mp)] ch)"

definition sl_start_req :: "nat \<Rightarrow> ch \<Rightarrow> errno \<times> ch" where
  "sl_start_req mp ch = (OK, steps [sl_lsc_start, freemsg (Some mp)] ch)"

definition sl_stop_req :: "nat \<Rightarrow> ch \<Rightarrow> errno \<times> ch" where
  "sl_stop_req mp ch = (OK, steps [sl_lsc_stop, freemsg (Some mp)] ch)"

definition sl_retrieve_bsnt_req :: "nat \<Rightarrow> ch \<Rightarrow> errno \<times> ch" where
  "sl_retrieve_bsnt_req mp ch = (OK, sl_lsc_retrieve_bsnt mp ch)"

text \<open>\<open>None\<close> is a request too short to hold its FSNC.\<close>

definition sl_retrieval_request_and_fsnc_req :: "nat \<Rightarrow> u32 option \<Rightarrow> ch \<Rightarrow> errno \<times> ch" where
  "sl_retrieval_request_and_fsnc_req mp fsnc ch = (case fsnc of
      None \<Rightarrow> (EMSGSIZE, ch)
    | Some f \<Rightarrow> sl_lsc_retrieval_request_and_fsnc mp f ch)"

definition sl_clear_buffers_req :: "nat \<Rightarrow> ch \<Rightarrow> errno \<times> ch" where
  "sl_clear_buffers_req mp ch = (OK, sl_lsc_clear_buffers mp ch)"

definition sl_clear_rtb_req :: "nat \<Rightarrow> ch \<Rightarrow> errno \<times> ch" where
  "sl_clear_rtb_req mp ch = (OK, sl_lsc_clear_rtb mp ch)"

definition sl_continue_req :: "nat \<Rightarrow> ch \<Rightarrow> errno \<times> ch" where
  "sl_continue_req mp ch = (OK, steps [sl_lsc_continue, freemsg (Some mp)] ch)"

definition sl_local_processor_outage_req :: "nat \<Rightarrow> ch \<Rightarrow> errno \<times> ch" where
  "sl_local_processor_outage_req mp ch = (OK, steps [sl_lsc_local_processor_outage, freemsg (Some mp)] ch)"

definition sl_resume_req :: "nat \<Rightarrow> ch \<Rightarrow> errno \<times> ch" where
  "sl_resume_req mp = sl_lsc_local_processor_recovered mp"

definition sl_congestion_discard_req :: "nat \<Rightarrow> ch \<Rightarrow> errno \<times> ch" where
  "sl_congestion_discard_req mp ch = (OK, steps [sl_lsc_congestion_discard, freemsg (Some mp)] ch)"

definition sl_congestion_accept_req :: "nat \<Rightarrow> ch \<Rightarrow> errno \<times> ch" where
  "sl_congestion_accept_req mp ch = (OK, steps [sl_lsc_congestion_accept, freemsg (Some mp)] ch)"

definition sl_no_congestion_req :: "nat \<Rightarrow> ch \<Rightarrow> errno \<times> ch" where
  "sl_no_congestion_req mp ch = (OK, steps [sl_lsc_no_congestion, freemsg (Some mp)] ch)"

definition sl_power_on_req :: "nat \<Rightarrow> ch \<Rightarrow> errno \<times> ch" where
  "sl_power_on_req mp ch = (OK, steps [sl_lsc_power_on, freemsg (Some mp)] ch)"

text \<open>The dispatch of \<open>__sl_w_proto_slow\<close> on an enabled interface.\<close>

fun sl_w_proto :: "sl_req \<Rightarrow> nat \<Rightarrow> ch \<Rightarrow> errno \<times> ch" where
  "sl_w_proto SL_EMERGENCY_REQ mp = sl_emergency_req mp"
| "sl_w_proto SL_EMERGENCY_CEASES_REQ mp = sl_emergency_ceases_req mp"
| "sl_w_proto SL_START_REQ mp = sl_start_req mp"
| "sl_w_proto SL_STOP_REQ mp = sl_stop_req mp"
| "sl_w_proto SL_RETRIEVE_BSNT_REQ mp = sl_retrieve_bsnt_req mp"
| "sl_w_proto (SL_RETRIEVAL_REQUEST_AND_FSNC_REQ f) mp = sl_retrieval_request_and_fsnc_req mp f"
| "sl_w_proto SL_CLEAR_BUFFERS_REQ mp = sl_clear_buffers_req mp"
| "sl_w_proto SL_CLEAR_RTB_REQ mp = sl_clear_rtb_req mp"
| "sl_w_proto SL_CONTINUE_REQ mp = sl_continue_req mp"
| "sl_w_proto SL_LOCAL_PROCESSOR_OUTAGE_REQ mp = sl_local_processor_outage_req mp"
| "sl_w_proto SL_RESUME_REQ mp = sl_resume_req mp"
| "sl_w_proto SL_CONGESTION_DISCARD_REQ mp = sl_congestion_discard_req mp"
| "sl_w_proto SL_CONGESTION_ACCEPT_REQ mp = sl_congestion_accept_req mp"
| "sl_w_proto SL_NO_CONGESTION_REQ mp = sl_no_congestion_req mp"
| "sl_w_proto SL_POWER_ON_REQ mp = sl_power_on_req mp"

section \<open>Frames\<close>

text \<open>Below power-on the channel is a signalling terminal: short frames that repeat are counted, others
  are passed up.\<close>

definition sdt_received_bits :: "msg \<Rightarrow> ch \<Rightarrow> ch" where
  "sdt_received_bits mp ch =
     (let mlen = (if xsn ch then 8 else 5); len = msgdsize mp in
      if (case rx_cmp ch of None \<Rightarrow> False | Some c \<Rightarrow> len \<le> mlen \<and> len = length c \<and> octets mp = c) then
        steps [rx_repeat_update (\<lambda>n. n + 1),
               set_rx_sus_compressed (rx_sus_compressed (sdt_st ch) + 1),
               freemsg (Some (mid mp))] ch
      else
        (let ch = ifthen (\<lambda>ch. rx_cmp ch \<noteq> None \<and> rx_repeat ch \<noteq> 0) (rx_repeat_update (\<lambda>_. 0)) ch;
             ch = (if len \<le> mlen then
                     if rx_cmp ch \<noteq> None then ch\<lparr>rx_cmp := Some (octets mp), rx_repeat := 0\<rparr>
                     else (case allocb mlen ch of
                         (Some _, ch) \<Rightarrow> ch\<lparr>rx_cmp := Some (octets mp), rx_repeat := 0\<rparr>
                       | (None, ch) \<Rightarrow> ch)
                   else ch)
         in case sdt_rc_signal_unit_ind mp 1 ch of
              (OK, ch) \<Rightarrow> ch
            | (_, ch) \<Rightarrow> steps [set_rx_buffer_overflows (rx_buffer_overflows (sdt_st ch) + 1),
                                           freemsg (Some (mid mp))] ch))"

definition sl_daedr_received_bits :: "msg \<Rightarrow> ch \<Rightarrow> ch" where
  "sl_daedr_received_bits mp = ifelse (\<lambda>ch. lsc_state (statem ch) \<noteq> LSC_POWER_OFF)
     (steps [sl_rc_signal_unit mp, sl_daedr_correct_su])
     (sdt_received_bits mp)"

text \<open>Whether a transmitted frame may be repeated while nothing else is queued.\<close>

definition sdt_repeats :: "ch \<Rightarrow> u8 list \<Rightarrow> bool" where
  "sdt_repeats ch bs =
     (let len = length bs; mlen = hlen ch + 2 in
      if mlen < len then False
      else if mlen = len + 1 \<or> mlen = len + 2 then
        (let li = (if xsn ch then (push_bit 8 (rd8 bs 5) OR rd8 bs 4) AND 0x1ff else rd8 bs 2 AND 0x3f);
             sio = (if xsn ch then rd8 bs 6 else rd8 bs 3)
         in unat li = mlen - len \<and> sio \<in> {0, 1, 2, 3, 4})
      else True)"

definition sdt_repeat_frame :: "ch \<Rightarrow> u8 list \<Rightarrow> u8 list" where
  "sdt_repeat_frame ch bs =
     (let d = word_of_int (int (length bs) - int (hlen ch)) in
      if xsn ch then bs[4 := d, 5 := (bs ! 5) AND 0xfe]
      else bs[2 := ((bs ! 2) AND 0xc0) + d])"

definition sdt_transmission_request :: "ch \<Rightarrow> msg option \<times> ch" where
  "sdt_transmission_request ch = (case bufq_dequeue (sdt_tb ch) of
      (Some mp, q) \<Rightarrow>
        (let ch = ifthen (\<lambda>ch. \<not> q_count (sdt_tb ch) < 512 \<and> sl_count_rq ch \<noteq> 0) sl_enable_rq
                    (ch\<lparr>sdt_tb := q\<rparr>)
         in if sdt_repeats ch (octets mp) then
              (case (if tx_cmp ch \<noteq> None then (tx_cmp ch, ch) else allocb (hlen ch + 2) ch) of
                 (Some _, ch) \<Rightarrow>
                   (Some mp, ch\<lparr>tx_cmp := Some (sdt_repeat_frame ch (octets mp)), tx_repeat := 0\<rparr>)
               | (None, ch) \<Rightarrow> (Some mp, ch\<lparr>tx_cmp := None\<rparr>))
            else (Some mp, ch\<lparr>tx_cmp := None\<rparr>))
    | (None, _) \<Rightarrow> (case tx_cmp ch of
          Some bs \<Rightarrow> (Some \<lparr>mid = 0, octets = bs\<rparr>,
                      steps [set_tx_sus_repeated (tx_sus_repeated (sdt_st ch) + 1),
                             tx_repeat_update (\<lambda>n. n + 1)] ch)
        | None \<Rightarrow> (None, set_tx_buffer_overflows (tx_buffer_overflows (sdt_st ch) + 1) ch)))"

definition sl_daedt_transmission_request :: "ch \<Rightarrow> msg option \<times> ch" where
  "sl_daedt_transmission_request ch =
     (if lsc_state (statem ch) \<noteq> LSC_POWER_OFF then
        (case sl_txc_transmission_request ch of
           (None, ch) \<Rightarrow> (None, set_tx_buffer_overflows (tx_buffer_overflows (sdt_st ch) + 1) ch)
         | (Some mp, ch) \<Rightarrow> (Some mp, ch))
      else if daedt_state (sdt_sm ch) \<noteq> ST_IDLE then sdt_transmission_request ch
      else if sdl_tx_state ch \<noteq> ST_IDLE then
        (case bufq_dequeue (sdl_tb ch) of
           (Some mp, q) \<Rightarrow>
             (Some mp, ifthen (\<lambda>ch. q_count (sdl_tb ch) < 32 \<and> sl_count_rq ch \<noteq> 0) sl_enable_rq
                         (ch\<lparr>sdl_tb := q\<rparr>))
         | (None, _) \<Rightarrow> (None, sdl_tx_buffer_overflows_update (\<lambda>n. n + 1) ch))
      else (None, ch))"

section \<open>Timer expiries\<close>

definition xp_t1_timeout :: "ch \<Rightarrow> ch" where
  "xp_t1_timeout =
     steps [set_failure_reason SL_FAIL_T1_TIMEOUT,
            sl_out_of_service_ind,
            sl_rc_stop,
            sl_suerm_stop,
            sl_txc_send_sios,
            set_emergency False,
            ifthen (\<lambda>ch. lsc_state (statem ch) = LSC_ALIGNED_NOT_READY)
              (steps [sl_poc_stop, set_local_processor_outage False]),
            set_lsc_state LSC_OUT_OF_SERVICE]"

definition xp_t2_timeout :: "ch \<Rightarrow> ch" where
  "xp_t2_timeout = ifthen (\<lambda>ch. iac_state (statem ch) = IAC_NOT_ALIGNED)
     (steps [sl_lsc_alignment_not_possible, set_emergency False, set_iac_state IAC_IDLE])"

definition xp_t3_timeout :: "ch \<Rightarrow> ch" where
  "xp_t3_timeout = ifthen (\<lambda>ch. iac_state (statem ch) = IAC_ALIGNED)
     (steps [sl_lsc_alignment_not_possible, set_emergency False, set_iac_state IAC_IDLE])"

definition xp_t4_timeout :: "ch \<Rightarrow> ch" where
  "xp_t4_timeout = ifthen (\<lambda>ch. iac_state (statem ch) = IAC_PROVING)
     (ifelse (\<lambda>ch. further_proving (statem ch))
        (steps [sl_aerm_start, xp_timer_start T4, set_further_proving False])
        (steps [sl_lsc_alignment_complete,
                sl_aerm_stop,
                set_emergency False,
                set_iac_state IAC_IDLE]))"

definition xp_t5_timeout :: "ch \<Rightarrow> ch" where
  "xp_t5_timeout = ifthen (\<lambda>ch. cc_state (statem ch) = CC_BUSY) (steps [sl_txc_send_sib, xp_timer_start T5])"

definition xp_t6_timeout :: "ch \<Rightarrow> ch" where
  "xp_t6_timeout =
     steps [sl_lsc_link_failure SL_FAIL_CONG_TIMEOUT, set_sib_received False, xp_timer_stop T7]"

definition xp_t7_timeout :: "ch \<Rightarrow> ch" where
  "xp_t7_timeout =
     steps [sl_lsc_link_failure SL_FAIL_ACK_TIMEOUT, xp_timer_stop T6,
            ifthen (\<lambda>ch. \<not> ansi_92 ch) (set_sib_received False)]"

text \<open>\<open>Ce > Te\<close> compares unsigned; \<open>(Ce -= De) < 0\<close> reads the signed counter.\<close>

definition xp_t8_timeout :: "ch \<Rightarrow> ch" where
  "xp_t8_timeout = ifthen (\<lambda>ch. eim_state (sdt_sm ch) = ST_IN_SERVICE)
     (steps [xp_timer_start T8,
             (\<lambda>ch. let ch1 = ifthen (\<lambda>ch. su_received (sdt_sm ch)) (set_su_received False) ch in
                if su_received (sdt_sm ch) \<and> \<not> interval_error (sdt_sm ch) then
                  steps [(\<lambda>ch. set_Ce (Ce (sdt_sm ch) - cfg_De (sdt_cfg ch)) ch),
                         ifthen (\<lambda>ch. sint (Ce (sdt_sm ch)) < 0) (set_Ce 0)] ch1
                else
                  steps [(\<lambda>ch. set_Ce (Ce (sdt_sm ch) + cfg_Ue (sdt_cfg ch)) ch),
                         ifthen (\<lambda>ch. Ce (sdt_sm ch) > cfg_Te (sdt_cfg ch))
                           (steps [sl_lsc_link_failure SL_FAIL_SUERM_EIM, set_eim_state ST_IDLE]),
                         set_interval_error False] ch1)])"

fun xp_timeout :: "timer \<Rightarrow> ch \<Rightarrow> ch" where
  "xp_timeout T1 = xp_t1_timeout"
| "xp_timeout T2 = xp_t2_timeout"
| "xp_timeout T3 = xp_t3_timeout"
| "xp_timeout T4 = xp_t4_timeout"
| "xp_timeout T5 = xp_t5_timeout"
| "xp_timeout T6 = xp_t6_timeout"
| "xp_timeout T7 = xp_t7_timeout"
| "xp_timeout T8 = xp_t8_timeout"

text \<open>The kernel runs a pending callback once; the callback does its work if the identifier is still
  set.\<close>

definition xp_expiry :: "timer \<Rightarrow> ch \<Rightarrow> ch" where
  "xp_expiry t ch = ifthen (\<lambda>ch. tid ch t) (xp_timeout t) (ch\<lparr>pending := (pending ch)(t := None)\<rparr>)"

section \<open>Events and runs\<close>

datatype sl_event =
    Req sl_req nat
  | Data pdu
  | Frame msg
  | Bad_frame
  | Transmit
  | Expiry timer
  | Rsrv "bool list"
  | Flow bool bool

text \<open>\<open>Flow\<close> is the stream above changing what \<open>canput\<close> and \<open>canputnext\<close> answer; \<open>Expiry\<close> needs a pending
  timer.\<close>

fun sl_enabled :: "sl_event \<Rightarrow> ch \<Rightarrow> bool" where
  "sl_enabled (Expiry t) ch = (pending ch t \<noteq> None)"
| "sl_enabled _ ch = True"

fun sl_step :: "sl_event \<Rightarrow> ch \<Rightarrow> ch" where
  "sl_step (Req r mp) ch = exec (sl_w_proto r mp) ch"
| "sl_step (Data p) ch = exec (xp_send_data p) ch"
| "sl_step (Frame mp) ch = sl_daedr_received_bits mp ch"
| "sl_step Bad_frame ch = sl_daedr_su_in_error ch"
| "sl_step Transmit ch = exec sl_daedt_transmission_request ch"
| "sl_step (Expiry t) ch = xp_expiry t ch"
| "sl_step (Rsrv room) ch = rq_srv room ch"
| "sl_step (Flow a b) ch =
     ch\<lparr>ch_xp := map_option (\<lambda>x. x\<lparr>rq_canput := a, rq_canputnext := b\<rparr>) (ch_xp ch)\<rparr>"

fun sl_run :: "sl_event list \<Rightarrow> ch \<Rightarrow> ch" where
  "sl_run [] ch = ch"
| "sl_run (e # es) ch = sl_run es (if sl_enabled e ch then sl_step e ch else ch)"

lemma sl_run_append [simp]: "sl_run (es @ fs) ch = sl_run fs (sl_run es ch)"
  by (induction es arbitrary: ch) simp_all

section \<open>A channel that has not been powered on\<close>

text \<open>The default configurations of an E1 channel, with \<open>hz\<close> ticks a second.\<close>

definition sl_default_e1_chan :: "u32 \<Rightarrow> sl_config" where
  "sl_default_e1_chan hz = \<lparr>
     cfg_t1 = 45 * hz, cfg_t2 = 5 * hz, cfg_t2l = 20 * hz, cfg_t2h = 100 * hz, cfg_t3 = 1 * hz,
     cfg_t4n = 8 * hz, cfg_t4e = hz div 2, cfg_t5 = hz div 10, cfg_t6 = 4 * hz, cfg_t7 = 1 * hz,
     rb_abate = 3, rb_accept = 6, rb_discard = 9,
     tb_abate_1 = 128 * 272, tb_onset_1 = 256 * 272, tb_discd_1 = 384 * 272,
     tb_abate_2 = 512 * 272, tb_onset_2 = 640 * 272, tb_discd_2 = 768 * 272,
     tb_abate_3 = 896 * 272, tb_onset_3 = 1024 * 272, tb_discd_3 = 1152 * 272,
     cfg_N1 = 127, cfg_N2 = 8192, cfg_M = 5\<rparr>"

definition sdt_default_e1_chan :: "u32 \<Rightarrow> sdt_config" where
  "sdt_default_e1_chan hz = \<lparr>
     cfg_t8 = hz div 10, cfg_Tin = 4, cfg_Tie = 1, cfg_T = 64, cfg_D = 256,
     cfg_Te = 793544, cfg_De = 11328, cfg_Ue = 198384\<rparr>"

text \<open>The zeroed structure of \<open>xp_alloc_ch\<close> with options and configuration filled in by \<open>xp_init_ch\<close>.\<close>

definition sl_statem_zero :: sl_statem where
  "sl_statem_zero = \<lparr>
     lsc_state = LSC_POWER_OFF, local_processor_outage = False, remote_processor_outage = False,
     processor_outage = False, emergency = False, l3_indication_received = False, failure_reason = 0,
     iac_state = IAC_IDLE, further_proving = False, t4v = 0, Cp = 0, ib_mask = 0, sn_mask = 0,
     txc_state = ST_IDLE, msu_inhibited = False, lssu_available = False, rtb_full = False,
     clear_rtb = False, sib_received = False, retrans_cycle = False, forced_retransmission = False,
     Cm = 0, Ct = 0, cong_status = 0, disc_status = 0, Z_sn = 0, z_ptr = None, rc_state = ST_IDLE,
     rtr = False, unb = False, unf = False, msu_fisu_accepted = False, abnormal_bsnr = False,
     abnormal_fibr = False, congestion_discard = False, congestion_accept = False,
     l2_congestion_detect = False, l3_congestion_detect = False, Cr = 0, cc_state = CC_NORMAL,
     poc_state = POC_IDLE\<rparr>"

definition sdt_statem_zero :: sdt_statem where
  "sdt_statem_zero = \<lparr>
     aerm_state = ST_IDLE, aborted_proving = False, Ca = 0, Ti = 0, suerm_state = ST_IDLE, Cs = 0,
     Ns = 0, eim_state = ST_IDLE, Ce = 0, su_received = False, interval_error = False,
     daedt_state = ST_IDLE, daedr_state = ST_IDLE\<rparr>"

definition xp_init_ch :: "u32 \<Rightarrow> u32 \<Rightarrow> sl_config \<Rightarrow> sdt_config \<Rightarrow> xp option \<Rightarrow> ch" where
  "xp_init_ch pv po c sc x = \<lparr>
     pvar = pv, popt = po, ch_xp = x, rb = bufq_init, tb = bufq_init, rtb = bufq_init,
     tid = (\<lambda>_. False), pending = (\<lambda>_. None), config = c, statem = sl_statem_zero,
     tx_sn = \<lparr>N_bib = 0, N_bsn = 0, N_fib = 0, N_fsn = 0, F_fsn = 0, L_fsn = 0, C_fsn = 0, X_fsn = 0,
       R_bsn = 0, R_bib = 0, tx_sio = 0\<rparr>,
     rx_sn = \<lparr>rX_fsn = 0, rX_fib = 0, rF_fsn = 0, rR_bib = 0, rR_bsn = 0, rR_fib = 0, rR_fsn = 0,
       rT_fsn = 0, rT_bsn = 0, rx_sio = 0, rx_len = 0\<rparr>,
     events = 0,
     stats = \<lparr>sl_fail_align_or_proving = 0, sl_nacks_received = 0, sl_sibs_sent = 0, sl_recv_msus = 0,
       sl_cong_onset_ind = [0, 0, 0, 0], sl_cong_discd_ind = [0, 0, 0, 0]\<rparr>,
     sdt_tb = bufq_init, sdt_cfg = sc, sdt_sm = sdt_statem_zero,
     sdt_st = \<lparr>rx_sus_compressed = 0, rx_buffer_overflows = 0, tx_sus_repeated = 0,
       tx_buffer_overflows = 0\<rparr>,
     sdl_tb = bufq_init, sdl_ifflags = 0, sdl_tx_state = ST_IDLE, sdl_rx_state = ST_IDLE,
     sdl_tx_buffer_overflows = 0, tx_cmp = None, tx_repeat = 0, rx_cmp = None, rx_repeat = 0,
     allocs = [], log = []\<rparr>"

text \<open>An E1 channel of the ITU-T 1996 variant, 100 ticks a second, with an attached stream: the concrete
  channel the witnesses run.\<close>

definition demo_ch :: "u32 \<Rightarrow> u32 \<Rightarrow> ch" where
  "demo_ch pv po = xp_init_ch pv po (sl_default_e1_chan 100) (sdt_default_e1_chan 100)
     (Some \<lparr>rq = [], rq_canput = True, rq_canputnext = True\<rparr>)"

section \<open>Definitions as rewrite rules\<close>

text \<open>Unfolded only where the operation is applied to a state.\<close>

lemmas sl_event_ops [sl_defs] =
  hlen_def sl_lsc_pdu_def pdu_mid_def pdu_msg_def xp_send_data_def sl_pdu_req_def
  sl_emergency_req_def sl_emergency_ceases_req_def sl_start_req_def sl_stop_req_def
  sl_retrieve_bsnt_req_def sl_retrieval_request_and_fsnc_req_def sl_clear_buffers_req_def
  sl_clear_rtb_req_def sl_continue_req_def sl_local_processor_outage_req_def sl_resume_req_def[THEN
  fun_cong] sl_congestion_discard_req_def sl_congestion_accept_req_def sl_no_congestion_req_def
  sl_power_on_req_def sdt_received_bits_def sl_daedr_received_bits_def[THEN fun_cong]
  sdt_repeats_def sdt_repeat_frame_def sdt_transmission_request_def
  sl_daedt_transmission_request_def xp_t1_timeout_def[THEN fun_cong] xp_t2_timeout_def[THEN
  fun_cong] xp_t3_timeout_def[THEN fun_cong] xp_t4_timeout_def[THEN fun_cong] xp_t5_timeout_def[THEN
  fun_cong] xp_t6_timeout_def[THEN fun_cong] xp_t7_timeout_def[THEN fun_cong] xp_t8_timeout_def[THEN
  fun_cong] xp_expiry_def

end
