(* ===== verification/SL_Views.thy ===== *)
theory SL_Views
  imports SL_Events
begin

text \<open>
  Views of a channel.  Most operations of the link change a few fields of a large structure, and a proof
  about one aspect of the state has to know that they leave that aspect alone.  A view is any function of
  the channel; \<open>ind_view\<close> is the contract of one that ignores the indications sent upstream, and
  \<open>link_view\<close> of one that also ignores the timers, the error monitors and every protocol variable but those of
  \<open>st_key\<close>, \<open>tx_key\<close> and \<open>rx_key\<close>.  What the operations leave alone is proved once for all views.
\<close>

named_theorems sl_view "operations that leave a view alone"

section \<open>Views that ignore indications\<close>

locale ind_view =
  fixes v :: "ch \<Rightarrow> 'v"
  assumes emit [sl_view]: "(\<And>r. e \<noteq> Putnext r) \<Longrightarrow> v (emit e ch) = v ch"
    and v_allocs: "v (allocs_update g ch) = v ch"
    and v_putq: "v (rq_putq (RProto p m) ch) = v ch"
begin

lemma freemsg [sl_view]: "v (freemsg mp ch) = v ch"
  by (simp add: freemsg_def emit split: option.split)

lemma freemsgs [sl_view]: "v (freemsgs ms ch) = v ch"
  by (induction ms arbitrary: ch) (simp_all add: freemsgs_def emit)

lemma allocb [sl_view]: "v (snd (allocb n ch)) = v ch"
  by (simp add: allocb_def v_allocs split: list.split option.split)

lemma allocb_pair: "allocb n ch = (r, ch') \<Longrightarrow> v ch' = v ch"
  by (metis allocb snd_conv)

lemma ind_reuse [sl_view]: "v (snd (ind_reuse p mp ch)) = v ch"
  by (auto simp: ind_reuse_def freemsg v_putq split: option.split prod.split dest: allocb_pair)

lemma ind_alloc [sl_view]: "v (ind_alloc p ch) = v ch"
  by (auto simp: ind_alloc_def v_putq split: option.split prod.split dest: allocb_pair)

lemma indications [sl_view]:
  "v (sl_flush_wq ch) = v ch"
  "v (sl_enable_rq ch) = v ch"
  "v (snd (sl_link_congested_ind mp ch)) = v ch"
  "v (snd (sl_link_congestion_ceased_ind mp ch)) = v ch"
  "v (snd (sl_retrieved_message_ind dp ch)) = v ch"
  "v (sl_retrieval_complete_ind i ch) = v ch"
  "v (sl_rb_cleared_ind i ch) = v ch"
  "v (sl_bsnt_ind i ch) = v ch"
  "v (sl_in_service_ind ch) = v ch"
  "v (sl_out_of_service_ind ch) = v ch"
  "v (snd (sl_remote_processor_outage_ind mp ch)) = v ch"
  "v (sl_remote_processor_recovered_ind ch) = v ch"
  "v (snd (sl_rtb_cleared_ind mp ch)) = v ch"
  "v (snd (sdt_rc_signal_unit_ind dp n ch)) = v ch"
  by (auto simp: sl_flush_wq_def sl_enable_rq_def sl_link_congested_ind_def
      sl_link_congestion_ceased_ind_def sl_retrieved_message_ind_def sl_retrieval_complete_ind_def
      sl_rb_cleared_ind_def sl_bsnt_ind_def sl_in_service_ind_def sl_out_of_service_ind_def
      sl_remote_processor_outage_ind_def sl_remote_processor_recovered_ind_def sl_rtb_cleared_ind_def
      sdt_rc_signal_unit_ind_def ifthen_def emit freemsg ind_reuse ind_alloc v_putq
      split: option.split prod.split dest: allocb_pair)

lemma after_ifthen [sl_view]: "(\<And>s. v (f s) = v s) \<Longrightarrow> v (ifthen b f ch) = v ch"
  by (rule obs_ifthen)

lemma after_ifelse [sl_view]:
  "(\<And>s. v (f s) = v s) \<Longrightarrow> (\<And>s. v (g s) = v s) \<Longrightarrow> v (ifelse b f g ch) = v ch"
  by (simp add: ifelse_def)

end

section \<open>Views of the traffic variables\<close>

definition st_key :: "sl_statem \<Rightarrow> u16 \<times> bool \<times> bool \<times> u32 \<times> u32 \<times> u32" where
  "st_key s = (sn_mask s, clear_rtb s, rtb_full s, cong_status s, disc_status s, Cr s)"

definition tx_key :: "tx_sni \<Rightarrow> u16 \<times> u16" where
  "tx_key t = (F_fsn t, L_fsn t)"

definition rx_key :: "rx_sni \<Rightarrow> u16 \<times> u16 \<times> u16 \<times> u16 \<times> u16 \<times> u16" where
  "rx_key r = (rX_fsn r, rF_fsn r, rT_fsn r, rR_bsn r, rR_fsn r, rx_len r)"

lemmas view_keys [sl_view] = st_key_def tx_key_def rx_key_def

locale link_view = ind_view v for v :: "ch \<Rightarrow> 'v" +
  assumes v_statem: "(\<And>s. st_key (us s) = st_key s) \<Longrightarrow> v (statem_update us ch) = v ch"
    and v_tx_sn: "(\<And>t. tx_key (ut t) = tx_key t) \<Longrightarrow> v (tx_sn_update ut ch) = v ch"
    and v_rx_sn: "(\<And>r. rx_key (ur r) = rx_key r) \<Longrightarrow> v (rx_sn_update ur ch) = v ch"
    and v_tid: "v (tid_update f1 ch) = v ch"
    and v_pending: "v (pending_update f2 ch) = v ch"
    and v_sdt_sm: "v (sdt_sm_update f3 ch) = v ch"
    and v_stats: "v (stats_update f4 ch) = v ch"
    and v_sdt_st: "v (sdt_st_update f5 ch) = v ch"
    and v_rb: "v (rb_update f6 ch) = v ch"
    and v_tb: "v (tb_update f7 ch) = v ch"
    and v_sdt_tb: "v (sdt_tb_update f8 ch) = v ch"
    and v_sdl_tb: "v (sdl_tb_update f9 ch) = v ch"
    and v_sdl_ifflags: "v (sdl_ifflags_update f10 ch) = v ch"
    and v_sdl_tx: "v (sdl_tx_state_update f11 ch) = v ch"
    and v_sdl_rx: "v (sdl_rx_state_update f12 ch) = v ch"
    and v_sdl_over: "v (sdl_tx_buffer_overflows_update f13 ch) = v ch"
    and v_tx_cmp: "v (tx_cmp_update f14 ch) = v ch"
    and v_tx_repeat: "v (tx_repeat_update f15 ch) = v ch"
    and v_rx_cmp: "v (rx_cmp_update f16 ch) = v ch"
    and v_rx_repeat: "v (rx_repeat_update f17 ch) = v ch"
begin

lemmas assigns [sl_view] =
  v_allocs v_statem v_tx_sn v_rx_sn v_tid v_pending v_sdt_sm v_stats v_sdt_st v_rb v_tb v_sdt_tb
  v_sdl_tb v_sdl_ifflags v_sdl_tx v_sdl_rx v_sdl_over v_tx_cmp v_tx_repeat v_rx_cmp v_rx_repeat

lemma timers [sl_view]: "v (xp_timer_stop t ch) = v ch" "v (xp_timer_start t ch) = v ch"
  by (simp_all add: xp_timer_stop_def xp_stop_timer_def xp_timer_start_def xp_start_timer_def Let_def sl_view)

lemma txc_ops [sl_view]:
  "v (sl_cc_normal ch) = v ch"
  "v (sl_rc_stop ch) = v ch"
  "v (sl_aerm_stop ch) = v ch"
  "v (sl_iac_stop ch) = v ch"
  "v (sl_txc_send_sios ch) = v ch"
  "v (sl_poc_stop ch) = v ch"
  "v (sl_suerm_stop ch) = v ch"
  "v (sl_lsc_link_failure r ch) = v ch"
  "v (sl_txc_send_sib ch) = v ch"
  "v (sl_txc_send_sipo ch) = v ch"
  "v (sl_txc_send_sio ch) = v ch"
  "v (sl_txc_send_sin ch) = v ch"
  "v (sl_txc_send_sie ch) = v ch"
  "v (sl_txc_send_msu ch) = v ch"
  "v (sl_txc_send_fisu ch) = v ch"
  "v (sl_txc_fsnx_value ch) = v ch"
  "v (sl_txc_nack_to_be_sent ch) = v ch"
  "v (sl_lsc_rtb_cleared ch) = v ch"
  "v (tb_purge ch) = v ch"
  "v (rb_purge ch) = v ch"
  "v (sib_ends ch) = v ch"
  "v (bsnr_nack ch) = v ch"
  "v (sl_txc_sib_received ch) = v ch"
  "v (txc_fill ch) = v ch"
  "v (sl_daedt_start ch) = v ch"
  by (simp_all add: sl_cc_normal_def sl_rc_stop_def sl_aerm_stop_def sl_iac_stop_def
      sl_txc_send_sios_def sl_poc_stop_def sl_suerm_stop_def sl_eim_stop_def sl_lsc_link_failure_def
      sl_txc_send_sib_def sl_txc_send_sipo_def sl_txc_send_sio_def sl_txc_send_sin_def
      sl_txc_send_sie_def sl_txc_send_msu_def sl_txc_send_fisu_def sl_txc_fsnx_value_def
      sl_txc_nack_to_be_sent_def sl_lsc_rtb_cleared_def tb_purge_def rb_purge_def sib_ends_def
      bsnr_nack_def sl_txc_sib_received_def txc_fill_def sl_daedt_start_def exec_def sl_view
      split: prod.split)

lemma rc_cc [sl_view]:
  "v (sl_rc_accept_msu_fisu ch) = v ch"
  "v (sl_rc_reject_msu_fisu ch) = v ch"
  "v (sl_rc_retrieve_fsnx ch) = v ch"
  "v (sl_rc_align_fsnx ch) = v ch"
  "v (sl_rc_retrieve_bsnt m ch) = v ch"
  "v (sl_cc_busy ch) = v ch"
  "v (sl_rc_congestion_discard ch) = v ch"
  "v (sl_rc_congestion_accept ch) = v ch"
  "v (toggle_rX_fib ch) = v ch"
  "v (sl_rc_no_congestion ch) = v ch"
  "v (sl_lsc_congestion_discard ch) = v ch"
  "v (sl_lsc_congestion_accept ch) = v ch"
  "v (sl_lsc_no_congestion ch) = v ch"
  "v (sl_rb_congestion_function ch) = v ch"
  by (simp_all add: sl_rc_accept_msu_fisu_def sl_rc_reject_msu_fisu_def sl_rc_retrieve_fsnx_def
      sl_rc_align_fsnx_def sl_rc_retrieve_bsnt_def sl_cc_busy_def
      sl_rc_congestion_discard_def sl_rc_congestion_accept_def toggle_rX_fib_def sl_rc_no_congestion_def
      sl_lsc_congestion_discard_def sl_lsc_congestion_accept_def sl_lsc_no_congestion_def
      sl_rb_congestion_function_def sl_view)

lemma aerm [sl_view]:
  "v (sl_aerm_set_ti_to_tie ch) = v ch"
  "v (sl_aerm_set_ti_to_tin ch) = v ch"
  "v (sl_aerm_start ch) = v ch"
  "v (sl_suerm_start ch) = v ch"
  "v (sl_eim_correct_su ch) = v ch"
  "v (sl_eim_su_in_error ch) = v ch"
  "v (suerm_count_su ch) = v ch"
  "v (sl_suerm_correct_su ch) = v ch"
  "v (sl_suerm_su_in_error ch) = v ch"
  by (simp_all add: sl_aerm_set_ti_to_tie_def sl_aerm_set_ti_to_tin_def sl_aerm_start_def
      sl_suerm_start_def sl_eim_start_def sl_eim_correct_su_def sl_eim_su_in_error_def suerm_count_su_def
      sl_suerm_correct_su_def sl_suerm_su_in_error_def sl_view)

lemma lsc [sl_view]:
  "v (sl_lsc_sio ch) = v ch"
  "v (sl_lsc_alignment_not_possible ch) = v ch"
  "v (sl_lsc_sios ch) = v ch"
  "v (sl_lsc_no_processor_outage ch) = v ch"
  "v (sl_lsc_sib ch) = v ch"
  "v (sl_lsc_stop ch) = v ch"
  "v (sl_lsc_continue ch) = v ch"
  "v (sl_lsc_retrieve_bsnt m ch) = v ch"
  by (simp_all add: sl_lsc_sio_def sl_lsc_alignment_not_possible_def sl_lsc_sios_def
      sl_lsc_no_processor_outage_def sl_lsc_sib_def sl_lsc_stop_def sl_lsc_continue_def
      sl_lsc_retrieve_bsnt_def sl_view)

lemma poc [sl_view]:
  "v (sl_poc_remote_processor_recovered ch) = v ch"
  "v (sl_poc_remote_processor_outage ch) = v ch"
  "v (sl_poc_local_processor_outage ch) = v ch"
  "v (sl_poc_local_processor_recovered ch) = v ch"
  by (simp_all add: sl_poc_remote_processor_recovered_def sl_poc_remote_processor_outage_def
      sl_poc_local_processor_outage_def sl_poc_local_processor_recovered_def exec_def sl_view
      split: poc.split)

lemma lsc_outage [sl_view]:
  "v (sl_lsc_fisu_msu_received ch) = v ch"
  "v (sl_lsc_sipo ch) = v ch"
  "v (sl_lsc_local_processor_outage ch) = v ch"
  "v (lsc_aligning_su r ch) = v ch"
  "v (snd (sl_lsc_local_processor_recovered m ch)) = v ch"
  "v (sl_lsc_alignment_complete ch) = v ch"
  by (cases "lsc_state (statem ch)";
      simp add: sl_lsc_fisu_msu_received_def sl_lsc_sipo_def sl_lsc_local_processor_outage_def
        lsc_aligning_su_def sl_lsc_local_processor_recovered_def sl_lsc_alignment_complete_def
        exec_def Let_def sl_view)+

lemma iac [sl_view]:
  "v (sl_iac_sio ch) = v ch"
  "v (sl_iac_sios ch) = v ch"
  "v (sl_iac_sin ch) = v ch"
  "v (sl_iac_sie ch) = v ch"
  "v (sl_iac_emergency ch) = v ch"
  "v (sl_lsc_emergency ch) = v ch"
  "v (sl_lsc_emergency_ceases ch) = v ch"
  "v (sl_iac_correct_su ch) = v ch"
  "v (sl_iac_abort_proving ch) = v ch"
  "v (sl_aerm_su_in_error ch) = v ch"
  "v (sl_aerm_correct_su ch) = v ch"
  "v (sl_daedr_correct_su ch) = v ch"
  "v (sl_daedr_su_in_error ch) = v ch"
  by (simp_all add: sl_iac_sio_def sl_iac_sios_def sl_iac_sin_def sl_iac_sie_def sl_iac_emergency_def
      sl_lsc_emergency_def sl_lsc_emergency_ceases_def sl_iac_correct_su_def sl_iac_abort_proving_def
      sl_aerm_su_in_error_def sl_aerm_correct_su_def sl_daedr_correct_su_def sl_daedr_su_in_error_def
      sl_view
      split: iac.split)

lemma timeout [sl_view]: "v (xp_timeout t ch) = v ch"
  by (cases t)
    (simp_all add: xp_t1_timeout_def xp_t2_timeout_def xp_t3_timeout_def xp_t4_timeout_def
      xp_t5_timeout_def xp_t6_timeout_def xp_t7_timeout_def xp_t8_timeout_def Let_def sl_view)

lemma expiry [sl_view]: "v (xp_expiry t ch) = v ch"
  by (simp add: xp_expiry_def ifthen_def sl_view)



lemma sdt_received [sl_view]: "v (sdt_received_bits mp ch) = v ch"
proof -
  have f: "v (case p of (OK, c) \<Rightarrow> c | (_, c) \<Rightarrow>
      steps [set_rx_buffer_overflows (rx_buffer_overflows (sdt_st c) + 1), freemsg m] c) = v (snd p)"
    for p m by (cases p; cases "fst p") (simp_all add: sl_view)
  have a: "v (case allocb n c of (Some _, c) \<Rightarrow> c\<lparr>rx_cmp := x, rx_repeat := 0\<rparr> | (None, c) \<Rightarrow> c) = v c"
    for n c x using allocb[of n c] by (cases "allocb n c"; cases "fst (allocb n c)") (simp_all add: sl_view)
  show ?thesis
    by (simp add: sdt_received_bits_def Let_def f ifthen_def a sl_view)
qed

lemma sdt_request [sl_view]: "v (snd (sdt_transmission_request ch)) = v ch"
  by (auto simp: sdt_transmission_request_def ifthen_def Let_def sl_view
      split: option.split prod.split dest!: allocb_pair)

lemma lssu [sl_view]: "v (rc_lssu ch) = v ch"
  by (simp add: rc_lssu_def sl_lsc_sin_def sl_lsc_sie_def Let_def sl_view)

lemma units [sl_view]:
  "v (snd (txc_fisu ch)) = v ch"
  "v (snd (txc_lssu ch)) = v ch"
  "v (snd (dupmsg bp ch)) = v ch"
  by (auto simp: txc_fisu_def txc_lssu_def dupmsg_def Let_def sl_view
      split: option.split prod.split dest: allocb_pair)

end

section \<open>Fields as views\<close>

text \<open>Indications and timers leave these members of the channel structure alone.\<close>

interpretation statem_v: ind_view statem
  by unfold_locales (simp_all add: emit_def rq_putq_def)

interpretation sdt_sm_v: ind_view sdt_sm
  by unfold_locales (simp_all add: emit_def rq_putq_def)

interpretation tx_sn_v: ind_view tx_sn
  by unfold_locales (simp_all add: emit_def rq_putq_def)

interpretation rx_sn_v: ind_view rx_sn
  by unfold_locales (simp_all add: emit_def rq_putq_def)

interpretation tb_v: ind_view tb
  by unfold_locales (simp_all add: emit_def rq_putq_def)

interpretation rtb_v: ind_view rtb
  by unfold_locales (simp_all add: emit_def rq_putq_def)

interpretation config_v: ind_view config
  by unfold_locales (simp_all add: emit_def rq_putq_def)

interpretation sdt_cfg_v: ind_view sdt_cfg
  by unfold_locales (simp_all add: emit_def rq_putq_def)

interpretation pvar_v: ind_view pvar
  by unfold_locales (simp_all add: emit_def rq_putq_def)

interpretation popt_v: ind_view popt
  by unfold_locales (simp_all add: emit_def rq_putq_def)

interpretation stats_v: ind_view stats
  by unfold_locales (simp_all add: emit_def rq_putq_def)

interpretation tid_v: ind_view tid
  by unfold_locales (simp_all add: emit_def rq_putq_def)

interpretation pending_v: ind_view pending
  by unfold_locales (simp_all add: emit_def rq_putq_def)

lemma timer_fields [sl_view]:
  "statem (xp_timer_stop t ch) = statem ch" "statem (xp_timer_start t ch) = statem ch"
  "sdt_sm (xp_timer_stop t ch) = sdt_sm ch" "sdt_sm (xp_timer_start t ch) = sdt_sm ch"
  "tx_sn (xp_timer_stop t ch) = tx_sn ch" "tx_sn (xp_timer_start t ch) = tx_sn ch"
  "rx_sn (xp_timer_stop t ch) = rx_sn ch" "rx_sn (xp_timer_start t ch) = rx_sn ch"
  "tb (xp_timer_stop t ch) = tb ch" "tb (xp_timer_start t ch) = tb ch"
  "rtb (xp_timer_stop t ch) = rtb ch" "rtb (xp_timer_start t ch) = rtb ch"
  "config (xp_timer_stop t ch) = config ch" "config (xp_timer_start t ch) = config ch"
  "sdt_cfg (xp_timer_stop t ch) = sdt_cfg ch" "sdt_cfg (xp_timer_start t ch) = sdt_cfg ch"
  "pvar (xp_timer_stop t ch) = pvar ch" "pvar (xp_timer_start t ch) = pvar ch"
  "popt (xp_timer_stop t ch) = popt ch" "popt (xp_timer_start t ch) = popt ch"
  "stats (xp_timer_stop t ch) = stats ch" "stats (xp_timer_start t ch) = stats ch"
  by (simp_all add: xp_timer_stop_def xp_stop_timer_def xp_timer_start_def xp_start_timer_def Let_def)

lemma armed_timers:
  "tid (xp_timer_stop t ch) = (tid ch)(t := False)"
  "tid (xp_timer_start t ch) = (tid ch)(t := True)"
  "pending (xp_timer_start t ch) = (pending ch)(t := Some (timer_ticks t ch))"
  by (auto simp: xp_timer_stop_def xp_stop_timer_def xp_timer_start_def xp_start_timer_def Let_def fun_eq_iff)

lemma pending_stop: "u \<noteq> t \<Longrightarrow> pending (xp_timer_stop t ch) u = pending ch u"
  by (simp add: xp_timer_stop_def xp_stop_timer_def)

section \<open>The read service procedure\<close>

text \<open>A view that ignores the read queue and what serving one message does ignores the service procedure.\<close>

lemma rq_srv_view:
  assumes "\<And>x c. v (ch_xp_update x c) = v c" "\<And>r c c'. xp_r_prim_srv r c = Some c' \<Longrightarrow> v c' = v c"
  shows "v (rq_srv room ch) = v ch"
proof (induction room ch rule: rq_srv.induct)
  case (1 room ch)
  show ?case
  proof (cases "\<exists>x r rs b room'. ch_xp ch = Some x \<and> rq x = r # rs \<and> room = b # room'")
    case True
    then obtain x r rs b room' where e: "ch_xp ch = Some x" "rq x = r # rs" "room = b # room'" by blast
    let ?c = "ch\<lparr>ch_xp := Some (x\<lparr>rq := rs, rq_canputnext := b\<rparr>)\<rparr>"
    show ?thesis using 1[OF e refl] assms(2)[of r ?c] e
      by (subst rq_srv.simps) (auto simp: Let_def assms(1) split: option.split)
  next
    case False
    then show ?thesis by (subst rq_srv.simps) (auto split: option.split list.split)
  qed
qed

end
