(* ===== verification/SL_Control.thy ===== *)
theory SL_Control
  imports SL_Views
begin

text \<open>
  The control state of the signalling link: the state variables of its machines and the timers that are
  armed.  \<open>ctl\<close> abstracts a channel to it, the lemmas of the collection \<open>sl_ctl\<close> say what each operation does
  to it, and from them follow the invariant of every reachable state and the end states of the
  failure paths.
\<close>

section \<open>Abstraction\<close>

record control =
  k_lsc :: lsc
  k_iac :: iac
  k_rc :: act
  k_cc :: cc
  k_txc :: act
  k_aerm :: act
  k_suerm :: act
  k_eim :: act
  k_hsl :: bool
  k_armed :: "timer \<Rightarrow> bool"

text \<open>A timer is armed when its callback is pending and will find its identifier set.  The control state
  has the timers of the state machines; \<open>T6\<close> and \<open>T7\<close> follow the traffic and are left out.\<close>

definition armed :: "ch \<Rightarrow> timer \<Rightarrow> bool" where
  "armed ch t \<longleftrightarrow> tid ch t \<and> pending ch t \<noteq> None"

definition ctl :: "ch \<Rightarrow> control" where
  "ctl ch = \<lparr>
     k_lsc = lsc_state (statem ch), k_iac = iac_state (statem ch), k_rc = rc_state (statem ch),
     k_cc = cc_state (statem ch), k_txc = txc_state (statem ch), k_aerm = aerm_state (sdt_sm ch),
     k_suerm = suerm_state (sdt_sm ch), k_eim = eim_state (sdt_sm ch), k_hsl = hsl ch,
     k_armed = (\<lambda>t. armed ch t \<and> t \<noteq> T6 \<and> t \<noteq> T7)\<rparr>"

text \<open>Observations of the control state are made through the abstraction.\<close>

lemma ctl_obs [sl_ctl]:
  "lsc_state (statem ch) = k_lsc (ctl ch)"
  "iac_state (statem ch) = k_iac (ctl ch)"
  "rc_state (statem ch) = k_rc (ctl ch)"
  "cc_state (statem ch) = k_cc (ctl ch)"
  "txc_state (statem ch) = k_txc (ctl ch)"
  "aerm_state (sdt_sm ch) = k_aerm (ctl ch)"
  "suerm_state (sdt_sm ch) = k_suerm (ctl ch)"
  "eim_state (sdt_sm ch) = k_eim (ctl ch)"
  "hsl ch = k_hsl (ctl ch)"
  by (simp_all add: ctl_def)

section \<open>Assignments and timers\<close>

lemma ctl_statem [sl_ctl]:
  "ctl (statem_update u ch) = (ctl ch)\<lparr>
     k_lsc := lsc_state (u (statem ch)), k_iac := iac_state (u (statem ch)),
     k_rc := rc_state (u (statem ch)), k_cc := cc_state (u (statem ch)),
     k_txc := txc_state (u (statem ch))\<rparr>"
  by (simp add: ctl_def armed_def hsl_def fun_eq_iff)

lemma ctl_sdt_sm [sl_ctl]:
  "ctl (sdt_sm_update u ch) = (ctl ch)\<lparr>
     k_aerm := aerm_state (u (sdt_sm ch)), k_suerm := suerm_state (u (sdt_sm ch)),
     k_eim := eim_state (u (sdt_sm ch))\<rparr>"
  by (simp add: ctl_def armed_def hsl_def fun_eq_iff)

lemma ctl_frame [sl_ctl]:
  "ctl (tx_sn_update u1 ch) = ctl ch"
  "ctl (rx_sn_update u2 ch) = ctl ch"
  "ctl (stats_update u3 ch) = ctl ch"
  "ctl (sdt_st_update u4 ch) = ctl ch"
  "ctl (ch_xp_update u5 ch) = ctl ch"
  "ctl (rb_update u6 ch) = ctl ch"
  "ctl (tb_update u7 ch) = ctl ch"
  "ctl (rtb_update u8 ch) = ctl ch"
  "ctl (sdt_tb_update u9 ch) = ctl ch"
  "ctl (sdl_tb_update u10 ch) = ctl ch"
  "ctl (sdl_ifflags_update u11 ch) = ctl ch"
  "ctl (sdl_tx_state_update u12 ch) = ctl ch"
  "ctl (sdl_rx_state_update u13 ch) = ctl ch"
  "ctl (sdl_tx_buffer_overflows_update u14 ch) = ctl ch"
  "ctl (tx_cmp_update u15 ch) = ctl ch"
  "ctl (tx_repeat_update u16 ch) = ctl ch"
  "ctl (rx_cmp_update u17 ch) = ctl ch"
  "ctl (rx_repeat_update u18 ch) = ctl ch"
  "ctl (allocs_update u19 ch) = ctl ch"
  "ctl (log_update u20 ch) = ctl ch"
  by (simp_all add: ctl_def armed_def hsl_def fun_eq_iff)

lemma ctl_stop [sl_ctl]:
  "ctl (xp_timer_stop t ch) = (ctl ch)\<lparr>k_armed := (k_armed (ctl ch))(t := False)\<rparr>"
  by (auto simp: ctl_def armed_def hsl_def fun_eq_iff xp_timer_stop_def xp_stop_timer_def)

lemma ctl_start [sl_ctl]:
  "ctl (xp_timer_start t ch) =
     (ctl ch)\<lparr>k_armed := (k_armed (ctl ch))(t := (t \<noteq> T6 \<and> t \<noteq> T7))\<rparr>"
  by (auto simp: ctl_def armed_def hsl_def fun_eq_iff xp_timer_start_def xp_start_timer_def Let_def)

lemma ctl_t6_t7 [sl_ctl]:
  "(k_armed (ctl ch))(T6 := False) = k_armed (ctl ch)"
  "(k_armed (ctl ch))(T7 := False) = k_armed (ctl ch)"
  by (auto simp: ctl_def fun_eq_iff)

lemma ctl_ifthen [sl_ctl]: "(\<And>s. ctl (f s) = ctl s) \<Longrightarrow> ctl (ifthen b f ch) = ctl ch"
  by (rule obs_ifthen)

section \<open>Operations that leave the control state alone\<close>

lemma ctl_emit [sl_ctl]: "ctl (emit e ch) = ctl ch"
  by (simp add: emit_def sl_ctl)

interpretation ctl_v: ind_view ctl
  by unfold_locales (simp_all add: rq_putq_def sl_ctl)

lemmas ctl_freemsg = ctl_v.freemsg
lemmas allocb_ctl = ctl_v.allocb_pair

lemmas ctl_indications [sl_ctl] = ctl_v.freemsg ctl_v.freemsgs ctl_v.allocb ctl_v.indications

lemma ctl_read_queue [sl_ctl]: "ctl (sl_flush_rq ch) = ctl ch" "ctl (snd (sl_pdu_ind mp ch)) = ctl ch"
  by (simp_all add: sl_flush_rq_def sl_pdu_ind_def rq_putq_def sl_ctl)

lemmas ctl_upper = ctl_indications ctl_read_queue

lemma ctl_congestion [sl_ctl]: "ctl (snd (sl_check_congestion m ch)) = ctl ch"
  by (simp add: sl_check_congestion_def Let_def ifthen_def sl_ctl split: prod.split)

lemma ctl_txc_idle [sl_ctl]:
  "ctl (sl_txc_send_sib ch) = ctl ch"
  "ctl (sl_txc_send_sio ch) = ctl ch"
  "ctl (sl_txc_send_sin ch) = ctl ch"
  "ctl (sl_txc_send_sie ch) = ctl ch"
  "ctl (sl_txc_fsnx_value ch) = ctl ch"
  "ctl (sl_txc_nack_to_be_sent ch) = ctl ch"
  "ctl (sl_poc_stop ch) = ctl ch"
  "ctl (sl_rc_fsnt_value ch) = ctl ch"
  "ctl (sl_daedt_start ch) = ctl ch"
  "ctl (rtb_purge ch) = ctl ch"
  "ctl (tb_purge ch) = ctl ch"
  "ctl (rb_purge ch) = ctl ch"
  "ctl (rtb_drop ch) = ctl ch"
  by (simp_all add: sl_txc_send_sib_def sl_txc_send_sio_def sl_txc_send_sin_def sl_txc_send_sie_def
      sl_txc_fsnx_value_def sl_txc_nack_to_be_sent_def sl_poc_stop_def sl_rc_fsnt_value_def
      sl_daedt_start_def rtb_purge_def tb_purge_def rb_purge_def rtb_drop_def ifthen_def sl_ctl
      split: prod.split)

lemma ctl_txc_send [sl_ctl]:
  "ctl (sl_txc_send_sios ch) = ctl ch"
  "ctl (sl_txc_send_sipo ch) = ctl ch"
  "ctl (sl_txc_send_msu ch) = ctl ch"
  "ctl (sl_txc_send_fisu ch) = ctl ch"
  "ctl (sib_ends ch) = ctl ch"
  "ctl (sl_txc_sib_received ch) = ctl ch"
  by (simp_all add: sl_txc_send_sios_def sl_txc_send_sipo_def sl_txc_send_msu_def
      sl_txc_send_fisu_def sib_ends_def sl_txc_sib_received_def ifthen_def sl_ctl)

section \<open>Operations on the control state\<close>

lemma ctl_cc_normal [sl_ctl]:
  "ctl (sl_cc_normal ch) = (ctl ch)\<lparr>k_armed := (k_armed (ctl ch))(T5 := False), k_cc := CC_NORMAL\<rparr>"
  by (simp add: sl_cc_normal_def sl_ctl)

lemma ctl_cc_busy [sl_ctl]:
  "ctl (sl_cc_busy ch) = (if k_cc (ctl ch) = CC_NORMAL
     then (ctl ch)\<lparr>k_armed := (k_armed (ctl ch))(T5 := True), k_cc := CC_BUSY\<rparr> else ctl ch)"
  by (simp add: sl_cc_busy_def ifthen_def sl_ctl)

lemma ctl_rc_stop [sl_ctl]:
  "ctl (sl_rc_stop ch) = (ctl ch)\<lparr>
     k_armed := (k_armed (ctl ch))(T5 := False), k_cc := CC_NORMAL, k_rc := ST_IDLE\<rparr>"
  by (simp add: sl_rc_stop_def sl_ctl)

lemma ctl_aerm_stop [sl_ctl]: "ctl (sl_aerm_stop ch) = (ctl ch)\<lparr>k_aerm := ST_IDLE\<rparr>"
  by (simp add: sl_aerm_stop_def sl_ctl)

lemma ctl_aerm_start [sl_ctl]: "ctl (sl_aerm_start ch) = (ctl ch)\<lparr>k_aerm := ST_IN_SERVICE\<rparr>"
  by (simp add: sl_aerm_start_def sl_ctl)

lemma ctl_set_ti [sl_ctl]:
  "ctl (sl_aerm_set_ti_to_tie ch) = ctl ch" "ctl (sl_aerm_set_ti_to_tin ch) = ctl ch"
  by (simp_all add: sl_aerm_set_ti_to_tie_def sl_aerm_set_ti_to_tin_def ifthen_def sl_ctl)

lemma ctl_suerm_stop [sl_ctl]:
  "ctl (sl_suerm_stop ch) = (ctl ch)\<lparr>
     k_armed := (k_armed (ctl ch))(T8 := False), k_suerm := ST_IDLE, k_eim := ST_IDLE\<rparr>"
  by (simp add: sl_suerm_stop_def sl_eim_stop_def sl_ctl)

lemma ctl_suerm_start [sl_ctl]:
  "ctl (sl_suerm_start ch) = (if k_hsl (ctl ch)
     then (ctl ch)\<lparr>k_armed := (k_armed (ctl ch))(T8 := True), k_eim := ST_IN_SERVICE\<rparr>
     else (ctl ch)\<lparr>k_suerm := ST_IN_SERVICE\<rparr>)"
  by (simp add: sl_suerm_start_def sl_eim_start_def ifelse_def sl_ctl)

lemma ctl_iac_stop [sl_ctl]:
  "ctl (sl_iac_stop ch) = (if k_iac (ctl ch) = IAC_IDLE then ctl ch
     else (ctl ch)\<lparr>k_armed := (k_armed (ctl ch))(T3 := False, T2 := False, T4 := False),
       k_aerm := ST_IDLE, k_iac := IAC_IDLE\<rparr>)"
  by (simp add: sl_iac_stop_def ifthen_def sl_ctl)

text \<open>Taking the link out of service.\<close>

definition ctl_down :: "control \<Rightarrow> control" where
  "ctl_down k = k\<lparr>
     k_armed := (k_armed k)(T1 := False, T5 := False, T8 := False), k_cc := CC_NORMAL,
     k_rc := ST_IDLE, k_suerm := ST_IDLE, k_eim := ST_IDLE, k_lsc := LSC_OUT_OF_SERVICE\<rparr>"

definition ctl_unalign :: "control \<Rightarrow> control" where
  "ctl_unalign k = (if k_iac k = IAC_IDLE then k
     else k\<lparr>k_armed := (k_armed k)(T2 := False, T3 := False, T4 := False),
       k_aerm := ST_IDLE, k_iac := IAC_IDLE\<rparr>)"

lemma ctl_link_failure [sl_ctl]:
  "ctl (sl_lsc_link_failure r ch) = (if k_lsc (ctl ch) = LSC_OUT_OF_SERVICE then ctl ch
     else ctl_down (ctl_unalign (ctl ch)))"
  by (auto simp: sl_lsc_link_failure_def ifthen_def ctl_down_def ctl_unalign_def sl_ctl fun_upd_twist)

lemma ctl_lsc_stop [sl_ctl]:
  "ctl (sl_lsc_stop ch) = (if k_lsc (ctl ch) = LSC_OUT_OF_SERVICE then ctl ch
     else ctl_down (ctl_unalign (ctl ch)))"
  by (auto simp: sl_lsc_stop_def ifthen_def ctl_down_def ctl_unalign_def sl_ctl fun_upd_twist)

lemma ctl_lsc_sio [sl_ctl]:
  "ctl (sl_lsc_sio ch) =
     (if k_lsc (ctl ch) \<in> {LSC_OUT_OF_SERVICE, LSC_INITIAL_ALIGNMENT} then ctl ch else ctl_down (ctl ch))"
  by (auto simp: sl_lsc_sio_def ifthen_def ctl_down_def sl_ctl fun_upd_twist)

lemma ctl_aligning_su [sl_ctl]:
  "ctl (lsc_aligning_su r ch) = (if k_lsc (ctl ch) \<in> {LSC_IN_SERVICE, LSC_PROCESSOR_OUTAGE}
     then (ctl_down (ctl ch))\<lparr>k_armed := (k_armed (ctl ch))(T5 := False, T8 := False)\<rparr> else ctl ch)"
  by (auto simp: lsc_aligning_su_def ctl_down_def sl_ctl fun_upd_twist split: lsc.split)

lemma ctl_not_possible [sl_ctl]:
  "ctl (sl_lsc_alignment_not_possible ch) = (ctl ch)\<lparr>
     k_armed := (k_armed (ctl ch))(T5 := False), k_cc := CC_NORMAL, k_rc := ST_IDLE,
     k_lsc := LSC_OUT_OF_SERVICE\<rparr>"
  by (simp add: sl_lsc_alignment_not_possible_def sl_ctl)

section \<open>The invariant\<close>

text \<open>Initial alignment control is active exactly while link state control is in initial alignment, each
  protocol timer runs exactly in the states it belongs to, reception control is in service exactly while
  the link is up or aligning, the alignment error monitor runs only while proving, and an aligned link has
  its signal unit (or interval) error monitor running.\<close>

definition lsc_up :: "lsc \<Rightarrow> bool" where
  "lsc_up s \<longleftrightarrow> s \<in> {LSC_ALIGNED_READY, LSC_ALIGNED_NOT_READY, LSC_IN_SERVICE, LSC_PROCESSOR_OUTAGE}"

definition ctl_ok :: "control \<Rightarrow> bool" where
  "ctl_ok k \<longleftrightarrow>
     (k_iac k \<noteq> IAC_IDLE \<longleftrightarrow> k_lsc k = LSC_INITIAL_ALIGNMENT) \<and>
     (k_armed k T1 \<longleftrightarrow> k_lsc k \<in> {LSC_ALIGNED_READY, LSC_ALIGNED_NOT_READY}) \<and>
     (k_armed k T2 \<longleftrightarrow> k_iac k = IAC_NOT_ALIGNED) \<and>
     (k_armed k T3 \<longleftrightarrow> k_iac k = IAC_ALIGNED) \<and>
     (k_armed k T4 \<longleftrightarrow> k_iac k = IAC_PROVING) \<and>
     (k_armed k T5 \<longleftrightarrow> k_cc k = CC_BUSY) \<and>
     (k_armed k T8 \<longleftrightarrow> k_eim k = ST_IN_SERVICE) \<and>
     (k_rc k = ST_IN_SERVICE \<longleftrightarrow> k_lsc k \<notin> {LSC_POWER_OFF, LSC_OUT_OF_SERVICE}) \<and>
     (k_lsc k \<notin> {LSC_POWER_OFF, LSC_OUT_OF_SERVICE} \<longrightarrow> k_txc k = ST_IN_SERVICE) \<and>
     (k_aerm k = ST_IN_SERVICE \<longrightarrow> k_iac k = IAC_PROVING) \<and>
     (k_suerm k = ST_IN_SERVICE \<longleftrightarrow> lsc_up (k_lsc k) \<and> \<not> k_hsl k) \<and>
     (k_eim k = ST_IN_SERVICE \<longleftrightarrow> lsc_up (k_lsc k) \<and> k_hsl k)"

lemma ok_down: "ctl_ok k \<Longrightarrow> k_lsc k \<noteq> LSC_INITIAL_ALIGNMENT \<Longrightarrow> ctl_ok (ctl_down k)"
  by (cases "k_lsc k"; clarsimp simp: ctl_ok_def ctl_down_def lsc_up_def)

lemma ok_down_unalign: "ctl_ok k \<Longrightarrow> ctl_ok (ctl_down (ctl_unalign k))"
  by (cases "k_iac k"; clarsimp simp: ctl_ok_def ctl_down_def ctl_unalign_def lsc_up_def)

lemma act_cases: "a \<noteq> ST_IDLE \<longleftrightarrow> a = ST_IN_SERVICE"
  by (cases a) simp_all

lemma iac_neq_cases: "i \<noteq> IAC_IDLE \<longleftrightarrow> i = IAC_NOT_ALIGNED \<or> i = IAC_ALIGNED \<or> i = IAC_PROVING"
  by (cases i) simp_all

lemma ok_link_failure: "ctl_ok (ctl ch) \<Longrightarrow> ctl_ok (ctl (sl_lsc_link_failure r ch))"
  by (simp add: ctl_link_failure ok_down_unalign)

lemma ok_lsc_stop: "ctl_ok (ctl ch) \<Longrightarrow> ctl_ok (ctl (sl_lsc_stop ch))"
  by (simp add: ctl_lsc_stop ok_down_unalign)

lemma ok_lsc_sio: "ctl_ok (ctl ch) \<Longrightarrow> ctl_ok (ctl (sl_lsc_sio ch))"
  by (simp add: ctl_lsc_sio ok_down)

lemma ok_aligning_su: "ctl_ok (ctl ch) \<Longrightarrow> ctl_ok (ctl (lsc_aligning_su r ch))"
  by (cases "k_lsc (ctl ch)"; clarsimp simp: ctl_aligning_su ctl_ok_def ctl_down_def lsc_up_def)

lemma ok_cc_normal: "ctl_ok (ctl ch) \<Longrightarrow> ctl_ok (ctl (sl_cc_normal ch))"
  by (simp add: sl_ctl ctl_ok_def)

lemma ok_cc_busy: "ctl_ok (ctl ch) \<Longrightarrow> ctl_ok (ctl (sl_cc_busy ch))"
  by (simp add: sl_ctl ctl_ok_def)

lemma ok_iac_sio: "ctl_ok (ctl ch) \<Longrightarrow> ctl_ok (ctl (sl_iac_sio ch))"
  by (cases "k_iac (ctl ch)"; clarsimp simp: sl_iac_sio_def ifelse_def sl_ctl ctl_ok_def lsc_up_def)

lemma ok_iac_sin: "ctl_ok (ctl ch) \<Longrightarrow> ctl_ok (ctl (sl_iac_sin ch))"
  by (cases "k_iac (ctl ch)"; clarsimp simp: sl_iac_sin_def ifelse_def ifthen_def sl_ctl ctl_ok_def lsc_up_def)

lemma ok_iac_sie: "ctl_ok (ctl ch) \<Longrightarrow> ctl_ok (ctl (sl_iac_sie ch))"
  by (cases "k_iac (ctl ch)"; clarsimp simp: sl_iac_sie_def ifelse_def ifthen_def sl_ctl ctl_ok_def lsc_up_def)

lemma ok_iac_sios: "ctl_ok (ctl ch) \<Longrightarrow> ctl_ok (ctl (sl_iac_sios ch))"
  by (cases "k_iac (ctl ch)"; clarsimp simp: sl_iac_sios_def ifthen_def sl_ctl ctl_ok_def lsc_up_def)

lemma ok_lsc_sios: "ctl_ok (ctl ch) \<Longrightarrow> ctl_ok (ctl (sl_lsc_sios ch))"
  by (cases "k_lsc (ctl ch)"; clarsimp simp: sl_lsc_sios_def ifthen_def sl_ctl ctl_ok_def lsc_up_def)

lemma ok_iac_emergency: "ctl_ok (ctl ch) \<Longrightarrow> ctl_ok (ctl (sl_iac_emergency ch))"
  by (cases "k_iac (ctl ch)"; clarsimp simp: sl_iac_emergency_def sl_ctl ctl_ok_def lsc_up_def)

text \<open>Moves between the states of an aligned link.\<close>

lemma ok_lsc_set:
  "ctl_ok k \<Longrightarrow> k_lsc k \<in> {LSC_PROCESSOR_OUTAGE, LSC_IN_SERVICE} \<Longrightarrow> ctl_ok (k\<lparr>k_lsc := LSC_IN_SERVICE\<rparr>)"
  "ctl_ok k \<Longrightarrow> k_lsc k \<in> {LSC_PROCESSOR_OUTAGE, LSC_IN_SERVICE} \<Longrightarrow> ctl_ok (k\<lparr>k_lsc := LSC_PROCESSOR_OUTAGE\<rparr>)"
  by (cases "k_lsc k"; clarsimp simp: ctl_ok_def lsc_up_def)+

lemma ok_lsc_set_aligned:
  "ctl_ok k \<Longrightarrow> k_lsc k \<in> {LSC_ALIGNED_READY, LSC_ALIGNED_NOT_READY} \<Longrightarrow>
     ctl_ok (k\<lparr>k_lsc := LSC_ALIGNED_READY\<rparr>)"
  "ctl_ok k \<Longrightarrow> k_lsc k \<in> {LSC_ALIGNED_READY, LSC_ALIGNED_NOT_READY} \<Longrightarrow>
     ctl_ok (k\<lparr>k_lsc := LSC_ALIGNED_NOT_READY\<rparr>)"
  by (cases "k_lsc k"; clarsimp simp: ctl_ok_def lsc_up_def)+

lemma ok_lsc_leave_aligned:
  "ctl_ok k \<Longrightarrow> k_lsc k \<in> {LSC_ALIGNED_READY, LSC_ALIGNED_NOT_READY} \<Longrightarrow>
     ctl_ok (k\<lparr>k_armed := (k_armed k)(T1 := False), k_lsc := LSC_IN_SERVICE\<rparr>)"
  "ctl_ok k \<Longrightarrow> k_lsc k \<in> {LSC_ALIGNED_READY, LSC_ALIGNED_NOT_READY} \<Longrightarrow>
     ctl_ok (k\<lparr>k_armed := (k_armed k)(T1 := False), k_lsc := LSC_PROCESSOR_OUTAGE\<rparr>)"
  by (cases "k_lsc k"; clarsimp simp: ctl_ok_def lsc_up_def)+

lemma ok_cc_set:
  "ctl_ok k \<Longrightarrow> ctl_ok (k\<lparr>k_armed := (k_armed k)(T5 := False), k_cc := CC_NORMAL\<rparr>)"
  "ctl_ok k \<Longrightarrow> ctl_ok (k\<lparr>k_armed := (k_armed k)(T5 := True), k_cc := CC_BUSY\<rparr>)"
  by (simp_all add: ctl_ok_def)

lemma ok_lsc_cc_set:
  "ctl_ok k \<Longrightarrow> k_lsc k = LSC_IN_SERVICE \<Longrightarrow>
     ctl_ok (k\<lparr>k_armed := (k_armed k)(T5 := False), k_lsc := LSC_PROCESSOR_OUTAGE, k_cc := CC_NORMAL\<rparr>)"
  by (clarsimp simp: ctl_ok_def lsc_up_def)

lemma ok_same:
  "k_lsc k = s \<Longrightarrow> ctl_ok k \<Longrightarrow> ctl_ok (k\<lparr>k_lsc := s\<rparr>)"
  "k_aerm k = a \<Longrightarrow> ctl_ok k \<Longrightarrow> ctl_ok (k\<lparr>k_aerm := a\<rparr>)"
  by auto

lemmas ok_moves = ok_same ok_lsc_set ok_lsc_set_aligned ok_lsc_leave_aligned ok_cc_set ok_lsc_cc_set

section \<open>Operations that may move the link between its aligned states\<close>

lemma ctl_poc [sl_ctl]:
  "ctl (sl_poc_remote_processor_outage ch) = ctl ch"
  "ctl (sl_poc_local_processor_outage ch) = ctl ch"
  by (simp_all add: sl_poc_remote_processor_outage_def sl_poc_local_processor_outage_def exec_def sl_ctl
      split: poc.split)

lemma ctl_rc_flags [sl_ctl]:
  "ctl (sl_rc_accept_msu_fisu ch) = ctl ch"
  "ctl (sl_rc_reject_msu_fisu ch) = ctl ch"
  "ctl (sl_rc_align_fsnx ch) = ctl ch"
  "ctl (toggle_rX_fib ch) = ctl ch"
  "ctl (sl_daedr_start ch) = ctl ch"
  "ctl (sl_rc_clear_rb i ch) = ctl ch"
  "ctl (sl_rc_retrieve_bsnt i ch) = ctl ch"
  "ctl (rc_acked ch) = ctl ch"
  by (simp_all add: sl_rc_accept_msu_fisu_def sl_rc_reject_msu_fisu_def sl_rc_align_fsnx_def
      toggle_rX_fib_def sl_daedr_start_def sl_rc_clear_rb_def sl_rc_retrieve_bsnt_def rc_acked_def sl_ctl)

lemma ok_no_processor_outage:
  "ctl_ok (ctl ch) \<Longrightarrow> ctl_ok (ctl (sl_lsc_no_processor_outage ch))"
  by (simp add: sl_lsc_no_processor_outage_def ifthen_def sl_ctl ok_moves)

lemma ok_poc_recovered:
  "ctl_ok (ctl ch) \<Longrightarrow> ctl_ok (ctl (sl_poc_remote_processor_recovered ch))"
  "ctl_ok (ctl ch) \<Longrightarrow> ctl_ok (ctl (sl_poc_local_processor_recovered ch))"
  using ok_no_processor_outage[of "sl_remote_processor_recovered_ind ch"] ok_no_processor_outage[of ch]
  by (simp_all add: sl_poc_remote_processor_recovered_def sl_poc_local_processor_recovered_def sl_ctl
      split: poc.split)

lemma ok_fisu_msu_received: "ctl_ok (ctl ch) \<Longrightarrow> ctl_ok (ctl (sl_lsc_fisu_msu_received ch))"
  by (simp add: sl_lsc_fisu_msu_received_def ifthen_def ifelse_def sl_ctl ok_moves ok_poc_recovered
      split: lsc.split)

lemma ok_rtb_cleared: "ctl_ok (ctl ch) \<Longrightarrow> ctl_ok (ctl (sl_lsc_rtb_cleared ch))"
  by (simp add: sl_lsc_rtb_cleared_def ifthen_def exec_def sl_ctl ok_moves)

lemma ctl_rtb_ack [sl_ctl]: "ctl (rtb_ack n stop ch) = ctl ch"
  by (induction n stop ch rule: rtb_ack.induct) (simp_all add: rtb_ack.simps Let_def sl_ctl)

lemma ok_bsnr_clear_rtb: "ctl_ok (ctl ch) \<Longrightarrow> ctl_ok (ctl (bsnr_clear_rtb ch))"
  by (simp add: bsnr_clear_rtb_def exec_def sl_ctl ok_rtb_cleared)

lemma ctl_bsnr_ack [sl_ctl]: "ctl (bsnr_ack ch) = ctl ch"
  by (simp add: bsnr_ack_def ifelse_def exec_def sl_ctl)

lemma ctl_bsnr_nack [sl_ctl]: "ctl (bsnr_nack ch) = ctl ch"
  by (simp add: bsnr_nack_def sl_ctl)

lemma ok_bsnr_and_bibr: "ctl_ok (ctl ch) \<Longrightarrow> ctl_ok (ctl (sl_txc_bsnr_and_bibr ch))"
  by (simp add: sl_txc_bsnr_and_bibr_def ifthen_def ifelse_def sl_ctl ok_bsnr_clear_rtb)

lemma ok_sipo: "ctl_ok (ctl ch) \<Longrightarrow> ctl_ok (ctl (sl_lsc_sipo ch))"
  by (simp add: sl_lsc_sipo_def ifthen_def ifelse_def exec_def sl_ctl ok_moves split: lsc.split)

lemma ok_sib: "ctl_ok (ctl ch) \<Longrightarrow> ctl_ok (ctl (sl_lsc_sib ch))"
  by (simp add: sl_lsc_sib_def ifthen_def sl_ctl)

lemma ok_no_congestion: "ctl_ok (ctl ch) \<Longrightarrow> ctl_ok (ctl (sl_rc_no_congestion ch))"
  by (simp add: sl_rc_no_congestion_def ifthen_def sl_ctl ok_moves)

lemma ok_rb_congestion: "ctl_ok (ctl ch) \<Longrightarrow> ctl_ok (ctl (sl_rb_congestion_function ch))"
  by (simp add: sl_rb_congestion_function_def sl_rc_congestion_discard_def sl_rc_congestion_accept_def
      ifthen_def ifelse_def sl_ctl ok_moves ok_no_congestion)

lemma ok_rc_deliver:
  assumes "\<And>ch. ctl (taken ch) = ctl ch" "\<And>ch. ctl_ok (ctl ch) \<Longrightarrow> ctl_ok (ctl (dropped ch))"
    and "ctl_ok (ctl ch)"
  shows "ctl_ok (ctl (rc_deliver taken dropped mp ch))"
proof -
  obtain e ch' where p: "sl_pdu_ind mp ch = (e, ch')" by fastforce
  then have "ctl ch' = ctl ch" using ctl_read_queue(2)[of mp ch] by simp
  then show ?thesis using assms p
    by (simp add: rc_deliver_def ifelse_def sl_ctl ok_moves split: errno.split)
qed

lemma ok_rc_pcr: "ctl_ok (ctl ch) \<Longrightarrow> ctl_ok (ctl (rc_pcr mp ch))"
  by (simp add: rc_pcr_def ifelse_def sl_ctl ok_fisu_msu_received ok_bsnr_and_bibr ok_rb_congestion
      ok_moves ok_rc_deliver)

lemma ok_rc_basic_accepted: "ctl_ok (ctl ch) \<Longrightarrow> ctl_ok (ctl (rc_basic_accepted mp ch))"
  by (simp add: rc_basic_accepted_def ifelse_def sl_ctl ok_fisu_msu_received ok_bsnr_and_bibr
      ok_rb_congestion ok_moves ok_rc_deliver)

lemma ok_rc_basic: "ctl_ok (ctl ch) \<Longrightarrow> ctl_ok (ctl (rc_basic mp ch))"
  by (simp add: rc_basic_def ifelse_def sl_ctl ok_rc_basic_accepted ok_bsnr_and_bibr ok_down_unalign)

text \<open>Only a unit that follows an abnormal one takes the link down, and then reception control with it.\<close>

lemma ok_rc_idle:
  assumes "ctl_ok k" "k_lsc k = LSC_OUT_OF_SERVICE"
  shows "k\<lparr>k_rc := ST_IDLE\<rparr> = k"
proof -
  have "k_rc k = ST_IDLE" using assms act_cases[of "k_rc k"] by (auto simp: ctl_ok_def)
  then show ?thesis by simp
qed

lemma ok_rc_msu_fisu: "ctl_ok (ctl ch) \<Longrightarrow> ctl_ok (ctl (rc_msu_fisu mp ch))"
proof -
  assume ok: "ctl_ok (ctl ch)"
  have oos: "k_lsc (ctl (sl_lsc_link_failure r ch)) = LSC_OUT_OF_SERVICE" for r
    by (simp add: ctl_link_failure ctl_down_def)
  have "ctl (set_rc_state ST_IDLE (sl_lsc_link_failure r ch)) = ctl (sl_lsc_link_failure r ch)" for r
    using ok_rc_idle[OF ok_link_failure[OF ok, of r] oos] by (simp add: ctl_statem ctl_obs)
  then show ?thesis using ok
    by (simp add: rc_msu_fisu_def ifelse_def ifthen_def ctl_freemsg ok_link_failure)
      (simp add: ctl_statem ctl_obs ctl_freemsg ok_rc_pcr ok_rc_basic)
qed

lemma ctl_rc_parse [sl_ctl]: "ctl (snd (rc_parse bs ch)) = ctl ch"
  by (simp add: rc_parse_def Let_def sl_ctl)

lemma ok_rc_lssu: "ctl_ok (ctl ch) \<Longrightarrow> ctl_ok (ctl (rc_lssu ch))"
  by (simp add: rc_lssu_def Let_def ok_iac_sio ok_lsc_sio ok_iac_sin ok_iac_sie sl_lsc_sin_def sl_lsc_sie_def
      ok_aligning_su ok_iac_sios ok_lsc_sios ok_sipo ok_sib)

lemma ok_rc_signal_unit: "ctl_ok (ctl ch) \<Longrightarrow> ctl_ok (ctl (sl_rc_signal_unit mp ch))"
  using ctl_rc_parse[of "octets mp" ch]
  by (auto simp: sl_rc_signal_unit_def Let_def ctl_freemsg ok_rc_lssu ok_rc_msu_fisu split: prod.split)

section \<open>Requests\<close>

lemma ok_rc_start_txc_start:
  "ctl (sl_txc_start ch) = (ctl ch)\<lparr>k_txc := ST_IN_SERVICE\<rparr>"
  "ctl (sl_rc_start ch) = (ctl ch)\<lparr>k_rc := ST_IN_SERVICE\<rparr>"
  by (simp_all add: sl_txc_start_def sl_rc_start_def ifelse_def ifthen_def sl_ctl act_cases)

lemma ok_lsc_start: "ctl_ok (ctl ch) \<Longrightarrow> ctl_ok (ctl (sl_lsc_start ch))"
proof (cases "k_lsc (ctl ch) = LSC_OUT_OF_SERVICE")
  case True
  assume ok: "ctl_ok (ctl ch)"
  then have "k_iac (ctl ch) = IAC_IDLE" using True by (simp add: ctl_ok_def)
  moreover have "ctl (sl_lsc_start ch) = (ctl ch)\<lparr>k_lsc := LSC_INITIAL_ALIGNMENT, k_rc := ST_IN_SERVICE,
      k_txc := ST_IN_SERVICE, k_iac := IAC_NOT_ALIGNED, k_armed := (k_armed (ctl ch))(T2 := True)\<rparr>"
    using True calculation
    by (simp add: sl_lsc_start_def sl_iac_start_def sl_iac_emergency_def ifthen_def sl_ctl
        ok_rc_start_txc_start)
  ultimately show ?thesis using ok True by (clarsimp simp: ctl_ok_def lsc_up_def)
qed (simp add: sl_lsc_start_def ifthen_def sl_ctl)

lemma ok_power_on: "ctl_ok (ctl ch) \<Longrightarrow> ctl_ok (ctl (sl_lsc_power_on ch))"
  by (clarsimp simp: sl_lsc_power_on_def ifthen_def sl_ctl ok_rc_start_txc_start ctl_ok_def lsc_up_def)

lemma ok_lsc_continue: "ctl_ok (ctl ch) \<Longrightarrow> ctl_ok (ctl (sl_lsc_continue ch))"
  by (simp add: sl_lsc_continue_def ifthen_def sl_ctl ok_moves)

lemma ok_lsc_clear_rtb: "ctl_ok (ctl ch) \<Longrightarrow> ctl_ok (ctl (sl_lsc_clear_rtb i ch))"
  by (simp add: sl_lsc_clear_rtb_def sl_txc_clear_rtb_def ifelse_def exec_def sl_ctl ok_moves)

lemma ctl_clear [sl_ctl]:
  "ctl (sl_txc_clear_tb m ch) = ctl ch"
  "ctl (sl_txc_clear_rtb m ch) = ctl ch"
  "ctl (sl_txc_flush_buffers ch) = ctl ch"
  by (simp_all add: sl_txc_clear_tb_def sl_txc_clear_rtb_def sl_txc_flush_buffers_def exec_def sl_ctl)

lemma ok_lsc_clear_buffers: "ctl_ok (ctl ch) \<Longrightarrow> ctl_ok (ctl (sl_lsc_clear_buffers i ch))"
  by (simp add: sl_lsc_clear_buffers_def ifthen_def ifelse_def exec_def sl_ctl ok_moves split: lsc.split)

lemma ok_rc_retrieve_fsnx: "ctl_ok (ctl ch) \<Longrightarrow> ctl_ok (ctl (sl_rc_retrieve_fsnx ch))"
  by (simp add: sl_rc_retrieve_fsnx_def sl_ctl ok_moves)

text \<open>Resuming from \<open>LSC_ALIGNED_NOT_READY\<close>: the processor outage machine does not move the link there.\<close>

lemma ctl_poc_recovered_aligned:
  "k_lsc (ctl ch) \<noteq> LSC_PROCESSOR_OUTAGE \<Longrightarrow> ctl (sl_poc_local_processor_recovered ch) = ctl ch"
  by (simp add: sl_poc_local_processor_recovered_def sl_lsc_no_processor_outage_def sl_ctl ifthen_def
      split: poc.split)

lemma ok_resume: "ctl_ok (ctl ch) \<Longrightarrow> ctl_ok (ctl (snd (sl_lsc_local_processor_recovered i ch)))"
  by (simp add: sl_lsc_local_processor_recovered_def Let_def sl_ctl ok_moves ok_poc_recovered
      ok_rc_retrieve_fsnx ifthen_def ctl_poc_recovered_aligned split: lsc.split)

lemma ok_lpo: "ctl_ok (ctl ch) \<Longrightarrow> ctl_ok (ctl (sl_lsc_local_processor_outage ch))"
  by (simp add: sl_lsc_local_processor_outage_def ifthen_def ifelse_def sl_ctl ok_moves split: lsc.split)

lemma ctl_retr [sl_ctl]:
  "ctl (retr_skip n stop ch) = ctl ch"
  "ctl (retr_join n ch) = ctl ch"
  "ctl (snd (retr_deliver n ch)) = ctl ch"
proof -
  show "ctl (retr_skip n stop ch) = ctl ch"
    by (induction n stop ch rule: retr_skip.induct) (simp_all add: retr_skip.simps sl_ctl)
  show "ctl (retr_join n ch) = ctl ch"
    by (induction n ch rule: retr_join.induct)
      (simp_all add: retr_join.simps ifthen_def sl_ctl split: prod.split option.split)
  show "ctl (snd (retr_deliver n ch)) = ctl ch"
  proof (induction n arbitrary: ch)
    case (Suc n)
    have "sl_retrieved_message_ind m c = (e, c') \<Longrightarrow> ctl c' = ctl c" for m c e c'
      using ctl_v.indications(5)[of m c] by simp
    then show ?case using Suc
      by (fastforce simp: retr_deliver.simps sl_ctl split: prod.split option.split errno.split)
  qed (simp add: retr_deliver.simps)
qed

lemma ctl_retrieval [sl_ctl]: "ctl (snd (sl_txc_retrieval_request_and_fsnc i f ch)) = ctl ch"
proof -
  have d: "ctl c' = ctl c" if "retr_deliver n c = (e, c')" for n c e c' using ctl_retr(3)[of n c] that by simp
  show ?thesis
    by (auto simp: sl_txc_retrieval_request_and_fsnc_def Let_def sl_ctl dest!: d split: prod.split errno.split)
qed

section \<open>Monitors and timers\<close>

lemma ok_abort_proving: "ctl_ok (ctl ch) \<Longrightarrow> ctl_ok ((ctl (sl_iac_abort_proving ch))\<lparr>k_aerm := ST_IDLE\<rparr>)"
  by (cases "k_iac (ctl ch)";
      clarsimp simp: sl_iac_abort_proving_def ifthen_def ifelse_def sl_ctl ctl_ok_def lsc_up_def)

lemma ok_aerm_su_in_error: "ctl_ok (ctl ch) \<Longrightarrow> ctl_ok (ctl (sl_aerm_su_in_error ch))"
proof -
  assume ok: "ctl_ok (ctl ch)"
  have "ctl (set_aborted_proving True (set_Ca c ch)) = ctl ch" for c by (simp add: sl_ctl)
  then have "ctl_ok ((ctl (sl_iac_abort_proving (set_aborted_proving True (set_Ca c ch))))\<lparr>k_aerm := ST_IDLE\<rparr>)" for c
    using ok ok_abort_proving by metis
  then show ?thesis using ok
    by (simp add: sl_aerm_su_in_error_def ifthen_def sl_ctl ok_moves)
qed

lemma ok_iac_correct_su: "ctl_ok (ctl ch) \<Longrightarrow> ctl_ok (ctl (sl_iac_correct_su ch))"
  by (clarsimp simp: sl_iac_correct_su_def ifthen_def sl_ctl ctl_ok_def)

lemma ctl_monitors [sl_ctl]:
  "ctl (sl_eim_correct_su ch) = ctl ch"
  "ctl (suerm_count_su ch) = ctl ch"
  "ctl (sl_eim_su_in_error ch) = ctl ch"
  by (simp_all add: sl_eim_correct_su_def suerm_count_su_def sl_eim_su_in_error_def sl_ctl)

lemma ctl_suerm_correct_su [sl_ctl]: "ctl (sl_suerm_correct_su ch) = ctl ch"
  by (simp add: sl_suerm_correct_su_def sl_ctl)

lemma ok_daedr_correct_su: "ctl_ok (ctl ch) \<Longrightarrow> ctl_ok (ctl (sl_daedr_correct_su ch))"
  by (simp add: sl_daedr_correct_su_def sl_aerm_correct_su_def ifthen_def sl_ctl ok_iac_correct_su)

lemma ok_suerm_idle:
  "ctl_ok k \<Longrightarrow> k_lsc k = LSC_OUT_OF_SERVICE \<Longrightarrow> k\<lparr>k_suerm := ST_IDLE\<rparr> = k"
  "ctl_ok k \<Longrightarrow> k_lsc k = LSC_OUT_OF_SERVICE \<Longrightarrow> k\<lparr>k_eim := ST_IDLE\<rparr> = k"
proof -
  assume "ctl_ok k" "k_lsc k = LSC_OUT_OF_SERVICE"
  then have "k_suerm k = ST_IDLE" "k_eim k = ST_IDLE"
    using act_cases[of "k_suerm k"] act_cases[of "k_eim k"] by (auto simp: ctl_ok_def lsc_up_def)
  then show "k\<lparr>k_suerm := ST_IDLE\<rparr> = k" "k\<lparr>k_eim := ST_IDLE\<rparr> = k" by simp_all
qed

lemma lsc_down [simp]: "k_lsc (ctl_down k) = LSC_OUT_OF_SERVICE"
  by (simp add: ctl_down_def)

lemma ok_fail_idle:
  assumes "ctl_ok (ctl ch)"
  shows "ctl_ok ((ctl (sl_lsc_link_failure r ch))\<lparr>k_suerm := ST_IDLE\<rparr>)"
    and "ctl_ok ((ctl (sl_lsc_link_failure r ch))\<lparr>k_eim := ST_IDLE\<rparr>)"
proof -
  have "k_lsc (ctl (sl_lsc_link_failure r ch)) = LSC_OUT_OF_SERVICE" by (simp add: ctl_link_failure)
  then show "ctl_ok ((ctl (sl_lsc_link_failure r ch))\<lparr>k_suerm := ST_IDLE\<rparr>)"
    "ctl_ok ((ctl (sl_lsc_link_failure r ch))\<lparr>k_eim := ST_IDLE\<rparr>)"
    using ok_link_failure[OF assms] by (simp_all only: ok_suerm_idle)
qed

lemma ok_suerm_su_in_error: "ctl_ok (ctl ch) \<Longrightarrow> ctl_ok (ctl (sl_suerm_su_in_error ch))"
proof (cases "suerm_state (sdt_sm ch) = ST_IN_SERVICE")
  case True
  assume ok: "ctl_ok (ctl ch)"
  let ?c = "set_Cs (Cs (sdt_sm ch) + 1) ch"
  have c: "ctl ?c = ctl ch" by (simp add: sl_ctl)
  have "ctl_ok (ctl (set_suerm_state ST_IDLE (set_Ca x (sl_lsc_link_failure r ?c))))" for x r
    using ok_fail_idle(1)[of ?c r] ok c by (simp add: ctl_sdt_sm ctl_obs)
  moreover have "ctl_ok (ctl (suerm_count_su ?c))"
    using ok c by (simp add: ctl_monitors)
  ultimately show ?thesis using True by (simp add: sl_suerm_su_in_error_def ifelse_def)
qed (simp add: sl_suerm_su_in_error_def)

lemma ok_daedr_su_in_error: "ctl_ok (ctl ch) \<Longrightarrow> ctl_ok (ctl (sl_daedr_su_in_error ch))"
  by (simp add: sl_daedr_su_in_error_def ifelse_def sl_ctl
      ok_suerm_su_in_error ok_aerm_su_in_error)

text \<open>A timeout handler runs with its own timer no longer armed.\<close>

definition disarm :: "timer \<Rightarrow> ch \<Rightarrow> ch" where
  "disarm t ch = ch\<lparr>pending := (pending ch)(t := None)\<rparr>"

lemma ctl_disarm [sl_ctl]: "ctl (disarm t ch) = (ctl ch)\<lparr>k_armed := (k_armed (ctl ch))(t := False)\<rparr>"
  by (auto simp: disarm_def ctl_def armed_def hsl_def fun_eq_iff)

lemma armed_k: "armed ch t \<Longrightarrow> t \<noteq> T6 \<Longrightarrow> t \<noteq> T7 \<Longrightarrow> k_armed (ctl ch) t"
  by (simp add: ctl_def)

lemma ok_t1: "ctl_ok (ctl ch) \<Longrightarrow> k_armed (ctl ch) T1 \<Longrightarrow> ctl_ok (ctl (xp_t1_timeout (disarm T1 ch)))"
  by (cases "k_lsc (ctl ch)";
      clarsimp simp: xp_t1_timeout_def ifthen_def sl_ctl ctl_ok_def lsc_up_def)

lemma ok_t2: "ctl_ok (ctl ch) \<Longrightarrow> k_armed (ctl ch) T2 \<Longrightarrow> ctl_ok (ctl (xp_t2_timeout (disarm T2 ch)))"
  by (clarsimp simp: xp_t2_timeout_def ifthen_def sl_ctl ctl_ok_def lsc_up_def)

lemma ok_t3: "ctl_ok (ctl ch) \<Longrightarrow> k_armed (ctl ch) T3 \<Longrightarrow> ctl_ok (ctl (xp_t3_timeout (disarm T3 ch)))"
  by (clarsimp simp: xp_t3_timeout_def ifthen_def sl_ctl ctl_ok_def lsc_up_def)

lemma ctl_alignment_complete:
  assumes "k_lsc (ctl ch) = LSC_INITIAL_ALIGNMENT"
  obtains s where "s = LSC_ALIGNED_READY \<or> s = LSC_ALIGNED_NOT_READY"
    and "ctl (sl_lsc_alignment_complete ch) = (ctl (sl_suerm_start ch))\<lparr>
      k_armed := (k_armed (ctl (sl_suerm_start ch)))(T1 := True), k_lsc := s\<rparr>"
  using assms
  by (cases "local_processor_outage (statem (xp_timer_start T1 (sl_suerm_start ch)))")
    (auto simp: sl_lsc_alignment_complete_def ifelse_def sl_ctl)

lemma ok_t4: "ctl_ok (ctl ch) \<Longrightarrow> k_armed (ctl ch) T4 \<Longrightarrow> ctl_ok (ctl (xp_t4_timeout (disarm T4 ch)))"
proof -
  assume ok: "ctl_ok (ctl ch)" "k_armed (ctl ch) T4"
  let ?c = "disarm T4 ch"
  have p: "k_iac (ctl ch) = IAC_PROVING" using ok by (clarsimp simp: ctl_ok_def)
  then have l: "k_lsc (ctl ch) = LSC_INITIAL_ALIGNMENT" using ok by (clarsimp simp: ctl_ok_def)
  then have "k_lsc (ctl ?c) = LSC_INITIAL_ALIGNMENT" by (simp add: sl_ctl)
  then obtain s where s: "s = LSC_ALIGNED_READY \<or> s = LSC_ALIGNED_NOT_READY"
    "ctl (sl_lsc_alignment_complete ?c) = (ctl (sl_suerm_start ?c))\<lparr>
       k_armed := (k_armed (ctl (sl_suerm_start ?c)))(T1 := True), k_lsc := s\<rparr>"
    by (rule ctl_alignment_complete)
  have "ctl_ok ((ctl (sl_lsc_alignment_complete ?c))\<lparr>k_aerm := ST_IDLE, k_iac := IAC_IDLE\<rparr>)"
    unfolding s(2) using s(1) ok p l
    by (elim disjE; cases "k_hsl (ctl ch)"; clarsimp simp: sl_ctl ctl_ok_def lsc_up_def)
  then show ?thesis using ok p
    by (clarsimp simp: xp_t4_timeout_def ifthen_def ifelse_def sl_ctl) (clarsimp simp: ctl_ok_def)
qed

lemma ok_t5: "ctl_ok (ctl ch) \<Longrightarrow> k_armed (ctl ch) T5 \<Longrightarrow> ctl_ok (ctl (xp_t5_timeout (disarm T5 ch)))"
  by (clarsimp simp: xp_t5_timeout_def ifthen_def sl_ctl ctl_ok_def)

lemma ok_t6_t7:
  "ctl_ok (ctl ch) \<Longrightarrow> ctl_ok (ctl (xp_t6_timeout (disarm T6 ch)))"
  "ctl_ok (ctl ch) \<Longrightarrow> ctl_ok (ctl (xp_t7_timeout (disarm T7 ch)))"
  using ok_link_failure[of "disarm T6 ch"] ok_link_failure[of "disarm T7 ch"]
  by (simp_all add: xp_t6_timeout_def xp_t7_timeout_def ctl_statem ctl_obs ctl_stop ctl_t6_t7 ctl_ifthen
      ctl_disarm)

lemma ok_t8: "ctl_ok (ctl ch) \<Longrightarrow> k_armed (ctl ch) T8 \<Longrightarrow> ctl_ok (ctl (xp_t8_timeout (disarm T8 ch)))"
proof -
  assume ok: "ctl_ok (ctl ch)" "k_armed (ctl ch) T8"
  let ?c = "xp_timer_start T8 (disarm T8 ch)"
  have e: "k_eim (ctl ch) = ST_IN_SERVICE" using ok by (simp add: ctl_ok_def)
  have c: "ctl ?c = ctl ch" using ok(2) by (simp add: sl_ctl fun_upd_idem)
  have f: "ctl_ok (ctl (set_eim_state ST_IDLE (sl_lsc_link_failure r ch')))"
    if "ctl ch' = ctl ch" for r ch'
    using ok_fail_idle(2)[of ch' r] ok that by (simp add: ctl_sdt_sm ctl_obs)
  have g: "ctl_ok (ctl (ifthen b (steps [sl_lsc_link_failure r, set_eim_state ST_IDLE]) ch'))"
    if "ctl ch' = ctl ch" for b r ch'
    using f[OF that] ok(1) that by (simp add: ifthen_def)
  have "xp_t8_timeout (disarm T8 ch) =
      (let ch1 = ifthen (\<lambda>ch. su_received (sdt_sm ch)) (set_su_received False) ?c in
         if su_received (sdt_sm ?c) \<and> \<not> interval_error (sdt_sm ?c) then
           steps [(\<lambda>ch. set_Ce (Ce (sdt_sm ch) - cfg_De (sdt_cfg ch)) ch),
                  ifthen (\<lambda>ch. sint (Ce (sdt_sm ch)) < 0) (set_Ce 0)] ch1
         else
           steps [(\<lambda>ch. set_Ce (Ce (sdt_sm ch) + cfg_Ue (sdt_cfg ch)) ch),
                  ifthen (\<lambda>ch. Ce (sdt_sm ch) > cfg_Te (sdt_cfg ch))
                    (steps [sl_lsc_link_failure SL_FAIL_SUERM_EIM, set_eim_state ST_IDLE]),
                  set_interval_error False] ch1)"
    using e by (simp add: xp_t8_timeout_def sl_ctl)
  then show ?thesis using ok(1) c
    by (simp add: Let_def ctl_sdt_sm ctl_obs ctl_ifthen g)
qed

lemma ok_expiry: "ctl_ok (ctl ch) \<Longrightarrow> pending ch t \<noteq> None \<Longrightarrow> ctl_ok (ctl (xp_expiry t ch))"
proof -
  assume ok: "ctl_ok (ctl ch)" "pending ch t \<noteq> None"
  have e: "xp_expiry t ch = (if tid ch t then xp_timeout t (disarm t ch) else disarm t ch)"
    by (simp add: xp_expiry_def ifthen_def disarm_def)
  show ?thesis
  proof (cases "tid ch t")
    case True
    then have "armed ch t" using ok(2) by (simp add: armed_def)
    then show ?thesis unfolding e using True ok(1) armed_k[of ch t]
      by (cases t) (simp_all add: ok_t1 ok_t2 ok_t3 ok_t4 ok_t5 ok_t6_t7 ok_t8)
  next
    case False
    then have "ctl (disarm t ch) = ctl ch"
      by (auto simp: disarm_def ctl_def armed_def hsl_def fun_eq_iff)
    then show ?thesis unfolding e using False ok(1) by simp
  qed
qed

end
