(* ===== verification/SL_Step.thy ===== *)
theory SL_Step
  imports SL_Control
begin

text \<open>
  The signalling link as a transition system: \<open>sl_reach\<close> is reachability by enabled events, the locale
  \<open>link_invariant\<close> is the contract of an invariant of the events and gives it for every reachable state and
  every run, and the control invariant of \<open>SL_Control\<close> is an instance.
\<close>

section \<open>Reachability\<close>

inductive sl_reach :: "ch \<Rightarrow> ch \<Rightarrow> bool" for ch0 :: ch where
  reach_init: "sl_reach ch0 ch0"
| reach_step: "sl_reach ch0 ch \<Longrightarrow> sl_enabled e ch \<Longrightarrow> sl_reach ch0 (sl_step e ch)"

lemma reach_run_from: "sl_reach ch0 ch \<Longrightarrow> sl_reach ch0 (sl_run es ch)"
  by (induction es arbitrary: ch) (simp_all add: sl_reach.reach_step)

lemma reach_iff_run: "sl_reach ch0 ch \<longleftrightarrow> (\<exists>es. ch = sl_run es ch0)"
proof
  assume "sl_reach ch0 ch"
  then show "\<exists>es. ch = sl_run es ch0"
  proof induction
    case reach_init
    have "ch0 = sl_run [] ch0" by simp
    then show ?case by blast
  next
    case (reach_step ch e)
    then obtain es where "ch = sl_run es ch0" by blast
    then have "sl_step e ch = sl_run (es @ [e]) ch0" using reach_step.hyps(2) by simp
    then show ?case by blast
  qed
next
  assume "\<exists>es. ch = sl_run es ch0"
  then show "sl_reach ch0 ch" using reach_run_from[OF reach_init] by blast
qed

text \<open>A run all of whose events satisfy a condition on the state they find.\<close>

fun sl_allowed :: "(sl_event \<Rightarrow> ch \<Rightarrow> bool) \<Rightarrow> sl_event list \<Rightarrow> ch \<Rightarrow> bool" where
  "sl_allowed P [] ch \<longleftrightarrow> True"
| "sl_allowed P (e # es) ch \<longleftrightarrow>
     (if sl_enabled e ch then P e ch \<and> sl_allowed P es (sl_step e ch) else sl_allowed P es ch)"

lemma sl_allowed_True [simp]: "sl_allowed (\<lambda>_ _. True) es ch"
  by (induction es arbitrary: ch) simp_all

text \<open>The contract of an invariant under a class of events, and of one under all events.\<close>

locale event_invariant =
  fixes inv :: "ch \<Rightarrow> bool" and permitted :: "sl_event \<Rightarrow> ch \<Rightarrow> bool"
  assumes permitted_keeps: "inv ch \<Longrightarrow> sl_enabled e ch \<Longrightarrow> permitted e ch \<Longrightarrow> inv (sl_step e ch)"
begin

lemma permitted_run: "inv ch \<Longrightarrow> sl_allowed permitted es ch \<Longrightarrow> inv (sl_run es ch)"
  by (induction es arbitrary: ch) (simp_all add: permitted_keeps split: if_splits)

end

locale link_invariant =
  fixes inv :: "ch \<Rightarrow> bool"
  assumes keeps: "inv ch \<Longrightarrow> sl_enabled e ch \<Longrightarrow> inv (sl_step e ch)"

sublocale link_invariant \<subseteq> event_invariant inv "\<lambda>_ _. True"
  by unfold_locales (rule keeps)

context link_invariant
begin

lemma run: "inv ch0 \<Longrightarrow> inv (sl_run es ch0)"
  by (rule permitted_run) simp_all

lemma reach: "sl_reach ch0 ch \<Longrightarrow> inv ch0 \<Longrightarrow> inv ch"
  unfolding reach_iff_run by (elim exE) (simp only: run)

end

section \<open>Events keep the control invariant\<close>

lemma ok_lsc_pdu: "ctl (snd (sl_lsc_pdu p ch)) = ctl ch"
  by (auto simp: sl_lsc_pdu_def sl_txc_message_for_transmission_def exec_def sl_ctl
      split: pdu.split option.split prod.split dest: allocb_ctl)

lemma ctl_send_data [sl_ctl]: "ctl (snd (xp_send_data p ch)) = ctl ch"
  by (simp add: xp_send_data_def ok_lsc_pdu sl_ctl)

lemma ok_congestion_req:
  "ctl_ok (ctl ch) \<Longrightarrow> ctl_ok (ctl (sl_lsc_congestion_discard ch))"
  "ctl_ok (ctl ch) \<Longrightarrow> ctl_ok (ctl (sl_lsc_congestion_accept ch))"
  "ctl_ok (ctl ch) \<Longrightarrow> ctl_ok (ctl (sl_lsc_no_congestion ch))"
  using ok_cc_busy[of "set_congestion_discard True ch"] ok_cc_busy[of "set_congestion_accept True ch"]
    ok_no_congestion[of ch]
  by (simp_all add: sl_lsc_congestion_discard_def sl_lsc_congestion_accept_def sl_lsc_no_congestion_def
      sl_rc_congestion_discard_def sl_rc_congestion_accept_def ctl_statem ctl_obs)

lemma ok_emergency:
  "ctl_ok (ctl ch) \<Longrightarrow> ctl_ok (ctl (sl_lsc_emergency ch))"
  "ctl_ok (ctl ch) \<Longrightarrow> ctl_ok (ctl (sl_lsc_emergency_ceases ch))"
  using ok_iac_emergency[of "set_emergency True ch"]
  by (simp_all add: sl_lsc_emergency_def sl_lsc_emergency_ceases_def ctl_statem ctl_obs)

lemma ok_retrieve:
  "ctl (sl_lsc_retrieve_bsnt mp ch) = ctl ch"
  "ctl (snd (sl_lsc_retrieval_request_and_fsnc mp f ch)) = ctl ch"
  by (simp_all add: sl_lsc_retrieve_bsnt_def sl_lsc_retrieval_request_and_fsnc_def sl_rc_retrieve_bsnt_def
      ifelse_def ctl_retrieval ctl_freemsg ctl_upper ctl_frame)

lemma ok_w_proto: "ctl_ok (ctl ch) \<Longrightarrow> ctl_ok (ctl (snd (sl_w_proto r mp ch)))"
  by (cases r)
    (simp_all add: sl_emergency_req_def sl_emergency_ceases_req_def sl_start_req_def sl_stop_req_def
      sl_retrieve_bsnt_req_def sl_retrieval_request_and_fsnc_req_def sl_clear_buffers_req_def
      sl_clear_rtb_req_def sl_continue_req_def sl_local_processor_outage_req_def sl_resume_req_def
      sl_congestion_discard_req_def sl_congestion_accept_req_def sl_no_congestion_req_def
      sl_power_on_req_def ctl_freemsg ok_congestion_req ok_emergency ok_retrieve ok_lsc_start ok_lsc_stop
      ok_lsc_clear_buffers ok_lsc_clear_rtb ok_lsc_continue ok_lpo ok_resume ok_power_on
      split: option.split)

lemma ctl_sdt_received [sl_ctl]: "ctl (sdt_received_bits mp ch) = ctl ch"
proof -
  have f: "ctl (case p of (OK, c) \<Rightarrow> c | (_, c) \<Rightarrow>
      steps [set_rx_buffer_overflows (rx_buffer_overflows (sdt_st c) + 1), freemsg m] c) = ctl (snd p)"
    for p m by (cases p; cases "fst p") (simp_all add: ctl_freemsg ctl_frame)
  have a: "ctl (case allocb n c of (Some _, c) \<Rightarrow> c\<lparr>rx_cmp := x, rx_repeat := 0\<rparr> | (None, c) \<Rightarrow> c) = ctl c"
    for n c x using ctl_v.allocb[of n c] by (cases "allocb n c"; cases "fst (allocb n c)") (simp_all add: ctl_frame)
  show ?thesis
    by (simp add: sdt_received_bits_def Let_def f ifthen_def a ctl_frame ctl_freemsg ctl_upper)
qed

lemma ok_received_bits: "ctl_ok (ctl ch) \<Longrightarrow> ctl_ok (ctl (sl_daedr_received_bits mp ch))"
  by (simp add: sl_daedr_received_bits_def ifelse_def ctl_sdt_received ok_rc_signal_unit ok_daedr_correct_su)

lemma ctl_txc_units [sl_ctl]:
  "ctl (txc_fill ch) = ctl ch"
  "ctl (snd (txc_fisu ch)) = ctl ch"
  "ctl (snd (txc_lssu ch)) = ctl ch"
  "ctl (txc_rtb_limit ch) = ctl ch"
  "ctl (txc_pcr_limits ch) = ctl ch"
  "ctl (snd (dupmsg bp ch)) = ctl ch"
  by (auto simp: txc_fill_def txc_fisu_def txc_lssu_def txc_rtb_limit_def txc_pcr_limits_def dupmsg_def
      ifthen_def ifelse_def Let_def sl_ctl split: option.split prod.split dest: allocb_ctl)

lemma ctl_send_dup [sl_ctl]: "ctl (snd (txc_send_dup bp mp ch)) = ctl ch"
  by (simp add: txc_send_dup_def ifthen_def ifelse_def Let_def sl_ctl)

lemma ctl_retransmit [sl_ctl]: "ctl (snd (txc_retransmit ch)) = ctl ch"
proof -
  have d: "ctl c' = ctl c" if "dupmsg bp c = (r, c')" for bp r c c'
    using ctl_txc_units(6)[of bp c] that by simp
  show ?thesis
    by (auto simp: txc_retransmit_def Let_def ctl_send_dup ctl_statem ctl_obs
        split: option.split prod.split dest!: d)
qed

lemma ctl_new_msu [sl_ctl]: "ctl (snd (txc_new_msu ch)) = ctl ch"
  by (auto simp: txc_new_msu_def ifthen_def Let_def sl_ctl split: option.split prod.split
      dest: allocb_ctl)

lemma ctl_txc_request [sl_ctl]: "ctl (snd (sl_txc_transmission_request ch)) = ctl ch"
  by (simp add: sl_txc_transmission_request_def Let_def ctl_new_msu ctl_retransmit ctl_txc_units)

lemma ctl_sdt_request [sl_ctl]: "ctl (snd (sdt_transmission_request ch)) = ctl ch"
  by (auto simp: sdt_transmission_request_def ifthen_def Let_def ctl_frame ctl_upper
      split: option.split prod.split dest!: allocb_ctl)

lemma ctl_transmission_request [sl_ctl]: "ctl (snd (sl_daedt_transmission_request ch)) = ctl ch"
proof -
  have t: "ctl c' = ctl c" if "sl_txc_transmission_request c = (r, c')" for r c c'
    using ctl_txc_request[of c] that by simp
  show ?thesis
    by (auto simp: sl_daedt_transmission_request_def ifthen_def ctl_frame ctl_upper ctl_sdt_request
        split: option.split prod.split dest!: t)
qed

lemma ctl_rq_srv [sl_ctl]: "ctl (rq_srv room ch) = ctl ch"
  by (rule rq_srv_view) (auto simp: xp_r_prim_srv_def sl_ctl split: option.splits rqmsg.splits if_splits)

lemma ok_step: "ctl_ok (ctl ch) \<Longrightarrow> sl_enabled e ch \<Longrightarrow> ctl_ok (ctl (sl_step e ch))"
  by (cases e) (simp_all add: exec_def ok_w_proto ctl_send_data ok_received_bits ok_daedr_su_in_error
      ctl_transmission_request ok_expiry ctl_rq_srv ctl_frame)

interpretation ctl_inv: link_invariant "\<lambda>ch. ctl_ok (ctl ch)"
  by unfold_locales (rule ok_step)

lemma ok_init: "ctl_ok (ctl (xp_init_ch pv po c sc x))"
  by (simp add: ctl_ok_def ctl_def xp_init_ch_def sl_statem_zero_def sdt_statem_zero_def armed_def lsc_up_def)

end
