(* ===== verification/SL_Window.thy ===== *)
theory SL_Window
  imports SL_Step
begin

text \<open>
  The transmit window: the messages in the retransmission buffer are those with the forward sequence
  numbers from \<open>tx.F.fsn\<close> to \<open>tx.L.fsn\<close>, and reception control checks backward sequence numbers against
  the same bounds.  \<open>win\<close> abstracts a channel to what this involves, the lemmas of the collection
  \<open>sl_win sl_view\<close> say what each operation does to it, and \<open>win_ok\<close> is kept by every event but the requests
  that clear or reset the buffers.
\<close>

section \<open>Abstraction\<close>

record window =
  w_msk :: u16
  w_clear :: bool
  w_full :: bool
  w_F :: u16
  w_L :: u16
  w_rF :: u16
  w_rT :: u16
  w_rR :: u16
  w_ids :: "nat list"
  w_msgs :: nat
  w_pcr :: bool
  w_xsn :: bool
  w_N1 :: nat

definition win :: "ch \<Rightarrow> window" where
  "win ch = \<lparr>
     w_msk = sn_mask (statem ch), w_clear = clear_rtb (statem ch), w_full = rtb_full (statem ch),
     w_F = F_fsn (tx_sn ch), w_L = L_fsn (tx_sn ch), w_rF = rF_fsn (rx_sn ch), w_rT = rT_fsn (rx_sn ch),
     w_rR = rR_bsn (rx_sn ch),
     w_ids = map mid (q_list (rtb ch)), w_msgs = q_msgs (rtb ch), w_pcr = pcr ch, w_xsn = xsn ch, w_N1 = unat (cfg_N1 (config ch))\<rparr>"

lemma win_obs [sl_win]:
  "sn_mask (statem ch) = w_msk (win ch)"
  "clear_rtb (statem ch) = w_clear (win ch)"
  "rtb_full (statem ch) = w_full (win ch)"
  "F_fsn (tx_sn ch) = w_F (win ch)"
  "L_fsn (tx_sn ch) = w_L (win ch)"
  "rF_fsn (rx_sn ch) = w_rF (win ch)"
  "rT_fsn (rx_sn ch) = w_rT (win ch)"
  "rR_bsn (rx_sn ch) = w_rR (win ch)"
  "map mid (q_list (rtb ch)) = w_ids (win ch)"
  "q_msgs (rtb ch) = w_msgs (win ch)"
  "pcr ch = w_pcr (win ch)"
  "xsn ch = w_xsn (win ch)"
  "unat (cfg_N1 (config ch)) = w_N1 (win ch)"
  by (simp_all add: win_def)

lemma win_assign [sl_win]:
  "win (statem_update u ch) = (win ch)\<lparr>w_msk := sn_mask (u (statem ch)),
     w_clear := clear_rtb (u (statem ch)), w_full := rtb_full (u (statem ch))\<rparr>"
  "win (tx_sn_update v ch) = (win ch)\<lparr>w_F := F_fsn (v (tx_sn ch)), w_L := L_fsn (v (tx_sn ch))\<rparr>"
  "win (rx_sn_update x ch) = (win ch)\<lparr>w_rF := rF_fsn (x (rx_sn ch)), w_rT := rT_fsn (x (rx_sn ch)),
     w_rR := rR_bsn (x (rx_sn ch))\<rparr>"
  "win (rtb_update y ch) = (win ch)\<lparr>w_ids := map mid (q_list (y (rtb ch))), w_msgs := q_msgs (y (rtb ch))\<rparr>"
  by (simp_all add: win_def pcr_def xsn_def)

lemma win_emit [sl_win]: "win (emit e ch) = win ch"
  by (simp add: emit_def win_def pcr_def xsn_def)

interpretation win_v: link_view win
  by unfold_locales (simp_all add: emit_def win_def pcr_def xsn_def sl_view rq_putq_def)

lemma win_ch_xp [sl_win]: "win (ch_xp_update x ch) = win ch"
  by (simp add: win_def pcr_def xsn_def)

lemma win_read_queue [sl_win]:
  "win (sl_flush_rq ch) = win ch" "win (snd (sl_pdu_ind mp ch)) = win ch"
  by (simp_all add: sl_flush_rq_def sl_pdu_ind_def rq_putq_def sl_win sl_view)

lemma win_congestion [sl_win]: "win (snd (sl_check_congestion m ch)) = win ch"
  by (simp add: sl_check_congestion_def Let_def sl_win sl_view split: prod.split)

lemma win_tb [sl_win]:
  "win (sl_rc_clear_rb m ch) = win ch"
  "win (sl_txc_message_for_transmission mp ch) = win ch"
  by (simp_all add: sl_rc_clear_rb_def sl_txc_message_for_transmission_def exec_def sl_win sl_view)

section \<open>Acknowledgement\<close>

lemma win_rtb_drop:
  "win (rtb_drop ch) = (win ch)\<lparr>w_F := (w_F (win ch) + 1) AND w_msk (win ch),
     w_ids := tl (w_ids (win ch)),
     w_msgs := (if w_ids (win ch) = [] then w_msgs (win ch) else w_msgs (win ch) - 1)\<rparr>"
  by (cases "q_list (rtb ch)")
    (simp_all add: rtb_drop_def bufq_dequeue_def bufq_sub_def Let_def freemsg_def emit_def win_def
      pcr_def xsn_def)

text \<open>The loop of the acknowledgement frees one message for each sequence number it passes, and stops.\<close>

lemma win_rtb_ack:
  assumes "sn_mask_ok (w_msk (win ch))" "sn_valid (w_msk (win ch)) stop"
    "sn_valid (w_msk (win ch)) (w_F (win ch))" "w_F (win ch) \<noteq> stop"
    "sn_dist (w_msk (win ch)) (w_F (win ch)) stop \<le> n"
    "sn_dist (w_msk (win ch)) (w_F (win ch)) stop \<le> length (w_ids (win ch))"
  shows "win (rtb_ack n stop ch) = (win ch)\<lparr>w_F := stop,
     w_ids := drop (sn_dist (w_msk (win ch)) (w_F (win ch)) stop) (w_ids (win ch)),
     w_msgs := w_msgs (win ch) - sn_dist (w_msk (win ch)) (w_F (win ch)) stop\<rparr>"
  using assms
proof (induction n arbitrary: ch)
  case 0
  then show ?case using sn_dist_zero by simp
next
  case (Suc n)
  let ?m = "w_msk (win ch)" and ?F = "w_F (win ch)"
  let ?F' = "(?F + 1) AND ?m"
  have d: "sn_dist ?m ?F stop = Suc (sn_dist ?m ?F' stop)"
    using Suc.prems sn_dist_succ_left by blast
  have v: "sn_valid ?m ?F'" using Suc.prems(1) by (rule sn_valid_mask)
  have ne: "w_ids (win ch) \<noteq> []" using Suc.prems(6) d by auto
  show ?case
  proof (cases "?F' = stop")
    case True
    then have "sn_dist ?m ?F' stop = 0" by (simp add: sn_dist_def)
    then show ?thesis using True ne d
      by (simp add: rtb_ack.simps Let_def win_obs win_rtb_drop drop_Suc)
  next
    case False
    have "win (rtb_ack n stop (rtb_drop ch)) = (win (rtb_drop ch))\<lparr>w_F := stop,
       w_ids := drop (sn_dist ?m ?F' stop) (tl (w_ids (win ch))),
       w_msgs := w_msgs (win ch) - 1 - sn_dist ?m ?F' stop\<rparr>"
      using Suc.IH[of "rtb_drop ch"] Suc.prems False d v ne by (simp add: win_rtb_drop)
    then show ?thesis using False ne d
      by (simp add: rtb_ack.simps Let_def win_obs win_rtb_drop drop_Suc)
  qed
qed

text \<open>The bound on the turns is never reached, whatever the buffer holds: the loop visits every sequence
  number within a cycle.\<close>

lemma F_rtb_drop [simp]: "F_fsn (tx_sn (rtb_drop ch)) = (F_fsn (tx_sn ch) + 1) AND sn_mask (statem ch)"
  "sn_mask (statem (rtb_drop ch)) = sn_mask (statem ch)"
  by (simp_all add: win_obs win_rtb_drop)

lemma rtb_ack_enough:
  assumes "sn_mask_ok (sn_mask (statem ch))" "sn_valid (sn_mask (statem ch)) stop"
    "sn_valid (sn_mask (statem ch)) (F_fsn (tx_sn ch))"
    "sn_dist (sn_mask (statem ch)) ((F_fsn (tx_sn ch) + 1) AND sn_mask (statem ch)) stop < n"
    "n \<le> n'"
  shows "rtb_ack n' stop ch = rtb_ack n stop ch \<and> F_fsn (tx_sn (rtb_ack n stop ch)) = stop"
  using assms
proof (induction n arbitrary: ch n')
  case (Suc n)
  let ?m = "sn_mask (statem ch)"
  let ?F' = "(F_fsn (tx_sn ch) + 1) AND ?m"
  obtain p where p: "n' = Suc p" "n \<le> p" using Suc.prems(5) by (cases n') auto
  show ?case
  proof (cases "?F' = stop")
    case True
    then show ?thesis by (simp add: p rtb_ack.simps Let_def)
  next
    case False
    have v: "sn_valid ?m ?F'" using Suc.prems(1) by (rule sn_valid_mask)
    have "sn_dist ?m ?F' stop = Suc (sn_dist ?m ((?F' + 1) AND ?m) stop)"
      using Suc.prems(1,2) v False sn_dist_succ_left by blast
    then have "rtb_ack p stop (rtb_drop ch) = rtb_ack n stop (rtb_drop ch) \<and>
        F_fsn (tx_sn (rtb_ack n stop (rtb_drop ch))) = stop"
      using Suc.IH[of "rtb_drop ch" p] Suc.prems v p by simp
    then show ?thesis using False by (simp add: p rtb_ack.simps Let_def)
  qed
qed simp

lemma rtb_ack_fuel:
  assumes "sn_mask_ok (sn_mask (statem ch))" "sn_valid (sn_mask (statem ch)) stop"
    "sn_valid (sn_mask (statem ch)) (F_fsn (tx_sn ch))" "unat (sn_mask (statem ch)) < n"
  shows "rtb_ack n stop ch = rtb_ack (Suc (unat (sn_mask (statem ch)))) stop ch
    \<and> F_fsn (tx_sn (rtb_ack n stop ch)) = stop"
proof -
  have "sn_dist (sn_mask (statem ch)) ((F_fsn (tx_sn ch) + 1) AND sn_mask (statem ch)) stop
      < Suc (unat (sn_mask (statem ch)))"
    using sn_dist_le[OF assms(1)] by (simp add: less_Suc_eq_le)
  then show ?thesis using rtb_ack_enough[OF assms(1-3), of _ n] assms(4) by simp
qed

section \<open>The invariant\<close>

text \<open>The bounds that reception control uses are those of transmission control, the buffer has one message
  for each number of the window, and a window without a free number is marked full.\<close>

definition win_ok :: "window \<Rightarrow> bool" where
  "win_ok w \<longleftrightarrow>
     sn_mask_ok (w_msk w) \<and> (w_xsn w \<longrightarrow> w_msk w = 0x7fff) \<and> (\<not> w_xsn w \<longrightarrow> w_msk w = 0x7f) \<and>
     \<not> w_clear w \<and>
     sn_valid (w_msk w) (w_F w) \<and> sn_valid (w_msk w) (w_L w) \<and>
     w_rF w = w_F w \<and> w_rT w = w_L w \<and>
     w_msgs w = length (w_ids w) \<and>
     length (w_ids w) = sn_dist (w_msk w) (w_F w) ((w_L w + 1) AND w_msk w) \<and>
     (if w_pcr w then 0 < w_N1 w \<and> w_N1 w \<le> 127 \<and> (w_N1 w \<le> w_msgs w \<longrightarrow> w_full w)
      else length (w_ids w) = unat (w_msk w) \<longrightarrow> w_full w)"

lemma win_ok_ack:
  assumes ok: "win_ok w" and r: "sn_valid (w_msk w) r"
    and d: "sn_dist (w_msk w) (w_F w) r \<le> length (w_ids w)" "w_F w \<noteq> r"
    and f: "w_pcr w \<Longrightarrow> w_N1 w \<le> w_msgs w - sn_dist (w_msk w) (w_F w) r \<Longrightarrow> fl"
  shows "win_ok (w\<lparr>w_F := r, w_rF := r, w_full := fl,
     w_ids := drop (sn_dist (w_msk w) (w_F w) r) (w_ids w),
     w_msgs := w_msgs w - sn_dist (w_msk w) (w_F w) r\<rparr>)"
proof -
  let ?m = "w_msk w" and ?L = "(w_L w + 1) AND w_msk w"
  have m: "sn_mask_ok ?m" and v: "sn_valid ?m (w_F w)" "sn_valid ?m (w_L w)"
    and l: "length (w_ids w) = sn_dist ?m (w_F w) ?L" "w_msgs w = length (w_ids w)"
    using ok by (simp_all add: win_ok_def)
  have vL: "sn_valid ?m ?L" using m by (rule sn_valid_mask)
  have s: "sn_dist ?m (w_F w) ?L = sn_dist ?m (w_F w) r + sn_dist ?m r ?L"
    using sn_dist_split[OF m v(1) r vL] d(1) l by simp
  have "0 < sn_dist ?m (w_F w) r" using sn_dist_zero[OF m v(1) r] d(2) by simp
  then have lt: "sn_dist ?m r ?L < unat ?m" using sn_dist_le[OF m, of "w_F w" ?L] s by simp
  show ?thesis
    using ok r f s lt l by (cases "w_pcr w") (simp_all add: win_ok_def)
qed

lemma win_bsnr_ack:
  assumes ok: "win_ok (win ch)"
    and "r = (R_bsn (tx_sn ch) + 1) AND w_msk (win ch)"
    and "sn_dist (w_msk (win ch)) (w_F (win ch)) r \<le> length (w_ids (win ch))" "w_F (win ch) \<noteq> r"
  obtains fl where "win (bsnr_ack ch) = (win ch)\<lparr>w_F := r, w_full := fl,
      w_ids := drop (sn_dist (w_msk (win ch)) (w_F (win ch)) r) (w_ids (win ch)),
      w_msgs := w_msgs (win ch) - sn_dist (w_msk (win ch)) (w_F (win ch)) r\<rparr>"
    "w_pcr (win ch) \<Longrightarrow>
      w_N1 (win ch) \<le> w_msgs (win ch) - sn_dist (w_msk (win ch)) (w_F (win ch)) r \<Longrightarrow> fl"
proof -
  have m: "sn_mask_ok (w_msk (win ch))" "sn_valid (w_msk (win ch)) (w_F (win ch))"
    using ok by (simp_all add: win_ok_def)
  have R: "R_bsn (tx_sn (sib_ends ch)) = R_bsn (tx_sn ch)"
    by (simp add: sib_ends_def ifthen_def xp_timer_stop_def xp_stop_timer_def)
  have M: "sn_mask (statem (sib_ends ch)) = w_msk (win ch)" by (simp add: sl_win sl_view)
  have "win (rtb_ack (Suc (unat (w_msk (win ch)))) r (sib_ends ch)) = (win ch)\<lparr>w_F := r,
      w_ids := drop (sn_dist (w_msk (win ch)) (w_F (win ch)) r) (w_ids (win ch)),
      w_msgs := w_msgs (win ch) - sn_dist (w_msk (win ch)) (w_F (win ch)) r\<rparr>"
    using win_rtb_ack[of "sib_ends ch" r "Suc (unat (w_msk (win ch)))"] m assms(2-4)
      sn_valid_mask[OF m(1)] sn_dist_le[OF m(1)] by (simp add: sl_win sl_view le_SucI)
  note a = this
  let ?c = "rtb_ack (Suc (unat (w_msk (win ch)))) r (sib_ends ch)"
  let ?e = "ifelse (\<lambda>ch. q_count (rtb ch) = 0) (xp_timer_stop T7) (xp_timer_start T7)
    (exec (sl_check_congestion None) ?c)"
  let ?low = "w_msgs (win ?c) < w_N1 (win ch) \<and> q_count (rtb ?e) < unat (cfg_N2 (config ?e))"
  have e: "win ?e = win ?c" by (simp add: exec_def sl_win sl_view)
  have z: "win (bsnr_ack ch) = win (ifthen (\<lambda>ch. \<not> pcr ch \<or> (q_msgs (rtb ch) < unat (cfg_N1 (config ch))
      \<and> q_count (rtb ch) < unat (cfg_N2 (config ch)))) (set_rtb_full False) ?e)"
    by (simp only: bsnr_ack_def steps.simps R M assms(2)[symmetric]) (rule win_v.after_ifthen, simp add: sl_win sl_view)
  show ?thesis
    by (rule that[of "w_full (win ch) \<and> \<not> (\<not> w_pcr (win ch) \<or> ?low)"])
      (use ok a e z in \<open>auto simp: ifthen_def win_obs win_assign win_ok_def\<close>)
qed

section \<open>Received units\<close>

lemma ok_bsnr_acked:
  assumes ok: "win_ok (win ch)" and v: "sn_valid (w_msk (win ch)) (w_rR (win ch))"
    and d: "sn_dist (w_msk (win ch)) (w_F (win ch)) ((w_rR (win ch) + 1) AND w_msk (win ch))
      \<le> length (w_ids (win ch))"
  shows "win_ok (win (rc_acked (sl_txc_bsnr_and_bibr ch)))"
    "w_F (win (rc_acked (sl_txc_bsnr_and_bibr ch))) = (w_rR (win ch) + 1) AND w_msk (win ch)"
    "w_ids (win (rc_acked (sl_txc_bsnr_and_bibr ch))) =
      drop (sn_dist (w_msk (win ch)) (w_F (win ch)) ((w_rR (win ch) + 1) AND w_msk (win ch)))
        (w_ids (win ch))"
proof -
  let ?r = "(w_rR (win ch) + 1) AND w_msk (win ch)"
  let ?c = "set_R_bib (rR_bib (rx_sn ch)) (set_R_bsn (rR_bsn (rx_sn ch)) ch)"
  have c: "win ?c = win ch" "R_bsn (tx_sn ?c) = w_rR (win ch)" "\<not> w_clear (win ch)"
    using ok by (simp_all add: sl_win sl_view win_ok_def)
  let ?a = "ifthen (\<lambda>ch. F_fsn (tx_sn ch) \<noteq> (R_bsn (tx_sn ch) + 1) AND sn_mask (statem ch)) bsnr_ack ?c"
  have b: "win (sl_txc_bsnr_and_bibr ch) = win ?a"
    using c by (simp add: sl_txc_bsnr_and_bibr_def ifelse_def win_obs win_v.after_ifthen win_v.txc_ops)
  have "win_ok (win (rc_acked (sl_txc_bsnr_and_bibr ch))) \<and>
      w_F (win (rc_acked (sl_txc_bsnr_and_bibr ch))) = ?r \<and>
      w_ids (win (rc_acked (sl_txc_bsnr_and_bibr ch))) =
        drop (sn_dist (w_msk (win ch)) (w_F (win ch)) ?r) (w_ids (win ch))"
  proof (cases "w_F (win ch) = ?r")
    case True
    then have "win ?a = win ch" using c by (simp add: ifthen_def win_obs)
    then show ?thesis using ok b True by (simp add: rc_acked_def sl_win sl_view win_ok_def sn_dist_def)
  next
    case False
    have r: "sn_valid (w_msk (win ch)) ?r" using ok sn_valid_mask by (simp add: win_ok_def)
    obtain fl where w: "win (bsnr_ack ?c) = (win ch)\<lparr>w_F := ?r, w_full := fl,
        w_ids := drop (sn_dist (w_msk (win ch)) (w_F (win ch)) ?r) (w_ids (win ch)),
        w_msgs := w_msgs (win ch) - sn_dist (w_msk (win ch)) (w_F (win ch)) ?r\<rparr>"
      and fl: "w_pcr (win ch) \<Longrightarrow>
        w_N1 (win ch) \<le> w_msgs (win ch) - sn_dist (w_msk (win ch)) (w_F (win ch)) ?r \<Longrightarrow> fl"
      using win_bsnr_ack[of ?c ?r] ok d False by (simp only: c) blast
    have "win ?a = win (bsnr_ack ?c)" using c False by (simp add: ifthen_def win_obs)
    then have "win (sl_txc_bsnr_and_bibr ch) = win (bsnr_ack ?c)" using b by simp
    then have "win (rc_acked (sl_txc_bsnr_and_bibr ch)) = (win ch)\<lparr>w_F := ?r, w_rF := ?r, w_full := fl,
        w_ids := drop (sn_dist (w_msk (win ch)) (w_F (win ch)) ?r) (w_ids (win ch)),
        w_msgs := w_msgs (win ch) - sn_dist (w_msk (win ch)) (w_F (win ch)) ?r\<rparr>"
      unfolding w by (simp add: rc_acked_def sl_win sl_view)
    then show ?thesis using win_ok_ack[OF ok r d False fl] by simp
  qed
  then show "win_ok (win (rc_acked (sl_txc_bsnr_and_bibr ch)))"
    "w_F (win (rc_acked (sl_txc_bsnr_and_bibr ch))) = ?r"
    "w_ids (win (rc_acked (sl_txc_bsnr_and_bibr ch))) =
      drop (sn_dist (w_msk (win ch)) (w_F (win ch)) ?r) (w_ids (win ch))" by blast+
qed

lemma win_rc_deliver:
  assumes "\<And>c. win (taken c) = win c" "\<And>c. win (dropped c) = win c"
  shows "win (rc_deliver taken dropped mp ch) = win ch"
proof (cases "sl_pdu_ind mp ch")
  case (Pair e c)
  then have "win c = win ch" using win_read_queue(2)[of mp ch] by simp
  then show ?thesis using Pair assms
    by (cases e) (simp_all add: rc_deliver_def sl_win sl_view)
qed

lemma win_acceptable:
  assumes "win_ok (win ch)" "sn_valid (w_msk (win ch)) (w_rR (win ch))"
    "\<not> SN_OUTSIDE ((rF_fsn (rx_sn ch) - 1) AND sn_mask (statem ch)) (rR_bsn (rx_sn ch)) (rT_fsn (rx_sn ch))"
  shows "sn_dist (w_msk (win ch)) (w_F (win ch)) ((w_rR (win ch) + 1) AND w_msk (win ch))
      \<le> length (w_ids (win ch))"
  using assms sn_acceptable[of "w_msk (win ch)" "w_F (win ch)" "w_rR (win ch)" "w_L (win ch)"]
  by (simp add: win_ok_def win_obs)

definition win_acc :: "window \<Rightarrow> bool" where
  "win_acc w \<longleftrightarrow> win_ok w \<and> sn_valid (w_msk w) (w_rR w) \<and>
     sn_dist (w_msk w) (w_F w) ((w_rR w + 1) AND w_msk w) \<le> length (w_ids w)"

text \<open>What follows the acknowledgement leaves the window alone.\<close>

lemma win_rc_pcr: "win (rc_pcr mp ch) = win (rc_acked (sl_txc_bsnr_and_bibr (sl_lsc_fisu_msu_received ch)))"
  by (simp add: rc_pcr_def) (intro win_v.after_ifelse; simp add: win_rc_deliver sl_win sl_view)

lemma win_rc_basic_accepted:
  "win (rc_basic_accepted mp ch) = win (rc_acked (sl_txc_bsnr_and_bibr (sl_lsc_fisu_msu_received ch)))"
  by (simp add: rc_basic_accepted_def) (intro win_v.after_ifelse; simp add: win_rc_deliver sl_win sl_view)

lemma ok_acc: "win_acc (win ch) \<Longrightarrow> win_ok (win (rc_acked (sl_txc_bsnr_and_bibr ch)))"
  by (simp add: win_acc_def ok_bsnr_acked)

lemma win_ok_rc_basic: "win_acc (win ch) \<Longrightarrow> win_ok (win (rc_basic mp ch))"
proof -
  assume a: "win_acc (win ch)"
  have k: "win_ok (win ch)" using a by (simp add: win_acc_def)
  have b: "win_ok (win (rc_basic_accepted mp c))" if "win c = win ch" for c
    unfolding win_rc_basic_accepted by (rule ok_acc) (simp add: a that win_v.lsc_outage)
  have n: "win_ok (win (rc_acked (sl_txc_bsnr_and_bibr c)))" if "win c = win ch" for c
    by (rule ok_acc) (simp add: a that)
  show ?thesis using k by (simp add: rc_basic_def b n sl_win sl_view)
qed

lemma win_ok_rc_msu_fisu:
  assumes "win_ok (win ch)" "sn_valid (w_msk (win ch)) (w_rR (win ch))"
  shows "win_ok (win (rc_msu_fisu mp ch))"
proof -
  let ?c = "ifthen (\<lambda>ch. abnormal_bsnr (statem ch)) (set_abnormal_bsnr False) ch"
  have c: "win ?c = win ch" by (simp add: sl_win sl_view)
  have "win_acc (win ch) \<Longrightarrow> win_ok (win (rc_pcr mp ?c)) \<and> win_ok (win (rc_basic mp ?c))"
    using ok_acc[of "sl_lsc_fisu_msu_received ?c"] win_ok_rc_basic[of ?c] c
    by (simp add: win_rc_pcr win_v.lsc_outage)
  then show ?thesis using assms win_acceptable[OF assms]
    by (auto simp: rc_msu_fisu_def ifelse_def win_acc_def sl_win sl_view)
qed

lemma mask_trunc: "sn_mask_ok m \<Longrightarrow> sn_valid m (x AND 0x7f)" "sn_valid 0x7fff (x AND 0x0fff)"
  by (auto simp: sn_mask_ok_def sn_valid_def and.assoc)

lemma win_rc_parse:
  assumes "win_ok (win ch)"
  obtains r where "win (snd (rc_parse bs ch)) = (win ch)\<lparr>w_rR := r\<rparr>" "sn_valid (w_msk (win ch)) r"
proof (rule that[of "if xsn ch then rd16 bs 0 AND 0x0fff else rd8 bs 0 AND 0x7f"])
  show "win (snd (rc_parse bs ch)) =
      (win ch)\<lparr>w_rR := if xsn ch then rd16 bs 0 AND 0x0fff else rd8 bs 0 AND 0x7f\<rparr>"
    by (simp add: rc_parse_def Let_def sl_win sl_view)
  show "sn_valid (w_msk (win ch)) (if xsn ch then rd16 bs 0 AND 0x0fff else rd8 bs 0 AND 0x7f)"
    using assms mask_trunc by (simp add: win_ok_def win_obs)
qed

lemma win_ok_signal_unit: "win_ok (win ch) \<Longrightarrow> win_ok (win (sl_rc_signal_unit mp ch))"
proof -
  assume ok: "win_ok (win ch)"
  obtain bs c where p: "rc_parse (octets mp) ch = (bs, c)" by fastforce
  obtain r where w: "win c = (win ch)\<lparr>w_rR := r\<rparr>" "sn_valid (w_msk (win ch)) r"
    using win_rc_parse[OF ok, of "octets mp"] p by auto
  then have k: "win_ok (win c)" "sn_valid (w_msk (win c)) (w_rR (win c))"
    using ok by (simp_all add: win_ok_def)
  show ?thesis using ok k win_ok_rc_msu_fisu[OF k]
    by (simp add: sl_rc_signal_unit_def p Let_def sl_win sl_view)
qed

lemma win_ok_received_bits: "win_ok (win ch) \<Longrightarrow> win_ok (win (sl_daedr_received_bits mp ch))"
  by (simp add: sl_daedr_received_bits_def ifelse_def win_v.sdt_received win_ok_signal_unit win_v.iac)

section \<open>Transmission\<close>

lemma shared_write_ids [simp]:
  "map mid (q_list (shared_write mp q)) = map mid (q_list q)" "q_msgs (shared_write mp q) = q_msgs q"
  by (simp_all add: shared_write_def)

lemma win_send_dup [sl_win]: "win (snd (txc_send_dup z mp ch)) = win ch"
  by (auto simp: txc_send_dup_def Let_def sl_win sl_view)

lemma win_retransmit [sl_win]: "win (snd (txc_retransmit ch)) = win ch"
proof -
  have d: "win c' = win c" if "dupmsg bp c = (r, c')" for bp r c c'
    using win_v.units(3)[of bp c] that by simp
  show ?thesis
    by (auto simp: txc_retransmit_def Let_def win_v.units win_send_dup win_assign win_obs
        split: option.split prod.split dest!: d)
qed

lemma win_pcr_limits:
  "win_ok (win ch) \<Longrightarrow> win_ok (win (txc_pcr_limits ch))"
  "w_pcr (win (txc_pcr_limits ch)) = w_pcr (win ch)"
  by (auto simp: txc_pcr_limits_def ifthen_def sl_win sl_view win_ok_def)

lemma pcr_limits_forced:
  "pcr ch \<Longrightarrow> q_count (tb (txc_pcr_limits ch)) \<noteq> 0 \<Longrightarrow>
    \<not> forced_retransmission (statem (txc_pcr_limits ch)) \<Longrightarrow> \<not> rtb_full (statem (txc_pcr_limits ch))"
  by (auto simp: txc_pcr_limits_def ifthen_def split: if_splits)

text \<open>A new message takes the next sequence number, which the window has room for.\<close>

lemma win_ok_next:
  assumes ok: "win_ok w" "\<not> w_full w"
    and f: "w_pcr w \<Longrightarrow> w_N1 w \<le> w_msgs w + 1 \<Longrightarrow> fl"
      "\<not> w_pcr w \<Longrightarrow> (w_L w + 1) AND w_msk w = (w_F w - 2) AND w_msk w \<Longrightarrow> fl"
  shows "win_ok (w\<lparr>w_L := (w_L w + 1) AND w_msk w, w_rT := (w_L w + 1) AND w_msk w,
     w_ids := w_ids w @ [i], w_msgs := w_msgs w + 1, w_full := fl\<rparr>)"
proof -
  let ?m = "w_msk w" and ?F = "w_F w" and ?L = "(w_L w + 1) AND w_msk w"
  have m: "sn_mask_ok ?m" and v: "sn_valid ?m ?F" and l: "length (w_ids w) = sn_dist ?m ?F ?L"
    "w_msgs w = length (w_ids w)"
    using ok by (simp_all add: win_ok_def)
  have vL: "sn_valid ?m ?L" using m by (rule sn_valid_mask)
  have "127 \<le> unat ?m" using m by (auto simp: sn_mask_ok_def)
  then have lt: "sn_dist ?m ?F ?L < unat ?m"
    using ok l sn_dist_le[OF m, of ?F ?L] by (cases "w_pcr w") (auto simp: win_ok_def)
  then have "(?L + 1) AND ?m \<noteq> ?F" using sn_dist_wrap[OF m v vL] by auto
  then have d: "sn_dist ?m ?F ((?L + 1) AND ?m) = Suc (length (w_ids w))"
    using sn_dist_succ_right[OF m v vL] l by simp
  then show ?thesis using ok f m v vL l sn_dist_full[OF m v vL]
    by (cases "w_pcr w") (simp_all add: win_ok_def)
qed

lemma win_rtb_limit:
  "win (txc_rtb_limit ch) = (win ch)\<lparr>w_full := w_full (win ch) \<or> w_N1 (win ch) \<le> w_msgs (win ch) \<or>
     unat (cfg_N2 (config ch)) \<le> q_count (rtb ch) \<or>
     (\<not> w_pcr (win ch) \<and> w_L (win ch) = (w_F (win ch) - 2) AND w_msk (win ch))\<rparr>"
  by (auto simp: txc_rtb_limit_def ifthen_def ifelse_def sl_win sl_view)

text \<open>\<open>txc_new_msu\<close> up to the limit check.\<close>

definition new_msu_queued :: "msg \<Rightarrow> ch \<Rightarrow> ch" where
  "new_msu_queued mp =
     steps [(\<lambda>ch. ch\<lparr>tb := snd (bufq_dequeue (tb ch))\<rparr>),
            (\<lambda>ch. set_Cm (Cm (statem ch) - 1) ch),
            ifthen (\<lambda>ch. Cm (statem ch) = 0) sl_enable_rq,
            (\<lambda>ch. set_L_fsn ((L_fsn (tx_sn ch) + 1) AND sn_mask (statem ch)) ch),
            (\<lambda>ch. set_N_fsn (L_fsn (tx_sn ch)) ch),
            ifthen (\<lambda>ch. q_count (rtb ch) = 0) (xp_timer_start T7),
            rtb_update (bufq_queue mp),
            (\<lambda>ch. set_Ct (Ct (statem ch) + 1) ch),
            sl_rc_fsnt_value]"

lemma tx_sn_ifthen_start [simp]: "tx_sn (ifthen b (xp_timer_start t) ch) = tx_sn ch"
  "rtb (ifthen b (xp_timer_start t) ch) = rtb ch"
  "rtb (ifthen b sl_enable_rq ch) = rtb ch"
  by (simp_all add: ifthen_def xp_timer_start_def xp_start_timer_def Let_def sl_enable_rq_def emit_def)

lemma win_new_msu_queued:
  "win (new_msu_queued mp ch) = (win ch)\<lparr>
      w_L := (w_L (win ch) + 1) AND w_msk (win ch), w_rT := (w_L (win ch) + 1) AND w_msk (win ch),
      w_ids := w_ids (win ch) @ [mid mp], w_msgs := w_msgs (win ch) + 1\<rparr>"
  by (simp add: new_msu_queued_def sl_rc_fsnt_value_def sl_win sl_view bufq_queue_def bufq_add_def)

lemma win_new_msu:
  assumes "bufq_head (tb ch) = Some mp" "allocb 0 ch = (Some bs, c)"
  obtains fl where "win (snd (txc_new_msu ch)) = (win ch)\<lparr>
      w_L := (w_L (win ch) + 1) AND w_msk (win ch), w_rT := (w_L (win ch) + 1) AND w_msk (win ch),
      w_ids := w_ids (win ch) @ [mid mp], w_msgs := w_msgs (win ch) + 1, w_full := fl\<rparr>"
    "w_pcr (win ch) \<Longrightarrow> w_N1 (win ch) \<le> w_msgs (win ch) + 1 \<Longrightarrow> fl"
    "\<not> w_pcr (win ch) \<Longrightarrow>
      (w_L (win ch) + 1) AND w_msk (win ch) = (w_F (win ch) - 2) AND w_msk (win ch) \<Longrightarrow> fl"
proof -
  have c: "win c = win ch" using assms(2) by (rule win_v.allocb_pair)
  have "win (snd (txc_new_msu ch)) = win (txc_rtb_limit (new_msu_queued mp c))"
    by (simp add: txc_new_msu_def assms Let_def new_msu_queued_def win_assign win_obs)
  then show ?thesis
    by (intro that[of "w_full (win ch) \<or> w_N1 (win ch) \<le> w_msgs (win ch) + 1 \<or>
        unat (cfg_N2 (config (new_msu_queued mp c))) \<le> q_count (rtb (new_msu_queued mp c)) \<or>
        (\<not> w_pcr (win ch) \<and>
          (w_L (win ch) + 1) AND w_msk (win ch) = (w_F (win ch) - 2) AND w_msk (win ch))"])
      (simp_all add: win_rtb_limit win_new_msu_queued c)
qed

lemma win_ok_new_msu:
  assumes ok: "win_ok (win ch)" "\<not> w_full (win ch)"
  shows "win_ok (win (snd (txc_new_msu ch)))"
proof (cases "bufq_head (tb ch)")
  case None
  then show ?thesis using ok by (simp add: txc_new_msu_def)
next
  case (Some mp)
  obtain r c where a: "allocb 0 ch = (r, c)" by fastforce
  show ?thesis
  proof (cases r)
    case None
    then show ?thesis using ok Some a win_v.allocb_pair[OF a] by (simp add: txc_new_msu_def)
  next
    case (Some bs)
    obtain fl where "win (snd (txc_new_msu ch)) = (win ch)\<lparr>
        w_L := (w_L (win ch) + 1) AND w_msk (win ch), w_rT := (w_L (win ch) + 1) AND w_msk (win ch),
        w_ids := w_ids (win ch) @ [mid mp], w_msgs := w_msgs (win ch) + 1, w_full := fl\<rparr>"
      "w_pcr (win ch) \<Longrightarrow> w_N1 (win ch) \<le> w_msgs (win ch) + 1 \<Longrightarrow> fl"
      "\<not> w_pcr (win ch) \<Longrightarrow>
        (w_L (win ch) + 1) AND w_msk (win ch) = (w_F (win ch) - 2) AND w_msk (win ch) \<Longrightarrow> fl"
      using win_new_msu[OF \<open>bufq_head (tb ch) = Some mp\<close>] a Some by blast
    then show ?thesis using win_ok_next[OF ok, of fl "mid mp"] by simp
  qed
qed

lemma win_ok_txc_request: "win_ok (win ch) \<Longrightarrow> win_ok (win (snd (sl_txc_transmission_request ch)))"
proof -
  assume ok: "win_ok (win ch)"
  let ?c = "txc_pcr_limits ch"
  have k: "win_ok (win ?c)" using ok by (rule win_pcr_limits)
  have n: "win_ok (win (snd (txc_new_msu ?c)))" if "\<not> rtb_full (statem ?c)"
    using win_ok_new_msu[OF k] that by (simp add: win_obs)
  have p: "pcr ?c = pcr ch" using win_pcr_limits(2)[of ch] by (simp add: win_obs)
  show ?thesis using ok k n pcr_limits_forced[of ch] p
    by (auto simp: sl_txc_transmission_request_def Let_def win_v.units win_send_dup win_retransmit)
qed

lemma win_ok_transmission_request:
  "win_ok (win ch) \<Longrightarrow> win_ok (win (snd (sl_daedt_transmission_request ch)))"
  using win_ok_txc_request[of ch]
  by (auto simp: sl_daedt_transmission_request_def ifthen_def win_v.assigns win_ch_xp win_v.indications win_v.sdt_request
      split: option.split prod.split)

section \<open>Events\<close>

text \<open>The requests that clear or reset the window, in the states in which they do.\<close>

fun resets :: "sl_event \<Rightarrow> ch \<Rightarrow> bool" where
  "resets (Req r mp) ch = (case r of
      SL_START_REQ \<Rightarrow> lsc_state (statem ch) = LSC_OUT_OF_SERVICE
    | SL_POWER_ON_REQ \<Rightarrow> lsc_state (statem ch) = LSC_POWER_OFF
    | SL_CLEAR_BUFFERS_REQ \<Rightarrow> lsc_state (statem ch) = LSC_PROCESSOR_OUTAGE
    | SL_CLEAR_RTB_REQ \<Rightarrow> lsc_state (statem ch) = LSC_PROCESSOR_OUTAGE
    | SL_RETRIEVAL_REQUEST_AND_FSNC_REQ f \<Rightarrow>
        lsc_state (statem ch) \<in> {LSC_OUT_OF_SERVICE, LSC_PROCESSOR_OUTAGE}
    | _ \<Rightarrow> False)"
| "resets _ ch = False"

lemma win_w_proto: "\<not> resets (Req r mp) ch \<Longrightarrow> win (snd (sl_w_proto r mp ch)) = win ch"
proof -
  assume n: "\<not> resets (Req r mp) ch"
  have b: "lsc_state (statem ch) \<noteq> LSC_PROCESSOR_OUTAGE \<Longrightarrow> win (sl_lsc_clear_buffers mp ch) = win ch"
    by (cases "lsc_state (statem ch)"; simp add: sl_lsc_clear_buffers_def exec_def sl_win sl_view)
  show ?thesis using n b
    by (cases r)
      (auto simp: sl_emergency_req_def sl_emergency_ceases_req_def sl_start_req_def sl_stop_req_def
        sl_retrieve_bsnt_req_def sl_retrieval_request_and_fsnc_req_def sl_clear_buffers_req_def
        sl_clear_rtb_req_def sl_continue_req_def sl_local_processor_outage_req_def sl_resume_req_def
        sl_congestion_discard_req_def sl_congestion_accept_req_def sl_no_congestion_req_def
        sl_power_on_req_def sl_lsc_start_def sl_lsc_power_on_def sl_lsc_clear_rtb_def
        sl_lsc_retrieval_request_and_fsnc_def win_v.freemsg win_v.lsc win_v.lsc_outage win_v.iac win_v.rc_cc
        split: option.split)
qed

lemma win_send_data [sl_win]: "win (snd (xp_send_data p ch)) = win ch"
  by (auto simp: xp_send_data_def sl_lsc_pdu_def sl_win sl_view split: pdu.split option.split prod.split
      dest: win_v.allocb_pair)

lemma win_rq_srv [sl_win]: "win (rq_srv room ch) = win ch"
  by (rule rq_srv_view)
    (auto simp: xp_r_prim_srv_def sl_win sl_view split: option.splits rqmsg.splits if_splits)

lemma win_ok_step: "win_ok (win ch) \<Longrightarrow> \<not> resets e ch \<Longrightarrow> win_ok (win (sl_step e ch))"
  by (cases e) (simp_all del: resets.simps add: resets.simps(2-) exec_def win_w_proto win_send_data
      win_ok_received_bits win_v.iac win_ok_transmission_request win_v.expiry win_rq_srv win_v.assigns win_ch_xp)

interpretation win_inv: event_invariant "\<lambda>ch. win_ok (win ch)" "\<lambda>e ch. \<not> resets e ch"
  by unfold_locales (rule win_ok_step)

text \<open>Starting the link with an empty retransmission buffer establishes the window.\<close>

lemma win_rc_start:
  "rc_state (statem ch) = ST_IDLE \<Longrightarrow>
    win (sl_rc_start ch) = (win ch)\<lparr>w_rF := 0, w_rT := w_msk (win ch)\<rparr>"
  by (simp add: sl_rc_start_def sl_daedr_start_def ifelse_def sl_win sl_view)

lemma win_txc_start:
  "win (sl_txc_start ch) = (win ch)\<lparr>w_clear := False, w_full := False,
     w_msk := (if w_xsn (win ch) then 0x7fff else 0x7f), w_F := 0,
     w_L := (if w_xsn (win ch) then 0x7fff else 0x7f)\<rparr>"
  by (cases "w_xsn (win ch)") (simp_all add: sl_txc_start_def ifelse_def sl_win sl_view)

lemma win_iac_start [sl_win]: "win (sl_iac_start ch) = win ch"
  by (simp add: sl_iac_start_def sl_win sl_view)

lemma win_start:
  assumes "lsc_state (statem ch) = LSC_OUT_OF_SERVICE" "rc_state (statem ch) = ST_IDLE"
    "q_list (rtb ch) = []" "q_msgs (rtb ch) = 0"
    "sn_mask (statem ch) = (if xsn ch then 0x7fff else 0x7f)"
    "pcr ch \<Longrightarrow> 0 < unat (cfg_N1 (config ch)) \<and> unat (cfg_N1 (config ch)) \<le> 127"
  shows "win_ok (win (sl_lsc_start ch))"
proof -
  have "win (sl_lsc_start ch) = win (sl_txc_start (sl_rc_start ch))"
    using assms(1) by (simp add: sl_lsc_start_def sl_win sl_view)
  then show ?thesis using assms(3-)
    by (simp add: win_txc_start win_rc_start[OF assms(2)])
      (auto simp: win_ok_def sn_mask_ok_def sn_valid_def sn_dist_def win_def)
qed

end
