(* ===== verification/SL_Delivery.thy ===== *)
theory SL_Delivery
  imports SL_Window "HOL-Library.Sublist"
begin

text \<open>
  Delivery to level 3.  The messages handed up, whether already passed on by the read service procedure or
  still on the read queue, form one stream; a received signal unit extends it by at most its own message,
  exactly when it is the expected one, and the expected sequence number counts the stream.
\<close>

section \<open>The stream handed to level 3\<close>

fun rq_data :: "rqmsg list \<Rightarrow> msg list" where
  "rq_data [] = []"
| "rq_data (RData m # rs) = m # rq_data rs"
| "rq_data (RProto p mp # rs) = rq_data rs"

fun put_data :: "event list \<Rightarrow> msg list" where
  "put_data [] = []"
| "put_data (Putnext (RData m) # es) = m # put_data es"
| "put_data (_ # es) = put_data es"

lemma rq_data_append [simp]: "rq_data (rs @ ss) = rq_data rs @ rq_data ss"
  by (induction rs rule: rq_data.induct) simp_all

lemma put_data_append [simp]: "put_data (es @ fs) = put_data es @ put_data fs"
  by (induction es rule: put_data.induct) simp_all

definition stream :: "ch \<Rightarrow> msg list" where
  "stream ch = put_data (log ch) @ (case ch_xp ch of None \<Rightarrow> [] | Some x \<Rightarrow> rq_data (rq x))"

record delivery =
  d_X :: u16
  d_msk :: u16
  d_stream :: "msg list"
  d_open :: bool
  d_fsn :: u16
  d_len :: u16
  d_xsn :: bool

definition dlv :: "ch \<Rightarrow> delivery" where
  "dlv ch = \<lparr>d_X = rX_fsn (rx_sn ch), d_msk = sn_mask (statem ch), d_stream = stream ch,
     d_open = (ch_xp ch \<noteq> None), d_fsn = rR_fsn (rx_sn ch), d_len = rx_len (rx_sn ch), d_xsn = xsn ch\<rparr>"

lemma put_data_quiet: "(\<And>r. e \<noteq> Putnext r) \<Longrightarrow> put_data [e] = []"
  by (cases e) (simp_all, blast)

interpretation dlv_v: link_view dlv
  by unfold_locales
    (auto simp: emit_def dlv_def stream_def xsn_def put_data_quiet rq_putq_def sl_view split: option.split)

lemma dlv_obs:
  "rX_fsn (rx_sn ch) = d_X (dlv ch)" "sn_mask (statem ch) = d_msk (dlv ch)"
  "stream ch = d_stream (dlv ch)" "rR_fsn (rx_sn ch) = d_fsn (dlv ch)" "rx_len (rx_sn ch) = d_len (dlv ch)"
  "xsn ch = d_xsn (dlv ch)"
  by (simp_all add: dlv_def)

lemma dlv_assign:
  "dlv (statem_update u ch) = (dlv ch)\<lparr>d_msk := sn_mask (u (statem ch))\<rparr>"
  "dlv (rx_sn_update x ch) = (dlv ch)\<lparr>d_X := rX_fsn (x (rx_sn ch)),
     d_fsn := rR_fsn (x (rx_sn ch)), d_len := rx_len (x (rx_sn ch))\<rparr>"
  "dlv (tx_sn_update y ch) = dlv ch"
  "dlv (rtb_update z ch) = dlv ch"
  by (simp_all add: dlv_def stream_def xsn_def)

lemma dlv_congestion [sl_view]: "dlv (snd (sl_check_congestion m ch)) = dlv ch"
  by (simp add: sl_check_congestion_def Let_def dlv_assign dlv_obs sl_view split: prod.split)

lemma dlv_rtb [sl_view]:
  "dlv (rtb_purge ch) = dlv ch"
  "dlv (rtb_drop ch) = dlv ch"
  by (simp_all add: rtb_purge_def rtb_drop_def dlv_assign sl_view dlv_obs split: prod.split)

lemma dlv_rtb_ack [sl_view]: "dlv (rtb_ack n stop ch) = dlv ch"
  by (induction n stop ch rule: rtb_ack.induct) (simp_all add: rtb_ack.simps Let_def sl_view)

lemma dlv_bsnr [sl_view]:
  "dlv (bsnr_clear_rtb ch) = dlv ch"
  "dlv (bsnr_ack ch) = dlv ch"
  by (simp_all add: bsnr_clear_rtb_def bsnr_ack_def exec_def dlv_assign dlv_obs sl_view)

lemma dlv_bsnr_and_bibr [sl_view]: "dlv (sl_txc_bsnr_and_bibr ch) = dlv ch"
  by (simp add: sl_txc_bsnr_and_bibr_def dlv_assign sl_view)

lemma dlv_acked [sl_view]: "dlv (rc_acked ch) = dlv ch"
  by (simp add: rc_acked_def dlv_assign dlv_obs)

section \<open>A received signal unit\<close>

text \<open>Taking a message: the stream grows by it and the next sequence number is expected.\<close>

definition takes :: "msg \<Rightarrow> delivery \<Rightarrow> delivery" where
  "takes mp d = d\<lparr>d_X := (d_X d + 1) AND d_msk d, d_stream := d_stream d @ [mp]\<rparr>"

definition expected :: "delivery \<Rightarrow> bool" where
  "expected d \<longleftrightarrow> d_fsn d = d_X d \<and> d_len d > 2 \<and> d_open d"

lemma dlv_pdu_ind:
  "dlv (snd (sl_pdu_ind mp ch)) = (if d_open (dlv ch) then (dlv ch)\<lparr>d_stream := d_stream (dlv ch) @ [mp]\<rparr>
     else dlv ch)"
  "fst (sl_pdu_ind mp ch) = (if d_open (dlv ch) then OK else ENXIO)"
  by (auto simp: sl_pdu_ind_def rq_putq_def dlv_def stream_def xsn_def)

lemma dlv_deliver:
  assumes "\<And>c. dlv (taken c) = dlv c" "\<And>c. dlv (dropped c) = dlv c"
  shows "dlv (rc_deliver taken dropped mp ch) = (if d_open (dlv ch) then takes mp (dlv ch) else dlv ch)"
proof (cases "sl_pdu_ind mp ch")
  case (Pair e c)
  then show ?thesis using dlv_pdu_ind[of mp ch] assms
    by (auto simp: rc_deliver_def takes_def dlv_assign dlv_obs sl_view)
qed

lemma dlv_in_sequence: "rc_in_sequence ch \<longleftrightarrow> d_fsn (dlv ch) = d_X (dlv ch) \<and> d_len (dlv ch) > 2"
  by (simp add: rc_in_sequence_def dlv_obs)

definition delivers :: "msg \<Rightarrow> delivery \<Rightarrow> delivery \<Rightarrow> bool" where
  "delivers mp d d' \<longleftrightarrow> d' = d \<or> expected d \<and> d' = takes mp d"

lemma delivers_ifelse:
  "(b ch \<Longrightarrow> delivers mp d (dlv (f ch))) \<Longrightarrow> (\<not> b ch \<Longrightarrow> delivers mp d (dlv (g ch))) \<Longrightarrow>
    delivers mp d (dlv (ifelse b f g ch))"
  by (simp add: ifelse_def)

lemma delivers_steps:
  "delivers mp d (dlv ch) \<Longrightarrow> delivers mp d (dlv (steps [] ch))"
  "delivers mp d (dlv (steps fs (f ch))) \<Longrightarrow> delivers mp d (dlv (steps (f # fs) ch))"
  by simp_all

lemma delivers_same: "dlv ch = d \<Longrightarrow> delivers mp d (dlv ch)"
  by (simp add: delivers_def)

lemma delivers_in_sequence:
  assumes "rc_in_sequence ch" "dlv ch = d" "\<And>c. dlv (taken c) = dlv c" "\<And>c. dlv (dropped c) = dlv c"
  shows "delivers mp d (dlv (rc_deliver taken dropped mp ch))"
  using assms by (auto simp: dlv_deliver delivers_def expected_def dlv_in_sequence)

lemma delivers_pcr: "delivers mp (dlv ch) (dlv (rc_pcr mp ch))"
  by (simp add: rc_pcr_def)
    (intro delivers_steps delivers_ifelse delivers_in_sequence delivers_same; simp add: dlv_assign dlv_obs sl_view)

lemma delivers_basic_accepted: "delivers mp (dlv ch) (dlv (rc_basic_accepted mp ch))"
  by (simp add: rc_basic_accepted_def)
    (intro delivers_steps delivers_ifelse delivers_in_sequence delivers_same; simp add: dlv_assign dlv_obs sl_view)

lemma delivers_basic: "delivers mp (dlv ch) (dlv (rc_basic mp ch))"
  using delivers_basic_accepted[of mp ch] delivers_basic_accepted[of mp "set_abnormal_fibr False ch"]
  by (auto simp: rc_basic_def sl_view intro: delivers_same)

lemma delivers_msu_fisu: "delivers mp (dlv ch) (dlv (rc_msu_fisu mp ch))"
  using delivers_pcr[of mp ch] delivers_basic[of mp ch] delivers_pcr[of mp "set_abnormal_bsnr False ch"]
    delivers_basic[of mp "set_abnormal_bsnr False ch"]
  by (auto simp: rc_msu_fisu_def ifthen_def ifelse_def sl_view intro: delivers_same)

text \<open>The header fields reception control reads: forward sequence number and length indicator.\<close>

definition su_fsn :: "ch \<Rightarrow> msg \<Rightarrow> u16" where
  "su_fsn ch mp = (if xsn ch then rd16 (octets mp) 1 AND 0x0fff else rd8 (octets mp) 1 AND 0x7f)"

definition su_li :: "ch \<Rightarrow> msg \<Rightarrow> u16" where
  "su_li ch mp = (if xsn ch then rd16 (octets mp) 2 AND 0x01ff else rd8 (octets mp) 2 AND 0x3f)"

lemma dlv_parse:
  "dlv (snd (rc_parse (octets mp) ch)) = (dlv ch)\<lparr>d_fsn := su_fsn ch mp, d_len := su_li ch mp\<rparr>"
  "su_li ch mp > 2 \<Longrightarrow> fst (rc_parse (octets mp) ch) = drop 3 (octets mp)"
  by (auto simp: rc_parse_def su_fsn_def su_li_def Let_def dlv_assign dlv_obs)

lemma delivers_signal_unit:
  fixes mp ch defines "d \<equiv> (dlv ch)\<lparr>d_fsn := su_fsn ch mp, d_len := su_li ch mp\<rparr>"
  shows "rc_state (statem ch) = ST_IN_SERVICE \<Longrightarrow>
    delivers (mp\<lparr>octets := drop 3 (octets mp)\<rparr>) d (dlv (sl_rc_signal_unit mp ch))"
proof -
  assume r: "rc_state (statem ch) = ST_IN_SERVICE"
  obtain bs c where p: "rc_parse (octets mp) ch = (bs, c)" by fastforce
  have c: "dlv c = d" using dlv_parse(1)[of mp ch] p d_def by simp
  have n: "delivers (mp\<lparr>octets := bs\<rparr>) d (dlv (rc_msu_fisu (mp\<lparr>octets := bs\<rparr>) c))"
    using delivers_msu_fisu c by metis
  have b: "delivers (mp\<lparr>octets := drop 3 (octets mp)\<rparr>) d (dlv (rc_msu_fisu (mp\<lparr>octets := bs\<rparr>) c))"
  proof (cases "su_li ch mp > 2")
    case True
    then have "bs = drop 3 (octets mp)" using dlv_parse(2)[of ch mp] p by simp
    then show ?thesis using n by simp
  next
    case False
    then have "\<not> expected d" by (simp add: expected_def d_def)
    then show ?thesis using n by (simp add: delivers_def)
  qed
  show ?thesis using r b c
    by (auto simp: sl_rc_signal_unit_def p Let_def sl_view intro: delivers_same)
qed

section \<open>Runs\<close>

lemma dlv_retransmit [sl_view]: "dlv (snd (txc_retransmit ch)) = dlv ch"
proof -
  have s: "dlv (snd (txc_send_dup z mp c)) = dlv c" for z mp c
    by (simp add: txc_send_dup_def Let_def dlv_assign dlv_obs sl_view)
  have d: "dlv c' = dlv c" if "dupmsg bp c = (r, c')" for bp r c c'
    using dlv_v.units(3)[of bp c] that by simp
  show ?thesis
    by (auto simp: txc_retransmit_def Let_def s dlv_assign dlv_obs split: option.split prod.split dest!: d)
qed

lemma dlv_new_msu [sl_view]: "dlv (snd (txc_new_msu ch)) = dlv ch"
  by (auto simp: txc_new_msu_def sl_rc_fsnt_value_def txc_rtb_limit_def Let_def dlv_assign dlv_obs sl_view
      split: option.split prod.split dest!: dlv_v.allocb_pair)

lemma dlv_transmission_request [sl_view]: "dlv (snd (sl_daedt_transmission_request ch)) = dlv ch"
proof -
  have "dlv (txc_pcr_limits ch) = dlv ch"
    by (simp add: txc_pcr_limits_def dlv_assign dlv_obs sl_view)
  then have t: "dlv (snd (sl_txc_transmission_request ch)) = dlv ch"
    by (simp add: sl_txc_transmission_request_def Let_def sl_view)
  have e: "dlv c' = dlv ch" if "sl_txc_transmission_request ch = (r, c')" for r c' using t that by simp
  show ?thesis
    by (auto simp: sl_daedt_transmission_request_def ifthen_def sl_view split: option.split prod.split
        dest!: e)
qed

lemma dlv_send_data [sl_view]: "dlv (snd (xp_send_data p ch)) = dlv ch"
  by (auto simp: xp_send_data_def sl_lsc_pdu_def sl_txc_message_for_transmission_def exec_def dlv_assign
      dlv_obs sl_view split: pdu.split option.split prod.split dest!: dlv_v.allocb_pair)

lemma dlv_rq_srv [sl_view]: "dlv (rq_srv room ch) = dlv ch"
proof (induction room ch rule: rq_srv.induct)
  case (1 room ch)
  show ?case
  proof (cases "\<exists>x r rs b room'. ch_xp ch = Some x \<and> rq x = r # rs \<and> room = b # room'")
    case True
    then obtain x r rs b room' where e: "ch_xp ch = Some x" "rq x = r # rs" "room = b # room'" by blast
    let ?c = "ch\<lparr>ch_xp := Some (x\<lparr>rq := rs, rq_canputnext := b\<rparr>)\<rparr>"
    have s: "dlv c = dlv ch" if "xp_r_prim_srv r ?c = Some c" for c
      using that e by (cases r)
        (auto simp: xp_r_prim_srv_def emit_def dlv_def stream_def xsn_def split: if_splits)
    show ?thesis using 1[OF e refl] s e
      by (subst rq_srv.simps) (auto simp: Let_def dlv_def stream_def xsn_def split: option.split)
  next
    case False
    then show ?thesis by (subst rq_srv.simps) (auto split: option.split list.split)
  qed
qed

lemma dlv_w_proto: "\<not> resets (Req r mp) ch \<Longrightarrow> dlv (snd (sl_w_proto r mp ch)) = dlv ch"
proof -
  assume n: "\<not> resets (Req r mp) ch"
  have b: "lsc_state (statem ch) \<noteq> LSC_PROCESSOR_OUTAGE \<Longrightarrow> dlv (sl_lsc_clear_buffers mp ch) = dlv ch"
    by (cases "lsc_state (statem ch)"; simp add: sl_lsc_clear_buffers_def exec_def sl_view)
  show ?thesis using n b
    by (cases r)
      (auto simp: sl_emergency_req_def sl_emergency_ceases_req_def sl_start_req_def sl_stop_req_def
        sl_retrieve_bsnt_req_def sl_retrieval_request_and_fsnc_req_def sl_clear_buffers_req_def
        sl_clear_rtb_req_def sl_continue_req_def sl_local_processor_outage_req_def sl_resume_req_def
        sl_congestion_discard_req_def sl_congestion_accept_req_def sl_no_congestion_req_def
        sl_power_on_req_def sl_lsc_start_def sl_lsc_power_on_def sl_lsc_clear_rtb_def
        sl_lsc_retrieval_request_and_fsnc_def sl_view split: option.split)
qed

lemma dlv_step:
  "\<not> resets e ch \<Longrightarrow> (\<And>mp. e \<noteq> Frame mp) \<Longrightarrow> dlv (sl_step e ch) = dlv ch"
  by (cases e) (simp_all del: resets.simps add: resets.simps(2-) exec_def dlv_w_proto dlv_send_data
      dlv_v.iac dlv_transmission_request dlv_v.expiry dlv_rq_srv,
      auto simp: dlv_def stream_def xsn_def map_option_case split: option.split)

text \<open>A received frame extends the stream by at most its own message, and only by the expected one.\<close>

lemma stream_frame:
  fixes mp ch defines "ch' \<equiv> sl_daedr_received_bits mp ch"
  shows "stream ch' = stream ch \<and> rX_fsn (rx_sn ch') = rX_fsn (rx_sn ch)
     \<or> stream ch' = stream ch @ [mp\<lparr>octets := drop 3 (octets mp)\<rparr>]
       \<and> rX_fsn (rx_sn ch') = (rX_fsn (rx_sn ch) + 1) AND sn_mask (statem ch)
       \<and> su_fsn ch mp = rX_fsn (rx_sn ch) \<and> su_li ch mp > 2"
    and "sn_mask (statem ch') = sn_mask (statem ch)" "xsn ch' = xsn ch"
proof -
  let ?d = "(dlv ch)\<lparr>d_fsn := su_fsn ch mp, d_len := su_li ch mp\<rparr>"
  have "dlv ch' = dlv ch \<or> delivers (mp\<lparr>octets := drop 3 (octets mp)\<rparr>) ?d (dlv ch')"
    using delivers_signal_unit[of ch mp]
    by (auto simp: ch'_def sl_daedr_received_bits_def ifelse_def sl_rc_signal_unit_def sl_view)
  then show "stream ch' = stream ch \<and> rX_fsn (rx_sn ch') = rX_fsn (rx_sn ch)
     \<or> stream ch' = stream ch @ [mp\<lparr>octets := drop 3 (octets mp)\<rparr>]
       \<and> rX_fsn (rx_sn ch') = (rX_fsn (rx_sn ch) + 1) AND sn_mask (statem ch)
       \<and> su_fsn ch mp = rX_fsn (rx_sn ch) \<and> su_li ch mp > 2"
    and "sn_mask (statem ch') = sn_mask (statem ch)" "xsn ch' = xsn ch"
    by (auto simp: dlv_obs delivers_def takes_def expected_def)
qed

text \<open>The frames of a run, and sequence numbers that follow one another.\<close>

fun frames :: "sl_event list \<Rightarrow> msg list" where
  "frames [] = []"
| "frames (Frame mp # es) = mp # frames es"
| "frames (_ # es) = frames es"

fun consecutive :: "u16 \<Rightarrow> u16 \<Rightarrow> u16 list \<Rightarrow> bool" where
  "consecutive m x [] \<longleftrightarrow> True"
| "consecutive m x (y # ys) \<longleftrightarrow> y = x \<and> consecutive m ((x + 1) AND m) ys"

text \<open>What a sequence of events makes of the stream: it grows by the payloads of some of the frames, taken
  in order and with consecutive sequence numbers, and the expected number has moved on by as many.\<close>

definition delivered :: "ch \<Rightarrow> msg list \<Rightarrow> ch \<Rightarrow> bool" where
  "delivered ch fs ch' \<longleftrightarrow>
     stream ch' = stream ch @ map (octets_update (drop 3)) fs \<and>
     consecutive (sn_mask (statem ch)) (rX_fsn (rx_sn ch)) (map (su_fsn ch) fs) \<and>
     (\<forall>f \<in> set fs. su_li ch f > 2) \<and>
     rX_fsn (rx_sn ch') = sn_adv (sn_mask (statem ch)) (length fs) (rX_fsn (rx_sn ch)) \<and>
     sn_mask (statem ch') = sn_mask (statem ch) \<and> xsn ch' = xsn ch"

lemma delivered_step:
  assumes "\<not> resets e ch"
  obtains fs where "delivered ch fs (sl_step e ch)" "frames [e] = fs \<or> fs = []"
proof (cases "\<exists>mp. e = Frame mp")
  case True
  then obtain mp where e: "e = Frame mp" by blast
  have o: "octets_update (drop 3) mp = mp\<lparr>octets := drop 3 (octets mp)\<rparr>" by simp
  have "delivered ch [] (sl_step e ch) \<or> delivered ch [mp] (sl_step e ch)"
    using stream_frame[of mp ch] unfolding delivered_def o e by auto
  then show ?thesis using that e by auto
next
  case False
  then have "dlv (sl_step e ch) = dlv ch" using assms dlv_step[of e ch] by blast
  then have "delivered ch [] (sl_step e ch)" by (simp add: delivered_def dlv_obs)
  then show ?thesis using that by blast
qed

lemma delivered_trans:
  assumes "delivered a fs b" "delivered b gs c" "length fs \<le> 1"
  shows "delivered a (fs @ gs) c"
proof -
  have "su_fsn b = su_fsn a" "su_li b = su_li a"
    using assms(1) by (simp_all add: delivered_def su_fsn_def su_li_def fun_eq_iff)
  then show ?thesis using assms by (cases fs) (simp_all add: delivered_def)
qed

lemma delivered_run:
  "sl_allowed (\<lambda>e ch. \<not> resets e ch) es ch \<Longrightarrow> \<exists>fs. subseq fs (frames es) \<and> delivered ch fs (sl_run es ch)"
proof (induction es arbitrary: ch)
  case Nil
  have "delivered ch [] ch" by (simp add: delivered_def)
  then show ?case by auto
next
  case (Cons e es)
  have f: "frames (e # es) = frames [e] @ frames es" by (cases e) simp_all
  have l: "length (frames [e]) \<le> 1" by (cases e) simp_all
  show ?case
  proof (cases "sl_enabled e ch")
    case True
    then have "\<not> resets e ch" "sl_allowed (\<lambda>e ch. \<not> resets e ch) es (sl_step e ch)"
      using Cons.prems by simp_all
    then obtain fs gs where d: "delivered ch fs (sl_step e ch)" "frames [e] = fs \<or> fs = []"
      and r: "subseq gs (frames es)" "delivered (sl_step e ch) gs (sl_run es (sl_step e ch))"
      using Cons.IH delivered_step by metis
    have "subseq (fs @ gs) (frames (e # es))" using d(2) r(1) f by (auto intro: list_emb_append_mono)
    moreover have "length fs \<le> 1" using d(2) l by auto
    ultimately show ?thesis using delivered_trans[OF d(1) r(2)] True by auto
  next
    case False
    then obtain gs where r: "subseq gs (frames es)" "delivered ch gs (sl_run es ch)"
      using Cons.prems Cons.IH by auto
    then have "subseq gs (frames (e # es))" using f by (simp add: list_emb_append2)
    then show ?thesis using r(2) False by auto
  qed
qed

end
