(* ===== verification/SL_Demo.thy ===== *)
theory SL_Demo
  imports SL_Events
begin

text \<open>
  Concrete channels on which the properties are exercised: an E1 channel of the ITU-T 1996 variant that is in
  service, with given messages awaiting acknowledgement from sequence number 0 on.
\<close>

definition filled :: "msg list \<Rightarrow> bufq" where
  "filled ms = \<lparr>q_list = ms, q_msgs = length ms, q_count = msgs_size ms\<rparr>"

definition up_ch :: "u32 \<Rightarrow> msg list \<Rightarrow> ch" where
  "up_ch po ms = (demo_ch 0x102 po)\<lparr>
     rtb := filled ms,
     statem := sl_statem_zero\<lparr>lsc_state := LSC_IN_SERVICE, txc_state := ST_IN_SERVICE,
       rc_state := ST_IN_SERVICE, ib_mask := 0x80, sn_mask := 0x7f, msu_fisu_accepted := True,
       Ct := of_nat (length ms)\<rparr>,
     sdt_sm := sdt_statem_zero\<lparr>suerm_state := ST_IN_SERVICE, Ti := 4, daedt_state := ST_IN_SERVICE,
       daedr_state := ST_IN_SERVICE\<rparr>,
     tx_sn := \<lparr>N_bib = 0x80, N_bsn = 0x7f, N_fib = 0x80, N_fsn = (of_nat (length ms) - 1) AND 0x7f, F_fsn = 0,
       L_fsn = (of_nat (length ms) - 1) AND 0x7f, C_fsn = 0, X_fsn = 0, R_bsn = 0, R_bib = 0, tx_sio = 0\<rparr>,
     rx_sn := \<lparr>rX_fsn = 0, rX_fib = 0x80, rF_fsn = 0, rR_bib = 0, rR_bsn = 0, rR_fib = 0, rR_fsn = 0,
       rT_fsn = (of_nat (length ms) - 1) AND 0x7f, rT_bsn = 0, rx_sio = 0, rx_len = 0\<rparr>\<rparr>"

definition msu :: "nat \<Rightarrow> msg" where
  "msu i = \<lparr>mid = i, octets = [0, 0, 0, 0x83, of_nat i, 1, 2]\<rparr>"

lemmas demo_defs = up_ch_def filled_def msu_def demo_ch_def xp_init_ch_def sl_statem_zero_def
  sdt_statem_zero_def sl_default_e1_chan_def sdt_default_e1_chan_def xsn_def pcr_def hsl_def mplev_def
  ansi_92_def

end
