(* ===== verification/SL_Transfer.thy ===== *)
theory SL_Transfer
  imports SL_Delivery SL_Demo
begin

text \<open>
  Reliable transfer: what the window of \<open>SL_Window\<close> and the stream of \<open>SL_Delivery\<close> say about the program,
  stated on the fields of the channel and on whole runs of events.
\<close>

section \<open>Sending\<close>

text \<open>C3. A link that is out of service, whose reception control is idle, whose retransmission buffer is empty, whose
  sequence number mask is the one of its options, as powering on sets it, and, with preventive cyclic retransmission, whose limit N1 lies between 1 and 127, is started.  Whatever
  requests, frames, errors, transmission requests and expiries follow, as long as level 3 does not start or power on the
  link again, clear its buffers or retrieve from them in the states in which these requests act: the
  retransmission buffer holds exactly one message for each sequence number from \<open>tx.F.fsn\<close> to \<open>tx.L.fsn\<close>, never more
  than the sequence space can tell apart, and reception control checks acknowledgements against these same
  bounds.  The next property shows that each of these conditions on the start is needed.\<close>

theorem window_kept:
  assumes "lsc_state (statem ch) = LSC_OUT_OF_SERVICE" "rc_state (statem ch) = ST_IDLE"
    "q_list (rtb ch) = []" "q_msgs (rtb ch) = 0"
    "sn_mask (statem ch) = (if xsn ch then 0x7fff else 0x7f)"
    "pcr ch \<longrightarrow> 0 < unat (cfg_N1 (config ch)) \<and> unat (cfg_N1 (config ch)) \<le> 127"
    "sl_allowed (\<lambda>e ch. \<not> resets e ch) es (sl_step (Req SL_START_REQ mp) ch)"
  defines "ch' \<equiv> sl_run es (sl_step (Req SL_START_REQ mp) ch)"
  shows "length (q_list (rtb ch')) =
      sn_dist (sn_mask (statem ch')) (F_fsn (tx_sn ch')) ((L_fsn (tx_sn ch') + 1) AND sn_mask (statem ch')) \<and>
    length (q_list (rtb ch')) \<le> unat (sn_mask (statem ch')) \<and>
    q_msgs (rtb ch') = length (q_list (rtb ch')) \<and>
    rF_fsn (rx_sn ch') = F_fsn (tx_sn ch') \<and> rT_fsn (rx_sn ch') = L_fsn (tx_sn ch')"
proof -
  have "win_ok (win (sl_step (Req SL_START_REQ mp) ch))"
    using win_start[OF assms(1-5)] assms(6) by (simp add: exec_def sl_start_req_def win_v.freemsg)
  then have "win_ok (win ch')" using win_inv.permitted_run assms(7) by (simp add: ch'_def)
  then show ?thesis
    using sn_dist_le[of "sn_mask (statem ch')"] by (simp add: win_ok_def win_def)
qed

theorem window_kept_witness:
  "length (q_list (rtb (sl_run [Transmit] (sl_step (Req SL_START_REQ 1)
     (set_sn_mask 0x7f (set_lsc_state LSC_OUT_OF_SERVICE (demo_ch 0x102 0))))))) \<le> 127"
  using window_kept[of "set_sn_mask 0x7f (set_lsc_state LSC_OUT_OF_SERVICE (demo_ch 0x102 0))" "[Transmit]" 1]
  by (simp add: demo_defs exec_def sl_defs)



text \<open>C8. An acknowledgement that passes the test of reception control frees from the retransmission buffer
  exactly the messages up to the acknowledged number, oldest first, keeps the rest in order, and moves the
  window's lower edge to the number after the acknowledged one.\<close>

theorem acknowledgement_frees:
  assumes "win_ok (win ch)" "sn_valid (sn_mask (statem ch)) (rR_bsn (rx_sn ch))"
    "\<not> SN_OUTSIDE ((rF_fsn (rx_sn ch) - 1) AND sn_mask (statem ch)) (rR_bsn (rx_sn ch)) (rT_fsn (rx_sn ch))"
  defines "next \<equiv> (rR_bsn (rx_sn ch) + 1) AND sn_mask (statem ch)"
    and "ch' \<equiv> rc_acked (sl_txc_bsnr_and_bibr ch)"
  shows "map mid (q_list (rtb ch')) =
      drop (sn_dist (sn_mask (statem ch)) (F_fsn (tx_sn ch)) next) (map mid (q_list (rtb ch))) \<and>
    F_fsn (tx_sn ch') = next \<and> rF_fsn (rx_sn ch') = next \<and> win_ok (win ch')"
proof -
  have v: "sn_valid (w_msk (win ch)) (w_rR (win ch))" using assms(2) by (simp add: win_def)
  note a = ok_bsnr_acked[OF assms(1) v win_acceptable[OF assms(1) v assms(3)]]
  have "rF_fsn (rx_sn ch') = F_fsn (tx_sn ch')" using a(1) by (simp add: win_ok_def win_def ch'_def)
  then show ?thesis using a by (simp add: win_def next_def ch'_def)
qed

theorem acknowledgement_frees_witness:
  "map mid (q_list (rtb (rc_acked (sl_txc_bsnr_and_bibr (set_rR_bsn 1 (up_ch 0 [msu 7, msu 8, msu 9])))))) = [9]"
proof -
  define ch where "ch = set_rR_bsn 1 (up_ch 0 [msu 7, msu 8, msu 9])"
  have h: "win_ok (win ch)" "sn_valid (sn_mask (statem ch)) (rR_bsn (rx_sn ch))"
    "\<not> SN_OUTSIDE ((rF_fsn (rx_sn ch) - 1) AND sn_mask (statem ch)) (rR_bsn (rx_sn ch)) (rT_fsn (rx_sn ch))"
    and c: "sn_mask (statem ch) = 0x7f" "F_fsn (tx_sn ch) = 0" "rR_bsn (rx_sn ch) = 1"
      "map mid (q_list (rtb ch)) = [7, 8, 9]"
    by (simp_all add: ch_def demo_defs win_ok_def win_def sn_mask_ok_def sn_valid_def sn_dist_def SN_OUTSIDE_def)
  have "map mid (q_list (rtb (rc_acked (sl_txc_bsnr_and_bibr ch)))) = [9]"
    using acknowledgement_frees[OF h] unfolding c by (simp add: sn_dist_def)
  then show ?thesis by (simp only: ch_def)
qed

text \<open>C33. The loop that frees acknowledged messages ends for every acknowledged number, valid or not for the
  window, after at most one turn per sequence number, and ends with \<open>tx.F.fsn\<close> at its goal: a larger bound on
  the turns gives the same result.\<close>

theorem ack_loop_ends:
  assumes "sn_mask_ok (sn_mask (statem ch))" "sn_valid (sn_mask (statem ch)) stop"
    "sn_valid (sn_mask (statem ch)) (F_fsn (tx_sn ch))"
  shows "rtb_ack (Suc (unat (sn_mask (statem ch))) + k) stop ch = rtb_ack (Suc (unat (sn_mask (statem ch)))) stop ch
    \<and> F_fsn (tx_sn (rtb_ack (Suc (unat (sn_mask (statem ch)))) stop ch)) = stop"
  using rtb_ack_fuel[OF assms, of "Suc (unat (sn_mask (statem ch))) + k"]
    rtb_ack_fuel[OF assms, of "Suc (unat (sn_mask (statem ch)))"] by simp

theorem ack_loop_ends_witness: "F_fsn (tx_sn (rtb_ack 128 3 (up_ch 0 [msu 1]))) = 3"
proof -
  have h: "sn_mask_ok (sn_mask (statem (up_ch 0 [msu 1])))" "sn_valid (sn_mask (statem (up_ch 0 [msu 1]))) 3"
    "sn_valid (sn_mask (statem (up_ch 0 [msu 1]))) (F_fsn (tx_sn (up_ch 0 [msu 1])))"
    and m: "Suc (unat (sn_mask (statem (up_ch 0 [msu 1])))) = 128"
    by (simp_all add: demo_defs sn_mask_ok_def sn_valid_def)
  show ?thesis using ack_loop_ends[OF h] unfolding m by blast
qed

text \<open>The effect of queueing a new message, field by field.\<close>

lemma new_msu_fields:
  fixes mp :: msg and ch :: ch defines "q \<equiv> new_msu_queued mp ch"
  shows "N_fsn (tx_sn q) = (L_fsn (tx_sn ch) + 1) AND sn_mask (statem ch)"
    "L_fsn (tx_sn q) = (L_fsn (tx_sn ch) + 1) AND sn_mask (statem ch)"
    "tb q = snd (bufq_dequeue (tb ch))" "rtb q = bufq_queue mp (rtb ch)"
    "q_count (rtb ch) = 0 \<Longrightarrow> tid q T7 \<and> pending q T7 \<noteq> None"
  unfolding q_def new_msu_queued_def steps.simps sl_rc_fsnt_value_def
  by (simp_all add: ifthen_def sl_enable_rq_def emit_def xp_timer_start_def xp_start_timer_def Let_def)

lemma rtb_limit_fields:
  "tx_sn (txc_rtb_limit c) = tx_sn c" "tb (txc_rtb_limit c) = tb c" "rtb (txc_rtb_limit c) = rtb c"
  "tid (txc_rtb_limit c) = tid c" "pending (txc_rtb_limit c) = pending c"
  by (simp_all add: txc_rtb_limit_def ifthen_def ifelse_def)

lemma txc_new_msu_queued:
  assumes "bufq_head (tb ch) = Some mp" "allocb 0 ch = (Some bs, ch)"
  obtains m' b where "mid m' = mid mp"
    "txc_new_msu ch = (Some m', rtb_update (shared_write m') (set_N_bsn b (txc_rtb_limit (new_msu_queued mp ch))))"
proof -
  let ?l = "txc_rtb_limit (new_msu_queued mp ch)"
  let ?b = "(X_fsn (tx_sn ?l) - 1) AND sn_mask (statem ?l)"
  show ?thesis
    by (rule that[of "sl_daedt_msu (set_N_bsn ?b ?l) mp" ?b])
      (simp add: sl_daedt_msu_def Let_def, simp add: txc_new_msu_def assms Let_def new_msu_queued_def)
qed

text \<open>C29. A transmission request in the basic method that finds neither a status unit nor a retransmission
  pending, a message waiting and room in the window sends the oldest waiting message: under the number after
  the last one sent, taken from the transmission buffer and appended to the retransmission buffer, with T7
  running from then on if nothing else was unacknowledged.\<close>

theorem new_msu_sent:
  assumes "\<not> pcr ch" "txc_state (statem ch) = ST_IN_SERVICE" "\<not> lssu_available (statem ch)"
      "\<not> msu_inhibited (statem ch)" "\<not> retrans_cycle (statem ch)" "\<not> rtb_full (statem ch)"
      "allocs ch = []" "q_list (tb ch) = mp # ms" "q_count (tb ch) \<noteq> 0"
  defines "next \<equiv> (L_fsn (tx_sn ch) + 1) AND sn_mask (statem ch)"
  shows "case sl_txc_transmission_request ch of
      (Some m', ch') \<Rightarrow> mid m' = mid mp \<and> N_fsn (tx_sn ch') = next \<and> L_fsn (tx_sn ch') = next \<and>
        q_list (tb ch') = ms \<and> map mid (q_list (rtb ch')) = map mid (q_list (rtb ch)) @ [mid mp] \<and>
        (q_count (rtb ch) = 0 \<longrightarrow> armed ch' T7)
    | (None, _) \<Rightarrow> False"
proof -
  have r: "sl_txc_transmission_request ch = txc_new_msu ch"
    using assms(1-6,9) by (simp add: sl_txc_transmission_request_def txc_pcr_limits_def Let_def)
  have h: "bufq_head (tb ch) = Some mp" "allocb 0 ch = (Some [], ch)"
    using assms(7,8) by (simp_all add: bufq_head_def allocb_def)
  obtain m' b where "mid m' = mid mp"
    "txc_new_msu ch = (Some m', rtb_update (shared_write m') (set_N_bsn b (txc_rtb_limit (new_msu_queued mp ch))))"
    using txc_new_msu_queued[OF h] by blast
  then show ?thesis unfolding r using new_msu_fields[where mp = mp and ch = ch] assms(8)
    by (simp add: rtb_limit_fields next_def bufq_dequeue_def armed_def)
qed

theorem new_msu_sent_witness:
  "case sl_txc_transmission_request (tb_update (\<lambda>_. filled [msu 4]) (up_ch 0 [])) of
      (Some m', ch') \<Rightarrow> mid m' = 4 \<and> N_fsn (tx_sn ch') = 0 \<and> armed ch' T7
    | (None, _) \<Rightarrow> False"
proof -
  define ch where "ch = tb_update (\<lambda>_. filled [msu 4]) (up_ch 0 [])"
  have h: "\<not> pcr ch" "txc_state (statem ch) = ST_IN_SERVICE" "\<not> lssu_available (statem ch)"
      "\<not> msu_inhibited (statem ch)" "\<not> retrans_cycle (statem ch)" "\<not> rtb_full (statem ch)"
      "allocs ch = []" "q_list (tb ch) = msu 4 # []" "q_count (tb ch) \<noteq> 0"
    and c: "(L_fsn (tx_sn ch) + 1) AND sn_mask (statem ch) = 0" "q_count (rtb ch) = 0" "mid (msu 4) = 4"
    by (simp_all add: ch_def demo_defs)
  show ?thesis using new_msu_sent[OF h] c unfolding ch_def[symmetric]
    by (simp split: prod.splits option.splits)
qed

section \<open>Receiving\<close>

text \<open>C2. Over any run in which level 3 does not restart the link or clear its buffers, the messages handed to
  level 3 (passed on, or waiting on the read queue) only grow, and they grow by the payloads of some of the
  received frames, in the order of their arrival, none twice, whose sequence numbers are consecutive from the
  number expected at the beginning on: no message is lost, repeated or reordered between those delivered.\<close>

theorem delivery_in_sequence:
  assumes "sl_allowed (\<lambda>e ch. \<not> resets e ch) es ch"
  shows "\<exists>fs. subseq fs (frames es) \<and>
    stream (sl_run es ch) = stream ch @ map (octets_update (drop 3)) fs \<and>
    consecutive (sn_mask (statem ch)) (rX_fsn (rx_sn ch)) (map (su_fsn ch) fs) \<and>
    rX_fsn (rx_sn (sl_run es ch)) = sn_adv (sn_mask (statem ch)) (length fs) (rX_fsn (rx_sn ch))"
  using delivered_run[OF assms] by (auto simp: delivered_def)

theorem delivery_in_sequence_witness:
  "\<exists>fs. subseq fs [\<lparr>mid = 5, octets = [0xff, 0x80, 3, 1, 2, 3]\<rparr>] \<and>
     stream (sl_run [Frame \<lparr>mid = 5, octets = [0xff, 0x80, 3, 1, 2, 3]\<rparr>] (up_ch 0 [])) =
       map (octets_update (drop 3)) fs"
  using delivery_in_sequence[of "[Frame \<lparr>mid = 5, octets = [0xff, 0x80, 3, 1, 2, 3]\<rparr>]" "up_ch 0 []"]
  by (simp del: sl_run.simps add: stream_def) (auto simp: demo_defs)

end
