(* ===== verification/SL_Formats.thy ===== *)
theory SL_Formats
  imports SL_Demo
begin

text \<open>
  Signal unit formats: what \<open>sl_daedt_fisu\<close>, \<open>sl_daedt_lssu\<close> and \<open>sl_daedt_msu\<close> write is what the header code of
  \<open>sl_rc_signal_unit\<close> reads, for the basic format.  For the extended format the reader is off by one octet.
\<close>

section \<open>Header octets\<close>

text \<open>Sequence numbers fit their mask and an indicator bit is clear or set.\<close>

definition hdr_ok :: "ch \<Rightarrow> bool" where
  "hdr_ok ch \<longleftrightarrow> \<not> xsn ch \<and>
     N_bsn (tx_sn ch) AND 0x7f = N_bsn (tx_sn ch) \<and> N_fsn (tx_sn ch) AND 0x7f = N_fsn (tx_sn ch) \<and>
     (N_bib (tx_sn ch) = 0 \<or> N_bib (tx_sn ch) = 0x80) \<and> (N_fib (tx_sn ch) = 0 \<or> N_fib (tx_sn ch) = 0x80)"

lemma ucast_octet: "(ucast (ucast (x :: u16) :: u8) :: u16) = x AND 0xff"
proof -
  have "(ucast (ucast x :: u8) :: u16) = take_bit 8 x"
    by (rule bit_word_eqI) (auto simp: bit_take_bit_iff bit_unsigned_iff)
  then show ?thesis by (simp add: take_bit_eq_mask mask_eq_exp_minus_1)
qed

lemma hdr_octet:
  assumes "n AND 0x7f = (n :: u16)" "b = 0 \<or> b = 0x80"
  shows "(ucast (ucast (n OR b) :: u8) :: u16) AND 0x7f = n"
    "(ucast (ucast (n OR b) :: u8) :: u16) AND 0x80 = b"
proof -
  have "n AND 0x80 = (n AND 0x7f) AND 0x80" using assms(1) by (rule arg_cong[of _ _ "\<lambda>x. x AND 0x80", symmetric])
  also have "\<dots> = n AND (0x7f AND 0x80)" by (rule and.assoc)
  also have "\<dots> = 0" by simp
  finally have "n AND 0x80 = 0" .
  then show "(ucast (ucast (n OR b) :: u8) :: u16) AND 0x7f = n"
    "(ucast (ucast (n OR b) :: u8) :: u16) AND 0x80 = b"
    using assms by (auto simp: ucast_octet and.assoc bit.conj_disj_distrib2)
qed

lemma hdr_octets:
  assumes "hdr_ok tx"
  shows "(ucast (ucast (N_bsn (tx_sn tx) OR N_bib (tx_sn tx)) :: u8) :: u16) AND 0x7f = N_bsn (tx_sn tx)"
    "(ucast (ucast (N_bsn (tx_sn tx) OR N_bib (tx_sn tx)) :: u8) :: u16) AND 0x80 = N_bib (tx_sn tx)"
    "(ucast (ucast (N_fsn (tx_sn tx) OR N_fib (tx_sn tx)) :: u8) :: u16) AND 0x7f = N_fsn (tx_sn tx)"
    "(ucast (ucast (N_fsn (tx_sn tx) OR N_fib (tx_sn tx)) :: u8) :: u16) AND 0x80 = N_fib (tx_sn tx)"
    "\<not> xsn tx"
  using assms by (auto simp only: hdr_ok_def intro!: hdr_octet)

text \<open>What the receiver notes of a header.\<close>

definition noted :: "ch \<Rightarrow> u16 \<Rightarrow> ch \<Rightarrow> ch" where
  "noted tx len rx = steps [set_rR_bsn (N_bsn (tx_sn tx)), set_rR_bib (N_bib (tx_sn tx)),
                            set_rR_fsn (N_fsn (tx_sn tx)), set_rR_fib (N_fib (tx_sn tx)), set_rx_len len] rx"

lemma parse_header:
  assumes "hdr_ok tx" "\<not> xsn rx" "ucast lo AND 0x3f = len"
  shows "rc_parse (ucast (N_bsn (tx_sn tx) OR N_bib (tx_sn tx)) # ucast (N_fsn (tx_sn tx) OR N_fib (tx_sn tx)) #
      lo # rest) rx =
    (if len = 1 then (drop 1 rest, set_rx_sio (ucast (rd8 rest 0 AND 0x07)) (noted tx len rx))
     else if len = 2 then (drop 2 rest, set_rx_sio (ucast (rd8 rest 1 AND 0x07)) (noted tx len rx))
     else (rest, noted tx len rx))"
  using assms(2,3) hdr_octets(1-4)[OF assms(1)]
  by (simp add: rc_parse_def noted_def Let_def rd8_def)

text \<open>A fill-in signal unit (basic format) is read back with its sequence numbers and indicator bits and
  with length 0.\<close>

theorem fisu_roundtrip: "hdr_ok tx \<Longrightarrow> \<not> xsn rx \<Longrightarrow> rc_parse (sl_daedt_fisu tx) rx = ([], noted tx 0 rx)"
  using parse_header[of tx rx 0 0 "[]"] by (simp add: sl_daedt_fisu_def su_header_def hdr_octets(5))

theorem fisu_roundtrip_witness:
  "hdr_ok (up_ch 0 []) \<and> \<not> xsn (up_ch 0 [])
     \<and> rc_parse (sl_daedt_fisu (up_ch 0 [])) (up_ch 0 []) = ([], noted (up_ch 0 []) 0 (up_ch 0 []))"
  using fisu_roundtrip[of "up_ch 0 []" "up_ch 0 []"] by (simp add: hdr_ok_def demo_defs)

text \<open>A link status signal unit (basic format) is read back with its sequence numbers, indicator bits,
  length 1 and the status that was sent.\<close>

theorem lssu_roundtrip:
  assumes "hdr_ok tx" "\<not> xsn rx" "tx_sio (tx_sn tx) AND 0x07 = tx_sio (tx_sn tx)"
  shows "rc_parse (sl_daedt_lssu tx) rx = ([], set_rx_sio (tx_sio (tx_sn tx)) (noted tx 1 rx))"
proof -
  have "(ucast ((ucast (tx_sio (tx_sn tx)) :: u16) AND 7) :: u8) = tx_sio (tx_sn tx) AND 7"
    by (rule bit_word_eqI) (auto simp: bit_and_iff bit_unsigned_iff)
  then have "(ucast ((ucast (tx_sio (tx_sn tx)) :: u16) AND 7) :: u8) = tx_sio (tx_sn tx)"
    unfolding assms(3) .
  then show ?thesis using parse_header[OF assms(1,2), of 1 1 "[tx_sio (tx_sn tx)]"]
    by (simp add: sl_daedt_lssu_def su_header_def hdr_octets(5)[OF assms(1)] rd8_def)
qed

theorem lssu_roundtrip_witness:
  "hdr_ok (up_ch 0 []) \<and> \<not> xsn (up_ch 0 [])
     \<and> rc_parse (sl_daedt_lssu (set_tx_sio LSSU_SIPO (up_ch 0 []))) (up_ch 0 []) =
         ([], set_rx_sio LSSU_SIPO (noted (up_ch 0 []) 1 (up_ch 0 [])))"
  using lssu_roundtrip[of "set_tx_sio LSSU_SIPO (up_ch 0 [])" "up_ch 0 []"]
  by (simp add: hdr_ok_def noted_def demo_defs)

lemma li_octet:
  assumes "n < 64"
  shows "(ucast (word_of_nat n :: u8) :: u16) AND 0x3f = word_of_nat n"
proof -
  have "(ucast (word_of_nat n :: u8) :: u16) AND 0x3f = take_bit 6 (ucast (word_of_nat n :: u8) :: u16)"
    by (simp add: take_bit_eq_mask mask_eq_exp_minus_1)
  also have "\<dots> = word_of_nat n"
    using assms by (simp add: unsigned_of_nat take_bit_eq_mod word_unat_eq_iff unat_mod unat_of_nat)
  finally show ?thesis .
qed

lemma su_header_3: "\<not> xsn ch \<Longrightarrow> su_header ch li =
    [ucast (N_bsn (tx_sn ch) OR N_bib (tx_sn ch)), ucast (N_fsn (tx_sn ch) OR N_fib (tx_sn ch)), word_of_int li]"
  by (simp add: su_header_def)

lemma li_min: "(if int n - 3 < 64 then int n - 3 else 63) = int (min (n - 3) 63)" if "3 \<le> n"
  using that by auto

text \<open>C30. A message signal unit that the transmitter formats (basic format) is read back by the receiver of a
  peer: backward and forward sequence numbers, both indicator bits, the length indicator (the number of octets
  behind the header, 63 for 63 and more), and exactly the octets of the message behind its header room.\<close>

theorem msu_roundtrip:
  assumes "hdr_ok tx" "\<not> xsn rx" "6 \<le> msgdsize mp"
  shows "rc_parse (octets (sl_daedt_msu tx mp)) rx =
    (drop 3 (octets mp), noted tx (word_of_nat (min (msgdsize mp - 3) 63)) rx)"
proof -
  let ?n = "min (msgdsize mp - 3) 63"
  have n: "?n < 64" "2 < ?n" using assms(3) by auto
  have u: "unat (word_of_nat ?n :: u16) = ?n" using n(1) by (simp add: unat_of_nat)
  have w: "(word_of_nat ?n :: u16) \<noteq> 1" "(word_of_nat ?n :: u16) \<noteq> 2"
    using n(2) unfolding word_unat_eq_iff u by simp_all
  have "octets (sl_daedt_msu tx mp) =
      su_header tx (if int (msgdsize mp) - 3 < 64 then int (msgdsize mp) - 3 else 63) @ drop 3 (octets mp)"
    by (simp add: sl_daedt_msu_def Let_def hdr_octets(5)[OF assms(1)])
  also have "\<dots> = su_header tx (int ?n) @ drop 3 (octets mp)" using assms(3) li_min by simp
  finally show ?thesis
    using parse_header[OF assms(1,2) li_octet[OF n(1)], of "drop 3 (octets mp)"] w
    by (simp add: su_header_3 hdr_octets(5)[OF assms(1)])
qed

theorem msu_roundtrip_witness:
  "hdr_ok (up_ch 0 []) \<and> 6 \<le> msgdsize (msu 1)
     \<and> rc_parse (octets (sl_daedt_msu (up_ch 0 []) (msu 1))) (up_ch 0 []) =
         ([0x83, 1, 1, 2], noted (up_ch 0 []) 4 (up_ch 0 []))"
proof -
  have h: "hdr_ok (up_ch 0 [])" "\<not> xsn (up_ch 0 [])" "6 \<le> msgdsize (msu 1)"
    by (simp_all add: hdr_ok_def demo_defs)
  moreover have "drop 3 (octets (msu 1)) = [0x83, 1, 1, 2]"
    "(word_of_nat (min (msgdsize (msu 1) - 3) 63) :: u16) = 4" by (simp_all add: msu_def)
  ultimately show ?thesis using msu_roundtrip[OF h(1,2,3)] by simp
qed

section \<open>Extended sequence numbers\<close>

lemma htons_simps [simp]: "length (htons w) = 2" "htons w ! 0 = ucast (drop_bit 8 w)" "htons w ! Suc 0 = ucast w"
  by (simp_all add: htons_def)

text \<open>C36. With extended sequence numbers the receiver steps one octet per 16-bit field, and the forward
  sequence number it reads is not the one sent: it is the low octet of the backward field followed by the high
  octet of the forward field, cut to 12 bits.\<close>

theorem xsn_misread:
  assumes "xsn tx" "xsn rx"
  shows "rR_fsn (rx_sn (snd (rc_parse (sl_daedt_fisu tx) rx))) =
    (push_bit 8 (N_bsn (tx_sn tx) OR N_bib (tx_sn tx)) OR drop_bit 8 (N_fsn (tx_sn tx) OR N_fib (tx_sn tx)))
      AND 0x0fff"
proof -
  have p: "(push_bit 8 x AND 0xff00) AND 0x0fff = push_bit 8 x AND (0x0fff :: u16)" for x
  proof -
    have "(push_bit 8 x AND push_bit 8 (mask 8)) AND mask 12 = push_bit 8 x AND (mask 12 :: u16)"
      by (rule bit_word_eqI) (auto simp: bit_simps)
    then show ?thesis by (simp add: mask_eq_exp_minus_1)
  qed
  have d: "drop_bit 8 y AND 0xff = drop_bit 8 (y :: u16)" for y
  proof -
    have "drop_bit 8 y AND 0xff = take_bit 8 (drop_bit 8 y)" by (simp add: take_bit_eq_mask mask_eq_exp_minus_1)
    also have "\<dots> = drop_bit 8 y"
      by (rule bit_word_eqI) (auto simp: bit_take_bit_iff bit_drop_bit_eq dest: bit_imp_le_length)
    finally show ?thesis .
  qed
  show ?thesis using assms
    by (simp add: rc_parse_def sl_daedt_fisu_def su_header_def Let_def rd16_def rd8_def htons_def ucast_octet
        bit.conj_disj_distrib2 p d)
qed

theorem xsn_misread_witness:
  "xsn (up_ch 8 []) \<and> N_fsn (tx_sn (set_N_fsn 5 (up_ch 8 []))) = 5 \<and>
   rR_fsn (rx_sn (snd (rc_parse (sl_daedt_fisu (set_N_fsn 5 (up_ch 8 []))) (up_ch 8 [])))) = 0xf00"
  using xsn_misread[of "set_N_fsn 5 (up_ch 8 [])" "up_ch 8 []"] by (simp add: demo_defs)

end
