(* ===== verification/SL_Monitors.thy ===== *)
theory SL_Monitors
  imports SL_Step SL_Demo
begin

text \<open>
  The error rate monitors against the reference counters of the recommendation, on natural numbers: the leaky
  bucket of the signal unit error rate monitor, the interval counter of the errored interval monitor, and the
  counting of aborted proving periods.
\<close>

section \<open>Signal unit error rate monitor\<close>

text \<open>The bucket: \<open>(c, n)\<close> are the count and the signal units since the last leak; an error adds one, every
  \<open>D\<close> signal units take one off, and reaching \<open>T\<close> overflows.\<close>

definition leak :: "nat \<Rightarrow> nat \<times> nat \<Rightarrow> nat \<times> nat" where
  "leak D b = (case b of (c, n) \<Rightarrow> if n + 1 \<ge> D then (c - 1, 0) else (c, n + 1))"

definition bucket :: "nat \<Rightarrow> nat \<Rightarrow> bool \<Rightarrow> nat \<times> nat \<Rightarrow> (nat \<times> nat) option" where
  "bucket T D err b = (case b of (c, n) \<Rightarrow>
     if err then if c + 1 \<ge> T then None else Some (leak D (c + 1, n)) else Some (leak D (c, n)))"

fun bucket_run :: "nat \<Rightarrow> nat \<Rightarrow> bool list \<Rightarrow> nat \<times> nat \<Rightarrow> (nat \<times> nat) option" where
  "bucket_run T D [] b = Some b"
| "bucket_run T D (e # es) b = (case bucket T D e b of None \<Rightarrow> None | Some b' \<Rightarrow> bucket_run T D es b')"

text \<open>One signal unit as the monitor sees it.\<close>

definition suerm_su :: "bool \<Rightarrow> ch \<Rightarrow> ch" where
  "suerm_su err = (if err then sl_suerm_su_in_error else sl_suerm_correct_su)"

definition suerm_abs :: "ch \<Rightarrow> nat \<times> nat" where
  "suerm_abs ch = (unat (Cs (sdt_sm ch)), unat (Ns (sdt_sm ch)))"

definition suerm_on :: "nat \<Rightarrow> nat \<Rightarrow> nat \<times> nat \<Rightarrow> lsc \<Rightarrow> ch \<Rightarrow> bool" where
  "suerm_on T D b l ch \<longleftrightarrow> suerm_state (sdt_sm ch) = ST_IN_SERVICE \<and> suerm_abs ch = b \<and>
     unat (cfg_T (sdt_cfg ch)) = T \<and> unat (cfg_D (sdt_cfg ch)) = D \<and> lsc_state (statem ch) = l \<and>
     fst b < T \<and> snd b < D"

definition suerm_off :: "ch \<Rightarrow> bool" where
  "suerm_off ch \<longleftrightarrow> suerm_state (sdt_sm ch) = ST_IDLE \<and> lsc_state (statem ch) = LSC_OUT_OF_SERVICE"

lemma unat_inc: "unat (x :: u32) < unat (y :: u32) \<Longrightarrow> unat (x + 1) = unat x + 1"
  using unsigned_less[of y, where ?'a = nat] by (simp add: unat_word_ariths)

lemma suerm_leak:
  "unat (Ns (sdt_sm ch)) < unat (cfg_D (sdt_cfg ch)) \<Longrightarrow>
    suerm_abs (suerm_count_su ch) = leak (unat (cfg_D (sdt_cfg ch))) (suerm_abs ch)"
  using unat_inc[of "Ns (sdt_sm ch)" "cfg_D (sdt_cfg ch)"]
  by (auto simp: suerm_count_su_def suerm_abs_def leak_def ifthen_def word_le_nat_alt unat_minus_one)

lemma suerm_count_frame:
  "suerm_state (sdt_sm (suerm_count_su ch)) = suerm_state (sdt_sm ch)"
  "statem (suerm_count_su ch) = statem ch" "sdt_cfg (suerm_count_su ch) = sdt_cfg ch"
  by (simp_all add: suerm_count_su_def ifthen_def)

lemma leak_bound: "fst b < T \<Longrightarrow> 0 < D \<Longrightarrow> fst (leak D b) < T \<and> snd (leak D b) < D"
  by (auto simp: leak_def split: prod.split)

lemma suerm_on_step:
  assumes on: "suerm_on T D b l ch" and l: "l \<noteq> LSC_OUT_OF_SERVICE"
  shows "case bucket T D e b of Some b' \<Rightarrow> suerm_on T D b' l (suerm_su e ch) | None \<Rightarrow> suerm_off (suerm_su e ch)"
proof -
  obtain c n where b: "b = (c, n)" by fastforce
  have d: "0 < D" "unat (Cs (sdt_sm ch)) = c" "unat (Ns (sdt_sm ch)) = n" "c < T" "n < D"
    "unat (cfg_T (sdt_cfg ch)) = T" "unat (cfg_D (sdt_cfg ch)) = D" "suerm_state (sdt_sm ch) = ST_IN_SERVICE"
    "lsc_state (statem ch) = l"
    using on by (auto simp: suerm_on_def suerm_abs_def b)
  have u: "unat (Cs (sdt_sm ch) + 1) = c + 1" using unat_inc[of "Cs (sdt_sm ch)" "cfg_T (sdt_cfg ch)"] d by simp
  show ?thesis
  proof (cases e)
    case False
    then show ?thesis using d leak_bound[of "(c, n)" T D] suerm_leak[of ch]
      by (simp add: b bucket_def suerm_su_def sl_suerm_correct_su_def suerm_on_def suerm_count_frame suerm_abs_def)
  next
    case True
    let ?c = "set_Cs (Cs (sdt_sm ch) + 1) ch"
    show ?thesis
    proof (cases "c + 1 \<ge> T")
      case True
      then have "cfg_T (sdt_cfg ch) \<le> Cs (sdt_sm ch) + 1" using u d by (simp add: word_le_nat_alt)
      then show ?thesis using True \<open>e\<close> d l
        by (simp add: b bucket_def suerm_su_def sl_suerm_su_in_error_def suerm_off_def sl_ctl)
    next
      case False
      then have "\<not> cfg_T (sdt_cfg ch) \<le> Cs (sdt_sm ch) + 1" using u d by (simp add: word_le_nat_alt)
      then have "suerm_su e ch = suerm_count_su ?c"
        using \<open>e\<close> d by (simp add: suerm_su_def sl_suerm_su_in_error_def)
      then show ?thesis using False \<open>e\<close> d u leak_bound[of "(c + 1, n)" T D] suerm_leak[of ?c]
        by (simp add: b bucket_def suerm_on_def suerm_count_frame suerm_abs_def)
    qed
  qed
qed

lemma suerm_off_step: "suerm_off ch \<Longrightarrow> suerm_off (suerm_su e ch)"
  by (simp add: suerm_off_def suerm_su_def sl_suerm_su_in_error_def sl_suerm_correct_su_def)

lemma suerm_off_run: "suerm_off ch \<Longrightarrow> suerm_off (fold suerm_su es ch)"
  by (induction es arbitrary: ch) (simp_all add: suerm_off_step)

lemma suerm_refines:
  assumes "suerm_on T D b l ch" "l \<noteq> LSC_OUT_OF_SERVICE"
  shows "case bucket_run T D es b of
      Some b' \<Rightarrow> suerm_on T D b' l (fold suerm_su es ch) | None \<Rightarrow> suerm_off (fold suerm_su es ch)"
  using assms
proof (induction es arbitrary: b ch)
  case (Cons e es)
  note s = suerm_on_step[OF Cons.prems, of e]
  show ?case
  proof (cases "bucket T D e b")
    case None
    then show ?thesis using s by (simp add: suerm_off_run)
  next
    case (Some b')
    then show ?thesis using s Cons.IH[of b' "suerm_su e ch"] Cons.prems(2) by (auto split: option.splits)
  qed
qed simp

lemma bucket_burst:
  "c + k < T \<Longrightarrow> n + k < D \<Longrightarrow> bucket_run T D (replicate k True) (c, n) = Some (c + k, n + k)"
  by (induction k arbitrary: c n) (simp_all add: bucket_def leak_def)

lemma bucket_burst_full:
  "c < T \<Longrightarrow> n + (T - c) \<le> D \<Longrightarrow> bucket_run T D (replicate (T - c) True) (c, n) = None"
proof -
  assume a: "c < T" "n + (T - c) \<le> D"
  have "bucket_run T D (replicate k True @ [True]) (c, n) = None" if "c + k + 1 = T" "n + k < D" for k
  proof -
    have r: "bucket_run T D (xs @ ys) p = (case bucket_run T D xs p of None \<Rightarrow> None | Some q \<Rightarrow> bucket_run T D ys q)"
      for xs ys p by (induction xs arbitrary: p) (simp_all split: option.split)
    show ?thesis using that by (simp add: r bucket_burst bucket_def)
  qed
  from this[of "T - c - 1"] show ?thesis
    using a by (simp add: replicate_append_same Suc_diff_Suc flip: replicate_Suc)
qed

text \<open>C24. The signal unit error rate monitor of the driver, on 32-bit counters, is the leaky bucket of the
  reference: while the bucket holds, the link state is unchanged and the counters are those of the bucket; when
  the bucket overflows the link goes out of service and the monitor idles, whatever signal units follow.\<close>

theorem suerm_is_leaky_bucket:
  assumes "suerm_state (sdt_sm ch) = ST_IN_SERVICE" "lsc_state (statem ch) \<noteq> LSC_OUT_OF_SERVICE"
    and "unat (Cs (sdt_sm ch)) < unat (cfg_T (sdt_cfg ch))" "unat (Ns (sdt_sm ch)) < unat (cfg_D (sdt_cfg ch))"
  shows "case bucket_run (unat (cfg_T (sdt_cfg ch))) (unat (cfg_D (sdt_cfg ch))) es (suerm_abs ch) of
      Some b \<Rightarrow> suerm_abs (fold suerm_su es ch) = b \<and>
        suerm_state (sdt_sm (fold suerm_su es ch)) = ST_IN_SERVICE \<and>
        lsc_state (statem (fold suerm_su es ch)) = lsc_state (statem ch)
    | None \<Rightarrow> lsc_state (statem (fold suerm_su es ch)) = LSC_OUT_OF_SERVICE \<and>
        suerm_state (sdt_sm (fold suerm_su es ch)) = ST_IDLE"
  using suerm_refines[of "unat (cfg_T (sdt_cfg ch))" "unat (cfg_D (sdt_cfg ch))" "suerm_abs ch"
      "lsc_state (statem ch)" ch es] assms
  by (simp add: suerm_on_def suerm_off_def suerm_abs_def split: option.splits)

theorem suerm_is_leaky_bucket_witness:
  "bucket_run 64 256 [True, False] (suerm_abs (up_ch 0 [])) = Some (1, 2) \<and>
   suerm_abs (fold suerm_su [True, False] (up_ch 0 [])) = (1, 2)"
proof -
  have b: "bucket_run 64 256 [True, False] (suerm_abs (up_ch 0 [])) = Some (1, 2)"
    by (simp add: suerm_abs_def bucket_def leak_def demo_defs)
  have h: "suerm_state (sdt_sm (up_ch 0 [])) = ST_IN_SERVICE" "lsc_state (statem (up_ch 0 [])) \<noteq> LSC_OUT_OF_SERVICE"
    "unat (Cs (sdt_sm (up_ch 0 []))) < unat (cfg_T (sdt_cfg (up_ch 0 [])))"
    "unat (Ns (sdt_sm (up_ch 0 []))) < unat (cfg_D (sdt_cfg (up_ch 0 [])))"
    "unat (cfg_T (sdt_cfg (up_ch 0 []))) = 64" "unat (cfg_D (sdt_cfg (up_ch 0 []))) = 256"
    by (simp_all add: demo_defs)
  show ?thesis using suerm_is_leaky_bucket[OF h(1-4), of "[True, False]"] b
    unfolding h(5,6) by simp
qed

text \<open>A monitor that has just been started lets through every burst of fewer than \<open>T\<close> signal units in error
  and takes the link out of service at the \<open>T\<close>th, as long as \<open>T \<le> D\<close> (the defaults are 64 and 256).\<close>

theorem suerm_burst:
  assumes "suerm_state (sdt_sm ch) = ST_IN_SERVICE" "lsc_state (statem ch) \<noteq> LSC_OUT_OF_SERVICE"
    and "Cs (sdt_sm ch) = 0" "Ns (sdt_sm ch) = 0"
    and "0 < cfg_T (sdt_cfg ch)" "cfg_T (sdt_cfg ch) \<le> cfg_D (sdt_cfg ch)"
  shows "lsc_state (statem ((sl_suerm_su_in_error ^^ k) ch)) =
    (if k < unat (cfg_T (sdt_cfg ch)) then lsc_state (statem ch) else LSC_OUT_OF_SERVICE)"
proof -
  let ?T = "unat (cfg_T (sdt_cfg ch))" and ?D = "unat (cfg_D (sdt_cfg ch))"
  have le: "0 < ?T" "?T \<le> ?D" using assms(5,6) by (simp_all add: word_le_nat_alt word_less_nat_alt)
  then have on: "suerm_on ?T ?D (0, 0) (lsc_state (statem ch)) ch"
    using assms by (simp add: suerm_on_def suerm_abs_def)
  have f: "(sl_suerm_su_in_error ^^ k) c = fold suerm_su (replicate k True) c" for k c
    by (induction k arbitrary: c) (simp_all add: suerm_su_def funpow_swap1)
  show ?thesis
  proof (cases "k < ?T")
    case True
    then show ?thesis
      using suerm_refines[OF on assms(2), of "replicate k True"] bucket_burst[of 0 k ?T 0 ?D] le
      by (simp add: f suerm_on_def)
  next
    case False
    then obtain j where "k = ?T + j" using le_Suc_ex linorder_not_less by blast
    then have "(sl_suerm_su_in_error ^^ k) ch =
        fold suerm_su (replicate j True) (fold suerm_su (replicate ?T True) ch)"
      by (simp add: f replicate_add)
    moreover have "suerm_off (fold suerm_su (replicate ?T True) ch)"
      using suerm_refines[OF on assms(2), of "replicate ?T True"] bucket_burst_full[of 0 ?T 0 ?D] le by simp
    ultimately have "suerm_off ((sl_suerm_su_in_error ^^ k) ch)" by (simp only: suerm_off_run)
    then show ?thesis using False by (simp add: suerm_off_def)
  qed
qed

theorem suerm_burst_witness:
  "lsc_state (statem ((sl_suerm_su_in_error ^^ 63) (up_ch 0 []))) = LSC_IN_SERVICE \<and>
   lsc_state (statem ((sl_suerm_su_in_error ^^ 64) (up_ch 0 []))) = LSC_OUT_OF_SERVICE"
  using suerm_burst[of "up_ch 0 []" 63] suerm_burst[of "up_ch 0 []" 64] by (simp add: demo_defs)

section \<open>Errored interval monitor\<close>

text \<open>The reference: an interval with a correct unit and no error takes \<open>De\<close> off, any other adds \<open>Ue\<close>, and
  exceeding \<open>Te\<close> is the alarm.\<close>

definition interval :: "nat \<Rightarrow> nat \<Rightarrow> nat \<Rightarrow> bool \<Rightarrow> nat \<Rightarrow> nat option" where
  "interval Te De Ue ok c = (if ok then Some (c - De) else if c + Ue > Te then None else Some (c + Ue))"

lemma uint_small: "unat (x :: u32) < 2 ^ 31 \<Longrightarrow> uint x < 2147483648"
  using of_nat_less_iff[of "unat x" "2 ^ 31", where ?'a = int] by simp

lemma signed_take:
  fixes x y :: u32
  assumes "unat x < 2 ^ 31" "unat y < 2 ^ 31"
  shows "unat (if sint (x - y) < 0 then 0 else x - y) = unat x - unat y"
proof -
  have u: "uint x < 2147483648" "uint y < 2147483648" "0 \<le> uint x" "0 \<le> uint y"
    using assms uint_small by auto
  have stb: "signed_take_bit 31 k = k" if "- 2147483648 \<le> k" "k < 2147483648" for k :: int
    using that by (intro signed_take_bit_int_eq_self) simp_all
  have "signed_take_bit 31 (uint x) = uint x" "signed_take_bit 31 (uint y) = uint y"
    using u by (intro stb; linarith)+
  then have "sint x = uint x" "sint y = uint y" by (simp_all add: sint_uint)
  then have "sint (x - y) = signed_take_bit 31 (uint x - uint y)"
    by (simp add: sint_word_ariths)
  also have "\<dots> = uint x - uint y" using u by (intro stb; linarith)
  finally have d: "sint (x - y) = uint x - uint y" .
  show ?thesis
  proof (cases "x < y")
    case True
    then have "uint x < uint y" by (simp only: word_less_def)
    moreover have "unat x < unat y" using True by (simp only: word_less_nat_alt)
    ultimately show ?thesis by (simp add: d)
  next
    case False
    then have "y \<le> x" by simp
    then show ?thesis using False by (simp add: d word_less_def unat_sub)
  qed
qed

lemma t8_frame: "sdt_sm (xp_timer_start t ch) = sdt_sm ch" "sdt_cfg (xp_timer_start t ch) = sdt_cfg ch"
  "statem (xp_timer_start t ch) = statem ch"
  by (simp_all add: xp_timer_start_def xp_start_timer_def Let_def)

text \<open>C26. On a high speed link, an expiry of T8 updates the interval counter as the reference does, although the
  code subtracts first and tests the sign afterwards; an overflow takes the link out of service.  The bounds say
  that the configured threshold and steps are below \<open>2 ^ 31\<close> together (the defaults are below \<open>2 ^ 20\<close>).\<close>

theorem eim_is_interval_counter:
  fixes ch defines "ok \<equiv> su_received (sdt_sm ch) \<and> \<not> interval_error (sdt_sm ch)"
    and "Te \<equiv> unat (cfg_Te (sdt_cfg ch))" and "De \<equiv> unat (cfg_De (sdt_cfg ch))" and "Ue \<equiv> unat (cfg_Ue (sdt_cfg ch))"
  assumes "eim_state (sdt_sm ch) = ST_IN_SERVICE" "lsc_state (statem ch) \<noteq> LSC_OUT_OF_SERVICE"
    and "unat (Ce (sdt_sm ch)) \<le> Te" "Te + Ue < 2 ^ 31" "De < 2 ^ 31"
  shows "case interval Te De Ue ok (unat (Ce (sdt_sm ch))) of
      Some c \<Rightarrow> unat (Ce (sdt_sm (xp_t8_timeout ch))) = c \<and>
        lsc_state (statem (xp_t8_timeout ch)) = lsc_state (statem ch)
    | None \<Rightarrow> lsc_state (statem (xp_t8_timeout ch)) = LSC_OUT_OF_SERVICE"
proof (cases ok)
  case True
  have b: "unat (Ce (sdt_sm ch)) < 2 ^ 31" "unat (cfg_De (sdt_cfg ch)) < 2 ^ 31"
    using assms(5-) by (simp_all add: Te_def De_def)
  show ?thesis using assms(1,3,5,6) True signed_take[OF b]
    by (auto simp: xp_t8_timeout_def Let_def t8_frame interval_def ifthen_def split: if_splits)
next
  case False
  have u: "unat (Ce (sdt_sm ch) + cfg_Ue (sdt_cfg ch)) = unat (Ce (sdt_sm ch)) + Ue"
    using assms(7,8) by (simp add: unat_word_ariths Ue_def)
  show ?thesis
  proof (cases "unat (Ce (sdt_sm ch)) + Ue > Te")
    case True
    then have "cfg_Te (sdt_cfg ch) < Ce (sdt_sm ch) + cfg_Ue (sdt_cfg ch)"
      using u by (simp add: word_less_nat_alt Te_def)
    then show ?thesis using assms(1,5,6) False True
      by (auto simp: xp_t8_timeout_def Let_def t8_frame interval_def ifthen_def sl_ctl)
  next
    case 2: False
    then have "\<not> cfg_Te (sdt_cfg ch) < Ce (sdt_sm ch) + cfg_Ue (sdt_cfg ch)"
      using u by (simp add: word_less_nat_alt Te_def)
    then show ?thesis using assms(1,5,6) False 2 u
      by (auto simp: xp_t8_timeout_def Let_def t8_frame interval_def ifthen_def)
  qed
qed

theorem eim_is_interval_counter_witness:
  "interval 793544 11328 198384 False 700000 = None \<and>
   lsc_state (statem (xp_t8_timeout (set_Ce 700000 (set_eim_state ST_IN_SERVICE (up_ch 4 []))))) = LSC_OUT_OF_SERVICE"
  using eim_is_interval_counter[of "set_Ce 700000 (set_eim_state ST_IN_SERVICE (up_ch 4 []))"]
  by (simp add: demo_defs interval_def)

section \<open>Proving\<close>

text \<open>C28. During a proving period the \<open>Ti\<close>th signal unit in error aborts it.  Of the \<open>M\<close> periods allowed, an
  abort before the last leaves alignment control proving and asks for a further period; the abort of the last one
  takes the link out of service with the reason "alignment not possible".  Fewer errors change nothing but the
  count.\<close>

theorem proving_abort:
  assumes "iac_state (statem ch) = IAC_PROVING" "aerm_state (sdt_sm ch) = ST_IN_SERVICE"
  defines "ch' \<equiv> sl_aerm_su_in_error ch"
  shows "if Ca (sdt_sm ch) + 1 = Ti (sdt_sm ch) then
      aerm_state (sdt_sm ch') = ST_IDLE \<and> Cp (statem ch') = Cp (statem ch) + 1 \<and>
      (if Cp (statem ch) + 1 = cfg_M (config ch)
       then lsc_state (statem ch') = LSC_OUT_OF_SERVICE \<and> iac_state (statem ch') = IAC_IDLE \<and>
         failure_reason (statem ch') = SL_FAIL_ALIGNMENT_NOT_POSSIBLE \<and> \<not> armed ch' T4
       else lsc_state (statem ch') = lsc_state (statem ch) \<and> iac_state (statem ch') = IAC_PROVING \<and>
         further_proving (statem ch') \<and> aborted_proving (sdt_sm ch'))
    else ch' = set_Ca (Ca (sdt_sm ch) + 1) ch"
  using assms(1,2)
  by (simp add: ch'_def sl_aerm_su_in_error_def sl_iac_abort_proving_def ifthen_def ifelse_def
      sl_lsc_alignment_not_possible_def sl_rc_stop_def sl_cc_normal_def sl_txc_send_sios_def sl_aerm_stop_def
      armed_def armed_timers sl_view)

theorem proving_abort_witness:
  "lsc_state (statem (sl_aerm_su_in_error (set_Cp 4 (set_Ca 3 (set_aerm_state ST_IN_SERVICE
     (set_iac_state IAC_PROVING (set_lsc_state LSC_INITIAL_ALIGNMENT (up_ch 0 [])))))))) = LSC_OUT_OF_SERVICE"
  using proving_abort[of "set_Cp 4 (set_Ca 3 (set_aerm_state ST_IN_SERVICE
     (set_iac_state IAC_PROVING (set_lsc_state LSC_INITIAL_ALIGNMENT (up_ch 0 [])))))"]
  by (simp add: demo_defs)

end
