(* ===== verification/SL_Retrans.thy ===== *)
theory SL_Retrans
  imports SL_Window SL_Demo
begin

text \<open>
  The retransmission buffer at work: after a negative acknowledgement its messages go out again, in order and
  under their own sequence numbers; a retrieval hands the unacknowledged messages and then the unsent ones to
  level 3; and what is transmitted follows the priorities of transmission control.
\<close>

section \<open>Walking the retransmission buffer\<close>

lemma find_msg_nth:
  "distinct (map mid ms) \<Longrightarrow> i < length ms \<Longrightarrow> find_msg (mid (ms ! i)) ms = Some (ms ! i)"
  by (induction ms arbitrary: i) (auto simp: nth_Cons split: nat.split)

lemma b_next_nth:
  "distinct (map mid ms) \<Longrightarrow> i < length ms \<Longrightarrow>
    b_next (mid (ms ! i)) ms = (if Suc i < length ms then Some (mid (ms ! Suc i)) else None)"
proof (induction ms arbitrary: i)
  case (Cons m ms)
  show ?case
  proof (cases i)
    case 0
    then show ?thesis by (cases ms) simp_all
  next
    case (Suc j)
    then have "mid m \<noteq> mid (ms ! j)" using Cons.prems by auto
    then show ?thesis using Suc Cons by simp
  qed
qed simp

text \<open>What identifies the messages of the buffer: identity and octets behind the header room.\<close>

definition payload :: "ch \<Rightarrow> msg \<Rightarrow> nat \<times> u8 list" where
  "payload ch m = (mid m, drop (hlen ch) (octets m))"

definition rtb_payload :: "ch \<Rightarrow> (nat \<times> u8 list) list" where
  "rtb_payload ch = map (payload ch) (q_list (rtb ch))"

lemma payload_daedt_msu: "hlen ch' = hlen ch \<Longrightarrow> hlen ch \<le> msgdsize mp \<Longrightarrow>
    payload ch (sl_daedt_msu ch' mp) = payload ch mp \<and> msgdsize (sl_daedt_msu ch' mp) = msgdsize mp"
  by (auto simp: payload_def sl_daedt_msu_def su_header_def htons_def hlen_def Let_def split: if_splits)

lemma payload_shared_write:
  assumes "distinct (map mid (q_list q))" "m \<in> set (q_list q)" "mid mp = mid m" "payload ch mp = payload ch m"
  shows "map (payload ch) (q_list (shared_write mp q)) = map (payload ch) (q_list q)"
proof -
  have "payload ch (if mid x = mid mp then x\<lparr>octets := octets mp\<rparr> else x) = payload ch x"
    if "x \<in> set (q_list q)" for x
  proof (cases "mid x = mid mp")
    case True
    then have "x = m" using assms(1-3) that by (metis distinct_map inj_onD)
    then show ?thesis using assms(3,4) by (simp add: payload_def)
  qed simp
  then show ?thesis by (simp add: shared_write_def)
qed

lemma length_shared_write:
  "(\<forall>m \<in> set (q_list q). h \<le> msgdsize m) \<Longrightarrow> h \<le> msgdsize mp \<Longrightarrow>
    \<forall>m \<in> set (q_list (shared_write mp q)). h \<le> msgdsize m"
  by (auto simp: shared_write_def)

section \<open>A retransmission cycle\<close>

text \<open>A cycle that is about to send message \<open>i\<close> of the buffer.  Memory is available (\<open>allocs\<close>).\<close>

definition cycle_at :: "nat \<Rightarrow> ch \<Rightarrow> bool" where
  "cycle_at i ch \<longleftrightarrow> \<not> pcr ch \<and> txc_state (statem ch) = ST_IN_SERVICE \<and>
     \<not> lssu_available (statem ch) \<and> \<not> msu_inhibited (statem ch) \<and> allocs ch = [] \<and>
     distinct (map mid (q_list (rtb ch))) \<and> (\<forall>m \<in> set (q_list (rtb ch)). hlen ch \<le> msgdsize m) \<and>
     win_ok (win ch) \<and> i < length (q_list (rtb ch)) \<and>
     retrans_cycle (statem ch) \<and> z_ptr (statem ch) = Some (mid (q_list (rtb ch) ! i)) \<and>
     (N_fsn (tx_sn ch) + 1) AND sn_mask (statem ch) = sn_adv (sn_mask (statem ch)) i (F_fsn (tx_sn ch))"

lemma transmit_in_cycle:
  assumes "cycle_at i ch"
  shows "sl_txc_transmission_request ch = txc_send_dup (mid (q_list (rtb ch) ! i)) (q_list (rtb ch) ! i) ch"
  using assms find_msg_nth[of "q_list (rtb ch)" i]
  by (simp add: cycle_at_def sl_txc_transmission_request_def txc_pcr_limits_def txc_retransmit_def dupmsg_def
      allocb_def)

lemma last_in_window:
  assumes "win_ok (win ch)" "i < length (q_list (rtb ch))"
  shows "sn_adv (sn_mask (statem ch)) i (F_fsn (tx_sn ch)) = L_fsn (tx_sn ch) \<longleftrightarrow> Suc i = length (q_list (rtb ch))"
proof -
  let ?m = "sn_mask (statem ch)" and ?F = "F_fsn (tx_sn ch)" and ?L = "L_fsn (tx_sn ch)"
  let ?n = "length (q_list (rtb ch))"
  have w: "sn_mask_ok ?m" "sn_valid ?m ?F" "sn_valid ?m ?L" "?n = sn_dist ?m ?F ((?L + 1) AND ?m)"
    using assms(1) by (simp_all add: win_ok_def win_def)
  have n: "?n \<le> unat ?m" using sn_dist_le[OF w(1), of ?F "(?L + 1) AND ?m"] w(4) by simp
  have d: "sn_dist ?m ?F (sn_adv ?m (Suc i) ?F) = Suc i"
    using sn_dist_adv[OF w(1,2)] n assms(2) by (simp del: sn_adv.simps)
  have v: "sn_valid ?m (sn_adv ?m i ?F)" using w(1,2) by (rule sn_adv_valid)
  show ?thesis
  proof
    assume "sn_adv ?m i ?F = ?L"
    then show "Suc i = ?n" using d w(4) by (simp add: sn_adv_Suc del: sn_adv.simps)
  next
    assume "Suc i = ?n"
    then have "sn_dist ?m ?F (sn_adv ?m (Suc i) ?F) = sn_dist ?m ?F ((?L + 1) AND ?m)" using d w(4) by simp
    then have "sn_adv ?m (Suc i) ?F = (?L + 1) AND ?m"
      using sn_dist_inj[OF w(1,2) sn_adv_valid[OF w(1,2)] sn_valid_mask[OF w(1)]] by blast
    then show "sn_adv ?m i ?F = ?L" using sn_succ_inj[OF w(1) v w(3)] by (simp add: sn_adv_Suc del: sn_adv.simps)
  qed
qed

lemma cycle_step:
  fixes ch i defines "m \<equiv> q_list (rtb ch) ! i"
  assumes c: "cycle_at i ch"
  obtains m' ch' where "sl_txc_transmission_request ch = (Some m', ch')" "payload ch m' = payload ch m"
    "N_fsn (tx_sn ch') = sn_adv (sn_mask (statem ch)) i (F_fsn (tx_sn ch))"
    "rtb_payload ch' = rtb_payload ch" "F_fsn (tx_sn ch') = F_fsn (tx_sn ch)"
    "sn_mask (statem ch') = sn_mask (statem ch)" "hlen ch' = hlen ch"
    "retrans_cycle (statem ch') \<longleftrightarrow> Suc i < length (q_list (rtb ch))"
    "Suc i < length (q_list (rtb ch)) \<Longrightarrow> cycle_at (Suc i) ch'"
proof -
  let ?ms = "q_list (rtb ch)" and ?msk = "sn_mask (statem ch)"
  let ?s = "(N_fsn (tx_sn ch) + 1) AND ?msk"
  define c3 where "c3 = steps [(\<lambda>ch. set_z_ptr (b_next (mid m) (q_list (rtb ch))) ch), set_N_fsn ?s,
                               (\<lambda>ch. set_N_bsn ((X_fsn (tx_sn ch) - 1) AND sn_mask (statem ch)) ch)] ch"
  define m' where "m' = sl_daedt_msu c3 m"
  define ch' where "ch' = steps [rtb_update (shared_write m'), set_retrans_cycle (Suc i < length ?ms)] c3"
  have i: "i < length ?ms" "distinct (map mid ?ms)" and w: "win_ok (win ch)"
    and s: "?s = sn_adv ?msk i (F_fsn (tx_sn ch))" and r: "retrans_cycle (statem ch)" and p: "\<not> pcr ch"
    using c by (simp_all add: cycle_at_def)
  have nx: "b_next (mid m) ?ms = (if Suc i < length ?ms then Some (mid (?ms ! Suc i)) else None)"
    using b_next_nth[OF i(2,1)] by (simp add: m_def)
  have mem: "m \<in> set ?ms" using i(1) by (simp add: m_def)
  have h: "hlen c3 = hlen ch" "hlen ch' = hlen ch" by (simp_all add: hlen_def xsn_def c3_def ch'_def)
  have pm: "payload ch m' = payload ch m" "msgdsize m' = msgdsize m"
    using payload_daedt_msu[OF h(1), of m] c mem by (simp_all add: m'_def cycle_at_def)
  have q: "q_list (rtb ch') = q_list (shared_write m' (rtb ch))" by (simp add: ch'_def c3_def)
  have pl: "payload ch' = payload ch" by (simp add: fun_eq_iff payload_def h)
  have rp: "rtb_payload ch' = rtb_payload ch"
    using payload_shared_write[OF i(2) mem, of m' ch] pm by (simp add: rtb_payload_def q pl payload_def)
  have "sl_txc_transmission_request ch = (Some m', ch')"
    unfolding transmit_in_cycle[OF c, folded m_def]
    using p last_in_window[OF w i(1)] nx s r
    by (cases "Suc i < length ?ms")
      (auto simp: txc_send_dup_def ifelse_def ifthen_def c3_def m'_def ch'_def Let_def pcr_def)
  moreover have "cycle_at (Suc i) ch'" if "Suc i < length ?ms"
  proof -
    have "win ch' = win ch" by (simp add: win_def ch'_def c3_def pcr_def xsn_def)
    moreover have "\<forall>m \<in> set (q_list (rtb ch')). hlen ch' \<le> msgdsize m"
      unfolding q h using length_shared_write[of "rtb ch" "hlen ch" m'] c mem pm by (simp add: cycle_at_def)
    moreover have "map mid (q_list (rtb ch')) = map mid ?ms" by (simp add: q)
    moreover from this have "length (q_list (rtb ch')) = length ?ms" by (metis length_map)
    moreover from calculation have "mid (q_list (rtb ch') ! Suc i) = mid (?ms ! Suc i)"
      using that by (metis nth_map)
    ultimately show ?thesis using c that nx s
      by (simp add: cycle_at_def sn_adv_Suc del: sn_adv.simps) (simp add: ch'_def c3_def pcr_def)
  qed
  moreover have "sn_mask (statem ch') = ?msk" "retrans_cycle (statem ch') \<longleftrightarrow> Suc i < length ?ms"
    by (simp_all add: ch'_def c3_def)
  moreover have "N_fsn (tx_sn ch') = sn_adv ?msk i (F_fsn (tx_sn ch))" "F_fsn (tx_sn ch') = F_fsn (tx_sn ch)"
    using s by (simp_all add: ch'_def c3_def)
  ultimately show ?thesis using pm(1) rp h(2) by (intro that)
qed

text \<open>Consecutive transmission requests: the units handed to the transmitter with their sequence numbers.\<close>

fun transmits :: "nat \<Rightarrow> ch \<Rightarrow> (msg option \<times> u16) list \<times> ch" where
  "transmits 0 ch = ([], ch)"
| "transmits (Suc n) ch = (case sl_txc_transmission_request ch of (r, c) \<Rightarrow>
     (case transmits n c of (rs, c') \<Rightarrow> ((r, N_fsn (tx_sn c)) # rs, c')))"

lemma rtb_payload_length: "length (rtb_payload ch) = length (q_list (rtb ch))"
  by (simp add: rtb_payload_def)

lemma cycle_run:
  assumes "cycle_at i ch" "n = length (q_list (rtb ch)) - i"
  shows "map (map_option (payload ch) \<circ> fst) (fst (transmits n ch)) = map Some (drop i (rtb_payload ch))
     \<and> map snd (fst (transmits n ch)) =
         map (\<lambda>k. sn_adv (sn_mask (statem ch)) k (F_fsn (tx_sn ch))) [i ..< length (q_list (rtb ch))]
     \<and> \<not> retrans_cycle (statem (snd (transmits n ch)))
     \<and> rtb_payload (snd (transmits n ch)) = rtb_payload ch"
  using assms
proof (induction n arbitrary: i ch)
  case 0
  then show ?case by (simp add: cycle_at_def)
next
  case (Suc n)
  let ?l = "length (q_list (rtb ch))"
  have i: "i < ?l" using Suc.prems(1) by (simp add: cycle_at_def)
  obtain m' c where r: "sl_txc_transmission_request ch = (Some m', c)"
    and p: "payload ch m' = payload ch (q_list (rtb ch) ! i)"
    and f: "N_fsn (tx_sn c) = sn_adv (sn_mask (statem ch)) i (F_fsn (tx_sn ch))"
      "rtb_payload c = rtb_payload ch" "F_fsn (tx_sn c) = F_fsn (tx_sn ch)"
      "sn_mask (statem c) = sn_mask (statem ch)" "hlen c = hlen ch" "retrans_cycle (statem c) \<longleftrightarrow> Suc i < ?l"
    and nx: "Suc i < ?l \<Longrightarrow> cycle_at (Suc i) c"
    by (rule cycle_step[OF Suc.prems(1)]) blast
  have l: "length (q_list (rtb c)) = ?l" using f(2) rtb_payload_length by metis
  have h: "payload c = payload ch" using f(5) by (simp add: fun_eq_iff payload_def)
  have d: "drop i (rtb_payload ch) = payload ch (q_list (rtb ch) ! i) # drop (Suc i) (rtb_payload ch)"
    using Cons_nth_drop_Suc[of i "rtb_payload ch"] i by (simp add: rtb_payload_def)
  have u: "[i ..< ?l] = i # [Suc i ..< ?l]" using i by (simp add: upt_conv_Cons)
  show ?case
  proof (cases "Suc i < ?l")
    case True
    have "n = length (q_list (rtb c)) - Suc i" using Suc.prems(2) l by simp
    from Suc.IH[OF nx[OF True] this] show ?thesis
      using r p f l h d u by (simp add: case_prod_unfold)
  next
    case False
    then have "n = 0" "drop (Suc i) (rtb_payload ch) = []" "[Suc i ..< ?l] = []"
      using Suc.prems(2) i by (simp_all add: rtb_payload_length)
    then show ?thesis using r p f l d u False by simp
  qed
qed

text \<open>C9. Negative acknowledgement, basic method: when a unit arrives whose inverted backward indicator bit asks
  for retransmission and whose backward number acknowledges nothing new, the following transmission requests
  send again exactly the messages of the retransmission buffer, all of them, in order, each with its own payload
  and under its own forward sequence number from \<open>tx.F.fsn\<close> on, and the cycle ends with the last one.\<close>

theorem nack_retransmits_all:
  assumes "\<not> pcr ch" "txc_state (statem ch) = ST_IN_SERVICE" "\<not> lssu_available (statem ch)"
      "\<not> msu_inhibited (statem ch)" "allocs ch = []"
    and "distinct (map mid (q_list (rtb ch)))" "\<forall>m \<in> set (q_list (rtb ch)). hlen ch \<le> msgdsize m"
    and "win_ok (win ch)" "q_list (rtb ch) \<noteq> []"
    and "(rR_bsn (rx_sn ch) + 1) AND sn_mask (statem ch) = F_fsn (tx_sn ch)"
      "N_fib (tx_sn ch) \<noteq> rR_bib (rx_sn ch)"
  shows "let out = fst (transmits (length (q_list (rtb ch))) (sl_txc_bsnr_and_bibr ch));
             ch' = snd (transmits (length (q_list (rtb ch))) (sl_txc_bsnr_and_bibr ch)) in
    map (map_option (payload ch) \<circ> fst) out = map Some (rtb_payload ch) \<and>
    map snd out = map (\<lambda>k. sn_adv (sn_mask (statem ch)) k (F_fsn (tx_sn ch))) [0 ..< length (q_list (rtb ch))] \<and>
    \<not> retrans_cycle (statem ch') \<and> rtb_payload ch' = rtb_payload ch"
proof -
  let ?c = "sl_txc_bsnr_and_bibr ch"
  obtain m ms where q: "q_list (rtb ch) = m # ms" using assms(9) by (cases "q_list (rtb ch)") auto
  have w: "sn_mask_ok (sn_mask (statem ch))" "sn_valid (sn_mask (statem ch)) (F_fsn (tx_sn ch))"
    "\<not> clear_rtb (statem ch)"
    using assms(8) by (simp_all add: win_ok_def win_def)
  note p = sn_pred_succ[OF w(1,2)]
  have e: "rtb ?c = rtb ch" "hlen ?c = hlen ch" "F_fsn (tx_sn ?c) = F_fsn (tx_sn ch)"
    "sn_mask (statem ?c) = sn_mask (statem ch)" "win ?c = win ch" "allocs ?c = allocs ch"
    "txc_state (statem ?c) = txc_state (statem ch)" "lssu_available (statem ?c) = lssu_available (statem ch)"
    "msu_inhibited (statem ?c) = msu_inhibited (statem ch)" "pcr ?c = pcr ch" "retrans_cycle (statem ?c)"
    "z_ptr (statem ?c) = Some (mid (q_list (rtb ch) ! 0))"
    "N_fsn (tx_sn ?c) = (F_fsn (tx_sn ch) - 1) AND sn_mask (statem ch)"
    using assms(1,10,11) w(3) q
    by (simp_all add: sl_txc_bsnr_and_bibr_def bsnr_nack_def sib_ends_def ifthen_def ifelse_def bufq_first_def
        bufq_head_def xp_timer_stop_def xp_stop_timer_def hlen_def win_def pcr_def xsn_def)
  have "cycle_at 0 ?c" using assms p by (simp add: cycle_at_def e)
  moreover have pl: "payload ?c = payload ch" using e(2) by (simp add: fun_eq_iff payload_def)
  moreover have "rtb_payload ?c = rtb_payload ch" by (simp add: rtb_payload_def pl e)
  ultimately show ?thesis using cycle_run[of 0 ?c "length (q_list (rtb ch))"] by (simp add: e Let_def)
qed

theorem nack_retransmits_all_witness:
  "map snd (fst (transmits 2 (sl_txc_bsnr_and_bibr (set_rR_bsn 0x7f (up_ch 0 [msu 1, msu 2]))))) = [0, 1]"
proof -
  define ch where "ch = set_rR_bsn 0x7f (up_ch 0 [msu 1, msu 2])"
  have h: "\<not> pcr ch" "txc_state (statem ch) = ST_IN_SERVICE" "\<not> lssu_available (statem ch)"
      "\<not> msu_inhibited (statem ch)" "allocs ch = []"
      "distinct (map mid (q_list (rtb ch)))" "\<forall>m \<in> set (q_list (rtb ch)). hlen ch \<le> msgdsize m"
      "win_ok (win ch)" "q_list (rtb ch) \<noteq> []"
      "(rR_bsn (rx_sn ch) + 1) AND sn_mask (statem ch) = F_fsn (tx_sn ch)"
      "N_fib (tx_sn ch) \<noteq> rR_bib (rx_sn ch)"
    and c: "length (q_list (rtb ch)) = 2" "sn_mask (statem ch) = 0x7f" "F_fsn (tx_sn ch) = 0"
    by (simp_all add: ch_def demo_defs hlen_def win_ok_def win_def sn_mask_ok_def sn_valid_def sn_dist_def)
  have "map snd (fst (transmits 2 (sl_txc_bsnr_and_bibr ch))) = [0, 1]"
    using nack_retransmits_all[OF h] unfolding c Let_def by (simp add: upt_rec)
  then show ?thesis by (simp only: ch_def)
qed

end
