(* ===== verification/SL_Service.thy ===== *)
theory SL_Service
  imports SL_Retrans SL_Delivery
begin

text \<open>
  How a link gets into service and out of it: initial alignment against the state transition table of
  Q.703, the end of a proving period, the way down on a failure and what is sent from then on, and the
  indications around processor outage.
\<close>

section \<open>Initial alignment\<close>

text \<open>The reference: what a status unit does to the alignment state.\<close>

fun iac_next :: "u8 \<Rightarrow> iac \<Rightarrow> iac" where
  "iac_next sf IAC_IDLE = IAC_IDLE"
| "iac_next sf IAC_NOT_ALIGNED = (if sf \<in> {LSSU_SIO, LSSU_SIN, LSSU_SIE} then IAC_ALIGNED else IAC_NOT_ALIGNED)"
| "iac_next sf IAC_ALIGNED =
     (if sf \<in> {LSSU_SIN, LSSU_SIE} then IAC_PROVING else if sf = LSSU_SIOS then IAC_IDLE else IAC_ALIGNED)"
| "iac_next sf IAC_PROVING =
     (if sf = LSSU_SIO then IAC_ALIGNED else if sf = LSSU_SIOS then IAC_IDLE else IAC_PROVING)"

text \<open>The timer that supervises each alignment state.\<close>

fun iac_timer :: "iac \<Rightarrow> timer option" where
  "iac_timer IAC_IDLE = None"
| "iac_timer IAC_NOT_ALIGNED = Some T2"
| "iac_timer IAC_ALIGNED = Some T3"
| "iac_timer IAC_PROVING = Some T4"

lemma iac_lssu:
  assumes "lsc_state (statem ch) = LSC_INITIAL_ALIGNMENT"
  shows "iac_state (statem (rc_lssu ch)) = iac_next (rx_sio (rx_sn ch)) (iac_state (statem ch))"
    and "lsc_state (statem (rc_lssu ch)) = LSC_OUT_OF_SERVICE \<longleftrightarrow>
      rx_sio (rx_sn ch) = LSSU_SIOS \<and> iac_state (statem ch) \<in> {IAC_ALIGNED, IAC_PROVING}"
  using assms
  by (cases "iac_state (statem ch)";
      simp add: rc_lssu_def sl_iac_sio_def sl_iac_sin_def sl_iac_sie_def sl_iac_sios_def sl_lsc_sio_def
        sl_lsc_sin_def sl_lsc_sie_def sl_lsc_sios_def sl_lsc_sipo_def sl_lsc_sib_def lsc_aligning_su_def
        sl_lsc_alignment_not_possible_def sl_txc_send_sie_def sl_txc_send_sin_def sl_aerm_start_def
        sl_aerm_stop_def sl_aerm_set_ti_to_tie_def sl_rc_stop_def sl_cc_normal_def sl_txc_send_sios_def
        ifthen_def ifelse_def Let_def sl_view)+

text \<open>The status field as reception control reads it: the last octet of the field, three bits.\<close>

definition su_sf :: "ch \<Rightarrow> msg \<Rightarrow> u8" where
  "su_sf ch mp = ucast (rd8 (octets mp) (if su_li ch mp = 1 then 3 else 4) AND 0x07)"

lemma parse_lssu:
  assumes "su_li ch mp \<in> {1, 2}"
  shows "rx_len (rx_sn (snd (rc_parse (octets mp) ch))) = su_li ch mp"
    "rx_sio (rx_sn (snd (rc_parse (octets mp) ch))) = su_sf ch mp"
    "statem (snd (rc_parse (octets mp) ch)) = statem ch"
  using assms by (auto simp: rc_parse_def su_li_def su_sf_def Let_def)

text \<open>C15. Reception of a link status signal unit during initial alignment moves alignment control exactly as
  the table says, keeps its supervision timer, and no other of T2, T3 and T4, running, and takes the link out
  of service exactly on SIOS after alignment.\<close>

theorem alignment_follows_table:
  assumes "sl_reach (xp_init_ch pv po c sc x) ch" "lsc_state (statem ch) = LSC_INITIAL_ALIGNMENT"
    "su_li ch mp \<in> {1, 2}"
  defines "ch' \<equiv> sl_rc_signal_unit mp ch" and "st \<equiv> iac_next (su_sf ch mp) (iac_state (statem ch))"
  shows "iac_state (statem ch') = st \<and> (armed ch' T2 \<longleftrightarrow> iac_timer st = Some T2) \<and>
    (armed ch' T3 \<longleftrightarrow> iac_timer st = Some T3) \<and> (armed ch' T4 \<longleftrightarrow> iac_timer st = Some T4) \<and>
    (lsc_state (statem ch') = LSC_OUT_OF_SERVICE \<longleftrightarrow> st = IAC_IDLE)"
proof -
  have k: "ctl_ok (ctl ch)"
    using ctl_inv.reach[OF assms(1)] ok_init by blast
  have r: "rc_state (statem ch) = ST_IN_SERVICE" "iac_state (statem ch) \<noteq> IAC_IDLE"
    using k assms(2) by (auto simp: ctl_ok_def ctl_def)
  obtain bs c1 where p: "rc_parse (octets mp) ch = (bs, c1)" by fastforce
  have f: "rx_len (rx_sn c1) = su_li ch mp" "rx_sio (rx_sn c1) = su_sf ch mp" "statem c1 = statem ch"
    using parse_lssu[OF assms(3)] p by simp_all
  have e: "statem ch' = statem (rc_lssu c1)"
    using r assms(3) by (auto simp: ch'_def sl_rc_signal_unit_def p Let_def f sl_view)
  note l = iac_lssu[of c1, unfolded f, OF assms(2)]
  have s: "iac_state (statem ch') = st" using l(1) e by (simp add: st_def)
  have "ctl_ok (ctl ch')" using k ok_rc_signal_unit by (simp add: ch'_def)
  then have "armed ch' T2 \<longleftrightarrow> st = IAC_NOT_ALIGNED" "armed ch' T3 \<longleftrightarrow> st = IAC_ALIGNED"
    "armed ch' T4 \<longleftrightarrow> st = IAC_PROVING"
    using s by (simp_all add: ctl_ok_def ctl_def)
  moreover have "lsc_state (statem ch') = LSC_OUT_OF_SERVICE \<longleftrightarrow> st = IAC_IDLE"
    using l(2) e r(2) by (cases "iac_state (statem ch)") (auto simp: st_def)
  ultimately show ?thesis using s by (cases st) auto
qed

theorem alignment_follows_table_witness:
  "iac_state (statem (sl_rc_signal_unit \<lparr>mid = 3, octets = [0xff, 0xff, 1, 0]\<rparr>
     (sl_run [Req SL_POWER_ON_REQ 1, Req SL_START_REQ 2] (demo_ch 0x102 0)))) = IAC_ALIGNED"
proof -
  define ch where "ch = sl_run [Req SL_POWER_ON_REQ 1, Req SL_START_REQ 2] (demo_ch 0x102 0)"
  define mp where "mp = \<lparr>mid = 3, octets = [0xff, 0xff, 1, 0 :: u8]\<rparr>"
  have "sl_reach (demo_ch 0x102 0) ch" unfolding reach_iff_run ch_def by blast
  note r = this[unfolded demo_ch_def]
  have i: "lsc_state (statem ch) = LSC_INITIAL_ALIGNMENT" "iac_state (statem ch) = IAC_NOT_ALIGNED" "\<not> xsn ch"
    unfolding ch_def by (simp_all add: demo_defs exec_def sl_defs)
  have l: "su_li ch mp = 1" using i(3) by (simp add: su_li_def rd8_def mp_def)
  then have m: "su_li ch mp \<in> {1, 2}" and f: "su_sf ch mp = 0" by (simp_all add: su_sf_def rd8_def mp_def)
  show ?thesis using alignment_follows_table[OF r i(1) m] i(2) f by (simp add: ch_def mp_def)
qed

text \<open>C27. When the proving period ends without a further one being due, alignment is complete: the link is
  ready, or not ready if a local processor outage was announced (and then says so with SIPO), alignment control
  is idle, T1 supervises the other side, and the error rate monitor for the service phase runs.\<close>

theorem proving_completes:
  assumes "iac_state (statem ch) = IAC_PROVING" "lsc_state (statem ch) = LSC_INITIAL_ALIGNMENT"
    "\<not> further_proving (statem ch)" "tid ch T4"
  defines "ch' \<equiv> xp_expiry T4 ch"
  shows "lsc_state (statem ch') =
      (if local_processor_outage (statem ch) then LSC_ALIGNED_NOT_READY else LSC_ALIGNED_READY) \<and>
    iac_state (statem ch') = IAC_IDLE \<and> armed ch' T1 \<and> \<not> armed ch' T4 \<and>
    (lssu_available (statem ch') \<longleftrightarrow> local_processor_outage (statem ch)) \<and>
    (local_processor_outage (statem ch) \<longrightarrow> tx_sio (tx_sn ch') = LSSU_SIPO) \<and>
    (if hsl ch then eim_state (sdt_sm ch') = ST_IN_SERVICE else suerm_state (sdt_sm ch') = ST_IN_SERVICE)"
  using assms(1-4) unfolding ch'_def
  by (simp add: xp_expiry_def xp_t4_timeout_def sl_lsc_alignment_complete_def sl_suerm_start_def
      sl_eim_start_def sl_aerm_stop_def sl_txc_send_sipo_def sl_txc_send_msu_def sl_rc_accept_msu_fisu_def
      sl_rc_reject_msu_fisu_def sl_poc_local_processor_outage_def ifthen_def ifelse_def armed_def hsl_def
      armed_timers pending_stop sl_view split: poc.split)

theorem proving_completes_witness:
  "lsc_state (statem (xp_expiry T4 (tid_update (\<lambda>f. f(T4 := True)) (set_iac_state IAC_PROVING
     (set_lsc_state LSC_INITIAL_ALIGNMENT (up_ch 0 [])))))) = LSC_ALIGNED_READY"
  using proving_completes[of "tid_update (\<lambda>f. f(T4 := True)) (set_iac_state IAC_PROVING
     (set_lsc_state LSC_INITIAL_ALIGNMENT (up_ch 0 [])))"]
  by (simp add: demo_defs)

section \<open>Failure\<close>

lemma not_in_service: "a \<noteq> ST_IN_SERVICE \<longleftrightarrow> a = ST_IDLE"
  by (cases a) simp_all

lemma link_failure_sends:
  "lsc_state (statem ch) \<noteq> LSC_OUT_OF_SERVICE \<Longrightarrow> lssu_available (statem (sl_lsc_link_failure r ch)) \<and>
    tx_sio (tx_sn (sl_lsc_link_failure r ch)) = LSSU_SIOS \<and> \<not> armed (sl_lsc_link_failure r ch) T7 \<and>
    failure_reason (statem (sl_lsc_link_failure r ch)) = r \<and>
    poc_state (statem (sl_lsc_link_failure r ch)) = POC_IDLE \<and> \<not> emergency (statem (sl_lsc_link_failure r ch)) \<and>
    \<not> local_processor_outage (statem (sl_lsc_link_failure r ch)) \<and>
    \<not> remote_processor_outage (statem (sl_lsc_link_failure r ch)) \<and>
    txc_state (statem (sl_lsc_link_failure r ch)) = txc_state (statem ch) \<and>
    (armed (sl_lsc_link_failure r ch) T6 \<longleftrightarrow> armed ch T6 \<and> \<not> ansi_92 ch)"
  by (simp add: sl_lsc_link_failure_def sl_txc_send_sios_def sl_poc_stop_def sl_rc_stop_def sl_cc_normal_def
      sl_suerm_stop_def sl_eim_stop_def sl_iac_stop_def sl_aerm_stop_def ifthen_def armed_def armed_timers pending_stop ansi_92_def sl_view)

text \<open>Timers and the small stops do not touch the stream and the memory.\<close>

lemma stop_xp:
  "ch_xp (xp_timer_stop t ch) = ch_xp ch" "allocs (xp_timer_stop t ch) = allocs ch"
  by (simp_all add: xp_timer_stop_def xp_stop_timer_def)

lemma link_failure_indicates:
  assumes "lsc_state (statem ch) \<noteq> LSC_OUT_OF_SERVICE" "r \<noteq> 0" "ch_xp ch = Some x" "allocs ch = []"
  shows "ch_xp (sl_lsc_link_failure r ch) = Some (x\<lparr>rq := rq x @ [RProto (SL_OUT_OF_SERVICE_IND r) None]\<rparr>)"
    "allocs (sl_lsc_link_failure r ch) = []"
proof -
  have o: "ch_xp (sl_out_of_service_ind (set_failure_reason r ch)) =
      Some (x\<lparr>rq := rq x @ [RProto (SL_OUT_OF_SERVICE_IND r) None]\<rparr>)"
    "allocs (sl_out_of_service_ind (set_failure_reason r ch)) = []"
    using assms by (simp_all add: sl_out_of_service_ind_def ind_alloc_def allocb_def rq_putq_def)
  have s: "ch_xp (sl_iac_stop c) = ch_xp c" "ch_xp (sl_suerm_stop c) = ch_xp c" "ch_xp (sl_rc_stop c) = ch_xp c"
    "ch_xp (sl_txc_send_sios c) = ch_xp c" "ch_xp (sl_poc_stop c) = ch_xp c"
    "allocs (sl_iac_stop c) = allocs c" "allocs (sl_suerm_stop c) = allocs c" "allocs (sl_rc_stop c) = allocs c"
    "allocs (sl_txc_send_sios c) = allocs c" "allocs (sl_poc_stop c) = allocs c" for c
    by (simp_all add: sl_txc_send_sios_def sl_poc_stop_def sl_rc_stop_def sl_cc_normal_def
        sl_suerm_stop_def sl_eim_stop_def sl_iac_stop_def sl_aerm_stop_def ifthen_def stop_xp)
  show "ch_xp (sl_lsc_link_failure r ch) = Some (x\<lparr>rq := rq x @ [RProto (SL_OUT_OF_SERVICE_IND r) None]\<rparr>)"
    "allocs (sl_lsc_link_failure r ch) = []"
    using assms(1) by (simp_all add: sl_lsc_link_failure_def s stop_xp o)
qed

text \<open>C16. A link failure in any reachable state but out of service takes the link out of service.  Alignment,
  reception, congestion control, processor outage control and the three error rate monitors are idle; the emergency and
  both processor outage marks are cleared; the reason is recorded and indicated to level 3; transmission goes
  on as it was, with SIOS to be sent.  Every timer is stopped but T6 of the variants other than ANSI 1992 and later: the
  code stops T6, the timer of remote congestion, for those alone, and elsewhere T6 runs afterwards exactly when it ran
  before.\<close>

theorem failure_takes_link_down:
  assumes "sl_reach (xp_init_ch pv po c sc y) ch" "lsc_state (statem ch) \<noteq> LSC_OUT_OF_SERVICE"
    "r \<noteq> 0" "ch_xp ch = Some x" "allocs ch = []"
  defines "ch' \<equiv> sl_lsc_link_failure r ch"
  shows "lsc_state (statem ch') = LSC_OUT_OF_SERVICE \<and> iac_state (statem ch') = IAC_IDLE \<and>
    rc_state (statem ch') = ST_IDLE \<and> cc_state (statem ch') = CC_NORMAL \<and>
    aerm_state (sdt_sm ch') = ST_IDLE \<and> suerm_state (sdt_sm ch') = ST_IDLE \<and> eim_state (sdt_sm ch') = ST_IDLE \<and>
    poc_state (statem ch') = POC_IDLE \<and> \<not> emergency (statem ch') \<and> \<not> local_processor_outage (statem ch') \<and>
    \<not> remote_processor_outage (statem ch') \<and> txc_state (statem ch') = txc_state (statem ch) \<and>
    (\<forall>t. armed ch' t \<longleftrightarrow> t = T6 \<and> armed ch T6 \<and> \<not> ansi_92 ch) \<and> failure_reason (statem ch') = r \<and>
    ch_xp ch' = Some (x\<lparr>rq := rq x @ [RProto (SL_OUT_OF_SERVICE_IND r) None]\<rparr>) \<and>
    lssu_available (statem ch') \<and> tx_sio (tx_sn ch') = LSSU_SIOS"
proof -
  have o: "ctl_ok (ctl ch')" using ctl_inv.reach[OF assms(1) ok_init] ok_link_failure by (simp add: ch'_def)
  have d: "lsc_state (statem ch') = LSC_OUT_OF_SERVICE" "cc_state (statem ch') = CC_NORMAL"
    using assms(2) by (simp_all add: ch'_def sl_ctl ctl_down_def)
  note s = link_failure_sends[OF assms(2), of r, folded ch'_def]
  note i = link_failure_indicates[OF assms(2-5), folded ch'_def]
  have off: "\<not> armed ch' t" if "t \<noteq> T6" for t
    using o d that s by (cases t) (simp_all add: ctl_ok_def ctl_def lsc_up_def)
  have t: "armed ch' t \<longleftrightarrow> t = T6 \<and> armed ch T6 \<and> \<not> ansi_92 ch" for t
    using off[of t] s by (cases "t = T6") simp_all
  have "iac_state (statem ch') = IAC_IDLE" "rc_state (statem ch') = ST_IDLE"
    "suerm_state (sdt_sm ch') = ST_IDLE" "eim_state (sdt_sm ch') = ST_IDLE" "aerm_state (sdt_sm ch') = ST_IDLE"
    using o d(1) by (auto simp: ctl_ok_def ctl_def lsc_up_def simp flip: not_in_service)
  then show ?thesis
    using d s i by (simp add: t)
qed

text \<open>A link that came into service and whose other side then announced a processor outage.\<close>

definition outage_run :: "sl_event list" where
  "outage_run = [Req SL_POWER_ON_REQ 1, Req SL_START_REQ 2,
     Frame \<lparr>mid = 3, octets = [0xff, 0xff, 1, LSSU_SIO]\<rparr>, Frame \<lparr>mid = 4, octets = [0xff, 0xff, 1, LSSU_SIN]\<rparr>,
     Expiry T4, Frame \<lparr>mid = 5, octets = [0xff, 0xff, 0]\<rparr>, Frame \<lparr>mid = 6, octets = [0xff, 0xff, 1, LSSU_SIPO]\<rparr>]"

definition outage_ch :: ch where
  "outage_ch = sl_run outage_run (demo_ch 0x102 0)"

definition machines :: "ch \<Rightarrow> lsc \<times> poc \<times> act \<times> act \<times> xp option \<times> u8 list option list" where
  "machines ch = (lsc_state (statem ch), poc_state (statem ch), rc_state (statem ch), suerm_state (sdt_sm ch), ch_xp ch, allocs ch)"

lemma outage_ch_machines:
  "machines outage_ch = (LSC_PROCESSOR_OUTAGE, POC_REMOTE, ST_IN_SERVICE, ST_IN_SERVICE,
     Some \<lparr>rq = [RProto SL_IN_SERVICE_IND None], rq_canput = True, rq_canputnext = True\<rparr>, [])"
  unfolding outage_ch_def outage_run_def
  by (simp add: demo_defs exec_def sl_defs Let_def split_def bufq_defs SN_OUTSIDE_def word_le_nat_alt machines_def)

lemma outage_ch_state:
  "lsc_state (statem outage_ch) = LSC_PROCESSOR_OUTAGE" "poc_state (statem outage_ch) = POC_REMOTE"
  "rc_state (statem outage_ch) = ST_IN_SERVICE" "suerm_state (sdt_sm outage_ch) = ST_IN_SERVICE"
  "ch_xp outage_ch = Some \<lparr>rq = [RProto SL_IN_SERVICE_IND None], rq_canput = True, rq_canputnext = True\<rparr>"
  "allocs outage_ch = []"
  using outage_ch_machines by (simp_all add: machines_def)

theorem failure_takes_link_down_witness:
  "lsc_state (statem outage_ch) = LSC_PROCESSOR_OUTAGE \<and> poc_state (statem outage_ch) = POC_REMOTE \<and>
    rc_state (statem outage_ch) = ST_IN_SERVICE \<and> suerm_state (sdt_sm outage_ch) = ST_IN_SERVICE \<and>
    lsc_state (statem (sl_lsc_link_failure 0x20 outage_ch)) = LSC_OUT_OF_SERVICE \<and>
    poc_state (statem (sl_lsc_link_failure 0x20 outage_ch)) = POC_IDLE \<and>
    rc_state (statem (sl_lsc_link_failure 0x20 outage_ch)) = ST_IDLE \<and>
    suerm_state (sdt_sm (sl_lsc_link_failure 0x20 outage_ch)) = ST_IDLE \<and>
    map_option rq (ch_xp (sl_lsc_link_failure 0x20 outage_ch)) =
      Some [RProto SL_IN_SERVICE_IND None, RProto (SL_OUT_OF_SERVICE_IND 0x20) None]"
proof -
  have "sl_reach (demo_ch 0x102 0) outage_ch"
    unfolding reach_iff_run outage_ch_def by blast
  note r = this[unfolded demo_ch_def]
  note h = outage_ch_state(1-4)
  show ?thesis
    using outage_ch_state(5) failure_takes_link_down[OF r _ _ outage_ch_state(5,6), of "0x20"] h by simp
qed

text \<open>Sending status units forever: a request in the state the failure leaves sends SIOS and keeps the state.\<close>

definition sending_sios :: "ch \<Rightarrow> bool" where
  "sending_sios ch \<longleftrightarrow> txc_state (statem ch) = ST_IN_SERVICE \<and> lssu_available (statem ch) \<and>
     tx_sio (tx_sn ch) = LSSU_SIOS \<and> allocs ch = []"

lemma sends_sios:
  assumes "sending_sios ch"
  obtains m ch' where "sl_txc_transmission_request ch = (Some m, ch')" "sending_sios ch'"
    "length (octets m) = hlen ch + 1" "last (octets m) = LSSU_SIOS" "hlen ch' = hlen ch"
  using assms that
  by (simp add: sending_sios_def sl_txc_transmission_request_def txc_lssu_def allocb_def Let_def txc_fill_def
      sl_daedt_lssu_def su_header_def htons_def hlen_def xsn_def)

text \<open>After a link failure every transmission request, however many follow, is answered by a link status
  signal unit with SIOS: nothing else is sent until level 3 restarts the link.\<close>

theorem failure_sends_sios:
  assumes "sl_reach (xp_init_ch pv po c sc y) ch" "lsc_state (statem ch) \<notin> {LSC_POWER_OFF, LSC_OUT_OF_SERVICE}"
    "r \<noteq> 0" "ch_xp ch = Some x" "allocs ch = []"
  shows "\<forall>u \<in> set (fst (transmits n (sl_lsc_link_failure r ch))).
    \<exists>m. fst u = Some m \<and> length (octets m) = hlen ch + 1 \<and> last (octets m) = LSSU_SIOS"
proof -
  have run: "sending_sios c1 \<Longrightarrow> hlen c1 = h \<Longrightarrow> \<forall>u \<in> set (fst (transmits n c1)).
      \<exists>m. fst u = Some m \<and> length (octets m) = h + 1 \<and> last (octets m) = LSSU_SIOS" for n c1 h
  proof (induction n arbitrary: c1)
    case (Suc n)
    obtain m c2 where "sl_txc_transmission_request c1 = (Some m, c2)" "sending_sios c2"
      "length (octets m) = hlen c1 + 1" "last (octets m) = LSSU_SIOS" "hlen c2 = hlen c1"
      by (rule sends_sios[OF Suc.prems(1)])
    then show ?case using Suc.IH[of c2] Suc.prems(2) by (simp add: case_prod_unfold)
  qed simp
  let ?f = "sl_lsc_link_failure r ch"
  have n: "lsc_state (statem ch) \<noteq> LSC_OUT_OF_SERVICE" using assms(2) by simp
  have "txc_state (statem ch) = ST_IN_SERVICE"
    using ctl_inv.reach[OF assms(1) ok_init] assms(2) by (simp add: ctl_ok_def ctl_def)
  moreover have "txc_state (statem ?f) = txc_state (statem ch)"
    by (simp add: sl_ctl ctl_down_def ctl_unalign_def)
  ultimately have "sending_sios ?f"
    using link_failure_sends[OF n] link_failure_indicates(2)[OF n assms(3-5)] by (simp add: sending_sios_def)
  moreover have "hlen ?f = hlen ch"
    by (simp add: hlen_def xsn_def sl_lsc_link_failure_def sl_txc_send_sios_def sl_poc_stop_def sl_rc_stop_def
        sl_cc_normal_def sl_suerm_stop_def sl_eim_stop_def sl_iac_stop_def sl_aerm_stop_def ifthen_def sl_view)
  ultimately show ?thesis using run by blast
qed

theorem failure_sends_sios_witness:
  "list_all (\<lambda>u. \<exists>m. fst u = Some m \<and> last (octets m) = LSSU_SIOS)
     (fst (transmits 9 (sl_lsc_link_failure 0x20
       (sl_run [Req SL_POWER_ON_REQ 1, Req SL_START_REQ 2] (demo_ch 0x102 0)))))"
proof -
  define ch where "ch = sl_run [Req SL_POWER_ON_REQ 1, Req SL_START_REQ 2] (demo_ch 0x102 0)"
  have "sl_reach (demo_ch 0x102 0) ch" unfolding reach_iff_run ch_def by blast
  note r = this[unfolded demo_ch_def]
  have h: "lsc_state (statem ch) \<notin> {LSC_POWER_OFF, LSC_OUT_OF_SERVICE}"
    "ch_xp ch = Some \<lparr>rq = [], rq_canput = True, rq_canputnext = True\<rparr>" "allocs ch = []"
    unfolding ch_def by (simp_all add: demo_defs exec_def sl_defs)
  show ?thesis using failure_sends_sios[OF r h(1) _ h(2,3), of "0x20" 9]
    unfolding ch_def[symmetric] list_all_iff by auto
qed

section \<open>Processor outage\<close>

text \<open>C39. When the other side of a link in service announces a processor outage (SIPO), the link enters the
  processor outage state and records the outage, but level 3 is not told, in any variant: the indication is
  requested before the state that guards it is set.  Repetitions of SIPO do not indicate it either.\<close>

theorem remote_outage_not_indicated:
  assumes "lsc_state (statem ch) = LSC_IN_SERVICE" "\<not> remote_processor_outage (statem ch)"
    "poc_state (statem ch) = POC_IDLE"
  shows "lsc_state (statem (sl_lsc_sipo ch)) = LSC_PROCESSOR_OUTAGE \<and>
    (if ansi_92 ch then remote_processor_outage (statem (sl_lsc_sipo ch))
     else poc_state (statem (sl_lsc_sipo ch)) = POC_REMOTE) \<and>
    ch_xp (sl_lsc_sipo ch) = ch_xp ch \<and> ch_xp (sl_lsc_sipo (sl_lsc_sipo ch)) = ch_xp ch"
proof -
  have f: "ch_xp (sl_txc_send_fisu c) = ch_xp c" "statem (sl_txc_send_fisu c) =
      (statem c)\<lparr>msu_inhibited := True, lssu_available := False\<rparr>" "pvar (sl_txc_send_fisu c) = pvar c" for c
    by (simp_all add: sl_txc_send_fisu_def ifthen_def stop_xp sl_view)
  have x: "ch_xp (sl_rc_align_fsnx c) = ch_xp c" "ch_xp (sl_cc_normal c) = ch_xp c"
    "pvar (sl_rc_align_fsnx c) = pvar c" "pvar (sl_cc_normal c) = pvar c"
    "remote_processor_outage (statem (sl_rc_align_fsnx c)) = remote_processor_outage (statem c)"
    "remote_processor_outage (statem (sl_cc_normal c)) = remote_processor_outage (statem c)" for c
    by (simp_all add: sl_rc_align_fsnx_def sl_txc_fsnx_value_def sl_cc_normal_def ifthen_def stop_xp sl_view)
  have i: "exec (sl_remote_processor_outage_ind None) c = c"
    if "\<not> remote_processor_outage (statem c)" "poc_state (statem c) = POC_IDLE" for c
    using that by (simp add: exec_def sl_remote_processor_outage_ind_def freemsg_def)
  have a: "ansi_92 (statem_update u c) = ansi_92 c" for u c by (simp add: ansi_92_def)
  show ?thesis
  proof (cases "ansi_92 ch")
    case True
    then have "ansi_92 (sl_cc_normal (sl_rc_align_fsnx (statem_update u (sl_txc_send_fisu ch))))" for u
      by (simp add: ansi_92_def x f)
    then show ?thesis using assms True by (simp add: sl_lsc_sipo_def f i x a)
  next
    case False
    then have "\<not> ansi_92 (sl_txc_send_fisu ch)" by (simp add: ansi_92_def f)
    then show ?thesis using assms False by (simp add: sl_lsc_sipo_def f i a sl_poc_remote_processor_outage_def)
  qed
qed

theorem remote_outage_not_indicated_witness:
  "lsc_state (statem (sl_lsc_sipo (up_ch 0 []))) = LSC_PROCESSOR_OUTAGE \<and>
   map_option rq (ch_xp (sl_lsc_sipo (up_ch 0 []))) = Some []"
proof -
  have h: "lsc_state (statem (up_ch 0 [])) = LSC_IN_SERVICE" "\<not> remote_processor_outage (statem (up_ch 0 []))"
    "poc_state (statem (up_ch 0 [])) = POC_IDLE" and x: "map_option rq (ch_xp (up_ch 0 [])) = Some []"
    by (simp_all add: demo_defs)
  show ?thesis using remote_outage_not_indicated[OF h] x by simp
qed

end
