(* ===== verification/SL_Retrieval.thy ===== *)
theory SL_Retrieval
  imports SL_Window SL_Demo
begin

text \<open>
  Changeover: on \<open>SL_RETRIEVAL_REQUEST_AND_FSNC_REQ\<close> level 3 gets back what the other side has not
  acknowledged, the rest of the retransmission buffer and then the transmission buffer, in order.
\<close>

section \<open>The three loops\<close>

text \<open>What the loops keep: the stream, the supply of memory, and the counters of the buffers.\<close>

lemma rtb_drop_fields [simp]:
  "ch_xp (rtb_drop ch) = ch_xp ch" "allocs (rtb_drop ch) = allocs ch" "tb (rtb_drop ch) = tb ch"
  "q_list (rtb (rtb_drop ch)) = tl (q_list (rtb ch))" "C_fsn (tx_sn (rtb_drop ch)) = C_fsn (tx_sn ch)"
  by (cases "q_list (rtb ch)";
      simp add: rtb_drop_def bufq_dequeue_def freemsg_def emit_def Let_def)+

lemma rtb_drop_ok: "bufq_ok (rtb ch) \<Longrightarrow> bufq_ok (rtb (rtb_drop ch))"
  by (cases "bufq_dequeue (rtb ch)")
    (auto simp: rtb_drop_def freemsg_def emit_def dest: bufq_dequeue_ok split: option.split)

lemma rtb_nonempty: "bufq_ok q \<Longrightarrow> \<forall>m \<in> set (q_list q). octets m \<noteq> [] \<Longrightarrow> q_list q \<noteq> [] \<Longrightarrow> q_count q \<noteq> 0"
  using bufq_count_zero by blast

lemma retr_skip_drop:
  assumes "bufq_ok (rtb ch)" "\<forall>m \<in> set (q_list (rtb ch)). octets m \<noteq> []"
    "sn_mask_ok (sn_mask (statem ch))" "sn_valid (sn_mask (statem ch)) (F_fsn (tx_sn ch))"
    "sn_valid (sn_mask (statem ch)) stop"
    "sn_dist (sn_mask (statem ch)) (F_fsn (tx_sn ch)) stop \<le> length (q_list (rtb ch))" "length (q_list (rtb ch)) \<le> n"
  shows "q_list (rtb (retr_skip n stop ch)) =
      drop (sn_dist (sn_mask (statem ch)) (F_fsn (tx_sn ch)) stop) (q_list (rtb ch)) \<and>
    bufq_ok (rtb (retr_skip n stop ch)) \<and> tb (retr_skip n stop ch) = tb ch \<and> ch_xp (retr_skip n stop ch) = ch_xp ch \<and>
    allocs (retr_skip n stop ch) = allocs ch"
  using assms
proof (induction n arbitrary: ch)
  case 0
  then show ?case by (simp add: retr_skip.simps)
next
  case (Suc n)
  let ?m = "sn_mask (statem ch)" and ?F = "F_fsn (tx_sn ch)"
  show ?case
  proof (cases "?F = stop")
    case True
    then show ?thesis using Suc.prems(1) by (simp add: retr_skip.simps sn_dist_def)
  next
    case False
    have d: "sn_dist ?m ?F stop = Suc (sn_dist ?m ((?F + 1) AND ?m) stop)"
      using Suc.prems False sn_dist_succ_left by blast
    have ne: "q_list (rtb ch) \<noteq> []" using Suc.prems(6) d by auto
    have e: "retr_skip (Suc n) stop ch = retr_skip n stop (rtb_drop ch)"
      using False rtb_nonempty[OF Suc.prems(1,2) ne] by (simp add: retr_skip.simps)
    have "sn_valid ?m ((?F + 1) AND ?m)" using Suc.prems(3) by (rule sn_valid_mask)
    moreover have "\<forall>m \<in> set (tl (q_list (rtb ch))). octets m \<noteq> []"
      using Suc.prems(2) list.set_sel(2)[OF ne] by blast
    ultimately show ?thesis unfolding e
      using Suc.IH[of "rtb_drop ch"] Suc.prems(1,3-) d rtb_drop_ok[of ch] by (simp add: drop_Suc)
  qed
qed

lemma retr_join_all:
  assumes "length (q_list (tb ch)) \<le> n"
  shows "q_list (rtb (retr_join n ch)) = q_list (rtb ch) @ q_list (tb ch) \<and> q_list (tb (retr_join n ch)) = [] \<and>
    ch_xp (retr_join n ch) = ch_xp ch \<and> allocs (retr_join n ch) = allocs ch"
  using assms
proof (induction n arbitrary: ch)
  case (Suc n)
  show ?case
  proof (cases "q_list (tb ch)")
    case Nil
    then show ?thesis by (simp add: retr_join.simps bufq_dequeue_def)
  next
    case (Cons mp ms)
    obtain q where q: "bufq_dequeue (tb ch) = (Some mp, q)" "q_list q = ms" by (auto simp: bufq_dequeue_def Cons)
    let ?c = "steps [set_Cm (Cm (statem ch) - 1), rtb_update (bufq_queue mp), set_Ct (Ct (statem ch) + 1),
        ifthen (\<lambda>ch. Cm (statem ch) = 0) (emit Qenable_wq)] (ch\<lparr>tb := q\<rparr>)"
    have c: "q_list (tb ?c) = ms" "q_list (rtb ?c) = q_list (rtb ch) @ [mp]" "ch_xp ?c = ch_xp ch"
      "allocs ?c = allocs ch"
      using q(2) by (simp_all add: ifthen_def emit_def)
    have "retr_join (Suc n) ch = retr_join n ?c" by (simp add: retr_join.simps q(1))
    then show ?thesis using Suc.IH[of ?c] Suc.prems Cons c by simp
  qed
qed (simp add: retr_join.simps)

lemma retr_deliver_all:
  assumes "length (q_list (rtb ch)) \<le> n" "allocs ch = []" "ch_xp ch = Some x"
  shows "\<exists>ch'. retr_deliver n ch = (OK, ch') \<and> q_list (rtb ch') = [] \<and> tb ch' = tb ch \<and>
    ch_xp ch' = Some (x\<lparr>rq := rq x @ map (\<lambda>m. RProto (SL_RETRIEVED_MESSAGE_IND m) None) (q_list (rtb ch))\<rparr>)"
  using assms
proof (induction n arbitrary: ch x)
  case 0
  then show ?case by (simp add: retr_deliver.simps)
next
  case (Suc n)
  show ?case
  proof (cases "q_list (rtb ch)")
    case Nil
    then show ?thesis using Suc.prems by (simp add: retr_deliver.simps bufq_dequeue_def)
  next
    case (Cons mp ms)
    obtain q where q: "bufq_dequeue (rtb ch) = (Some mp, q)" "q_list q = ms" by (auto simp: bufq_dequeue_def Cons)
    let ?c = "rq_putq (RProto (SL_RETRIEVED_MESSAGE_IND mp) None) (set_Ct (Ct (statem ch) - 1) (ch\<lparr>rtb := q\<rparr>))"
    have c: "q_list (rtb ?c) = ms" "tb ?c = tb ch" "allocs ?c = []"
      "ch_xp ?c = Some (x\<lparr>rq := rq x @ [RProto (SL_RETRIEVED_MESSAGE_IND mp) None]\<rparr>)"
      using q(2) Suc.prems by (simp_all add: rq_putq_def)
    have "retr_deliver (Suc n) ch = retr_deliver n ?c"
      using Suc.prems(2) by (simp add: retr_deliver.simps q(1) sl_retrieved_message_ind_def allocb_def)
    then show ?thesis using Suc.IH[OF _ c(3,4)] Suc.prems(1) Cons unfolding c(1,2) by simp
  qed
qed

section \<open>Retrieval\<close>

text \<open>C25. A retrieval request on a stopped link whose FSNC lies in the window gives level 3, in order, every
  message sent but not acknowledged according to FSNC and then every message not sent yet, each in an
  \<open>SL_RETRIEVED_MESSAGE_IND\<close>, and after them one \<open>SL_RETRIEVAL_COMPLETE_IND\<close> in the block of the request; both
  buffers are empty and the sequence numbers continue after FSNC.\<close>

theorem retrieval_complete:
  assumes "lsc_state (statem ch) \<in> {LSC_OUT_OF_SERVICE, LSC_PROCESSOR_OUTAGE}"
    "bufq_ok (rtb ch)" "\<forall>m \<in> set (q_list (rtb ch)). octets m \<noteq> []"
    "sn_mask_ok (sn_mask (statem ch))" "sn_valid (sn_mask (statem ch)) (F_fsn (tx_sn ch))"
    "k = sn_dist (sn_mask (statem ch)) (F_fsn (tx_sn ch)) (ucast (fsnc + 1) AND sn_mask (statem ch))"
    "k \<le> length (q_list (rtb ch))" "allocs ch = []" "ch_xp ch = Some x"
  shows "case sl_w_proto (SL_RETRIEVAL_REQUEST_AND_FSNC_REQ (Some fsnc)) rp ch of (err, ch') \<Rightarrow>
    err = OK \<and> q_list (rtb ch') = [] \<and> q_list (tb ch') = [] \<and>
    ch_xp ch' = Some (x\<lparr>rq := rq x @
      map (\<lambda>m. RProto (SL_RETRIEVED_MESSAGE_IND m) None) (drop k (q_list (rtb ch)) @ q_list (tb ch)) @
      [RProto SL_RETRIEVAL_COMPLETE_IND (Some rp)]\<rparr>) \<and>
    L_fsn (tx_sn ch') = C_fsn (tx_sn ch') \<and> N_fsn (tx_sn ch') = C_fsn (tx_sn ch')"
proof -
  let ?stop = "ucast (fsnc + 1) AND sn_mask (statem ch)"
  define c0 where "c0 = set_C_fsn (ucast fsnc AND sn_mask (statem ch)) ch"
  define c1 where "c1 = retr_skip (length (q_list (rtb c0))) ?stop c0"
  define c2 where "c2 = retr_join (length (q_list (tb c1))) c1"
  define c3 where "c3 = steps [(\<lambda>ch. set_F_fsn ((C_fsn (tx_sn ch) + 1) AND sn_mask (statem ch)) ch),
      (\<lambda>ch. set_Z_sn (ucast (F_fsn (tx_sn ch))) ch)] c2"
  have v: "sn_valid (sn_mask (statem ch)) ?stop" using assms(4) by (rule sn_valid_mask)
  have 1: "q_list (rtb c1) = drop k (q_list (rtb ch))" "tb c1 = tb ch" "ch_xp c1 = Some x" "allocs c1 = []"
    using retr_skip_drop[of c0 ?stop "length (q_list (rtb c0))"] assms v by (simp_all add: c1_def c0_def)
  have 2: "q_list (rtb c2) = drop k (q_list (rtb ch)) @ q_list (tb ch)" "q_list (tb c2) = []" "ch_xp c2 = Some x"
    "allocs c2 = []"
    using retr_join_all[of c1 "length (q_list (tb c1))"] 1 by (simp_all add: c2_def)
  have 3: "rtb c3 = rtb c2" "tb c3 = tb c2" "ch_xp c3 = Some x" "allocs c3 = []"
    using 2 by (simp_all add: c3_def)
  obtain c4 where 4: "retr_deliver (length (q_list (rtb c3))) c3 = (OK, c4)" "q_list (rtb c4) = []" "tb c4 = tb c3"
    "ch_xp c4 = Some (x\<lparr>rq := rq x @ map (\<lambda>m. RProto (SL_RETRIEVED_MESSAGE_IND m) None) (q_list (rtb c3))\<rparr>)"
    using retr_deliver_all[OF order_refl 3(4,3)] by blast
  have r: "sl_w_proto (SL_RETRIEVAL_REQUEST_AND_FSNC_REQ (Some fsnc)) rp ch =
      sl_txc_retrieval_request_and_fsnc rp fsnc ch"
    using assms(1) by (simp add: sl_retrieval_request_and_fsnc_req_def sl_lsc_retrieval_request_and_fsnc_def)
  have "c3 = steps [(\<lambda>ch. set_C_fsn (ucast fsnc AND sn_mask (statem ch)) ch),
      (\<lambda>ch. retr_skip (length (q_list (rtb ch))) (ucast (fsnc + 1) AND sn_mask (statem ch)) ch),
      (\<lambda>ch. retr_join (length (q_list (tb ch))) ch),
      (\<lambda>ch. set_F_fsn ((C_fsn (tx_sn ch) + 1) AND sn_mask (statem ch)) ch),
      (\<lambda>ch. set_Z_sn (ucast (F_fsn (tx_sn ch))) ch)] ch"
    by (simp add: c3_def c2_def c1_def c0_def)
  then show ?thesis unfolding r sl_txc_retrieval_request_and_fsnc_def Let_def
    using 2 3 4 by (simp add: sl_retrieval_complete_ind_def rq_putq_def)
qed

theorem retrieval_complete_witness:
  "case sl_w_proto (SL_RETRIEVAL_REQUEST_AND_FSNC_REQ (Some 0)) 9
     (tb_update (\<lambda>_. filled [msu 3]) (set_lsc_state LSC_OUT_OF_SERVICE (up_ch 0 [msu 1, msu 2]))) of (err, ch') \<Rightarrow>
   err = OK \<and> map_option rq (ch_xp ch') = Some [RProto (SL_RETRIEVED_MESSAGE_IND (msu 2)) None,
     RProto (SL_RETRIEVED_MESSAGE_IND (msu 3)) None, RProto SL_RETRIEVAL_COMPLETE_IND (Some 9)]"
proof -
  define ch where "ch = tb_update (\<lambda>_. filled [msu 3]) (set_lsc_state LSC_OUT_OF_SERVICE (up_ch 0 [msu 1, msu 2]))"
  have h: "lsc_state (statem ch) \<in> {LSC_OUT_OF_SERVICE, LSC_PROCESSOR_OUTAGE}"
    "bufq_ok (rtb ch)" "\<forall>m \<in> set (q_list (rtb ch)). octets m \<noteq> []"
    "sn_mask_ok (sn_mask (statem ch))" "sn_valid (sn_mask (statem ch)) (F_fsn (tx_sn ch))"
    "1 = sn_dist (sn_mask (statem ch)) (F_fsn (tx_sn ch)) (ucast ((0 :: u32) + 1) AND sn_mask (statem ch))"
    "1 \<le> length (q_list (rtb ch))" "allocs ch = []"
    and x: "ch_xp ch = Some \<lparr>rq = [], rq_canput = True, rq_canputnext = True\<rparr>"
    and q: "q_list (rtb ch) = [msu 1, msu 2]" "q_list (tb ch) = [msu 3]"
    by (simp_all add: ch_def up_ch_def filled_def)
      (simp_all add: demo_defs bufq_ok_def sn_mask_ok_def sn_valid_def sn_dist_def)
  show ?thesis using retrieval_complete[OF h x, of 9] q unfolding ch_def[symmetric]
    by (simp add: case_prod_unfold)
qed

end
