(* ===== verification/SL_Traffic.thy ===== *)
theory SL_Traffic
  imports SL_Step SL_Demo
begin

text \<open>
  Traffic between level 3 and the buffers: transmit congestion, the request that queues a message, and the
  service procedure of the read queue.
\<close>

section \<open>Congestion levels\<close>

text \<open>Thresholds in the order a configuration has them.\<close>

definition thresholds_ok :: "sl_config \<Rightarrow> bool" where
  "thresholds_ok c \<longleftrightarrow>
     tb_abate_1 c \<le> tb_onset_1 c \<and> tb_onset_1 c \<le> tb_discd_1 c \<and> tb_discd_1 c \<le> tb_abate_2 c \<and>
     tb_abate_2 c \<le> tb_onset_2 c \<and> tb_onset_2 c \<le> tb_discd_2 c \<and> tb_discd_2 c \<le> tb_abate_3 c \<and>
     tb_abate_3 c \<le> tb_onset_3 c \<and> tb_onset_3 c \<le> tb_discd_3 c"

definition levels_ok :: "u32 \<times> u32 \<Rightarrow> bool" where
  "levels_ok cd \<longleftrightarrow> fst cd \<le> 3 \<and> snd cd \<le> fst cd"

text \<open>The onset threshold that leads to a level and the abatement threshold below which it is left.\<close>

definition onset :: "sl_config \<Rightarrow> u32 \<Rightarrow> u32" where
  "onset c l = (if l = 1 then tb_onset_1 c else if l = 2 then tb_onset_2 c else tb_onset_3 c)"

definition abate :: "sl_config \<Rightarrow> u32 \<Rightarrow> u32" where
  "abate c l = (if l = 1 then tb_abate_1 c else if l = 2 then tb_abate_2 c else tb_abate_3 c)"

lemma level_cases:
  "(l :: u32) \<le> 3 \<longleftrightarrow> l = 0 \<or> l = 1 \<or> l = 2 \<or> l = 3"
  "(l :: u32) \<le> 2 \<longleftrightarrow> l = 0 \<or> l = 1 \<or> l = 2"
  "(l :: u32) \<le> 1 \<longleftrightarrow> l = 0 \<or> l = 1"
  unfolding word_le_nat_alt word_unat_eq_iff by simp_all linarith+

lemma levels_cases:
  "levels_ok (a, b) \<longleftrightarrow> a = 0 \<and> b = 0 \<or> a = 1 \<and> (b = 0 \<or> b = 1) \<or> a = 2 \<and> (b = 0 \<or> b = 1 \<or> b = 2) \<or>
     a = 3 \<and> (b = 0 \<or> b = 1 \<or> b = 2 \<or> b = 3)"
  unfolding levels_ok_def fst_conv snd_conv level_cases(1)
  by (cases "a = 0"; cases "a = 1"; cases "a = 2"; cases "a = 3"; simp add: level_cases)

lemma levels_kept: "levels_ok cd \<Longrightarrow> levels_ok (congestion_levels c multi occ cd)"
  by (cases cd) (auto simp: levels_cases congestion_levels_def)

text \<open>The highest level of the link whose threshold, of onset or of abatement, the occupancy has reached.\<close>

definition discard :: "sl_config \<Rightarrow> u32 \<Rightarrow> u32" where
  "discard c l = (if l = 1 then tb_discd_1 c else if l = 2 then tb_discd_2 c else tb_discd_3 c)"

definition reached :: "(u32 \<Rightarrow> u32) \<Rightarrow> bool \<Rightarrow> u32 \<Rightarrow> u32" where
  "reached threshold multi occ =
     (if multi \<and> threshold 3 \<le> occ then 3 else if multi \<and> threshold 2 \<le> occ then 2 else if threshold 1 \<le> occ then 1 else 0)"

text \<open>C31. Hysteresis, exactly.  With thresholds in order, the new congestion level is the old one, raised to the
  highest level of the link whose onset threshold the occupancy has reached, or lowered to the highest level whose
  abatement threshold it has not fallen below.  So the level rises exactly when there is a next level and its onset
  threshold is reached, falls exactly when the occupancy is below the abatement threshold of the level itself (or the link
  has a single level and was above it), and between the two thresholds it stays.  The discard level becomes the
  new congestion level when this falls, or when it rises and the discard threshold of the new level is reached; when
  the level rises short of that threshold, the discard level stays if the rise was by one and is one less than the new
  level otherwise; when the level stays, so does the discard level.  A second look at the same occupancy
  changes nothing.\<close>

theorem congestion_hysteresis:
  fixes occ cong disc :: u32 and multi :: bool
  assumes "thresholds_ok c" "levels_ok (cong, disc)"
  defines "new \<equiv> congestion_levels c multi occ (cong, disc)"
  shows "levels_ok new \<and>
    fst new = (if cong < reached (onset c) multi occ then reached (onset c) multi occ
      else if reached (abate c) multi occ < cong then reached (abate c) multi occ else cong) \<and>
    snd new = (if fst new < cong then fst new else if fst new = cong then disc
               else if discard c (fst new) \<le> occ then fst new else if fst new = cong + 1 then disc else fst new - 1) \<and>
    (fst new > cong \<longleftrightarrow> cong < (if multi then 3 else 1) \<and> onset c (cong + 1) \<le> occ) \<and>
    (fst new < cong \<longleftrightarrow> 0 < cong \<and> (occ < abate c cong \<or> \<not> multi \<and> 1 < cong)) \<and>
    (fst new > cong \<longrightarrow> occ \<ge> onset c (fst new)) \<and>
    (fst new < cong \<longrightarrow> occ < abate c (fst new + 1) \<or> \<not> multi) \<and>
    congestion_levels c multi occ new = new"
proof -
  note o = assms(1)[unfolded thresholds_ok_def]
  note l = assms(2)[unfolded levels_cases]
  note d = new_def congestion_levels_def reached_def onset_def abate_def discard_def
  have 1: "fst new = (if cong < reached (onset c) multi occ then reached (onset c) multi occ
      else if reached (abate c) multi occ < cong then reached (abate c) multi occ else cong)"
    using l o by (elim disjE conjE) (auto simp: d)
  have 2: "snd new = (if fst new < cong then fst new else if fst new = cong then disc
      else if discard c (fst new) \<le> occ then fst new else if fst new = cong + 1 then disc else fst new - 1)"
    using l o by (elim disjE conjE) (auto simp: d)
  have 3: "fst new > cong \<longleftrightarrow> cong < (if multi then 3 else 1) \<and> onset c (cong + 1) \<le> occ"
    using l o by (elim disjE conjE) (auto simp: d)
  have 4: "fst new < cong \<longleftrightarrow> 0 < cong \<and> (occ < abate c cong \<or> \<not> multi \<and> 1 < cong)"
    using l o by (elim disjE conjE) (auto simp: d)
  have 5: "fst new > cong \<longrightarrow> occ \<ge> onset c (fst new)" "fst new < cong \<longrightarrow> occ < abate c (fst new + 1) \<or> \<not> multi"
    using l o by (elim disjE conjE; auto simp: d)+
  have 6: "congestion_levels c multi occ new = new" "levels_ok new"
    using l o by (elim disjE conjE; auto simp: d levels_cases)+
  show ?thesis
    using 1 2 3 4 5 6 by blast
qed

theorem congestion_hysteresis_witness:
  "congestion_levels (sl_default_e1_chan 100) True 70000 (0, 0) = (1, 0) \<and>
   fst (congestion_levels (sl_default_e1_chan 100) True 60000 (1, 0)) = 1 \<and>
   fst (congestion_levels (sl_default_e1_chan 100) True 70000 (3, 2)) = 1 \<and>
   fst (congestion_levels (sl_default_e1_chan 100) True 30000 (1, 0)) < 1"
proof -
  have t: "thresholds_ok (sl_default_e1_chan 100)"
    by (simp add: thresholds_ok_def sl_default_e1_chan_def)
  have l: "levels_ok (0, 0)" "levels_ok (1, 0)" "levels_ok (3, 2)"
    by (simp_all add: levels_cases)
  show ?thesis
    using congestion_hysteresis[OF t l(1), of True 70000] congestion_hysteresis[OF t l(2), of True 60000]
      congestion_hysteresis[OF t l(3), of True 70000] congestion_hysteresis[OF t l(2), of True 30000]
    by (simp add: reached_def onset_def abate_def discard_def sl_default_e1_chan_def prod_eq_iff)
qed

text \<open>C38. On a link with a single congestion level whose occupancy reaches the onset threshold before the discard
  threshold, the discard level is never set, however high the occupancy climbs afterwards: the code looks at the
  discard threshold of a level only when it enters the level.\<close>

theorem single_level_never_discards:
  assumes "tb_onset_1 c \<le> occ" "occ < tb_discd_1 c" "\<forall>o' \<in> set os. tb_abate_1 c \<le> o'"
  shows "fold (congestion_levels c False) (occ # os) (0, 0) = (1, 0)"
proof -
  have "congestion_levels c False occ (0, 0) = (1, 0)" using assms(1,2) by (simp add: congestion_levels_def)
  moreover have "fold (congestion_levels c False) os (1, 0) = (1, 0)" using assms(3)
    by (induction os) (auto simp: congestion_levels_def)
  ultimately show ?thesis by simp
qed

theorem single_level_never_discards_witness:
  "fold (congestion_levels (sl_default_e1_chan 100) False) [70000, 4000000000] (0, 0) = (1, 0)"
  using single_level_never_discards[of "sl_default_e1_chan 100" 70000 "[4000000000]"]
  by (simp add: sl_default_e1_chan_def)

text \<open>A congestion check on an attached channel with memory tells level 3 the new levels exactly when they
  have changed, with the ceasing indication exactly when the congestion level has fallen.\<close>

theorem congestion_indicated:
  fixes ch :: ch
  assumes "ch_xp ch = Some x" "allocs ch = []"
  defines "new \<equiv> congestion_levels (config ch) (mplev ch) (tx_occupancy ch) (cong_status (statem ch), disc_status (statem ch))"
  shows "case sl_check_congestion None ch of (err, ch') \<Rightarrow>
    err = OK \<and> (cong_status (statem ch'), disc_status (statem ch')) = new \<and>
    ch_xp ch' = Some (x\<lparr>rq := rq x @
      (if new = (cong_status (statem ch), disc_status (statem ch)) then []
       else if fst new < cong_status (statem ch)
       then [RProto (SL_LINK_CONGESTION_CEASED_IND (fst new) (snd new)) None]
       else [RProto (SL_LINK_CONGESTED_IND (fst new) (snd new)) None])\<rparr>)"
proof (cases new)
  case (Pair cong disc)
  show ?thesis using assms(1,2) Pair[unfolded new_def]
    by (simp add: Pair) (simp add: sl_check_congestion_def sl_link_congested_ind_def
        sl_link_congestion_ceased_ind_def ind_reuse_def allocb_def rq_putq_def freemsg_def ifthen_def Let_def)
qed

theorem congestion_indicated_witness:
  "case sl_check_congestion None (tb_update (\<lambda>_. \<lparr>q_list = [], q_msgs = 1, q_count = 70000\<rparr>) (up_ch 0 [])) of
     (err, ch') \<Rightarrow> err = OK \<and> map_option rq (ch_xp ch') = Some [RProto (SL_LINK_CONGESTED_IND 1 0) None]"
proof -
  define ch where "ch = tb_update (\<lambda>_. \<lparr>q_list = [], q_msgs = 1, q_count = 70000\<rparr>) (up_ch 0 [])"
  have h: "ch_xp ch = Some \<lparr>rq = [], rq_canput = True, rq_canputnext = True\<rparr>" "allocs ch = []"
    by (simp_all add: ch_def demo_defs)
  have "congestion_levels (config ch) (mplev ch) (tx_occupancy ch)
      (cong_status (statem ch), disc_status (statem ch)) = (1, 0)" "cong_status (statem ch) = 0"
    by (simp_all add: ch_def demo_defs congestion_levels_def tx_occupancy_def sl_count_rq_def)
  then show ?thesis using congestion_indicated[OF h] unfolding ch_def[symmetric]
    by (auto simp: case_prod_unfold)
qed

section \<open>Messages from level 3\<close>

text \<open>The message a PDU request makes: room for the header, then the data.\<close>

fun pdu_queued :: "ch \<Rightarrow> pdu \<Rightarrow> u8 list \<Rightarrow> bool" where
  "pdu_queued ch (Pdu_data m room dp) bs \<longleftrightarrow> drop (hlen ch) bs = dp"
| "pdu_queued ch (Pdu_proto m block dp) bs \<longleftrightarrow> dp = Some (drop (hlen ch) bs)"

lemma check_congestion_tb [simp]: "tb (snd (sl_check_congestion mp ch)) = tb ch"
  by (simp add: sl_check_congestion_def Let_def sl_view split: prod.split)

text \<open>C32. A data request either is refused with an error and changes nothing of the buffers (too many octets
  waiting, no data, or no memory for the header), or appends exactly one message to the transmission buffer, which
  has the data of the request behind the room for the level 2 header; it is refused with \<open>ENOBUFS\<close> whenever more
  than 1024 octets wait.\<close>

theorem pdu_request:
  "case sl_pdu_req p ch of (err, ch') \<Rightarrow>
     (err = OK \<longrightarrow> (\<exists>bs. q_list (tb ch') = q_list (tb ch) @ [\<lparr>mid = pdu_mid p, octets = bs\<rparr>] \<and>
        hlen ch \<le> length bs \<and> pdu_queued ch p bs)) \<and>
     (err \<noteq> OK \<longrightarrow> err \<in> {ENOBUFS, EFAULT} \<and> tb ch' = tb ch \<and> rtb ch' = rtb ch \<and> ch_xp ch' = ch_xp ch \<and>
        log ch' = log ch) \<and>
     (q_count (tb ch) > 1024 \<longrightarrow> err = ENOBUFS)"
proof -
  have q: "q_list (tb (sl_txc_message_for_transmission mp c)) = q_list (tb c) @ [mp]" for mp c
    by (simp add: sl_txc_message_for_transmission_def exec_def)
  have a: "tb c = tb ch \<and> rtb c = rtb ch \<and> ch_xp c = ch_xp ch \<and> log c = log ch \<and>
      (\<forall>bs. r = Some bs \<longrightarrow> length bs = n)" if "allocb n ch = (r, c)" for n r c
    using that by (auto simp: allocb_def split: list.splits option.splits)
  show ?thesis
  proof (cases p)
    case (Pdu_data m room dp)
    then show ?thesis using a[of "hlen ch"]
      by (auto simp: sl_pdu_req_def sl_lsc_pdu_def pdu_mid_def q split: option.split prod.split)
  next
    case (Pdu_proto m block dp)
    then show ?thesis by (auto simp: sl_pdu_req_def sl_lsc_pdu_def pdu_mid_def q split: option.split)
  qed
qed

theorem pdu_request_witness:
  "fst (sl_pdu_req (Pdu_data 5 [0, 0, 0] [0x83, 1, 2]) (up_ch 0 [])) = OK \<and>
   (\<exists>bs. q_list (tb (snd (sl_pdu_req (Pdu_data 5 [0, 0, 0] [0x83, 1, 2]) (up_ch 0 [])))) =
      [\<lparr>mid = 5, octets = bs\<rparr>] \<and> drop 3 bs = [0x83, 1, 2])"
proof -
  have e: "fst (sl_pdu_req (Pdu_data 5 [0, 0, 0] [0x83, 1, 2]) (up_ch 0 [])) = OK"
    and h: "hlen (up_ch 0 []) = 3" and t: "q_list (tb (up_ch 0 [])) = []"
    by (simp_all add: sl_pdu_req_def sl_lsc_pdu_def hlen_def demo_defs bufq_init_def)
  show ?thesis using pdu_request[where p = "Pdu_data 5 [0, 0, 0] [0x83, 1, 2]" and ch = "up_ch 0 []"] e h t
    by (simp add: case_prod_unfold pdu_mid_def) blast
qed

text \<open>The block a congestion check is given is freed or reused for an indication, always.\<close>

lemma check_congestion_consumes:
  fixes ch :: ch defines "ch' m \<equiv> snd (sl_check_congestion (Some m) ch)"
  shows "last (log (ch' m)) = Freemsg m \<or> (\<exists>x p. ch_xp (ch' m) = Some x \<and> last (rq x) = RProto p (Some m))"
  by (auto simp: ch'_def sl_check_congestion_def Let_def sl_link_congested_ind_def sl_link_congestion_ceased_ind_def
      ind_reuse_def freemsg_def emit_def rq_putq_def split: prod.split option.split)

text \<open>C37. The block of an accepted data request is at the same time queued for transmission and either freed
  or sent upstream as an indication: the transmission buffer is left with a message that no longer belongs to
  it.\<close>

theorem pdu_freed_while_queued:
  assumes "fst (sl_pdu_req p ch) = OK"
  defines "ch' \<equiv> snd (sl_pdu_req p ch)"
  shows "mid (last (q_list (tb ch'))) = pdu_mid p \<and>
    (last (log ch') = Freemsg (pdu_mid p) \<or>
     (\<exists>x i. ch_xp ch' = Some x \<and> last (rq x) = RProto i (Some (pdu_mid p))))"
proof -
  have m: "mid (last (q_list (tb (sl_txc_message_for_transmission mp c)))) = mid mp \<and>
      (last (log (sl_txc_message_for_transmission mp c)) = Freemsg (mid mp) \<or>
       (\<exists>x i. ch_xp (sl_txc_message_for_transmission mp c) = Some x \<and> last (rq x) = RProto i (Some (mid mp))))" for mp c
    using check_congestion_consumes[of "mid mp"]
    by (simp add: sl_txc_message_for_transmission_def exec_def)
  have "\<exists>mp c. mid mp = pdu_mid p \<and> ch' = sl_txc_message_for_transmission mp c"
    using assms(1) unfolding ch'_def sl_pdu_req_def sl_lsc_pdu_def pdu_mid_def
    by (cases p; simp split: if_splits option.splits prod.splits; metis msg.select_convs(1))
  then show ?thesis using m by (metis (no_types, lifting))
qed

theorem pdu_freed_while_queued_witness:
  "map mid (q_list (tb (snd (sl_pdu_req (Pdu_data 5 [0, 0, 0] [0x83, 1, 2]) (up_ch 0 []))))) = [5] \<and>
   last (log (snd (sl_pdu_req (Pdu_data 5 [0, 0, 0] [0x83, 1, 2]) (up_ch 0 [])))) = Freemsg 5"
  using pdu_freed_while_queued[where p = "Pdu_data 5 [0, 0, 0] [0x83, 1, 2]" and ch = "up_ch 0 []"]
  by (simp add: demo_defs sl_defs exec_def bufq_defs Let_def)

section \<open>The read queue\<close>

text \<open>What has been passed upstream, in order.\<close>

fun passed :: "event list \<Rightarrow> rqmsg list" where
  "passed [] = []"
| "passed (Putnext r # es) = r # passed es"
| "passed (_ # es) = passed es"

fun is_data :: "rqmsg \<Rightarrow> bool" where
  "is_data (RData _) = True"
| "is_data (RProto _ _) = False"

lemma passed_append [simp]: "passed (es @ fs) = passed es @ passed fs"
  by (induction es rule: passed.induct) simp_all

text \<open>The service procedure passes on the messages at the front of the read queue, one for each positive
  answer of the stream above up to the first refusal, and keeps the others: what is passed and what remains is
  always the queue as it was, in order, with nothing lost or duplicated, and every data message passed counts
  down the receive buffer by one.\<close>

theorem read_service:
  fixes room :: "bool list"
  assumes "ch_xp ch = Some x"
  defines "n \<equiv> min (length (takeWhile id room)) (length (rq x))"
  shows "\<exists>x'. ch_xp (rq_srv room ch) = Some x' \<and> rq x' = drop n (rq x) \<and>
    passed (log (rq_srv room ch)) = passed (log ch) @ take n (rq x) \<and>
    Cr (statem (rq_srv room ch)) =
      Cr (statem ch) - of_nat (length (filter is_data (take n (rq x))))"
  using assms(1) unfolding n_def
proof (induction room arbitrary: ch x)
  case Nil
  then show ?case by (subst (1 2 3) rq_srv.simps) (auto split: list.split)
next
  case (Cons b room)
  show ?case
  proof (cases "rq x")
    case Nil
    then show ?thesis using Cons.prems by (subst (1 2 3) rq_srv.simps) auto
  next
    case (Cons r rs)
    let ?c = "ch\<lparr>ch_xp := Some (x\<lparr>rq := rs, rq_canputnext := True\<rparr>)\<rparr>"
    show ?thesis
    proof (cases b)
      case True
      define c2 where "c2 = (case r of RData _ \<Rightarrow> steps [set_Cr (Cr (statem ?c) - 1), emit (Putnext r)] ?c
          | RProto _ _ \<Rightarrow> emit (Putnext r) ?c)"
      have s: "rq_srv (b # room) ch = rq_srv room c2"
        using Cons.prems Cons True by (subst rq_srv.simps) (simp add: xp_r_prim_srv_def c2_def Let_def)
      have c: "ch_xp c2 = Some (x\<lparr>rq := rs, rq_canputnext := True\<rparr>)" "passed (log c2) = passed (log ch) @ [r]"
        "Cr (statem c2) = Cr (statem ch) - (case r of RData _ \<Rightarrow> 1 | RProto _ _ \<Rightarrow> 0)"
        by (simp_all add: c2_def emit_def split: rqmsg.split)
      show ?thesis using Cons.IH[OF c(1)] Cons True c(2,3) unfolding s
        by (cases r) (simp_all add: diff_diff_eq)
    next
      case False
      then show ?thesis using Cons.prems Cons
        by (subst (1 2 3) rq_srv.simps) (simp add: xp_r_prim_srv_def Let_def)
    qed
  qed
qed

theorem read_service_witness:
  "passed (log (rq_srv [True, False] (rq_putq (RData (msu 2)) (rq_putq (RData (msu 1)) (demo_ch 0x102 0))))) =
     [RData (msu 1)]"
  using read_service[of "rq_putq (RData (msu 2)) (rq_putq (RData (msu 1)) (demo_ch 0x102 0))" _ "[True, False]"]
  by (auto simp: rq_putq_def demo_ch_def xp_init_ch_def)

end
