(* ===== verification/HDLC_Bits.thy ===== *)
theory HDLC_Bits
  imports Prelude
begin

text \<open>
  Reference definitions for the soft HDLC on lists of bits: \<open>stuff\<close> inserts a zero after five ones, the
  receive automaton \<open>rx_next\<close> and \<open>rx_out\<close> works bit by bit, and \<open>crc_bit\<close> is one step of the block check
  register.  A received zero is held back until it is known not to open a flag, so the automaton is always
  behind by the bits \<open>rx_held\<close>.  The lemmas show that a stuffed string never has six ones in a row, that the
  automaton reads a stuffed string followed by a flag as the string, and that the block check tells apart
  two strings that differ in one octet.
\<close>

section \<open>Strings of bits\<close>

text \<open>The value of a string with its first bit least significant, and the low bits of a word in both
  orders: \<open>lsb_bits\<close> in the order an octet of a frame is sent, \<open>msb_bits\<close> in the order of the line.\<close>

abbreviation lsb_val :: "bool list \<Rightarrow> 'a::len word" where
  "lsb_val \<equiv> horner_sum of_bool 2"

abbreviation msb_val :: "bool list \<Rightarrow> 'a::len word" where
  "msb_val bs \<equiv> lsb_val (rev bs)"

definition lsb_bits :: "nat \<Rightarrow> 'a::len word \<Rightarrow> bool list" where
  "lsb_bits n w = map (bit w) [0..<n]"

definition msb_bits :: "nat \<Rightarrow> 'a::len word \<Rightarrow> bool list" where
  "msb_bits n w = rev (lsb_bits n w)"

definition octet_bits :: "u8 list \<Rightarrow> bool list" where
  "octet_bits os = concat (map (lsb_bits 8) os)"

definition line_bits :: "u8 list \<Rightarrow> bool list" where
  "line_bits os = concat (map (msb_bits 8) os)"

lemma bit_lsb_val: "bit (lsb_val bs :: 'a::len word) n \<longleftrightarrow> n < LENGTH('a) \<and> n < length bs \<and> bs ! n"
  by (auto simp: bit_horner_sum_bit_iff possible_bit_word)

lemma length_lsb_bits [simp]: "length (lsb_bits n w) = n"
  by (simp add: lsb_bits_def)

lemma length_msb_bits [simp]: "length (msb_bits n w) = n"
  by (simp add: msb_bits_def)

lemma nth_lsb_bits [simp]: "i < n \<Longrightarrow> lsb_bits n w ! i = bit w i"
  by (simp add: lsb_bits_def)

lemma lsb_bits_lsb_val:
  assumes "length bs = n" "n \<le> LENGTH('a::len)"
  shows "lsb_bits n (lsb_val bs :: 'a word) = bs"
  using assms by (intro nth_equalityI) (auto simp: bit_lsb_val)

lemma msb_bits_msb_val:
  assumes "length bs = n" "n \<le> LENGTH('a::len)"
  shows "msb_bits n (msb_val bs :: 'a word) = bs"
  by (simp add: msb_bits_def lsb_bits_lsb_val assms)

lemma lsb_val_append:
  "(lsb_val (xs @ ys) :: 'a::len word) = lsb_val xs OR push_bit (length xs) (lsb_val ys)"
  by (rule bit_eqI) (auto simp: bit_lsb_val bit_or_iff bit_push_bit_iff nth_append not_less)

lemma lsb_val_lsb_bits: "lsb_val (lsb_bits n w) = (take_bit n w :: 'a::len word)"
  by (simp add: lsb_bits_def horner_sum_bit_eq_take_bit)

lemma ucast_lsb_val:
  "LENGTH('b::len) \<le> LENGTH('a::len) \<or> length bs \<le> LENGTH('a) \<Longrightarrow>
     (ucast (lsb_val bs :: 'a word) :: 'b word) = lsb_val bs"
  by (rule bit_eqI) (auto simp: bit_lsb_val bit_ucast_iff)

lemma msb_bits_append:
  fixes R :: "'a::len word"
  assumes "m + n \<le> LENGTH('a)" "take_bit n X = X"
  shows "msb_bits (m + n) (push_bit n R OR X) = msb_bits m R @ msb_bits n X"
proof -
  have "lsb_bits (m + n) (push_bit n R OR X) = lsb_bits n X @ lsb_bits m R"
  proof (rule nth_equalityI)
    fix i assume i: "i < length (lsb_bits (m + n) (push_bit n R OR X))"
    have "\<not> bit X i" if "n \<le> i"
      using that assms(2) by (metis bit_take_bit_iff not_le)
    then show "lsb_bits (m + n) (push_bit n R OR X) ! i = (lsb_bits n X @ lsb_bits m R) ! i"
      using i assms(1) by (auto simp: nth_append bit_or_iff bit_push_bit_iff not_less)
  qed simp
  then show ?thesis
    by (simp add: msb_bits_def)
qed

lemma msb_bits_split:
  fixes R :: "'a::len word"
  assumes "m \<le> n"
  shows "msb_bits n R = msb_bits (n - m) (drop_bit m R) @ msb_bits m R"
proof -
  have "lsb_bits n R = lsb_bits m R @ lsb_bits (n - m) (drop_bit m R)"
    using assms by (intro nth_equalityI) (auto simp: nth_append bit_drop_bit_eq)
  then show ?thesis
    by (simp add: msb_bits_def)
qed

lemma msb_bits_ucast: "n \<le> LENGTH('b) \<Longrightarrow> msb_bits n (ucast w :: 'b::len word) = msb_bits n (w :: 'a::len word)"
  by (auto simp: msb_bits_def lsb_bits_def bit_ucast_iff)

lemma octet_bits_simps [simp]:
  "octet_bits [] = []" "octet_bits (o1 # os) = lsb_bits 8 o1 @ octet_bits os"
  "octet_bits (os @ os') = octet_bits os @ octet_bits os'"
  by (simp_all add: octet_bits_def)

lemma line_bits_simps [simp]:
  "line_bits [] = []" "line_bits (o1 # os) = msb_bits 8 o1 @ line_bits os"
  "line_bits (os @ os') = line_bits os @ line_bits os'"
  by (simp_all add: line_bits_def)

lemma length_octet_bits [simp]: "length (octet_bits os) = 8 * length os"
  by (induction os) simp_all

lemma length_line_bits [simp]: "length (line_bits os) = 8 * length os"
  by (induction os) simp_all

section \<open>Two-dimensional tables\<close>

lemma nth_concat_table:
  "i < n \<Longrightarrow> k < m \<Longrightarrow> concat (map (\<lambda>j. map (f j) [0..<m]) [0..<n]) ! (i * m + k) = f i k"
proof (induction n)
  case (Suc n)
  have l: "length (concat (map (\<lambda>j. map (f j) [0..<m]) [0..<n])) = n * m" for n
    by (induction n) simp_all
  show ?case
  proof (cases "i = n")
    case True
    then show ?thesis
      using Suc.prems by (simp add: nth_append l)
  next
    case False
    then have i: "i < n"
      using Suc.prems by simp
    then have "i * m + k < n * m"
      using Suc.prems(2) by (metis add.commute add_less_cancel_right less_le_trans mult_Suc mult_le_mono1
          Suc_leI)
    then show ?thesis
      using Suc.IH[OF i Suc.prems(2)] by (simp add: nth_append l)
  qed
qed simp

lemma octet_less: "unat (k :: u8) < 256"
  using unsigned_less[of k] by simp

lemma table_index:
  assumes "unat (j :: u32) < 16"
  shows "unat (push_bit 8 j OR ucast (k :: u8)) = unat j * 256 + unat k"
proof -
  have "push_bit 8 j OR ucast k = push_bit 8 j + ucast k"
    by (rule disjunctive_add[symmetric]) (auto simp: bit_push_bit_iff bit_ucast_iff dest: bit_imp_le_length)
  moreover have "unat (push_bit 8 j) = unat j * 256"
    using assms by (simp add: push_bit_eq_mult unat_word_ariths mult.commute)
  moreover have "unat (ucast k :: u32) = unat k"
    by (simp add: unsigned_ucast_eq take_bit_nat_eq_self octet_less[THEN less_trans])
  moreover have "unat k < 256"
    by (rule octet_less)
  ultimately show ?thesis
    using assms by (simp add: unat_word_ariths)
qed

section \<open>Zero insertion\<close>

fun stuff :: "nat \<Rightarrow> bool list \<Rightarrow> bool list" where
  "stuff n [] = []"
| "stuff n (b # bs) =
     (if b then if n = 4 then True # False # stuff 0 bs else True # stuff (n + 1) bs
      else False # stuff 0 bs)"

fun stuff_state :: "nat \<Rightarrow> bool list \<Rightarrow> nat" where
  "stuff_state n [] = n"
| "stuff_state n (b # bs) = stuff_state (if b \<and> n \<noteq> 4 then n + 1 else 0) bs"

definition hdlc_flag :: "bool list" where
  "hdlc_flag = [False, True, True, True, True, True, True, False]"

lemma stuff_append: "stuff n (xs @ ys) = stuff n xs @ stuff (stuff_state n xs) ys"
  by (induction n xs rule: stuff.induct) auto

lemma stuff_state_append: "stuff_state n (xs @ ys) = stuff_state (stuff_state n xs) ys"
  by (induction xs arbitrary: n) auto

lemma stuff_state_less: "n < 5 \<Longrightarrow> stuff_state n bs < 5"
  by (induction bs arbitrary: n) auto

lemma length_stuff: "length bs \<le> length (stuff n bs)"
  by (induction n bs rule: stuff.induct) auto

lemma length_stuff_le: "n < 5 \<Longrightarrow> 5 * length (stuff n bs) + stuff_state n bs \<le> n + 6 * length bs"
  by (induction n bs rule: stuff.induct) auto

text \<open>The most ones in a row, \<open>n\<close> of which were sent before.\<close>

fun ones_run :: "nat \<Rightarrow> bool list \<Rightarrow> nat" where
  "ones_run n [] = n"
| "ones_run n (b # bs) = (if b then ones_run (n + 1) bs else max n (ones_run 0 bs))"

lemma ones_run_stuff: "n < 5 \<Longrightarrow> ones_run n (stuff n bs) \<le> 5"
  by (induction n bs rule: stuff.induct) auto

section \<open>The receive automaton\<close>

text \<open>The states are those of the receive table: 0 to 5 after a held zero and as many ones, 6 after an
  inserted zero, 7 and 14 after six ones, 8 after a flag, 9 to 13 after ones with no zero held, 15 after
  seven ones.\<close>

definition rx_next :: "nat \<Rightarrow> bool \<Rightarrow> nat" where
  "rx_next s b =
     (if b then if s = 5 then 7 else if s = 6 \<or> s = 8 then 9 else if s = 7 \<or> s = 14 \<or> s = 15 then 15 else s + 1
      else if s = 5 \<or> s = 13 then 6 else if s = 7 \<or> s = 14 then 8 else 0)"

definition rx_out :: "nat \<Rightarrow> bool \<Rightarrow> bool list" where
  "rx_out s b =
     (if b then if s = 7 then [False] else []
      else if s \<le> 5 then False # replicate s True
      else if 9 \<le> s \<and> s \<le> 13 then replicate (s - 8) True else [])"

text \<open>What an octet shows: the bits read since its last flag, and the marks of the table entry.\<close>

record reading =
  rd_out :: "bool list"
  rd_state :: nat
  rd_sync :: bool
  rd_hunt :: bool
  rd_flag :: bool
  rd_idle :: bool

definition rd_bit :: "bool \<Rightarrow> reading \<Rightarrow> reading" where
  "rd_bit b A =
     (let s = rd_state A in
      \<lparr>rd_out = (if s = 8 then [] else rd_out A) @ rx_out s b,
       rd_state = rx_next s b,
       rd_sync = (if s \<in> {7, 14, 15} then False else s = 8 \<or> rd_sync A),
       rd_hunt = (if s \<in> {7, 14} then b else if s = 8 then False else s = 15 \<or> rd_hunt A),
       rd_flag = (if s \<in> {7, 14} then \<not> b else if s = 15 then False else s = 8 \<or> rd_flag A),
       rd_idle = (if s = 15 then b else if s \<in> {7, 8, 9, 10, 11, 12, 13, 14} then False else rd_idle A)\<rparr>)"

definition reading0 :: "nat \<Rightarrow> reading" where
  "reading0 s = \<lparr>rd_out = [], rd_state = s, rd_sync = False, rd_hunt = False, rd_flag = False,
     rd_idle = False\<rparr>"

definition read_bits :: "nat \<Rightarrow> bool list \<Rightarrow> reading" where
  "read_bits s bs = fold rd_bit bs (reading0 s)"

text \<open>States and output over a string in which no flag is completed and no abort is seen.\<close>

abbreviation rx_run :: "nat \<Rightarrow> bool list \<Rightarrow> nat" where
  "rx_run \<equiv> foldl rx_next"

fun rx_emit :: "nat \<Rightarrow> bool list \<Rightarrow> bool list" where
  "rx_emit s [] = []"
| "rx_emit s (b # bs) = rx_out s b @ rx_emit (rx_next s b) bs"

fun quiet :: "nat \<Rightarrow> bool list \<Rightarrow> bool" where
  "quiet s [] = True"
| "quiet s (b # bs) = (s \<notin> {7, 8, 14, 15} \<and> quiet (rx_next s b) bs)"

text \<open>The same for the bits since a flag: the automaton starts in state 8.\<close>

definition inside :: "bool list \<Rightarrow> bool" where
  "inside bs = (case bs of [] \<Rightarrow> True | b # bs' \<Rightarrow> quiet (rx_next 8 b) bs')"

lemma rx_emit_append: "rx_emit s (xs @ ys) = rx_emit s xs @ rx_emit (rx_run s xs) ys"
  by (induction xs arbitrary: s) auto

lemma quiet_append: "quiet s (xs @ ys) \<longleftrightarrow> quiet s xs \<and> quiet (rx_run s xs) ys"
  by (induction xs arbitrary: s) auto

lemma inside_append:
  "xs \<noteq> [] \<Longrightarrow> inside (xs @ ys) \<longleftrightarrow> inside xs \<and> quiet (rx_run 8 xs) ys"
  by (cases xs) (auto simp: inside_def quiet_append)

lemma inside_prefix: "inside (xs @ ys) \<Longrightarrow> inside xs"
  by (cases "xs = []") (auto simp: inside_append, simp add: inside_def)

lemma read_quiet:
  "quiet (rd_state A) bs \<Longrightarrow> \<not> rd_idle A \<Longrightarrow>
     fold rd_bit bs A = A\<lparr>rd_out := rd_out A @ rx_emit (rd_state A) bs, rd_state := rx_run (rd_state A) bs\<rparr>"
  by (induction bs arbitrary: A) (auto simp: rd_bit_def Let_def)

lemma read_after_flag:
  assumes "rd_state A = 8" "bs \<noteq> []" "inside bs"
  shows "fold rd_bit bs A = \<lparr>rd_out = rx_emit 8 bs, rd_state = rx_run 8 bs, rd_sync = True, rd_hunt = False,
    rd_flag = True, rd_idle = False\<rparr>"
  using assms by (cases bs) (auto simp: rd_bit_def inside_def read_quiet rx_out_def)

lemma read_flag_end:
  assumes "rd_state A = 7 \<or> rd_state A = 14"
  shows "rd_bit False A = A\<lparr>rd_state := 8, rd_sync := False, rd_hunt := False, rd_flag := True, rd_idle := False\<rparr>"
  using assms by (auto simp: rd_bit_def rx_out_def rx_next_def)

lemma rx_emit_ones: "quiet s (replicate k True) \<Longrightarrow> rx_emit s (replicate k True) = []"
  by (induction k arbitrary: s) (auto simp: rx_out_def)

subsection \<open>Reading a stuffed string\<close>

definition rx_held :: "nat \<Rightarrow> bool list" where
  "rx_held s = (if s \<le> 5 then False # replicate s True else if 9 \<le> s \<and> s \<le> 13 then replicate (s - 8) True
     else [])"

text \<open>The receiver is in step with a transmitter that has sent \<open>n\<close> ones.\<close>

definition in_step :: "nat \<Rightarrow> nat \<Rightarrow> bool" where
  "in_step n s = (n < 5 \<and> (if n = 0 then s \<in> {0, 6, 8} else s = n \<or> s = n + 8))"

lemma rx_held_True:
  "in_step n s \<Longrightarrow> n \<noteq> 4 \<Longrightarrow>
     rx_held (rx_next s True) = rx_held s @ [True] \<and> rx_out s True = [] \<and> in_step (n + 1) (rx_next s True)"
  by (auto simp: in_step_def rx_held_def rx_next_def rx_out_def replicate_append_same split: if_splits)

lemma rx_held_False:
  "in_step n s \<Longrightarrow> rx_held (rx_next s False) = [False] \<and> rx_out s False = rx_held s
     \<and> in_step 0 (rx_next s False)"
  by (auto simp: in_step_def rx_held_def rx_next_def rx_out_def split: if_splits)

lemma rx_held_stuffed:
  "in_step 4 s \<Longrightarrow> rx_out s True = [] \<and> rx_out (rx_next s True) False = rx_held s @ [True]
     \<and> rx_next (rx_next s True) False = 6 \<and> rx_next s True \<notin> {7, 8, 14, 15}"
  by (auto simp: in_step_def rx_held_def rx_next_def rx_out_def replicate_append_same numeral_eq_Suc)

lemma in_step_next: "in_step n s \<Longrightarrow> n \<noteq> 4 \<or> \<not> b \<Longrightarrow> rx_next s b \<notin> {7, 8, 14, 15}"
  by (auto simp: in_step_def rx_next_def split: if_splits)

lemma read_stuffed:
  "in_step n s \<Longrightarrow> s \<noteq> 8 \<Longrightarrow>
     quiet s (stuff n bs) \<and> rx_emit s (stuff n bs) @ rx_held (rx_run s (stuff n bs)) = rx_held s @ bs
       \<and> in_step (stuff_state n bs) (rx_run s (stuff n bs)) \<and> rx_run s (stuff n bs) \<noteq> 8"
proof (induction n bs arbitrary: s rule: stuff.induct)
  case (2 n b bs)
  have s: "s \<notin> {7, 8, 14, 15}"
    using 2(4,5) by (auto simp: in_step_def split: if_splits)
  show ?case
  proof (cases "b \<and> n = 4")
    case True
    have "in_step 0 6" and "rx_held 6 = []"
      by (simp_all add: in_step_def rx_held_def)
    with 2(1)[of 6] 2(4) True s rx_held_stuffed[of s] show ?thesis
      by auto
  next
    case False
    note n = in_step_next[OF 2(4), of b]
    show ?thesis
    proof (cases b)
      case True
      with False 2(2)[OF True, of "rx_next s True"] rx_held_True[OF 2(4)] n s show ?thesis
        by auto
    next
      case b: False
      with 2(3)[OF b, of "rx_next s False"] rx_held_False[OF 2(4)] n s show ?thesis
        by auto
    qed
  qed
qed auto

section \<open>Block check\<close>

definition crc_bit :: "u16 \<Rightarrow> u16" where
  "crc_bit r = (if bit r 0 then drop_bit 1 r XOR 0x8408 else drop_bit 1 r)"

definition crc_octet :: "u16 \<Rightarrow> u8 \<Rightarrow> u16" where
  "crc_octet r o1 = (crc_bit ^^ 8) (r XOR ucast o1)"

definition crc :: "u8 list \<Rightarrow> u16" where
  "crc os = foldl crc_octet 0xffff os"

lemma xor_eq_0_iff_eq: "(x XOR y :: u16) = 0 \<longleftrightarrow> x = y"
proof
  assume "x XOR y = 0"
  then have "bit (x XOR y) n = bit (0 :: u16) n" for n
    by (rule arg_cong)
  then show "x = y"
    by (intro bit_eqI) (simp add: bit_xor_iff)
qed simp

lemma crc_bit_xor: "crc_bit (x XOR y) = crc_bit x XOR crc_bit y"
  unfolding crc_bit_def
  by (rule bit_eqI) (auto simp only: bit_xor_iff bit_drop_bit_eq drop_bit_xor comp_apply split: if_split)

lemma crc_bit_0: "crc_bit 0 = 0"
  by (simp add: crc_bit_def)

lemma crc_bit_eq_0: "crc_bit x = 0 \<Longrightarrow> x = 0"
proof (rule ccontr)
  assume z: "crc_bit x = 0" and x: "x \<noteq> 0"
  show False
  proof (cases "bit x 0")
    case True
    then have "bit (drop_bit 1 x XOR 0x8408) 15 = False"
      using z by (simp add: crc_bit_def)
    then show False
      by (simp add: bit_xor_iff bit_drop_bit_eq) (auto dest: bit_imp_le_length)
  next
    case False
    then have "drop_bit 1 x = 0"
      using z by (simp add: crc_bit_def)
    then have "bit (drop_bit 1 x) n = bit (0 :: u16) n" for n
      by (rule arg_cong)
    then have "\<not> bit x (Suc n)" for n
      by (simp add: bit_drop_bit_eq)
    with False have "\<not> bit x n" for n
      by (cases n) auto
    then show False
      using x by (auto intro: bit_eqI)
  qed
qed

lemma crc_bits_xor: "(crc_bit ^^ n) (x XOR y) = (crc_bit ^^ n) x XOR (crc_bit ^^ n) y"
  by (induction n) (simp_all add: crc_bit_xor)

lemma crc_bits_inj: "(crc_bit ^^ n) x = (crc_bit ^^ n) y \<Longrightarrow> x = y"
proof (induction n)
  case (Suc n)
  have "crc_bit ((crc_bit ^^ n) x XOR (crc_bit ^^ n) y) = 0"
    using Suc.prems by (simp add: crc_bit_xor)
  then have "(crc_bit ^^ n) x XOR (crc_bit ^^ n) y = 0"
    by (rule crc_bit_eq_0)
  then show ?case
    by (simp only: xor_eq_0_iff_eq Suc.IH)
qed simp

lemma xor_left_cancel: "(a XOR b :: u16) = a XOR c \<Longrightarrow> b = c"
proof -
  assume "a XOR b = a XOR c"
  then have "bit (a XOR b) n = bit (a XOR c) n" for n
    by (rule arg_cong)
  then show "b = c"
    by (intro bit_eqI) (auto simp: bit_xor_iff)
qed

lemma crc_octet_inj: "crc_octet r o1 = crc_octet r' o1 \<Longrightarrow> r = r'"
  unfolding crc_octet_def
  by (drule crc_bits_inj) (simp only: xor.commute[of r] xor.commute[of r'] xor_left_cancel)

lemma ucast_u8_u16: "(ucast (ucast x :: u16) :: u8) = x"
  by (rule bit_eqI) (auto simp: bit_ucast_iff)

lemma crc_octet_neq: "o1 \<noteq> o2 \<Longrightarrow> crc_octet r o1 \<noteq> crc_octet r o2"
proof
  assume "o1 \<noteq> o2" and "crc_octet r o1 = crc_octet r o2"
  then have "(ucast o1 :: u16) = ucast o2"
    unfolding crc_octet_def using crc_bits_inj xor_left_cancel by blast
  then have "(ucast (ucast o1 :: u16) :: u8) = ucast (ucast o2 :: u16)"
    by simp
  with \<open>o1 \<noteq> o2\<close> show False
    by (simp only: ucast_u8_u16)
qed

lemma crc_foldl_neq: "r \<noteq> r' \<Longrightarrow> foldl crc_octet r os \<noteq> foldl crc_octet r' os"
  by (induction os arbitrary: r r') (auto dest: crc_octet_inj)

lemma crc_one_octet:
  assumes "i < length os" "os ! i \<noteq> x"
  shows "crc (os[i := x]) \<noteq> crc os"
proof -
  have "crc (take i os @ os ! i # drop (Suc i) os) \<noteq> crc (take i os @ x # drop (Suc i) os)"
    using assms(2) by (simp add: crc_def crc_foldl_neq crc_octet_neq)
  then show ?thesis
    using assms(1) by (simp add: id_take_nth_drop[symmetric] upd_conv_take_nth_drop)
qed

end
