(* ===== verification/HDLC_Tables.thy ===== *)
theory HDLC_Tables
  imports HDLC_Bits
begin

text \<open>
  The tables of the soft HDLC of \<open>src/src/drivers/sl_x400p.c\<close>, as they are computed when the module is
  loaded: the block check table (\<open>bc_table_value\<close>), the transmit table that inserts zeros and reverses the
  bits of an octet (\<open>tx_table_valueN\<close>) and the receive tables that find flags and aborts and delete the
  inserted zeros (\<open>rx_table_valueN\<close>).  The bit fields of the entries keep their widths.

  The lemmas show that a table entry is what the reference definitions of \<open>HDLC_Bits\<close> give for the bits of the
  octet, that no entry overflows its bit fields, and that the table step of the block check is eight steps
  of the shift register.
\<close>

section \<open>Entries\<close>

record tx_entry =
  te_string :: "10 word"
  te_length :: "2 word"
  te_state :: "3 word"

record rx_entry =
  re_string :: "12 word"
  re_length :: "4 word"
  re_state :: "4 word"
  re_sync :: bool
  re_hunt :: bool
  re_flag :: bool
  re_idle :: bool

section \<open>Block check\<close>

text \<open>The strings are below \<open>2 ^ 16\<close>, so the shift of the signed variable is a logical one.\<close>

primrec bc_table_loop :: "nat \<Rightarrow> s32 \<Rightarrow> s32" where
  "bc_table_loop 0 bs = bs"
| "bc_table_loop (Suc n) bs =
     bc_table_loop n (if bs AND 1 \<noteq> 0 then drop_bit 1 bs XOR 0x8408 else drop_bit 1 bs)"

definition bc_table_value :: "s32 \<Rightarrow> nat \<Rightarrow> u16" where
  "bc_table_value bit_string bit_length = ucast (bc_table_loop bit_length bit_string)"

fun bc_table_fill :: "nat \<Rightarrow> nat \<Rightarrow> u16 list" where
  "bc_table_fill bit_mask bit_length =
     map (\<lambda>bs. bc_table_value (word_of_nat bs) bit_length) [0..<bit_mask] @
     (if bit_mask div 2 = 0 then [] else bc_table_fill (bit_mask div 2) (bit_length - 1))"

declare bc_table_fill.simps [simp del]

definition bc_table_generate :: "u16 list" where
  "bc_table_generate = bc_table_fill 0x100 8"

text \<open>The update of the block check of a path with an octet.\<close>

definition bcc_octet :: "u16 \<Rightarrow> u8 \<Rightarrow> u16" where
  "bcc_octet bcc byte = drop_bit 8 bcc XOR bc_table_generate ! unat ((bcc XOR ucast byte) AND 0xff)"

section \<open>Transmit table\<close>

primrec tx_table_loop :: "nat \<Rightarrow> u8 \<Rightarrow> s32 \<Rightarrow> tx_entry \<Rightarrow> tx_entry" where
  "tx_table_loop 0 byte bit_mask r = r"
| "tx_table_loop (Suc len) byte bit_mask r =
     tx_table_loop len (drop_bit 1 byte) (drop_bit 1 bit_mask)
       (if byte AND 1 \<noteq> 0 then
          (let r = r\<lparr>te_string := te_string r OR ucast bit_mask\<rparr> in
           if te_state r = 4 then
             r\<lparr>te_state := 0, te_length := te_length r + 1, te_string := push_bit 1 (te_string r)\<rparr>
           else r\<lparr>te_state := te_state r + 1\<rparr>)
        else r\<lparr>te_state := 0\<rparr>)"

definition tx_table_valueN :: "nat \<Rightarrow> u8 \<Rightarrow> nat \<Rightarrow> tx_entry" where
  "tx_table_valueN state byte len =
     tx_table_loop len byte 0x80 \<lparr>te_string = 0, te_length = 0, te_state = word_of_nat state\<rparr>"

definition tx_table_value :: "nat \<Rightarrow> u8 \<Rightarrow> tx_entry" where
  "tx_table_value state byte = tx_table_valueN state byte 8"

definition tx_table_generate :: "tx_entry list" where
  "tx_table_generate = concat (map (\<lambda>j. map (\<lambda>k. tx_table_value j (word_of_nat k)) [0..<256]) [0..<5])"

definition tx_index :: "u32 \<Rightarrow> u8 \<Rightarrow> tx_entry" where
  "tx_index j k = tx_table_generate ! unat (push_bit 8 j OR ucast k)"

section \<open>Receive tables\<close>

text \<open>A one and a zero of the output: the code sets the mask bit or leaves it, and moves the mask.\<close>

definition rx_one :: "rx_entry \<times> s32 \<Rightarrow> rx_entry \<times> s32" where
  "rx_one = (\<lambda>(r, bit_mask). (r\<lparr>re_string := re_string r OR ucast bit_mask\<rparr>, push_bit 1 bit_mask))"

definition rx_zero :: "rx_entry \<times> s32 \<Rightarrow> rx_entry \<times> s32" where
  "rx_zero = (\<lambda>(r, bit_mask). (r, push_bit 1 bit_mask))"

definition rx_put :: "4 word \<Rightarrow> 4 word \<Rightarrow> rx_entry \<times> s32 \<Rightarrow> rx_entry \<times> s32" where
  "rx_put n state = (\<lambda>(r, bit_mask). (r\<lparr>re_length := re_length r + n, re_state := state\<rparr>, bit_mask))"

definition rx_goto :: "4 word \<Rightarrow> rx_entry \<times> s32 \<Rightarrow> rx_entry \<times> s32" where
  "rx_goto state = (\<lambda>(r, bit_mask). (r\<lparr>re_state := state\<rparr>, bit_mask))"

definition rx_mark :: "bool \<Rightarrow> bool \<Rightarrow> bool \<Rightarrow> bool \<Rightarrow> rx_entry \<times> s32 \<Rightarrow> rx_entry \<times> s32" where
  "rx_mark sync hunt flag idle = (\<lambda>(r, bit_mask).
     (r\<lparr>re_sync := sync, re_hunt := hunt, re_flag := flag, re_idle := idle\<rparr>, bit_mask))"

definition rx_idle0 :: "rx_entry \<times> s32 \<Rightarrow> rx_entry \<times> s32" where
  "rx_idle0 = (\<lambda>(r, bit_mask). (r\<lparr>re_idle := False\<rparr>, bit_mask))"

definition rx_restart :: "rx_entry \<times> s32 \<Rightarrow> rx_entry \<times> s32" where
  "rx_restart = (\<lambda>(r, bit_mask). (r\<lparr>re_string := 0, re_length := 0\<rparr>, 1))"

text \<open>The body of the loop: the case of the state with the next bit of the octet.\<close>

definition rx_table_bit :: "bool \<Rightarrow> rx_entry \<times> s32 \<Rightarrow> rx_entry \<times> s32" where
  "rx_table_bit b x =
     (let n = unat (re_state (fst x)) in
      if n = 0 then if b then rx_goto 1 x else steps [rx_zero, rx_put 1 0] x
      else if n = 1 then if b then rx_goto 2 x else steps [rx_zero, rx_one, rx_put 2 0] x
      else if n = 2 then if b then rx_goto 3 x else steps [rx_zero, rx_one, rx_one, rx_put 3 0] x
      else if n = 3 then if b then rx_goto 4 x else steps [rx_zero, rx_one, rx_one, rx_one, rx_put 4 0] x
      else if n = 4 then
        if b then rx_goto 5 x else steps [rx_zero, rx_one, rx_one, rx_one, rx_one, rx_put 5 0] x
      else if n = 5 then
        if b then rx_goto 7 x
        else steps [rx_zero, rx_one, rx_one, rx_one, rx_one, rx_one, rx_put 6 6] x
      else if n = 6 then rx_goto (if b then 9 else 0) x
      else if n = 7 then
        if b then steps [rx_mark False True False False, rx_zero, rx_put 1 15] x
        else steps [rx_mark False False True False, rx_goto 8] x
      else if n = 8 then steps [rx_restart, rx_mark True False True False, rx_goto (if b then 9 else 0)] x
      else if n = 9 then
        if b then steps [rx_idle0, rx_goto 10] x else steps [rx_idle0, rx_one, rx_put 1 0] x
      else if n = 10 then
        if b then steps [rx_idle0, rx_goto 11] x else steps [rx_idle0, rx_one, rx_one, rx_put 2 0] x
      else if n = 11 then
        if b then steps [rx_idle0, rx_goto 12] x
        else steps [rx_idle0, rx_one, rx_one, rx_one, rx_put 3 0] x
      else if n = 12 then
        if b then steps [rx_idle0, rx_goto 13] x
        else steps [rx_idle0, rx_one, rx_one, rx_one, rx_one, rx_put 4 0] x
      else if n = 13 then
        if b then steps [rx_idle0, rx_goto 14] x
        else steps [rx_idle0, rx_one, rx_one, rx_one, rx_one, rx_one, rx_put 5 6] x
      else if n = 14 then
        if b then steps [rx_mark False True False False, rx_goto 15] x
        else steps [rx_mark False False True False, rx_goto 8] x
      else steps [rx_mark False True False b, rx_goto (if b then 15 else 0)] x)"

primrec rx_table_loop :: "nat \<Rightarrow> u8 \<Rightarrow> rx_entry \<times> s32 \<Rightarrow> rx_entry \<times> s32" where
  "rx_table_loop 0 byte x = x"
| "rx_table_loop (Suc len) byte x = rx_table_loop len (push_bit 1 byte) (rx_table_bit (byte AND 0x80 \<noteq> 0) x)"

definition rx_table_valueN :: "nat \<Rightarrow> u8 \<Rightarrow> nat \<Rightarrow> rx_entry" where
  "rx_table_valueN state byte len = fst (rx_table_loop len byte
     (\<lparr>re_string = 0, re_length = 0, re_state = word_of_nat state,
       re_sync = False, re_hunt = False, re_flag = False, re_idle = False\<rparr>, 1))"

definition rx_table_value7 :: "nat \<Rightarrow> u8 \<Rightarrow> rx_entry" where
  "rx_table_value7 state byte = rx_table_valueN state byte 7"

definition rx_table_value8 :: "nat \<Rightarrow> u8 \<Rightarrow> rx_entry" where
  "rx_table_value8 state byte = rx_table_valueN state byte 8"

definition rx_table_generate7 :: "rx_entry list" where
  "rx_table_generate7 = concat (map (\<lambda>j. map (\<lambda>k. rx_table_value7 j (word_of_nat k)) [0..<256]) [0..<16])"

definition rx_table_generate8 :: "rx_entry list" where
  "rx_table_generate8 = concat (map (\<lambda>j. map (\<lambda>k. rx_table_value8 j (word_of_nat k)) [0..<256]) [0..<16])"

definition rx_index7 :: "u32 \<Rightarrow> u8 \<Rightarrow> rx_entry" where
  "rx_index7 j k = rx_table_generate7 ! unat (push_bit 8 j OR ucast k)"

definition rx_index8 :: "u32 \<Rightarrow> u8 \<Rightarrow> rx_entry" where
  "rx_index8 j k = rx_table_generate8 ! unat (push_bit 8 j OR ucast k)"

section \<open>The block check table\<close>

lemma word_and_1_neq_0: "(x AND 1 \<noteq> (0 :: 'a::len word)) \<longleftrightarrow> bit x 0"
  by (simp add: and_one_eq bit_0 odd_iff_mod_2_eq_one)

lemma bc_step: "(if (ucast y :: s32) AND 1 \<noteq> 0 then drop_bit 1 (ucast y) XOR 0x8408 else drop_bit 1 (ucast y)) =
    (ucast (crc_bit y) :: s32)"
proof (rule bit_eqI)
  fix n
  have c: "bit (0x8408 :: s32) n \<longleftrightarrow> n < 16 \<and> bit (0x8408 :: u16) n"
  proof -
    have "(0x8408 :: s32) = ucast (0x8408 :: u16)"
      by simp
    then show ?thesis
      by (simp only: bit_ucast_iff) (auto dest: bit_imp_le_length)
  qed
  show "bit (if (ucast y :: s32) AND 1 \<noteq> 0 then drop_bit 1 (ucast y) XOR 0x8408 else drop_bit 1 (ucast y) :: s32) n =
      bit (ucast (crc_bit y) :: s32) n"
    by (simp only: word_and_1_neq_0 crc_bit_def bit_ucast_iff c bit_xor_iff bit_drop_bit_eq comp_apply
        split: if_split) (auto dest: bit_imp_le_length)
qed

lemma bc_loop: "bc_table_loop n (ucast y) = ucast ((crc_bit ^^ n) y)"
  by (induction n arbitrary: y) (simp_all only: bc_table_loop.simps bc_step funpow.simps funpow_swap1 id_apply comp_apply)

lemma bc_table_nth: "i < 256 \<Longrightarrow> bc_table_generate ! i = bc_table_value (word_of_nat i) 8"
  unfolding bc_table_generate_def by (subst bc_table_fill.simps) (simp add: nth_append)

lemma crc_bits_low0: "take_bit n x = 0 \<Longrightarrow> (crc_bit ^^ n) x = drop_bit n x"
proof (induction n arbitrary: x)
  case (Suc n)
  have b: "\<not> bit x i" if "i < Suc n" for i
    using Suc.prems that by (metis bit_take_bit_iff bit_0_eq bot_apply bot_bool_def)
  then have c: "crc_bit x = drop_bit 1 x"
    by (simp add: crc_bit_def)
  have "take_bit n (drop_bit 1 x) = 0"
    by (rule bit_eqI) (use b in \<open>auto simp: bit_take_bit_iff bit_drop_bit_eq\<close>)
  from Suc.IH[OF this] c show ?case
    by (simp add: funpow_Suc_right del: funpow.simps)
qed simp

lemma bcc_octet_crc: "bcc_octet r o1 = crc_octet r o1"
proof -
  define x where "x = r XOR ucast o1"
  have l: "unat (x AND 0xff) < 256"
    using and_mask_less'[of 8 x] by (simp add: mask_eq_exp_minus_1 word_less_nat_alt)
  have "bc_table_generate ! unat (x AND 0xff) = bc_table_value (ucast (x AND 0xff)) 8"
    using bc_table_nth[OF l] by (simp add: of_nat_unat)
  also have "\<dots> = (crc_bit ^^ 8) (x AND 0xff)"
    unfolding bc_table_value_def bc_loop by (rule bit_eqI) (auto simp: bit_ucast_iff dest: bit_imp_le_length)
  finally have t: "bc_table_generate ! unat (x AND 0xff) = (crc_bit ^^ 8) (x AND 0xff)" .
  have d: "drop_bit 8 r = (crc_bit ^^ 8) (x AND NOT (mask 8))"
  proof -
    have "(crc_bit ^^ 8) (x AND NOT (mask 8)) = drop_bit 8 (x AND NOT (mask 8))"
      by (rule crc_bits_low0) (rule bit_eqI, auto simp: bit_take_bit_iff bit_and_iff bit_not_iff bit_mask_iff)
    also have "\<dots> = drop_bit 8 r"
      by (rule bit_eqI) (auto simp: x_def bit_drop_bit_eq bit_and_iff bit_not_iff bit_mask_iff bit_xor_iff
          bit_ucast_iff dest: bit_imp_le_length)
    finally show ?thesis ..
  qed
  have "(x AND NOT (mask 8)) XOR (x AND 0xff) = x"
  proof -
    have m: "(0xff :: u16) = mask 8"
      by (simp add: mask_eq_exp_minus_1)
    show ?thesis
      unfolding m by (rule bit_eqI) (auto simp: bit_xor_iff bit_and_iff bit_not_iff bit_mask_iff)
  qed
  then show ?thesis
    by (simp add: bcc_octet_def crc_octet_def d t flip: x_def crc_bits_xor)
qed

text \<open>C23. The block check: a table step is eight steps of the shift register with the generator polynomial
  \<open>0x8408\<close>, least significant bit first, and a string in which one octet has been changed, in any of its bits,
  has another block check.\<close>

theorem block_check_detects:
  assumes "i < length os" "os ! i \<noteq> x"
  shows "foldl bcc_octet 0xffff (os[i := x]) \<noteq> foldl bcc_octet 0xffff os
    \<and> foldl bcc_octet 0xffff os = foldl (\<lambda>r o1. (crc_bit ^^ 8) (r XOR ucast o1)) 0xffff os"
proof -
  have "bcc_octet = crc_octet"
    by (intro ext) (rule bcc_octet_crc)
  moreover have "crc_octet = (\<lambda>r o1. (crc_bit ^^ 8) (r XOR ucast o1))"
    by (intro ext) (rule crc_octet_def)
  ultimately show ?thesis
    using crc_one_octet[OF assms] by (simp add: crc_def)
qed

theorem block_check_detects_witness:
  "foldl bcc_octet 0xffff [0x80, 0x81] \<noteq> foldl bcc_octet 0xffff [0x80, 0x80]
     \<and> foldl bcc_octet 0xffff [0x80, 0x80] =
         foldl (\<lambda>r (o1 :: u8). (crc_bit ^^ 8) (r XOR ucast o1)) 0xffff [0x80, 0x80]"
  using block_check_detects[of 1 "[0x80, 0x80]" "0x81"] by auto

section \<open>The transmit table\<close>

text \<open>The mask with \<open>k\<close> bits to go.\<close>

definition tx_mask :: "nat \<Rightarrow> s32" where
  "tx_mask k = drop_bit 1 (push_bit k 1)"

lemma tx_mask_Suc: "k < 10 \<Longrightarrow> tx_mask (Suc k) = 2 ^ k"
  by (rule bit_eqI) (auto simp: tx_mask_def bit_drop_bit_eq bit_exp_iff simp flip: power_Suc)

lemma tx_mask_next: "k < 10 \<Longrightarrow> drop_bit (Suc 0) (tx_mask (Suc k)) = tx_mask k"
  by (simp add: tx_mask_Suc) (simp add: tx_mask_def)

lemma te_or_mask:
  "j < 10 \<Longrightarrow> push_bit (Suc j) (S :: 10 word) OR ucast (tx_mask (Suc j)) = push_bit j (2 * S + 1)"
proof -
  assume j: "j < 10"
  have "(2 * S + 1 :: 10 word) = push_bit 1 S OR 1"
    by (simp add: or_one_eq push_bit_eq_mult mult.commute)
  moreover have "(ucast (2 ^ j :: s32) :: 10 word) = push_bit j 1"
    by (rule bit_eqI) (use j in \<open>auto simp: bit_ucast_iff bit_exp_iff\<close>)
  ultimately show ?thesis
    by (simp add: tx_mask_Suc j push_bit_or)
qed

lemma tx_step:
  assumes "k < 10"
  shows "tx_table_loop (Suc k) byte (tx_mask (Suc k)) \<lparr>te_string = push_bit (Suc k) S, te_length = l, te_state = n\<rparr> =
    tx_table_loop k (drop_bit 1 byte) (tx_mask k)
      (if bit byte 0 then
         if n = 4 then \<lparr>te_string = push_bit k (2 * (2 * S + 1)), te_length = l + 1, te_state = 0\<rparr>
         else \<lparr>te_string = push_bit k (2 * S + 1), te_length = l, te_state = n + 1\<rparr>
       else \<lparr>te_string = push_bit k (2 * S), te_length = l, te_state = 0\<rparr>)"
proof -
  have pb: "push_bit 1 (push_bit k X) = push_bit k (2 * X)" "push_bit (Suc k) X = push_bit k (2 * X)"
    for X :: "10 word"
    by (simp_all add: push_bit_eq_mult algebra_simps)
  have m: "drop_bit 1 (tx_mask (Suc k)) = tx_mask k"
    using tx_mask_next[OF assms] by simp
  show ?thesis
    using te_or_mask[OF assms, of S]
    by (simp only: tx_table_loop.simps word_and_1_neq_0 m pb Let_def tx_entry.simps split: if_split)
qed

lemma msb_val_snoc:
  "(2 * msb_val bs :: 'a::len word) = msb_val (bs @ [False])"
  "(2 * msb_val bs + 1 :: 'a::len word) = msb_val (bs @ [True])"
  by simp_all

text \<open>The loop with \<open>k\<close> bits to go, after the output \<open>out\<close>.\<close>

lemma tx_loop:
  assumes "k \<le> 8" "n < 5"
  shows "tx_table_loop k byte (tx_mask k)
      \<lparr>te_string = push_bit k (msb_val out), te_length = word_of_nat l, te_state = word_of_nat n\<rparr> =
    (let bs = lsb_bits k byte; st = stuff n bs in
     \<lparr>te_string = msb_val (out @ st), te_length = word_of_nat (l + (length st - k)),
      te_state = word_of_nat (stuff_state n bs)\<rparr>)"
  using assms
proof (induction k arbitrary: byte out l n)
  case (Suc k)
  have bits: "lsb_bits (Suc k) byte = bit byte 0 # lsb_bits k (drop_bit 1 byte)"
    by (rule nth_equalityI) (auto simp: nth_Cons bit_drop_bit_eq split: nat.split)
  have four: "(word_of_nat n :: 3 word) = 4 \<longleftrightarrow> n = 4"
  proof -
    have "n = 0 \<or> n = 1 \<or> n = 2 \<or> n = 3 \<or> n = 4"
      using Suc.prems(2) by arith
    then show ?thesis
      by (elim disjE) simp_all
  qed
  have len: "k \<le> length (stuff m (lsb_bits k byte'))" for m byte'
    using length_stuff[of "lsb_bits k byte'" m] by simp
  have k: "k < 10" "k \<le> 8"
    using Suc.prems by simp_all
  note IH = Suc.IH[OF k(2), of _ "drop_bit 1 byte"]
  note step = tx_step[OF k(1), of byte "msb_val out" "word_of_nat l" "word_of_nat n"]
  consider (zero) "\<not> bit byte 0" | (stuffed) "bit byte 0" "n = 4" | (one) "bit byte 0" "n \<noteq> 4"
    by blast
  then show ?case
  proof cases
    case zero
    then show ?thesis
      using step IH[of 0 "out @ [False]" l] len[of 0 "drop_bit 1 byte"]
      by (simp add: bits Let_def Suc_diff_le del: tx_table_loop.simps push_bit_Suc)
  next
    case stuffed
    then show ?thesis
      using step IH[of 0 "out @ [True, False]" "Suc l"] len[of 0 "drop_bit 1 byte"]
      by (simp add: bits Let_def Suc_diff_le algebra_simps del: tx_table_loop.simps push_bit_Suc)
  next
    case one
    then show ?thesis
      using step IH[of "n + 1" "out @ [True]" l] len[of "n + 1" "drop_bit 1 byte"] Suc.prems(2)
      by (simp add: bits Let_def Suc_diff_le four algebra_simps del: tx_table_loop.simps push_bit_Suc)
  qed
qed (simp add: lsb_bits_def)

lemma tx_table_value_stuff:
  assumes "n < 5"
  shows "tx_table_value n byte =
    \<lparr>te_string = msb_val (stuff n (lsb_bits 8 byte)),
     te_length = word_of_nat (length (stuff n (lsb_bits 8 byte)) - 8),
     te_state = word_of_nat (stuff_state n (lsb_bits 8 byte))\<rparr>"
  using tx_loop[of 8 n byte "[]" 0] assms by (simp add: tx_table_value_def tx_table_valueN_def Let_def tx_mask_def)

lemma tx_index_value: "unat j < 5 \<Longrightarrow> tx_index j k = tx_table_value (unat j) k"
proof -
  assume j: "unat j < 5"
  show ?thesis
    using nth_concat_table[OF j octet_less[of k], of "\<lambda>j k. tx_table_value j (word_of_nat k)"] table_index[of j k] j
    by (simp add: tx_index_def tx_table_generate_def)
qed

lemma tx_entry_bounds:
  assumes "n < 5"
  shows "length (stuff n (lsb_bits 8 (byte :: u8))) - 8 \<le> 2"
  using length_stuff_le[OF assms, of "lsb_bits 8 byte"] assms by simp

lemma unat_2_word: "m \<le> 2 \<Longrightarrow> unat (word_of_nat m :: 2 word) = m"
  by (simp add: unat_of_nat)

lemma tx_entry_stuffs:
  fixes byte :: u8
  assumes "n < 5"
  defines "e \<equiv> tx_table_value n byte"
  shows "msb_bits (8 + unat (te_length e)) (te_string e) = stuff n (lsb_bits 8 byte)
    \<and> unat (te_state e) = stuff_state n (lsb_bits 8 byte) \<and> stuff_state n (lsb_bits 8 byte) < 5
    \<and> unat (te_length e) \<le> 2 \<and> take_bit (8 + unat (te_length e)) (te_string e) = te_string e
    \<and> ones_run n (msb_bits (8 + unat (te_length e)) (te_string e)) \<le> 5"
proof -
  let ?bs = "lsb_bits 8 byte" and ?l = "length (stuff n (lsb_bits 8 byte)) - 8"
  have l: "unat (te_length e) = ?l" "length (stuff n ?bs) = 8 + ?l"
    using unat_2_word[OF tx_entry_bounds[OF assms(1), of byte]] length_stuff[of ?bs n]
    by (simp_all only: e_def tx_table_value_stuff assms(1) tx_entry.simps) simp
  have s: "te_string e = msb_val (stuff n ?bs)"
    by (simp add: e_def tx_table_value_stuff assms(1))
  have m: "msb_bits (8 + unat (te_length e)) (te_string e) = stuff n ?bs"
    unfolding s using tx_entry_bounds[OF assms(1), of byte] l by (intro msb_bits_msb_val) simp_all
  have len: "length (stuff n ?bs) = 8 + unat (te_length e)"
    using l by simp
  have t: "take_bit (8 + unat (te_length e)) (te_string e) = te_string e"
    unfolding s by (rule bit_eqI) (auto simp: bit_take_bit_iff bit_lsb_val len)
  have u: "unat (te_state e) = stuff_state n ?bs"
    using stuff_state_less[OF assms(1), of ?bs] by (simp add: e_def tx_table_value_stuff assms(1) unat_of_nat)
  show ?thesis
    unfolding m using t u l(1) tx_entry_bounds[OF assms(1), of byte] stuff_state_less[OF assms(1), of ?bs]
      ones_run_stuff[OF assms(1), of ?bs] by metis
qed

text \<open>C21. The transmit table, for every state and octet: the entry's string, read from its most significant
  bit, is the octet with its least significant bit first and a zero after five ones in a row, counting the
  ones sent before; the entry's state is the number of ones at the end; at most two zeros are inserted, so the
  10-bit and 2-bit fields hold the result; and the line never carries six ones in a row.\<close>

theorem tx_table_stuffs:
  fixes byte :: u8
  assumes "n < 5"
  defines "e \<equiv> tx_table_value n byte"
  shows "msb_bits (8 + unat (te_length e)) (te_string e) = stuff n (lsb_bits 8 byte)
    \<and> unat (te_state e) = stuff_state n (lsb_bits 8 byte) \<and> stuff_state n (lsb_bits 8 byte) < 5
    \<and> unat (te_length e) \<le> 2 \<and> take_bit (8 + unat (te_length e)) (te_string e) = te_string e
    \<and> ones_run n (msb_bits (8 + unat (te_length e)) (te_string e)) \<le> 5"
  unfolding e_def by (rule tx_entry_stuffs[OF assms(1)])

theorem tx_table_stuffs_witness:
  "(4 :: nat) < 5 \<and> tx_table_value 4 0xff = \<lparr>te_string = 0x2fb, te_length = 2, te_state = 2\<rparr>
     \<and> ones_run 4 (msb_bits (8 + unat (te_length (tx_table_value 4 0xff))) (te_string (tx_table_value 4 0xff))) \<le> 5"
proof -
  have "tx_table_value 4 0xff = \<lparr>te_string = 0x2fb, te_length = 2, te_state = 2\<rparr>"
    by code_simp
  then show ?thesis
    using tx_table_stuffs[of 4 "0xff"] by auto
qed

section \<open>The receive tables\<close>

lemma unat_4_less: "unat (w :: 4 word) < 16"
  using unsigned_less[of w] by simp

text \<open>The states of the receiver by what they stand for: six ones, a flag or too many ones, a zero that is out, and one to
  five ones behind a held zero or without one.\<close>

lemma less_16_cases: "n < 16 \<Longrightarrow> n = 7 \<or> n = 14 \<or> n = 8 \<or> n = 15 \<or> n = 0 \<or> n = 6 \<or>
    n = 1 \<or> n = 9 \<or> n = 2 \<or> n = 10 \<or> n = 3 \<or> n = 11 \<or> n = 4 \<or> n = 12 \<or> n = 5 \<or> n = (13 :: nat)"
  by arith

definition put_ok :: "rx_entry \<times> s32 \<Rightarrow> bool list \<Rightarrow> bool" where
  "put_ok x out = (re_string (fst x) = lsb_val out \<and> snd x = 2 ^ length out)"

lemma put_ok_one: "zs \<noteq> [] \<Longrightarrow> last zs \<Longrightarrow> put_ok x (butlast zs) \<Longrightarrow> put_ok (rx_one x) zs"
proof -
  assume a: "zs \<noteq> []" "last zs" and p: "put_ok x (butlast zs)"
  have z: "zs = butlast zs @ [True]"
    using a append_butlast_last_id by fastforce
  have "(ucast (2 ^ n :: s32) :: 12 word) = 2 ^ n" for n
    by (rule bit_eqI) (auto simp: bit_ucast_iff bit_exp_iff)
  with p show ?thesis
    by (subst z, subst (asm) put_ok_def)
      (auto simp: put_ok_def rx_one_def case_prod_beta lsb_val_append simp del: append_butlast_last_id)
qed

lemma put_ok_zero: "zs \<noteq> [] \<Longrightarrow> \<not> last zs \<Longrightarrow> put_ok x (butlast zs) \<Longrightarrow> put_ok (rx_zero x) zs"
proof -
  assume a: "zs \<noteq> []" "\<not> last zs" and p: "put_ok x (butlast zs)"
  have z: "zs = butlast zs @ [False]"
    using a append_butlast_last_id by fastforce
  from p show ?thesis
    by (subst z, subst (asm) put_ok_def)
      (auto simp: put_ok_def rx_zero_def case_prod_beta lsb_val_append simp del: append_butlast_last_id)
qed

lemma put_ok_other [simp]:
  "put_ok (rx_put n s x) out = put_ok x out" "put_ok (rx_goto s x) out = put_ok x out"
  "put_ok (rx_mark a b c d x) out = put_ok x out" "put_ok (rx_idle0 x) out = put_ok x out"
  "put_ok (rx_restart x) []"
  by (simp_all add: put_ok_def rx_put_def rx_goto_def rx_mark_def rx_idle0_def rx_restart_def case_prod_beta)

lemma state_cases:
  assumes "unat (re_state r) = n"
  obtains "n = 0" | "n = 1" | "n = 2" | "n = 3" | "n = 4" | "n = 5" | "n = 6" | "n = 7" | "n = 8" | "n = 9"
    | "n = 10" | "n = 11" | "n = 12" | "n = 13" | "n = 14" | "n = 15"
  using less_16_cases[OF unat_4_less[of "re_state r"]] unfolding assms by blast

lemma rx_bit_out:
  assumes "put_ok x out" "unat (re_state (fst x)) = n"
  shows "put_ok (rx_table_bit b x) ((if n = 8 then [] else out) @ rx_out n b)"
  unfolding rx_table_bit_def assms(2) Let_def
  by (rule state_cases[OF assms(2)]; cases b; simp add: assms(1) rx_out_def put_ok_one put_ok_zero butlast_append
      numeral_eq_Suc)

text \<open>The other fields.\<close>

lemma rx_bit_fields:
  assumes "unat (re_state (fst x)) = n"
  shows "re_length (fst (rx_table_bit b x)) = (if n = 8 then 0 else re_length (fst x)) + word_of_nat (length (rx_out n b))"
    and "unat (re_state (fst (rx_table_bit b x))) = rx_next n b"
    and "re_sync (fst (rx_table_bit b x)) = (if n \<in> {7, 14, 15} then False else n = 8 \<or> re_sync (fst x))"
    and "re_hunt (fst (rx_table_bit b x)) = (if n \<in> {7, 14} then b else if n = 8 then False else n = 15 \<or> re_hunt (fst x))"
    and "re_flag (fst (rx_table_bit b x)) = (if n \<in> {7, 14} then \<not> b else if n = 15 then False else n = 8 \<or> re_flag (fst x))"
    and "re_idle (fst (rx_table_bit b x)) =
      (if n = 15 then b else if n \<in> {7, 8, 9, 10, 11, 12, 13, 14} then False else re_idle (fst x))"
  unfolding rx_table_bit_def assms Let_def
  by (rule state_cases[OF assms]; cases b;
      simp add: rx_out_def rx_next_def rx_one_def rx_zero_def rx_put_def rx_goto_def rx_mark_def rx_idle0_def
        rx_restart_def case_prod_beta)+

definition rx_sim :: "rx_entry \<times> s32 \<Rightarrow> reading \<Rightarrow> bool" where
  "rx_sim x A = (put_ok x (rd_out A) \<and> re_length (fst x) = word_of_nat (length (rd_out A))
     \<and> unat (re_state (fst x)) = rd_state A \<and> re_sync (fst x) = rd_sync A \<and> re_hunt (fst x) = rd_hunt A
     \<and> re_flag (fst x) = rd_flag A \<and> re_idle (fst x) = rd_idle A)"

lemma rx_sim_bit: "rx_sim x A \<Longrightarrow> rx_sim (rx_table_bit b x) (rd_bit b A)"
  using rx_bit_out[of x "rd_out A" "rd_state A" b] rx_bit_fields[of x "rd_state A" b]
  by (simp add: rx_sim_def rd_bit_def Let_def)

lemma msb_bits_Suc_octet:
  "k < 8 \<Longrightarrow> take (Suc k) (msb_bits 8 (byte :: u8)) = (byte AND 0x80 \<noteq> 0) # take k (msb_bits 8 (push_bit 1 byte))"
proof -
  assume k: "k < 8"
  have 80: "byte AND 0x80 \<noteq> 0 \<longleftrightarrow> bit byte 7"
    using and_exp_eq_0_iff_not_bit[of byte 7] by simp
  show ?thesis
    using k by (intro nth_equalityI)
      (auto simp: 80 msb_bits_def lsb_bits_def rev_nth nth_Cons bit_push_bit_iff split: nat.split
        simp del: push_bit_Suc)
qed

lemma rx_sim_loop:
  "k \<le> 8 \<Longrightarrow> rx_sim x A \<Longrightarrow> rx_sim (rx_table_loop k byte x) (fold rd_bit (take k (msb_bits 8 byte)) A)"
  by (induction k arbitrary: byte x A) (simp_all add: msb_bits_Suc_octet rx_sim_bit)

text \<open>The bits read are at most four more than the bits of the octet: the weight of a state bounds what it
  may still release.\<close>

definition rx_weight :: "nat \<Rightarrow> nat" where
  "rx_weight s = (if s \<le> 5 then s + 1 else if 9 \<le> s \<and> s \<le> 13 then s - 8 else 1)"

lemma rx_weight_next:
  "s < 16 \<Longrightarrow> length (rx_out s b) + rx_weight (rx_next s b) \<le> rx_weight s + 1 \<and> rx_next s b < 16"
  by (drule less_16_cases) (elim disjE; cases b; simp add: rx_out_def rx_weight_def rx_next_def)

lemma rd_weight:
  assumes "rd_state A < 16"
  shows "length (rd_out (fold rd_bit bs A)) + rx_weight (rd_state (fold rd_bit bs A)) \<le>
      length (rd_out A) + rx_weight (rd_state A) + length bs \<and> rd_state (fold rd_bit bs A) < 16"
  using assms
proof (induction bs arbitrary: A)
  case (Cons b bs)
  have "rd_state (rd_bit b A) < 16"
    "length (rd_out (rd_bit b A)) + rx_weight (rd_state (rd_bit b A)) \<le> length (rd_out A) + rx_weight (rd_state A) + 1"
    using rx_weight_next[OF Cons.prems, of b] by (auto simp: rd_bit_def Let_def)
  with Cons.IH[of "rd_bit b A"] show ?case
    by simp
qed simp

lemma rd_weight2:
  "s < 16 \<Longrightarrow> (let A = fold rd_bit [a, b] (reading0 s) in
     length (rd_out A) + rx_weight (rd_state A) \<le> 7 \<and> rd_state A < 16)"
  by (drule less_16_cases)
    (elim disjE; cases a; cases b; simp add: rd_bit_def reading0_def rx_out_def rx_weight_def rx_next_def)

lemma rd_out_bound:
  assumes "s < 16" "length bs \<le> 8"
  shows "length (rd_out (read_bits s bs)) \<le> 12 \<and> rd_state (read_bits s bs) < 16"
proof (cases "2 \<le> length bs")
  case True
  then obtain a b cs where bs: "bs = a # b # cs"
    by (cases bs; cases "tl bs") auto
  define A where "A = fold rd_bit [a, b] (reading0 s)"
  have A: "length (rd_out A) + rx_weight (rd_state A) \<le> 7" "rd_state A < 16"
    using rd_weight2[OF assms(1), of a b] by (simp_all add: A_def Let_def)
  have r: "read_bits s bs = fold rd_bit cs A"
    by (simp add: read_bits_def A_def bs)
  have "1 \<le> rx_weight (rd_state (fold rd_bit cs A))"
    by (auto simp: rx_weight_def)
  moreover have "length cs \<le> 6"
    using assms(2) bs by simp
  ultimately have "length (rd_out (fold rd_bit cs A)) \<le> 12"
    using conjunct1[OF rd_weight[OF A(2), of cs]] A(1) by linarith
  then show ?thesis
    using rd_weight[OF A(2), of cs] by (simp only: r simp_thms)
next
  case False
  then have l: "length bs \<le> 1"
    by simp
  have "rx_weight s \<le> 6" "rd_state (reading0 s) < 16"
    using assms(1) by (auto simp: rx_weight_def reading0_def)
  then show ?thesis
    using rd_weight[of "reading0 s" bs] l by (simp add: read_bits_def) (simp add: reading0_def)
qed

lemma rx_entry_reads:
  fixes byte :: u8
  assumes "s < 16" "k \<le> 8"
  defines "r \<equiv> rx_table_valueN s byte k" and "A \<equiv> read_bits s (take k (msb_bits 8 byte))"
  shows "lsb_bits (length (rd_out A)) (re_string r) = rd_out A \<and> re_string r = lsb_val (rd_out A)
    \<and> unat (re_length r) = length (rd_out A) \<and> length (rd_out A) \<le> 12
    \<and> unat (re_state r) = rd_state A \<and> re_sync r = rd_sync A \<and> re_hunt r = rd_hunt A
    \<and> re_flag r = rd_flag A \<and> re_idle r = rd_idle A"
proof -
  define x0 :: "rx_entry \<times> s32" where "x0 = (\<lparr>re_string = 0, re_length = 0, re_state = word_of_nat s,
    re_sync = False, re_hunt = False, re_flag = False, re_idle = False\<rparr>, 1)"
  have "unat (word_of_nat s :: 4 word) = s"
    using assms(1) by (simp add: unat_of_nat)
  then have "rx_sim x0 (reading0 s)"
    by (simp add: rx_sim_def x0_def reading0_def put_ok_def)
  from rx_sim_loop[OF assms(2) this, of byte]
  have sim: "rx_sim (rx_table_loop k byte x0) A"
    by (simp add: A_def read_bits_def)
  have b: "length (rd_out A) \<le> 12"
    using rd_out_bound[OF assms(1), of "take k (msb_bits 8 byte)"] assms(2) by (simp add: A_def)
  have "unat (word_of_nat (length (rd_out A)) :: 4 word) = length (rd_out A)"
    using b by (simp add: unat_of_nat)
  with sim b show ?thesis
    by (simp add: rx_sim_def put_ok_def r_def rx_table_valueN_def x0_def lsb_bits_lsb_val)
qed

text \<open>C22. The receive tables, for every state, octet and octet length: the entry holds the bits that the bit by
  bit receiver releases after its last flag, first bit least significant, with their number, its new state and
  its marks for synchronisation, hunting, flag and idle; and the bits are never more than twelve, so the entry's
  string does not overflow.\<close>

theorem rx_table_reads:
  fixes byte :: u8
  assumes "s < 16" "k \<le> 8"
  defines "r \<equiv> rx_table_valueN s byte k" and "A \<equiv> read_bits s (take k (msb_bits 8 byte))"
  shows "lsb_bits (length (rd_out A)) (re_string r) = rd_out A \<and> re_string r = lsb_val (rd_out A)
    \<and> unat (re_length r) = length (rd_out A) \<and> length (rd_out A) \<le> 12
    \<and> unat (re_state r) = rd_state A \<and> re_sync r = rd_sync A \<and> re_hunt r = rd_hunt A
    \<and> re_flag r = rd_flag A \<and> re_idle r = rd_idle A"
  unfolding r_def A_def by (rule rx_entry_reads[OF assms(1,2)])

theorem rx_table_reads_witness:
  "(5 :: nat) < 16 \<and> (8 :: nat) \<le> 8
     \<and> rx_table_valueN 5 0 8 = \<lparr>re_string = 0x3e, re_length = 12, re_state = 0, re_sync = False, re_hunt = False,
         re_flag = False, re_idle = False\<rparr>
     \<and> lsb_bits 12 (re_string (rx_table_valueN 5 0 8)) = rd_out (read_bits 5 (take 8 (msb_bits 8 (0 :: u8))))"
proof -
  have "rx_table_valueN 5 0 8 = \<lparr>re_string = 0x3e, re_length = 12, re_state = 0, re_sync = False, re_hunt = False,
      re_flag = False, re_idle = False\<rparr>"
    by code_simp
  then show ?thesis
    using rx_table_reads[of 5 8 0] by auto
qed

lemma rx_index_value:
  assumes "unat j < 16"
  shows "rx_index8 j k = rx_table_valueN (unat j) k 8" and "rx_index7 j k = rx_table_valueN (unat j) k 7"
  using nth_concat_table[OF assms octet_less[of k], of "\<lambda>j k. rx_table_value8 j (word_of_nat k)"]
    nth_concat_table[OF assms octet_less[of k], of "\<lambda>j k. rx_table_value7 j (word_of_nat k)"] table_index[of j k] assms
  by (simp_all add: rx_index8_def rx_table_generate8_def rx_table_value8_def rx_index7_def
      rx_table_generate7_def rx_table_value7_def)

end
