(* ===== verification/HDLC_Path.thy ===== *)
theory HDLC_Path
  imports HDLC_Tables SL_Events
begin

text \<open>
  The soft HDLC of \<open>src/src/drivers/sl_x400p.c\<close>: the transmit and receive paths of a channel
  (\<open>xp_path_t\<close>), \<open>xp_tx_block\<close> and \<open>xp_rx_block\<close>, which the card's tasklet calls for every channel and every
  block of eight frames, \<open>xp_span_process\<close>, \<open>xp_card_tasklet\<close> and the transfer of a block in the interrupt.

  A \<open>line\<close> is a channel with its two paths and the counters they keep.  The signal units it sends come from
  \<open>sl_daedt_transmission_request\<close>, the frames it receives go to \<open>sl_daedr_received_bits\<close>, and every error to
  \<open>sl_daedr_su_in_error\<close>: the events of \<open>SL_Events\<close>.  \<open>tx_octet\<close> and \<open>rx_octet\<close> are the bodies of the loops of the
  two block functions; the gotos of the C code are calls.  The blocks of a message are not told apart: a
  message is its octets, and what is left of it to send is a list.
\<close>

section \<open>State\<close>

datatype tx_mode = TX_MODE_IDLE | TX_MODE_FLAG | TX_MODE_BOF | TX_MODE_MOF | TX_MODE_BCC

datatype rx_mode = RX_MODE_IDLE | RX_MODE_HUNT | RX_MODE_SYNC | RX_MODE_MOF

text \<open>\<open>SDL_OTHER\<close> stands for the values of \<open>iftype\<close> that the code does not name: the \<open>default\<close> of its switches.\<close>

datatype sdl_type = SDL_DS0 | SDL_DS0A | SDL_E1 | SDL_T1 | SDL_J1 | SDL_OTHER

datatype sdt_flags = SDT_FLAGS_ONE | SDT_FLAGS_SHARED | SDT_FLAGS_TWO | SDT_FLAGS_THREE

record tx_path =
  t_residue :: u32
  t_rbits :: u32
  t_bcc :: u16
  t_state :: u32
  t_mode :: tx_mode
  t_msg :: "msg option"
  t_nxt :: "u8 list option"

record rx_path =
  r_residue :: u32
  r_rbits :: u32
  r_bcc :: u16
  r_state :: u32
  r_mode :: rx_mode
  r_bytes :: u32
  r_msg :: "u8 list option"
  r_nxt :: "u8 list option"
  r_octets :: u32

record hdlc_stats =
  tx_bytes :: u32
  tx_sus :: u32
  rx_bytes :: u32
  rx_sus :: u32
  rx_aborts :: u32
  rx_sus_in_error :: u32
  rx_sync_transitions :: u32
  rx_bits_octet_counted :: u32
  rx_crc_errors :: u32
  rx_frame_errors :: u32
  rx_frame_too_long :: u32
  rx_frame_too_short :: u32
  rx_residue_errors :: u32
  rx_length_error :: u32
  sdl_tx_octets :: u32
  sdl_rx_octets :: u32
  sdl_rx_overflows :: u32
  sdl_tx_underruns :: u32
  sdl_rx_overruns :: u32
  sdt_tx_underruns :: u32
  sdt_rx_overruns :: u32

text \<open>\<open>fastbuf\<close> is the size \<open>FASTBUF\<close> of a block of the pool, which depends on the machine.\<close>

record line =
  l_ch :: ch
  l_tx :: tx_path
  l_rx :: rx_path
  l_st :: hdlc_stats
  cfg_N :: u32
  cfg_m :: u32
  cfg_f :: sdt_flags
  ifblksize :: u32
  fastbuf :: nat

section \<open>Transmission\<close>

text \<open>Shift the residue and put \<open>n\<close> bits behind it.\<close>

definition tx_put :: "nat \<Rightarrow> u32 \<Rightarrow> tx_path \<Rightarrow> tx_path" where
  "tx_put n w tx = tx\<lparr>t_residue := push_bit n (t_residue tx) OR w, t_rbits := t_rbits tx + word_of_nat n\<rparr>"

definition xp_tx_bitstuff :: "u8 \<Rightarrow> tx_path \<Rightarrow> tx_path" where
  "xp_tx_bitstuff byte tx =
     (let t = tx_index (t_state tx) byte
      in tx_put (8 + unat (te_length t)) (ucast (te_string t)) (tx\<lparr>t_state := ucast (te_state t)\<rparr>))"

text \<open>The label \<open>next_message\<close>.  A message whose \<open>mid\<close> is 0 is a block of the driver itself (among them the
  repeat buffer \<open>tx.cmp\<close>), whose release is not recorded.\<close>

definition tx_next_message :: "line \<Rightarrow> line" where
  "tx_next_message l =
     (let ch = (case t_msg (l_tx l) of None \<Rightarrow> l_ch l
                | Some m \<Rightarrow> if mid m = 0 then l_ch l else freemsg (Some (mid m)) (l_ch l))
      in case sl_daedt_transmission_request ch of
           (Some m, ch) \<Rightarrow> l\<lparr>l_ch := ch,
             l_tx := (l_tx l)\<lparr>t_msg := Some m, t_nxt := Some (octets m), t_mode := TX_MODE_BOF\<rparr>\<rparr>
         | (None, ch) \<Rightarrow> l\<lparr>l_ch := ch, l_tx := (l_tx l)\<lparr>t_msg := None, t_nxt := None\<rparr>\<rparr>)"

definition tx_flags :: "sdt_flags \<Rightarrow> tx_path \<Rightarrow> tx_path" where
  "tx_flags f = (case f of SDT_FLAGS_ONE \<Rightarrow> tx_put 8 0x7e | SDT_FLAGS_SHARED \<Rightarrow> tx_put 15 0x3f7e
     | SDT_FLAGS_TWO \<Rightarrow> tx_put 16 0x7e7e | SDT_FLAGS_THREE \<Rightarrow> tx_put 24 0x7e7e7e)"

text \<open>The switch on the mode: what follows the bits that are left.\<close>

definition tx_fill :: "line \<Rightarrow> line" where
  "tx_fill l = (case t_mode (l_tx l) of
       TX_MODE_IDLE \<Rightarrow> l\<lparr>l_tx := tx_put 8 0xff (l_tx l)\<rparr>
     | TX_MODE_FLAG \<Rightarrow> l\<lparr>l_tx := tx_put 8 0x7e (l_tx l)\<rparr>
     | TX_MODE_BOF \<Rightarrow>
         l\<lparr>l_tx := (tx_flags (cfg_f l) (l_tx l))\<lparr>t_state := 0, t_bcc := 0xffff, t_mode := TX_MODE_MOF\<rparr>\<rparr>
     | TX_MODE_MOF \<Rightarrow>
         (case t_nxt (l_tx l) of
            Some (byte # bytes) \<Rightarrow>
              l\<lparr>l_tx := xp_tx_bitstuff byte
                  ((l_tx l)\<lparr>t_nxt := Some bytes, t_bcc := bcc_octet (t_bcc (l_tx l)) byte\<rparr>),
                l_st := (l_st l)\<lparr>tx_bytes := tx_bytes (l_st l) + 1\<rparr>\<rparr>
          | _ \<Rightarrow>
              (let bcc = NOT (t_bcc (l_tx l))
               in l\<lparr>l_tx := (xp_tx_bitstuff (ucast bcc) ((l_tx l)\<lparr>t_nxt := None, t_bcc := bcc\<rparr>))
                      \<lparr>t_mode := TX_MODE_BCC\<rparr>\<rparr>))
     | TX_MODE_BCC \<Rightarrow>
         tx_next_message
           (l\<lparr>l_tx := (xp_tx_bitstuff (ucast (drop_bit 8 (t_bcc (l_tx l)))) (l_tx l))\<lparr>t_mode := TX_MODE_FLAG\<rparr>,
              l_st := (l_st l)\<lparr>tx_sus := tx_sus (l_st l) + 1\<rparr>\<rparr>))"

text \<open>Whether an octet carries seven bits.\<close>

definition seven :: "sdl_type \<Rightarrow> bool" where
  "seven type = (type = SDL_DS0A \<or> type = SDL_J1)"

definition tx_drain :: "sdl_type \<Rightarrow> line \<Rightarrow> u8 \<times> line" where
  "tx_drain type l =
     (let rbits = t_rbits (l_tx l) - 8
      in (ucast (drop_bit (unat rbits) (t_residue (l_tx l))),
          l\<lparr>l_tx := (l_tx l)\<lparr>t_rbits := if seven type then rbits + 1 else rbits\<rparr>,
            l_st := (l_st l)\<lparr>sdl_tx_octets := sdl_tx_octets (l_st l) + 1\<rparr>\<rparr>))"

definition tx_octet :: "sdl_type \<Rightarrow> line \<Rightarrow> u8 \<times> line" where
  "tx_octet type l = tx_drain type (if 8 \<le> t_rbits (l_tx l) then l else tx_fill l)"

text \<open>A channel that only moves octets: \<open>None\<close> when there is nothing to send.\<close>

definition tx_raw_octet :: "line \<Rightarrow> u8 option \<times> line" where
  "tx_raw_octet l =
     (let send = (\<lambda>bs l. (Some (ucast (rd8 bs 0)),
            l\<lparr>l_tx := (l_tx l)\<lparr>t_nxt := if tl bs = [] then None else Some (tl bs)\<rparr>,
              l_st := (l_st l)\<lparr>sdl_tx_octets := sdl_tx_octets (l_st l) + 1\<rparr>\<rparr>))
      in case t_nxt (l_tx l) of
           Some (b # bs) \<Rightarrow> send (b # bs) l
         | _ \<Rightarrow>
             (case sl_daedt_transmission_request
                     (case t_msg (l_tx l) of None \<Rightarrow> l_ch l
                      | Some m \<Rightarrow> if mid m = 0 then l_ch l else freemsg (Some (mid m)) (l_ch l)) of
                (Some m, ch) \<Rightarrow> send (octets m) (l\<lparr>l_ch := ch, l_tx := (l_tx l)\<lparr>t_msg := Some m\<rparr>\<rparr>)
              | (None, ch) \<Rightarrow>
                  (None, l\<lparr>l_ch := sdl_tx_buffer_overflows_update (\<lambda>n. n + 1) ch,
                           l_tx := (l_tx l)\<lparr>t_msg := None, t_nxt := None\<rparr>\<rparr>)))"

section \<open>Blocks of frames\<close>

definition xp_t1_chan_map :: "nat list" where
  "xp_t1_chan_map = [0, 1, 2, 3, 5, 6, 7, 9, 10, 11, 13, 14, 15, 17, 18, 19, 21, 22, 23, 25, 26, 27, 29, 30, 31]"

definition xp_e1_chan_map :: "nat list" where
  "xp_e1_chan_map = [0, 1, 2, 3, 4, 5, 6, 7, 8, 9, 10, 11, 12, 13, 14, 15, 16, 17, 18, 19, 20, 21, 22, 23, 24,
     25, 26, 27, 28, 29, 30, 31]"

text \<open>The octets of a frame that belong to the channel, as distances from the block pointer: one for a time
  slot, all channels from 1 on for a whole span.\<close>

definition chan_slots :: "sdl_type \<Rightarrow> nat list" where
  "chan_slots type = (case type of SDL_DS0 \<Rightarrow> [0] | SDL_DS0A \<Rightarrow> [0] | SDL_OTHER \<Rightarrow> [0]
     | SDL_E1 \<Rightarrow> map (\<lambda>chan. xp_e1_chan_map ! chan * 4) [1..<32]
     | _ \<Rightarrow> map (\<lambda>chan. xp_t1_chan_map ! chan * 4) [1..<25])"

text \<open>The addresses a block function visits, in order.\<close>

function block_addrs :: "nat list \<Rightarrow> nat \<Rightarrow> nat \<Rightarrow> nat list" where
  "block_addrs slots bp be = (if bp < be then map (\<lambda>s. bp + s) slots @ block_addrs slots (bp + 128) be else [])"
  by pat_completeness auto
termination
  by (relation "measure (\<lambda>(_, bp, be). be - bp)") auto

declare block_addrs.simps [simp del]

type_synonym memory = "nat \<Rightarrow> u8"

primrec tx_octets :: "sdl_type \<Rightarrow> nat list \<Rightarrow> memory \<times> line \<Rightarrow> memory \<times> line" where
  "tx_octets type [] x = x"
| "tx_octets type (a # as) x =
     (case tx_octet type (snd x) of (b, l) \<Rightarrow> tx_octets type as ((fst x)(a := b), l))"

primrec tx_raw_octets :: "nat list \<Rightarrow> memory \<times> line \<Rightarrow> memory \<times> line" where
  "tx_raw_octets [] x = x"
| "tx_raw_octets (a # as) x =
     (case tx_raw_octet (snd x) of
        (Some b, l) \<Rightarrow> tx_raw_octets as ((fst x)(a := b), l)
      | (None, l) \<Rightarrow> (fst x, l))"

definition xp_tx_block :: "nat \<Rightarrow> nat \<Rightarrow> sdl_type \<Rightarrow> memory \<times> line \<Rightarrow> memory \<times> line" where
  "xp_tx_block bp be type x =
     (let l = snd x in
      if daedt_state (sdt_sm (l_ch l)) \<noteq> ST_IDLE then
        tx_octets type (block_addrs (chan_slots type) bp be)
          (fst x, if t_mode (l_tx l) \<in> {TX_MODE_IDLE, TX_MODE_FLAG} \<and> t_nxt (l_tx l) = None
                  then tx_next_message l else l)
      else if sdl_tx_state (l_ch l) \<noteq> ST_IDLE then
        tx_raw_octets (block_addrs (chan_slots type) bp be) x
      else x)"

definition xp_tx_idle :: "nat \<Rightarrow> nat \<Rightarrow> sdl_type \<Rightarrow> memory \<Rightarrow> memory" where
  "xp_tx_idle bp be type m =
     fold (\<lambda>a m. m(a := if type \<in> {SDL_DS0, SDL_E1, SDL_OTHER} then 0xff else 0x7f))
       (block_addrs (chan_slots type) bp be) m"

section \<open>Reception\<close>

definition xp_rx_linkb :: "rx_path \<Rightarrow> rx_path" where
  "xp_rx_linkb rx = rx\<lparr>
     r_msg := (case r_msg rx of None \<Rightarrow> r_nxt rx
               | Some bs \<Rightarrow> Some (bs @ (case r_nxt rx of None \<Rightarrow> [] | Some cs \<Rightarrow> cs))),
     r_nxt := None\<rparr>"

datatype rx_error = Frame_too_long | Buffer_overflow | Aborted | Length_error | Frame_too_short | Crc_error
  | Residue_error

definition count :: "((u32 \<Rightarrow> u32) \<Rightarrow> hdlc_stats \<Rightarrow> hdlc_stats) \<Rightarrow> line \<Rightarrow> line" where
  "count u l = l\<lparr>l_st := u (\<lambda>n. n + 1) (l_st l)\<rparr>"

fun count_error :: "rx_error \<Rightarrow> line \<Rightarrow> line" where
  "count_error Frame_too_long l = steps [count rx_frame_too_long_update, count rx_frame_errors_update] l"
| "count_error Buffer_overflow l =
     l\<lparr>l_ch := set_rx_buffer_overflows (rx_buffer_overflows (sdt_st (l_ch l)) + 1) (l_ch l)\<rparr>"
| "count_error Aborted l = steps [count rx_aborts_update, count rx_frame_errors_update] l"
| "count_error Length_error l = count rx_length_error_update l"
| "count_error Frame_too_short l = steps [count rx_frame_too_short_update, count rx_frame_errors_update] l"
| "count_error Crc_error l = count rx_crc_errors_update l"
| "count_error Residue_error l = steps [count rx_residue_errors_update, count rx_frame_errors_update] l"

text \<open>The labels \<open>begin_frame\<close>, \<open>new_frame\<close>, \<open>start_hunt\<close> and \<open>abort_frame\<close>.\<close>

definition rx_begin_frame :: "rx_entry \<Rightarrow> rx_path \<Rightarrow> rx_path" where
  "rx_begin_frame r rx =
     (if re_length r \<noteq> 0 then
        rx\<lparr>r_mode := RX_MODE_MOF, r_residue := ucast (re_string r), r_rbits := ucast (re_length r),
           r_bytes := 0, r_bcc := 0xffff\<rparr>
      else rx)"

definition rx_new_frame :: "rx_entry \<Rightarrow> rx_path \<Rightarrow> rx_path" where
  "rx_new_frame r rx =
     (let rx = rx\<lparr>r_mode := RX_MODE_SYNC, r_residue := 0, r_rbits := 0, r_bytes := 0, r_bcc := 0xffff\<rparr>
      in if re_sync r then rx_begin_frame r rx else rx)"

definition rx_start_hunt :: "rx_entry \<Rightarrow> line \<Rightarrow> line" where
  "rx_start_hunt r l = count rx_sync_transitions_update (l\<lparr>
     l_rx := (l_rx l)\<lparr>r_mode := if re_idle r then RX_MODE_IDLE else RX_MODE_HUNT, r_octets := 0\<rparr>\<rparr>)"

definition rx_in_error :: "line \<Rightarrow> line" where
  "rx_in_error l = (count rx_sus_in_error_update l)\<lparr>l_ch := sl_daedr_su_in_error (l_ch l)\<rparr>"

definition rx_abort_frame :: "rx_entry \<Rightarrow> rx_error \<Rightarrow> line \<Rightarrow> line" where
  "rx_abort_frame r e l =
     (let l = steps [count_error e,
                     (\<lambda>l. l\<lparr>l_rx := (l_rx l)\<lparr>r_nxt := None, r_msg := None\<rparr>\<rparr>),
                     rx_in_error] l
      in if re_flag r then l\<lparr>l_rx := rx_new_frame r (l_rx l)\<rparr> else rx_start_hunt r l)"

text \<open>One round of the loop that moves octets out of the residue, and the loop.\<close>

definition rx_store :: "line \<Rightarrow> rx_error option \<times> line" where
  "rx_store l =
     (let rx = l_rx l;
          rx = (case r_nxt rx of None \<Rightarrow> rx | Some bs \<Rightarrow> if fastbuf l \<le> length bs then xp_rx_linkb rx else rx)
      in case (case r_nxt rx of Some bs \<Rightarrow> (Some bs, l_ch l)
               | None \<Rightarrow> (case allocb (fastbuf l) (l_ch l) of (b, ch) \<Rightarrow> (map_option (\<lambda>_. []) b, ch))) of
           (None, ch) \<Rightarrow> (Some Buffer_overflow, l\<lparr>l_ch := ch, l_rx := rx\<rparr>)
         | (Some bs, ch) \<Rightarrow>
             (let byte = ucast (r_residue rx);
                  bytes = r_bytes rx + 1
              in (if cfg_m l + 1 + word_of_nat (hlen (l_ch l)) < bytes then Some Frame_too_long else None,
                  l\<lparr>l_ch := ch,
                    l_rx := rx\<lparr>r_nxt := Some (bs @ [byte]), r_bcc := bcc_octet (r_bcc rx) byte,
                               r_residue := drop_bit 8 (r_residue rx), r_rbits := r_rbits rx - 8,
                               r_bytes := bytes\<rparr>,
                    l_st := (l_st l)\<lparr>rx_bytes := rx_bytes (l_st l) + 1\<rparr>\<rparr>)))"

lemma rx_store_rbits: "r_rbits (l_rx (snd (rx_store l))) \<in> {r_rbits (l_rx l), r_rbits (l_rx l) - 8}"
  "fst (rx_store l) = None \<Longrightarrow> r_rbits (l_rx (snd (rx_store l))) = r_rbits (l_rx l) - 8"
  by (auto simp: rx_store_def Let_def xp_rx_linkb_def split: option.splits prod.splits if_splits)

function rx_drain :: "line \<Rightarrow> rx_error option \<times> line" where
  "rx_drain l =
     (if 16 < r_rbits (l_rx l) then
        (case rx_store l of
           (None, l') \<Rightarrow> rx_drain l'
         | (Some e, l') \<Rightarrow> (Some e, l'))
      else (None, l))"
  by pat_completeness auto
termination
proof (relation "measure (\<lambda>l. unat (r_rbits (l_rx l)))")
  fix l e l'
  assume g: "16 < r_rbits (l_rx l)" and s: "(e, l') = rx_store l" "e = None"
  then have "r_rbits (l_rx l') = r_rbits (l_rx l) - 8"
    using rx_store_rbits(2)[of l] by (metis fst_conv snd_conv)
  moreover have "unat (r_rbits (l_rx l) - 8) < unat (r_rbits (l_rx l))"
    using g by (intro unat_mono) (simp add: word_less_nat_alt unat_sub_if')
  ultimately show "(l', l) \<in> measure (\<lambda>l. unat (r_rbits (l_rx l)))"
    by simp
qed simp

declare rx_drain.simps [simp del]

text \<open>The end of a frame: the checks in the order of the code.\<close>

definition rx_li :: "ch \<Rightarrow> u8 list \<Rightarrow> nat" where
  "rx_li ch bs = (if xsn ch then unat ((push_bit 8 (rd8 bs 5) OR rd8 bs 4) AND 0x1ff) else unat (rd8 bs 2 AND 0x3f))"

definition rx_length_ok :: "ch \<Rightarrow> u8 list \<Rightarrow> nat \<Rightarrow> bool" where
  "rx_length_ok ch bs len =
     (let li = rx_li ch bs; mlen = (if xsn ch then 0x1ff else 0x3f) in \<not> (len \<noteq> li \<and> (li \<noteq> mlen \<or> len \<le> li)))"

definition rx_frame_end :: "rx_entry \<Rightarrow> line \<Rightarrow> line" where
  "rx_frame_end r l =
     (if r_rbits (l_rx l) \<noteq> 16 then rx_abort_frame r Residue_error l
      else if ucast (NOT (r_bcc (l_rx l))) \<noteq> r_residue (l_rx l) AND 0xffff then rx_abort_frame r Crc_error l
      else if r_bytes (l_rx l) < word_of_nat (hlen (l_ch l)) then rx_abort_frame r Frame_too_short l
      else
        (let l = l\<lparr>l_rx := xp_rx_linkb (l_rx l)\<rparr>;
             bs = (case r_msg (l_rx l) of None \<Rightarrow> [] | Some bs \<Rightarrow> bs)
         in if \<not> rx_length_ok (l_ch l) bs (unat (r_bytes (l_rx l) - word_of_nat (hlen (l_ch l))))
            then rx_abort_frame r Length_error l
            else (count rx_sus_update l)\<lparr>
              l_ch := sl_daedr_received_bits \<lparr>mid = 0, octets = bs\<rparr> (l_ch l),
              l_rx := rx_new_frame r ((l_rx l)\<lparr>r_msg := None\<rparr>)\<rparr>))"

definition rx_mof :: "rx_entry \<Rightarrow> line \<Rightarrow> line" where
  "rx_mof r l =
     (let l = (if \<not> re_sync r \<and> re_length r \<noteq> 0 then
                 l\<lparr>l_rx := (l_rx l)\<lparr>
                   r_residue := r_residue (l_rx l) OR push_bit (unat (r_rbits (l_rx l))) (ucast (re_string r)),
                   r_rbits := r_rbits (l_rx l) + ucast (re_length r)\<rparr>\<rparr>
               else l)
      in if \<not> re_flag r then
           if re_hunt r \<or> re_idle r then rx_abort_frame r Aborted l
           else (case rx_drain l of (None, l) \<Rightarrow> l | (Some e, l) \<Rightarrow> rx_abort_frame r e l)
         else rx_frame_end r l)"

text \<open>Hunting for a flag, octets are counted and every \<open>N\<close> of them are a signal unit in error.\<close>

definition rx_hunt :: "rx_entry \<Rightarrow> line \<Rightarrow> line" where
  "rx_hunt r l =
     (if \<not> re_flag r then
        (let l = l\<lparr>l_rx := (l_rx l)\<lparr>r_mode := if re_idle r then RX_MODE_IDLE else r_mode (l_rx l),
                                    r_octets := r_octets (l_rx l) + 1\<rparr>\<rparr>;
             l = (if cfg_N l \<le> r_octets (l_rx l) then
                    (rx_in_error l)\<lparr>l_rx := (l_rx l)\<lparr>r_octets := r_octets (l_rx l) - cfg_N l\<rparr>\<rparr>
                  else l)
         in l\<lparr>l_st := (l_st l)\<lparr>rx_bits_octet_counted := rx_bits_octet_counted (l_st l) + 8\<rparr>\<rparr>)
      else (count rx_sync_transitions_update l)\<lparr>l_rx := rx_new_frame r (l_rx l)\<rparr>)"

definition rx_entry_step :: "rx_entry \<Rightarrow> line \<Rightarrow> line" where
  "rx_entry_step r l =
     (let l = l\<lparr>l_rx := (l_rx l)\<lparr>r_state := ucast (re_state r)\<rparr>\<rparr>
      in case r_mode (l_rx l) of
           RX_MODE_MOF \<Rightarrow> rx_mof r l
         | RX_MODE_SYNC \<Rightarrow>
             if \<not> re_hunt r \<and> \<not> re_idle r then l\<lparr>l_rx := rx_begin_frame r (l_rx l)\<rparr> else rx_start_hunt r l
         | RX_MODE_IDLE \<Rightarrow>
             rx_hunt r (if \<not> re_idle r then l\<lparr>l_rx := (l_rx l)\<lparr>r_mode := RX_MODE_HUNT\<rparr>\<rparr> else l)
         | RX_MODE_HUNT \<Rightarrow> rx_hunt r l)"

definition rx_octet :: "sdl_type \<Rightarrow> u8 \<Rightarrow> line \<Rightarrow> line" where
  "rx_octet type byte l =
     rx_entry_step ((if seven type then rx_index7 else rx_index8) (r_state (l_rx l)) byte)
       (count sdl_rx_octets_update l)"

text \<open>Octets without frames.\<close>

definition sdl_received_bits_ind :: "u8 list \<Rightarrow> ch \<Rightarrow> errno \<times> ch" where
  "sdl_received_bits_ind bs ch = (case ch_xp ch of
      None \<Rightarrow> (ENXIO, ch)
    | Some x \<Rightarrow> if rq_canput x then (OK, rq_putq (RData \<lparr>mid = 0, octets = bs\<rparr>) ch) else (EBUSY, ch))"

definition rx_raw_octet :: "u8 \<Rightarrow> line \<Rightarrow> bool \<times> line" where
  "rx_raw_octet byte l =
     (let store = (\<lambda>bs l. (True, (count sdl_rx_octets_update l)\<lparr>l_rx := (l_rx l)\<lparr>r_nxt := Some (bs @ [byte])\<rparr>\<rparr>));
          alloc = (\<lambda>l. case allocb (fastbuf l) (l_ch l) of
             (Some _, ch) \<Rightarrow> store [] (l\<lparr>l_ch := ch\<rparr>)
           | (None, ch) \<Rightarrow> (False, (count sdl_rx_overflows_update l)\<lparr>l_ch := ch, l_rx := (l_rx l)\<lparr>r_nxt := None\<rparr>\<rparr>))
      in case r_nxt (l_rx l) of
           None \<Rightarrow> alloc l
         | Some bs \<Rightarrow>
             if length bs < unat (ifblksize l) then store bs l
             else (case sdl_received_bits_ind bs (l_ch l) of
                 (OK, ch) \<Rightarrow> alloc (l\<lparr>l_ch := ch\<rparr>)
               | (_, ch) \<Rightarrow> store [] (count sdl_rx_overflows_update (l\<lparr>l_ch := ch\<rparr>))))"

primrec rx_octets :: "sdl_type \<Rightarrow> u8 list \<Rightarrow> line \<Rightarrow> line" where
  "rx_octets type [] l = l"
| "rx_octets type (b # bs) l = rx_octets type bs (rx_octet type b l)"

primrec rx_raw_octets :: "u8 list \<Rightarrow> line \<Rightarrow> line" where
  "rx_raw_octets [] l = l"
| "rx_raw_octets (b # bs) l = (case rx_raw_octet b l of (True, l) \<Rightarrow> rx_raw_octets bs l | (False, l) \<Rightarrow> l)"

definition xp_rx_block :: "nat \<Rightarrow> nat \<Rightarrow> sdl_type \<Rightarrow> memory \<Rightarrow> line \<Rightarrow> line" where
  "xp_rx_block bp be type m l =
     (let bs = map m (block_addrs (chan_slots type) bp be) in
      if daedr_state (sdt_sm (l_ch l)) \<noteq> ST_IDLE then rx_octets type bs l
      else if sdl_rx_state (l_ch l) \<noteq> ST_IDLE then rx_raw_octets bs l
      else l)"

section \<open>Spans and cards\<close>

record span =
  sp_e1 :: bool
  sp_up :: bool
  sp_type :: sdl_type
  sp_chans :: "nat \<Rightarrow> (sdl_type \<times> line) option"

definition SDL_IF_UP :: u32 where "SDL_IF_UP = 1"
definition SDL_IF_RX_RUNNING :: u32 where "SDL_IF_RX_RUNNING = 2"
definition SDL_IF_TX_RUNNING :: u32 where "SDL_IF_TX_RUNNING = 4"

text \<open>One channel of a span, in the memory of the block to send.\<close>

definition chan_process ::
    "nat \<Rightarrow> nat \<Rightarrow> nat \<Rightarrow> nat \<Rightarrow> memory \<Rightarrow> sdl_type \<Rightarrow> memory \<times> line \<Rightarrow> memory \<times> line" where
  "chan_process wbp wend rbp rend rmem type x =
     (let fl = sdl_ifflags (l_ch (snd x)) in
      if fl AND SDL_IF_UP \<noteq> 0 then
        (let x = (if fl AND SDL_IF_TX_RUNNING \<noteq> 0 then xp_tx_block wbp wend type x
                  else (xp_tx_idle wbp wend type (fst x), snd x))
         in if fl AND SDL_IF_RX_RUNNING \<noteq> 0 then (fst x, xp_rx_block rbp rend type rmem (snd x)) else x)
      else (xp_tx_idle wbp wend type (fst x), snd x))"

definition span_chan :: "nat \<Rightarrow> nat \<Rightarrow> nat \<Rightarrow> nat \<Rightarrow> memory \<Rightarrow> nat \<Rightarrow> memory \<times> span \<Rightarrow> memory \<times> span" where
  "span_chan wspan wend rspan rend rmem chan x =
     (case sp_chans (snd x) chan of
        None \<Rightarrow> x
      | Some (type, l) \<Rightarrow>
          (let coff = (if sp_e1 (snd x) then xp_e1_chan_map else xp_t1_chan_map) ! chan * 4
           in case chan_process (wspan + coff) wend (rspan + coff) rend rmem type (fst x, l) of
                (m, l) \<Rightarrow> (m, (snd x)\<lparr>sp_chans := (sp_chans (snd x))(chan := Some (type, l))\<rparr>)))"

definition xp_span_process :: "nat \<Rightarrow> nat \<Rightarrow> nat \<Rightarrow> nat \<Rightarrow> memory \<Rightarrow> memory \<times> span \<Rightarrow> memory \<times> span" where
  "xp_span_process wspan wend rspan rend rmem x =
     fold (span_chan wspan wend rspan rend rmem) [0..<(if sp_e1 (snd x) then 32 else 25)] x"

text \<open>The elastic buffers: \<open>uebno\<close> is the next block for the tasklet, \<open>lebno\<close> the block of the interrupt.\<close>

record card =
  uebno :: nat
  lebno :: nat
  ports :: nat
  wbuf :: memory
  rbuf :: memory
  cd_spans :: "nat \<Rightarrow> span option"

definition X400P_EBUFNO :: nat where "X400P_EBUFNO = 128"

definition span_to_byte :: "bool \<Rightarrow> nat \<Rightarrow> nat" where
  "span_to_byte little span = (if little then 3 - span else span)"

definition card_span :: "bool \<Rightarrow> nat \<Rightarrow> nat \<Rightarrow> card \<Rightarrow> card" where
  "card_span little boff span cd =
     (case cd_spans cd span of
        None \<Rightarrow> cd
      | Some sp \<Rightarrow>
          if sp_up sp then
            (let soff = span_to_byte little span
             in case xp_span_process (boff + soff) (boff + 1024) (boff + soff) (boff + 1024) (rbuf cd) (wbuf cd, sp) of
                  (m, sp) \<Rightarrow> cd\<lparr>wbuf := m, cd_spans := (cd_spans cd)(span := Some sp)\<rparr>)
          else cd)"

text \<open>The tasklet holds the lock of the card only while it takes a block: it moves \<open>uebno\<close> on, decides whether it
  schedules itself again, and lets the lock go before it works on the block.  A run that has taken a block is the block,
  the spans still to come and the decision; the interrupt may come between the steps.\<close>

type_synonym tasklet_run = "(nat \<times> nat list \<times> bool) option"

definition tasklet_claim :: "card \<Rightarrow> card \<times> tasklet_run" where
  "tasklet_claim cd =
     (if uebno cd \<noteq> lebno cd then
        (let u = uebno cd; n = (u + 1) mod X400P_EBUFNO
         in (cd\<lparr>uebno := n\<rparr>, Some (u, [0..<ports cd], n \<noteq> lebno cd)))
      else (cd, None))"

fun tasklet_next :: "bool \<Rightarrow> card \<times> tasklet_run \<Rightarrow> card \<times> tasklet_run" where
  "tasklet_next little (cd, Some (u, span # spans, again)) = (card_span little (u * 1024) span cd, Some (u, spans, again))"
| "tasklet_next little (cd, Some (u, [], again)) = (cd, None)"
| "tasklet_next little (cd, None) = (cd, None)"

text \<open>A run that no interrupt comes into; the result says whether the tasklet schedules itself again.\<close>

definition xp_card_tasklet :: "bool \<Rightarrow> card \<Rightarrow> bool \<times> card" where
  "xp_card_tasklet little cd =
     (case tasklet_claim cd of
        (cd, None) \<Rightarrow> (False, cd)
      | (cd, Some (u, spans, again)) \<Rightarrow> (again, fold (card_span little (u * 1024)) spans cd))"

lemma xp_card_tasklet_eq:
  "xp_card_tasklet little cd =
     (if uebno cd \<noteq> lebno cd then
        (let u = uebno cd;
             cd = cd\<lparr>uebno := (u + 1) mod X400P_EBUFNO\<rparr>
         in (uebno cd \<noteq> lebno cd, fold (card_span little (u * 1024)) [0..<ports cd] cd))
      else (False, cd))"
  by (simp add: xp_card_tasklet_def tasklet_claim_def Let_def)

text \<open>It is the steps in turn.\<close>

lemma xp_card_tasklet_steps:
  assumes "tasklet_claim cd = (cd1, Some (u, spans, again))"
  shows "(tasklet_next little ^^ Suc (length spans)) (cd1, Some (u, spans, again)) = (snd (xp_card_tasklet little cd), None)"
proof -
  have "(tasklet_next little ^^ Suc (length ss)) (c, Some (u, ss, again)) = (fold (card_span little (u * 1024)) ss c, None)" for ss c
    by (induction ss arbitrary: c) (simp_all del: funpow.simps add: funpow_Suc_right)
  then show ?thesis
    using assms by (simp add: xp_card_tasklet_def)
qed

text \<open>The interrupt finds the tasklet a whole turn behind: the octets that are lost are counted.\<close>

definition line_overflow :: "nat \<Rightarrow> line \<Rightarrow> line" where
  "line_overflow n l =
     (let fl = sdl_ifflags (l_ch l); st = l_st l in
      if fl AND SDL_IF_UP \<noteq> 0 then
        (let st = (if fl AND SDL_IF_TX_RUNNING \<noteq> 0 then
                     st\<lparr>sdl_tx_underruns := sdl_tx_underruns st + of_nat n,
                        sdt_tx_underruns := sdt_tx_underruns st + of_nat n\<rparr> else st);
             st = (if fl AND SDL_IF_RX_RUNNING \<noteq> 0 then
                     st\<lparr>sdl_rx_overruns := sdl_rx_overruns st + of_nat n,
                        sdt_rx_overruns := sdt_rx_overruns st + of_nat n\<rparr> else st)
         in l\<lparr>l_st := st\<rparr>)
      else l)"

definition span_overflow :: "span \<Rightarrow> span" where
  "span_overflow sp =
     (if sp_up sp then
        (let chan = (\<lambda>n c. map_option (map_prod id (line_overflow n)) (sp_chans sp c)) in
         case sp_type sp of
           SDL_E1 \<Rightarrow> sp\<lparr>sp_chans := (sp_chans sp)(0 := chan (8 * 31) 0)\<rparr>
         | SDL_T1 \<Rightarrow> sp\<lparr>sp_chans := (sp_chans sp)(0 := chan (8 * 24) 0)\<rparr>
         | SDL_J1 \<Rightarrow> sp\<lparr>sp_chans := (sp_chans sp)(0 := chan (8 * 24) 0)\<rparr>
         | SDL_OTHER \<Rightarrow> sp
         | _ \<Rightarrow> sp\<lparr>sp_chans := (\<lambda>c. if c \<in> {1..<32} then chan 8 c else sp_chans sp c)\<rparr>)
      else sp)"

definition xp_overflow :: "card \<Rightarrow> card" where
  "xp_overflow cd = cd\<lparr>cd_spans := (\<lambda>s. if s < ports cd then map_option span_overflow (cd_spans cd s) else cd_spans cd s)\<rparr>"

text \<open>The transfer of a block in the interrupt.  Each word of the block to send goes to the memory of the card
  (\<open>xll\<close>), and the word received, \<open>rxm\<close>, comes back from the same place.  The first word of every frame is skipped, on a T1 card
  every fourth one.\<close>

definition burst_words :: "bool \<Rightarrow> nat list" where
  "burst_words t1 = filter (\<lambda>w. w mod 32 \<noteq> 0 \<and> (t1 \<longrightarrow> w mod 32 mod 4 \<noteq> 0)) [0..<256]"

definition burst_word :: "memory \<Rightarrow> nat \<Rightarrow> nat \<Rightarrow> memory \<times> card \<Rightarrow> memory \<times> card" where
  "burst_word rxm b w x =
     fold (\<lambda>o1 (xll, cd). (xll(o1 := wbuf cd (b + o1)), cd\<lparr>rbuf := (rbuf cd)(b + o1 := rxm o1)\<rparr>))
       [4 * w, 4 * w + 1, 4 * w + 2, 4 * w + 3] x"

text \<open>The result says whether the tasklet is scheduled.\<close>

definition xp_txrx_burst :: "bool \<Rightarrow> memory \<Rightarrow> memory \<times> card \<Rightarrow> bool \<times> memory \<times> card" where
  "xp_txrx_burst t1 rxm x =
     (let cd = snd x; n = (lebno cd + 1) mod X400P_EBUFNO in
      if n \<noteq> uebno cd then
        (True, fold (burst_word rxm (n * 1024)) (burst_words t1) (fst x, cd\<lparr>lebno := n\<rparr>))
      else (False, fst x, xp_overflow cd))"

definition xp_t1_txrx_burst :: "memory \<Rightarrow> memory \<times> card \<Rightarrow> bool \<times> memory \<times> card" where
  "xp_t1_txrx_burst = xp_txrx_burst True"

definition xp_e1_txrx_burst :: "memory \<Rightarrow> memory \<times> card \<Rightarrow> bool \<times> memory \<times> card" where
  "xp_e1_txrx_burst = xp_txrx_burst False"

definition xp_x1_txrx_burst :: "memory \<Rightarrow> memory \<times> card \<Rightarrow> bool \<times> memory \<times> card" where
  "xp_x1_txrx_burst = xp_txrx_burst False"

end
