(* ===== verification/HDLC_Line.thy ===== *)
theory HDLC_Line
  imports HDLC_Path
begin

text \<open>
  A frame over the line.  The transmit path is related to the string of bits it still owes the line, the
  receive path to the bits it has read since the last flag; with both, a message that one end takes from its
  link is handed to the link of the other end unchanged, whatever the alignment of the frame in the octets.
\<close>

section \<open>The bits of a frame\<close>

definition fcs :: "u16 \<Rightarrow> u8 list \<Rightarrow> u8 list" where
  "fcs r os = (let c = NOT (foldl bcc_octet r os) in [ucast c, ucast (drop_bit 8 c)])"

definition frame_bits :: "u8 list \<Rightarrow> bool list" where
  "frame_bits os = octet_bits (os @ fcs 0xffff os)"

fun flag_bits :: "sdt_flags \<Rightarrow> bool list" where
  "flag_bits SDT_FLAGS_ONE = hdlc_flag"
| "flag_bits SDT_FLAGS_SHARED = hdlc_flag @ tl hdlc_flag"
| "flag_bits SDT_FLAGS_TWO = hdlc_flag @ hdlc_flag"
| "flag_bits SDT_FLAGS_THREE = hdlc_flag @ hdlc_flag @ hdlc_flag"

text \<open>The bits of an octet that the line carries.\<close>

definition width :: "sdl_type \<Rightarrow> nat" where
  "width type = (if seven type then 7 else 8)"

definition sent_bits :: "sdl_type \<Rightarrow> u8 list \<Rightarrow> bool list" where
  "sent_bits type os = concat (map (\<lambda>b. take (width type) (msb_bits 8 b)) os)"

lemma width_le: "7 \<le> width type" "width type \<le> 8"
  by (simp_all add: width_def)

lemma sent_bits_simps [simp]:
  "sent_bits type [] = []" "sent_bits type (b # os) = take (width type) (msb_bits 8 b) @ sent_bits type os"
  by (simp_all add: sent_bits_def)

lemma length_sent_bits [simp]: "length (sent_bits type os) = width type * length os"
  by (induction os) (simp_all add: width_def)

section \<open>The transmit path\<close>

definition tx_bits :: "tx_path \<Rightarrow> bool list" where
  "tx_bits tx = msb_bits (unat (t_rbits tx)) (t_residue tx)"

lemma length_tx_bits [simp]: "length (tx_bits tx) = unat (t_rbits tx)"
  by (simp add: tx_bits_def)

lemma tx_put_bits:
  assumes "unat (t_rbits tx) + n \<le> 32" "take_bit n w = w"
  shows "tx_bits (tx_put n w tx) = tx_bits tx @ msb_bits n w"
    and "unat (t_rbits (tx_put n w tx)) = unat (t_rbits tx) + n"
proof -
  show r: "unat (t_rbits (tx_put n w tx)) = unat (t_rbits tx) + n"
    using assms(1) by (simp add: tx_put_def unat_word_ariths unat_of_nat)
  show "tx_bits (tx_put n w tx) = tx_bits tx @ msb_bits n w"
    using msb_bits_append[of "unat (t_rbits tx)" n w "t_residue tx"] assms
    unfolding tx_bits_def r by (simp add: tx_put_def)
qed

text \<open>What the transmitter owes the line before it asks for another message.\<close>

definition tx_owed :: "sdt_flags \<Rightarrow> tx_path \<Rightarrow> bool list" where
  "tx_owed f tx = tx_bits tx @
     (let rest = (case t_nxt tx of None \<Rightarrow> [] | Some os \<Rightarrow> os) in
      case t_mode tx of
        TX_MODE_IDLE \<Rightarrow> [] | TX_MODE_FLAG \<Rightarrow> []
      | TX_MODE_BOF \<Rightarrow> flag_bits f @ stuff 0 (frame_bits rest)
      | TX_MODE_MOF \<Rightarrow> stuff (unat (t_state tx)) (octet_bits (rest @ fcs (t_bcc tx) rest))
      | TX_MODE_BCC \<Rightarrow> stuff (unat (t_state tx)) (lsb_bits 8 (ucast (drop_bit 8 (t_bcc tx)) :: u8)))"

definition tx_ok :: "tx_path \<Rightarrow> bool" where
  "tx_ok tx = (unat (t_state tx) < 5 \<and> unat (t_rbits tx) \<le> 31)"

lemma xp_tx_bitstuff_bits:
  fixes byte :: u8
  assumes "unat (t_state tx) < 5" "unat (t_rbits tx) < 8"
  defines "tx' \<equiv> xp_tx_bitstuff byte tx"
  shows "tx_bits tx' = tx_bits tx @ stuff (unat (t_state tx)) (lsb_bits 8 byte)
    \<and> unat (t_state tx') = stuff_state (unat (t_state tx)) (lsb_bits 8 byte) \<and> unat (t_state tx') < 5
    \<and> 8 \<le> unat (t_rbits tx') \<and> unat (t_rbits tx') \<le> 17"
proof -
  define e where "e = tx_table_value (unat (t_state tx)) byte"
  define tx1 where "tx1 = tx\<lparr>t_state := ucast (te_state e)\<rparr>"
  let ?n = "8 + unat (te_length e)"
  note st = tx_entry_stuffs[OF assms(1), of byte, folded e_def]
  have i: "tx' = tx_put ?n (ucast (te_string e)) tx1"
    using tx_index_value[OF assms(1), of byte] by (simp add: tx'_def xp_tx_bitstuff_def Let_def e_def tx1_def)
  have w: "take_bit ?n (ucast (te_string e) :: u32) = ucast (te_string e)"
  proof (rule bit_eqI)
    fix i
    have "bit (te_string e) i \<Longrightarrow> i < ?n"
      using st by (metis bit_take_bit_iff)
    then show "bit (take_bit ?n (ucast (te_string e) :: u32)) i = bit (ucast (te_string e) :: u32) i"
      by (auto simp: bit_take_bit_iff bit_ucast_iff)
  qed
  have r: "unat (t_rbits tx1) + ?n \<le> 32"
    using st assms(2) by (simp add: tx1_def)
  have "msb_bits ?n (ucast (te_string e) :: u32) = msb_bits ?n (te_string e)"
    using st by (intro msb_bits_ucast) simp
  then have "tx_bits tx' = tx_bits tx @ stuff (unat (t_state tx)) (lsb_bits 8 byte)"
    using tx_put_bits(1)[OF r w] st by (simp add: i tx1_def tx_bits_def)
  moreover have "unat (ucast (te_state e) :: u32) = unat (te_state e)"
    by (simp add: unsigned_ucast_eq take_bit_nat_eq_self unsigned_less[THEN less_trans])
  then have "t_state tx' = ucast (te_state e)" "unat (ucast (te_state e) :: u32) = stuff_state (unat (t_state tx)) (lsb_bits 8 byte)"
    using st by (simp_all add: i tx1_def tx_put_def)
  moreover have "unat (t_rbits tx') = unat (t_rbits tx) + ?n"
    using tx_put_bits(2)[OF r w] by (simp add: i tx1_def)
  ultimately show ?thesis
    using st assms(2) by simp
qed

lemma xp_tx_bitstuff_frame [simp]:
  "t_mode (xp_tx_bitstuff byte tx) = t_mode tx" "t_nxt (xp_tx_bitstuff byte tx) = t_nxt tx"
  "t_bcc (xp_tx_bitstuff byte tx) = t_bcc tx" "t_msg (xp_tx_bitstuff byte tx) = t_msg tx"
  by (simp_all add: xp_tx_bitstuff_def tx_put_def Let_def)

lemma tx_put_frame [simp]:
  "t_mode (tx_put n w tx) = t_mode tx" "t_nxt (tx_put n w tx) = t_nxt tx"
  "t_bcc (tx_put n w tx) = t_bcc tx" "t_msg (tx_put n w tx) = t_msg tx" "t_state (tx_put n w tx) = t_state tx"
  by (simp_all add: tx_put_def)

lemma tx_bits_frame [simp]:
  "tx_bits (t_mode_update g1 tx) = tx_bits tx" "tx_bits (t_state_update g2 tx) = tx_bits tx"
  "tx_bits (t_bcc_update g3 tx) = tx_bits tx" "tx_bits (t_nxt_update g4 tx) = tx_bits tx"
  "tx_bits (t_msg_update g5 tx) = tx_bits tx"
  by (simp_all add: tx_bits_def)

lemma flag_word_bits:
  "msb_bits 8 (0x7e :: u32) = hdlc_flag" "msb_bits 15 (0x3f7e :: u32) = hdlc_flag @ tl hdlc_flag"
  "msb_bits 16 (0x7e7e :: u32) = hdlc_flag @ hdlc_flag"
  "msb_bits 24 (0x7e7e7e :: u32) = hdlc_flag @ hdlc_flag @ hdlc_flag"
  by code_simp+

lemma tx_flags_bits:
  assumes "unat (t_rbits tx) < 8"
  shows "tx_bits (tx_flags f tx) = tx_bits tx @ flag_bits f \<and> 8 \<le> unat (t_rbits (tx_flags f tx))
    \<and> unat (t_rbits (tx_flags f tx)) \<le> 31"
  using assms tx_put_bits[where tx = tx and n = 8 and w = "0x7e"]
    tx_put_bits[where tx = tx and n = 15 and w = "0x3f7e"] tx_put_bits[where tx = tx and n = 16 and w = "0x7e7e"]
    tx_put_bits[where tx = tx and n = 24 and w = "0x7e7e7e"]
  by (cases f) (simp_all add: tx_flags_def flag_word_bits)

lemma tx_flags_frame [simp]: "t_nxt (tx_flags f tx) = t_nxt tx"
  by (cases f) (simp_all add: tx_flags_def)

lemma fcs_Cons: "fcs r (b # os) = fcs (bcc_octet r b) os"
  by (simp add: fcs_def)

text \<open>Bits that begin with a flag, if there are any; what follows the flag in the same octet is the beginning of
  a frame or of another flag.\<close>

definition after_ok :: "bool list \<Rightarrow> bool" where
  "after_ok ys = (ys = [] \<or> 7 \<le> length ys \<and> (\<forall>k\<le>7. inside (take k ys) \<or> take k ys = tl hdlc_flag))"

definition flagged :: "bool list \<Rightarrow> bool" where
  "flagged xs = (xs = [] \<or> (\<exists>ys. xs = hdlc_flag @ ys \<and> after_ok ys))"

lemma less_8_cases: "k \<le> 7 \<Longrightarrow> k = 0 \<or> k = 1 \<or> k = 2 \<or> k = 3 \<or> k = 4 \<or> k = 5 \<or> k = 6 \<or> k = (7 :: nat)"
  by arith

lemma after_ok_flag: "after_ok (hdlc_flag @ xs)" "after_ok (tl hdlc_flag @ xs)"
proof -
  have "inside (take k (hdlc_flag @ xs)) \<and> (inside (take k (tl hdlc_flag @ xs)) \<or> take k (tl hdlc_flag @ xs) = tl hdlc_flag)"
    if "k \<le> 7" for k
    using less_8_cases[OF that] by (elim disjE; simp add: hdlc_flag_def inside_def rx_next_def)
  then show "after_ok (hdlc_flag @ xs)" "after_ok (tl hdlc_flag @ xs)"
    by (auto simp: after_ok_def) (simp_all add: hdlc_flag_def)
qed

lemma after_ok_append:
  assumes "after_ok ys" "flagged xs"
  shows "after_ok (ys @ xs)"
proof (cases "ys = []")
  case True
  then show ?thesis
    using assms(2) after_ok_flag(1) by (auto simp: flagged_def) (simp add: after_ok_def)
next
  case False
  then show ?thesis
    using assms(1) by (simp add: after_ok_def)
qed

lemma flagged_append: "flagged xs \<Longrightarrow> flagged ys \<Longrightarrow> flagged (xs @ ys)"
proof (cases "xs = []")
  case False
  assume "flagged xs" "flagged ys"
  then obtain zs where "xs = hdlc_flag @ zs" "after_ok zs"
    using False by (auto simp: flagged_def[of xs])
  then show ?thesis
    using after_ok_append[OF _ \<open>flagged ys\<close>] by (simp add: flagged_def[of "hdlc_flag @ zs @ ys"])
qed simp

lemma inside_stuffed: "inside (stuff 0 bs)"
proof (cases bs)
  case (Cons b cs)
  have "in_step (if b then 1 else 0) (rx_next 8 b)" "rx_next 8 b \<noteq> 8"
    by (simp_all add: in_step_def rx_next_def)
  from read_stuffed[OF this, of cs] show ?thesis
    using Cons by (cases b) (simp_all add: inside_def)
qed (simp add: inside_def)

lemma after_ok_stuffed: "7 \<le> length bs \<Longrightarrow> after_ok (stuff 0 bs)"
  using length_stuff[of bs 0] inside_stuffed[of bs] inside_prefix[of "take k (stuff 0 bs)" "drop k (stuff 0 bs)" for k]
  by (auto simp: after_ok_def)

lemma flagged_flag_bits: "7 \<le> length bs \<Longrightarrow> flagged (flag_bits f @ stuff 0 bs)"
  using after_ok_stuffed[of bs] after_ok_flag by (cases f) (auto simp: flagged_def)

lemma length_frame_bits: "length (frame_bits os) = 8 * (length os + 2)"
  by (simp add: frame_bits_def fcs_def Let_def)

definition tx_active :: "tx_path \<Rightarrow> bool" where
  "tx_active tx = (t_mode tx \<noteq> TX_MODE_IDLE
     \<and> (t_mode tx \<in> {TX_MODE_BOF, TX_MODE_MOF} \<longrightarrow> t_nxt tx \<noteq> None))"

definition tx_filled :: "sdt_flags \<Rightarrow> tx_path \<Rightarrow> tx_path \<Rightarrow> bool" where
  "tx_filled f tx tx' = ((\<exists>xs. tx_owed f tx' = tx_owed f tx @ xs \<and> flagged xs)
     \<and> 8 \<le> unat (t_rbits tx') \<and> tx_ok tx' \<and> tx_active tx')"

lemma tx_filledI:
  "tx_owed f tx' = tx_owed f tx @ xs \<Longrightarrow> flagged xs \<Longrightarrow> 8 \<le> unat (t_rbits tx') \<Longrightarrow> unat (t_rbits tx') \<le> 31
     \<Longrightarrow> unat (t_state tx') < 5 \<Longrightarrow> tx_active tx' \<Longrightarrow> tx_filled f tx tx'"
  by (auto simp: tx_filled_def tx_ok_def)

lemma tx_next_message_owed:
  assumes "t_mode (l_tx l) = TX_MODE_FLAG"
  shows "\<exists>xs. tx_owed f (l_tx (tx_next_message l)) = tx_owed f (l_tx l) @ xs \<and> flagged xs"
    and "t_rbits (l_tx (tx_next_message l)) = t_rbits (l_tx l)"
    and "t_state (l_tx (tx_next_message l)) = t_state (l_tx l)"
    and "tx_active (l_tx (tx_next_message l))"
  using assms flagged_flag_bits[of "frame_bits os" f for os]
  by (auto simp: length_frame_bits tx_next_message_def Let_def tx_owed_def tx_active_def flagged_def[of "[]"]
      split: prod.splits option.splits)

lemma tx_fill_frame [simp]:
  "cfg_f (tx_fill l) = cfg_f l" "cfg_m (tx_fill l) = cfg_m l" "cfg_N (tx_fill l) = cfg_N l" "l_rx (tx_fill l) = l_rx l"
  by (auto simp: tx_fill_def tx_next_message_def Let_def split: tx_mode.splits option.splits list.splits prod.splits)

lemma tx_fill_owed:
  assumes "unat (t_rbits (l_tx l)) < 8" "tx_ok (l_tx l)" "tx_active (l_tx l)"
  shows "tx_filled (cfg_f l) (l_tx l) (l_tx (tx_fill l))"
proof (cases "t_mode (l_tx l)")
  case TX_MODE_IDLE
  then show ?thesis
    using assms(3) by (simp add: tx_active_def)
next
  case TX_MODE_FLAG
  then show ?thesis
    using assms tx_put_bits[where tx = "l_tx l" and n = 8 and w = "0x7e"]
    by (intro tx_filledI[where xs = hdlc_flag])
      (auto simp: tx_fill_def tx_owed_def flagged_def after_ok_def flag_word_bits tx_ok_def tx_active_def)
next
  case TX_MODE_BOF
  then show ?thesis
    using assms tx_flags_bits[OF assms(1), of "cfg_f l"]
    by (intro tx_filledI[where xs = "[]"])
      (auto simp: tx_fill_def tx_owed_def flagged_def frame_bits_def tx_active_def)
next
  case TX_MODE_MOF
  then obtain os where os: "t_nxt (l_tx l) = Some os"
    using assms(3) by (auto simp: tx_active_def)
  have st: "unat (t_state (l_tx l)) < 5"
    using assms(2) by (simp add: tx_ok_def)
  show ?thesis
  proof (cases os)
    case Nil
    let ?tx = "(l_tx l)\<lparr>t_nxt := None, t_bcc := NOT (t_bcc (l_tx l))\<rparr>"
    show ?thesis
      using xp_tx_bitstuff_bits[of ?tx "ucast (NOT (t_bcc (l_tx l)))"] st assms(1) TX_MODE_MOF os Nil
      by (intro tx_filledI[where xs = "[]"])
        (auto simp: tx_fill_def Let_def tx_owed_def fcs_def stuff_append flagged_def tx_active_def)
  next
    case (Cons b bs)
    let ?tx = "(l_tx l)\<lparr>t_nxt := Some bs, t_bcc := bcc_octet (t_bcc (l_tx l)) b\<rparr>"
    show ?thesis
      using xp_tx_bitstuff_bits[of ?tx b] st assms(1) TX_MODE_MOF os Cons
      by (intro tx_filledI[where xs = "[]"])
        (auto simp: tx_fill_def Let_def tx_owed_def fcs_Cons stuff_append stuff_state_append flagged_def
          tx_active_def)
  qed
next
  case TX_MODE_BCC
  define l1 where "l1 = l\<lparr>l_tx := (xp_tx_bitstuff (ucast (drop_bit 8 (t_bcc (l_tx l)))) (l_tx l))\<lparr>t_mode := TX_MODE_FLAG\<rparr>,
              l_st := (l_st l)\<lparr>tx_sus := tx_sus (l_st l) + 1\<rparr>\<rparr>"
  have "t_mode (l_tx l1) = TX_MODE_FLAG" and f: "tx_fill l = tx_next_message l1"
    using TX_MODE_BCC by (simp_all add: l1_def tx_fill_def)
  note n = tx_next_message_owed[where l = l1, OF this(1)]
  have b: "tx_owed (cfg_f l) (l_tx l1) = tx_owed (cfg_f l) (l_tx l)" "8 \<le> unat (t_rbits (l_tx l1))"
      "unat (t_rbits (l_tx l1)) \<le> 31" "unat (t_state (l_tx l1)) < 5"
    using xp_tx_bitstuff_bits[of "l_tx l" "ucast (drop_bit 8 (t_bcc (l_tx l)))"] assms(1,2) TX_MODE_BCC
    by (simp_all add: l1_def tx_owed_def tx_ok_def)
  obtain xs where "tx_owed (cfg_f l) (l_tx (tx_next_message l1)) = tx_owed (cfg_f l) (l_tx l1) @ xs"
      "flagged xs"
    using n(1)[of "cfg_f l"] by blast
  then show ?thesis
    unfolding f using n(2-) b by (intro tx_filledI) simp_all
qed

lemma tx_drain_owed:
  fixes l type
  assumes "8 \<le> unat (t_rbits (l_tx l))" "unat (t_rbits (l_tx l)) \<le> 31"
  defines "b \<equiv> fst (tx_drain type l)" and "l' \<equiv> snd (tx_drain type l)"
  shows "take (width type) (msb_bits 8 b) @ tx_owed f (l_tx l') = tx_owed f (l_tx l)"
    and "unat (t_rbits (l_tx l')) = unat (t_rbits (l_tx l)) - width type"
proof -
  let ?R = "t_residue (l_tx l)" and ?r = "unat (t_rbits (l_tx l))"
  have u: "unat (t_rbits (l_tx l) - 8) = ?r - 8"
    using assms(1) by (simp add: unat_sub word_le_nat_alt)
  have v: "unat (t_rbits (l_tx l) - 8 + 1) = ?r - 7"
    using assms(1) unat_sub[of 7 "t_rbits (l_tx l)"] by (simp add: word_le_nat_alt)
  show r: "unat (t_rbits (l_tx l')) = ?r - width type"
    using u v by (simp add: l'_def tx_drain_def Let_def width_def)
  have s: "msb_bits ?r ?R = msb_bits 8 b @ msb_bits (?r - 8) ?R"
    using msb_bits_split[of "?r - 8" ?r ?R] assms(1) u
    by (simp add: b_def tx_drain_def Let_def msb_bits_ucast)
  have "take (width type) (msb_bits 8 b) @ msb_bits (?r - width type) ?R = msb_bits ?r ?R"
  proof -
    have "take (width type) (msb_bits 8 b) = take (width type) (msb_bits ?r ?R)"
      using width_le[of type] by (simp add: s)
    moreover have "drop (width type) (msb_bits ?r ?R) = msb_bits (?r - width type) ?R"
      using msb_bits_split[of "?r - width type" ?r ?R] width_le[of type] assms(1) by simp
    ultimately show ?thesis
      by (metis append_take_drop_id)
  qed
  moreover have eqs: "t_residue (l_tx l') = ?R" "t_mode (l_tx l') = t_mode (l_tx l)" "t_nxt (l_tx l') = t_nxt (l_tx l)"
      "t_state (l_tx l') = t_state (l_tx l)" "t_bcc (l_tx l') = t_bcc (l_tx l)"
    by (simp_all add: l'_def tx_drain_def Let_def)
  ultimately show "take (width type) (msb_bits 8 b) @ tx_owed f (l_tx l') = tx_owed f (l_tx l)"
    unfolding tx_owed_def tx_bits_def r eqs by (simp flip: append.assoc)
qed

lemma tx_drain_frame [simp]:
  "tx_active (l_tx (snd (tx_drain type l))) = tx_active (l_tx l)" "t_state (l_tx (snd (tx_drain type l))) = t_state (l_tx l)"
  "cfg_f (snd (tx_drain type l)) = cfg_f l"
  by (simp_all add: tx_drain_def Let_def tx_active_def)

text \<open>An octet takes its bits from the front of what is owed; what is added behind begins with a flag.\<close>

lemma tx_octet_owed:
  assumes "tx_ok (l_tx l)" "tx_active (l_tx l)" "tx_octet type l = (b, l')"
  shows "\<exists>xs. take (width type) (msb_bits 8 b) @ tx_owed (cfg_f l) (l_tx l') = tx_owed (cfg_f l) (l_tx l) @ xs
      \<and> flagged xs" and "tx_ok (l_tx l')" and "tx_active (l_tx l')" and "cfg_f l' = cfg_f l"
proof -
  define l1 where "l1 = (if 8 \<le> t_rbits (l_tx l) then l else tx_fill l)"
  have d: "b = fst (tx_drain type l1)" "l' = snd (tx_drain type l1)"
    using assms(3) by (simp_all add: tx_octet_def l1_def)
  have "tx_filled (cfg_f l) (l_tx l) (l_tx l1)"
  proof (cases "8 \<le> t_rbits (l_tx l)")
    case True
    then show ?thesis
      using assms(1,2) by (auto simp: l1_def tx_filled_def flagged_def word_le_nat_alt)
  next
    case False
    then show ?thesis
      using tx_fill_owed[OF _ assms(1,2)] by (simp add: l1_def word_le_nat_alt)
  qed
  then obtain xs where f: "tx_owed (cfg_f l) (l_tx l1) = tx_owed (cfg_f l) (l_tx l) @ xs" "flagged xs"
      "8 \<le> unat (t_rbits (l_tx l1))" "unat (t_rbits (l_tx l1)) \<le> 31" "unat (t_state (l_tx l1)) < 5"
      "tx_active (l_tx l1)"
    by (auto simp: tx_filled_def tx_ok_def)
  note dr = tx_drain_owed[OF f(3,4), of type, folded d]
  show "\<exists>xs. take (width type) (msb_bits 8 b) @ tx_owed (cfg_f l) (l_tx l') = tx_owed (cfg_f l) (l_tx l) @ xs \<and> flagged xs"
    using dr(1)[of "cfg_f l"] f(1,2) by auto
  show "tx_ok (l_tx l')"
    using dr(2) f(4,5) d(2) by (simp add: tx_ok_def)
  show "tx_active (l_tx l')" "cfg_f l' = cfg_f l"
    using f(6) by (simp_all add: d(2) l1_def)
qed

primrec tx_send :: "sdl_type \<Rightarrow> nat \<Rightarrow> line \<Rightarrow> u8 list \<times> line" where
  "tx_send type 0 l = ([], l)"
| "tx_send type (Suc n) l =
     (case tx_octet type l of (b, l) \<Rightarrow> (case tx_send type n l of (os, l) \<Rightarrow> (b # os, l)))"

lemma length_tx_send [simp]: "length (fst (tx_send type n l)) = n"
  by (induction n arbitrary: l) (simp_all add: case_prod_beta)

lemma tx_send_owed:
  assumes "tx_ok (l_tx l)" "tx_active (l_tx l)" "tx_send type n l = (os, l')"
  shows "(\<exists>xs. sent_bits type os @ tx_owed (cfg_f l) (l_tx l') = tx_owed (cfg_f l) (l_tx l) @ xs \<and> flagged xs)
    \<and> tx_ok (l_tx l') \<and> tx_active (l_tx l')"
  using assms
proof (induction n arbitrary: l os)
  case 0
  then show ?case
    by (auto simp: flagged_def)
next
  case (Suc n)
  obtain b l1 os1 where b: "tx_octet type l = (b, l1)" and s: "tx_send type n l1 = (os1, l')" and os: "os = b # os1"
    using Suc.prems(3) by (auto split: prod.splits)
  note o = tx_octet_owed[OF Suc.prems(1,2) b]
  obtain xs where xs: "take (width type) (msb_bits 8 b) @ tx_owed (cfg_f l) (l_tx l1) = tx_owed (cfg_f l) (l_tx l) @ xs"
      "flagged xs"
    using o(1) by blast
  obtain ys where ys: "sent_bits type os1 @ tx_owed (cfg_f l) (l_tx l') = tx_owed (cfg_f l) (l_tx l1) @ ys" "flagged ys"
    and ok: "tx_ok (l_tx l')" "tx_active (l_tx l')"
    using Suc.IH[OF o(2,3) s] o(4) by auto
  have "sent_bits type os @ tx_owed (cfg_f l) (l_tx l') = take (width type) (msb_bits 8 b) @ tx_owed (cfg_f l) (l_tx l1) @ ys"
    unfolding ys(1)[symmetric] by (simp add: os)
  also have "\<dots> = tx_owed (cfg_f l) (l_tx l) @ xs @ ys"
    unfolding append.assoc[symmetric] xs(1) by simp
  finally show ?case
    using flagged_append[OF xs(2) ys(2)] ok by blast
qed

lemma append_longer: "a @ b = c @ d \<Longrightarrow> length c \<le> length a \<Longrightarrow> \<exists>y. a = c @ y"
  by (auto simp: append_eq_append_conv2)

text \<open>Enough octets carry all that is owed, and a flag behind it.\<close>

lemma tx_send_frame:
  assumes "tx_ok (l_tx l)" "tx_active (l_tx l)" "tx_send type n l = (os, l')"
    and "length (tx_owed (cfg_f l) (l_tx l)) + 8 \<le> width type * n"
  obtains y where "sent_bits type os = tx_owed (cfg_f l) (l_tx l) @ hdlc_flag @ y"
    "length y \<le> 7 \<Longrightarrow> inside y \<or> y = tl hdlc_flag"
proof -
  obtain xs where xs: "sent_bits type os @ tx_owed (cfg_f l) (l_tx l') = tx_owed (cfg_f l) (l_tx l) @ xs" "flagged xs"
    using tx_send_owed[OF assms(1-3)] by blast
  have len: "length (sent_bits type os) = width type * n"
    using length_tx_send[of type n l] by (simp add: assms(3))
  then have "length xs \<ge> 8"
    using arg_cong[OF xs(1), of length] assms(4) by (simp del: length_sent_bits)
  then obtain ys where ys: "xs = hdlc_flag @ ys" "after_ok ys"
    using xs(2) by (auto simp: flagged_def)
  with xs(1) have e: "sent_bits type os @ tx_owed (cfg_f l) (l_tx l') = (tx_owed (cfg_f l) (l_tx l) @ hdlc_flag) @ ys"
    by simp
  have "length (tx_owed (cfg_f l) (l_tx l) @ hdlc_flag) \<le> length (sent_bits type os)"
    using assms(4) len by (simp add: hdlc_flag_def del: length_sent_bits)
  then obtain y where y: "sent_bits type os = (tx_owed (cfg_f l) (l_tx l) @ hdlc_flag) @ y"
    using append_longer[OF e] by blast
  have "y = take (length y) ys"
    using e unfolding y by auto
  then have "length y \<le> 7 \<Longrightarrow> inside y \<or> y = tl hdlc_flag"
    using ys(2) by (cases "ys = []") (auto simp: after_ok_def inside_def)
  then show ?thesis
    using that[of y] y by simp
qed

end
