(* ===== verification/HDLC_Receive.thy ===== *)
theory HDLC_Receive
  imports HDLC_Line
begin

text \<open>
  The receive path of the soft HDLC.  \<open>in_frame l z\<close> says that the receiver has read the bits \<open>z\<close> since the last
  flag: what the automaton has released of them is in the block check, the stored octets and the residue.  An
  octet that completes no flag extends \<open>z\<close>; the octet that completes the flag ends the frame.
\<close>

section \<open>The residue and the stored octets\<close>

definition rx_stored :: "rx_path \<Rightarrow> u8 list" where
  "rx_stored rx = (case r_msg rx of None \<Rightarrow> [] | Some os \<Rightarrow> os) @ (case r_nxt rx of None \<Rightarrow> [] | Some os \<Rightarrow> os)"

definition rx_holds :: "bool list \<Rightarrow> nat \<Rightarrow> rx_path \<Rightarrow> bool" where
  "rx_holds E j rx = (8 * j \<le> length E \<and> r_rbits rx = word_of_nat (length E - 8 * j)
     \<and> r_residue rx = lsb_val (drop (8 * j) E) \<and> r_bytes rx = word_of_nat j
     \<and> length (rx_stored rx) = j \<and> octet_bits (rx_stored rx) = take (8 * j) E
     \<and> r_bcc rx = foldl bcc_octet 0xffff (rx_stored rx))"

text \<open>The longest frame the receiver stores, and what storing an octet leaves alone.\<close>

definition rx_max :: "line \<Rightarrow> nat" where
  "rx_max l = unat (cfg_m l + 1 + word_of_nat (hlen (l_ch l)))"

definition rx_rest :: "line \<Rightarrow> ch \<times> tx_path \<times> u32 \<times> u32 \<times> nat \<times> u32 \<times> rx_mode" where
  "rx_rest l = (l_ch l, l_tx l, cfg_N l, cfg_m l, fastbuf l, r_state (l_rx l), r_mode (l_rx l))"

lemma rx_rest_max: "rx_rest l = rx_rest l' \<Longrightarrow> rx_max l = rx_max l'"
  by (simp add: rx_rest_def rx_max_def)

lemma drop_bit_lsb_val: "drop_bit n (lsb_val bs :: 'a::len word) = lsb_val (drop n bs)"
  if "length bs \<le> LENGTH('a)"
  using that by (intro bit_eqI) (auto simp: bit_drop_bit_eq bit_lsb_val add.commute)

lemma lsb_bits_octet:
  assumes "8 \<le> length bs" "length bs \<le> 32"
  shows "lsb_bits 8 (ucast (lsb_val bs :: u32) :: u8) = take 8 bs"
  using assms by (intro nth_equalityI) (auto simp: bit_ucast_iff bit_lsb_val)

lemma u32_less: "unat (w :: u32) < 2 ^ 32"
  using unsigned_less[of w] by simp

lemma rx_stored_linkb [simp]: "rx_stored (xp_rx_linkb rx) = rx_stored rx"
  by (simp add: rx_stored_def xp_rx_linkb_def split: option.split)

lemma rx_store_holds:
  assumes "rx_holds E j (l_rx l)" "16 < length E - 8 * j" "length E - 8 * j \<le> 28" "allocs (l_ch l) = []"
    and "Suc j \<le> rx_max l"
  obtains l' where "rx_store l = (None, l')" "rx_holds E (Suc j) (l_rx l')" "rx_rest l' = rx_rest l"
proof -
  define rx where "rx = (case r_nxt (l_rx l) of None \<Rightarrow> l_rx l
    | Some bs \<Rightarrow> if fastbuf l \<le> length bs then xp_rx_linkb (l_rx l) else l_rx l)"
  have rx: "rx_holds E j rx" "r_state rx = r_state (l_rx l)" "r_mode rx = r_mode (l_rx l)"
    using assms(1) by (auto simp: rx_def rx_holds_def split: option.split) (auto simp: xp_rx_linkb_def)
  let ?bs = "case r_nxt rx of None \<Rightarrow> [] | Some bs \<Rightarrow> bs" and ?b = "ucast (r_residue rx) :: u8"
  define rx' where "rx' = rx\<lparr>r_nxt := Some (?bs @ [?b]), r_bcc := bcc_octet (r_bcc rx) ?b,
    r_residue := drop_bit 8 (r_residue rx), r_rbits := r_rbits rx - 8, r_bytes := r_bytes rx + 1\<rparr>"
  define l' where "l' = l\<lparr>l_rx := rx', l_st := (l_st l)\<lparr>rx_bytes := rx_bytes (l_st l) + 1\<rparr>\<rparr>"
  have j: "unat (r_bytes rx + 1) = Suc j"
  proof -
    have "Suc j < 2 ^ 32"
      using assms(5) u32_less[of "cfg_m l + 1 + word_of_nat (hlen (l_ch l))"] by (simp add: rx_max_def)
    moreover have "r_bytes rx + 1 = word_of_nat (Suc j)"
      using rx(1) by (simp add: rx_holds_def)
    ultimately show ?thesis
      by (simp add: unat_of_nat del: of_nat_Suc)
  qed
  have "\<not> cfg_m l + 1 + word_of_nat (hlen (l_ch l)) < r_bytes rx + 1"
    using assms(5) j by (simp add: word_less_nat_alt rx_max_def)
  then have s: "rx_store l = (None, l')"
    using assms(4) by (simp add: rx_store_def rx_def[symmetric] Let_def allocb_def l'_def rx'_def split: option.split)
  have b: "lsb_bits 8 ?b = take 8 (drop (8 * j) E)"
    using rx(1) assms(2,3) lsb_bits_octet[of "drop (8 * j) E"] by (simp add: rx_holds_def)
  have st: "rx_stored rx' = rx_stored rx @ [?b]"
    by (simp add: rx'_def rx_stored_def split: option.split)
  have r: "drop_bit 8 (r_residue rx) = lsb_val (drop (8 * Suc j) E)"
    using rx(1) assms(3) by (simp add: rx_holds_def drop_bit_lsb_val add.commute)
  have n: "r_rbits rx - 8 = word_of_nat (length E - 8 * Suc j)"
  proof -
    have "word_of_nat (length E - 8 * j) = (word_of_nat (length E - 8 * Suc j) + 8 :: u32)"
      using assms(2) by (subst of_nat_numeral[of "num.Bit0 (num.Bit0 (num.Bit0 num.One))", symmetric],
          subst of_nat_add[symmetric]) simp
    then show ?thesis
      using rx(1) by (simp add: rx_holds_def)
  qed
  have "take (8 * Suc j) E = take (8 * j) E @ take 8 (drop (8 * j) E)"
    by (simp add: take_add[symmetric] add.commute)
  then have "rx_holds E (Suc j) rx'"
    using rx(1) assms(2) st b r n by (simp add: rx_holds_def) (simp add: rx'_def)
  then show ?thesis
    using that[of l'] s rx(2,3) by (simp add: l'_def rx_rest_def rx'_def)
qed

text \<open>How many octets of a frame are stored when its bits \<open>E\<close> have been released.\<close>

definition rx_count :: "bool list \<Rightarrow> nat" where
  "rx_count E = (length E - 9) div 8"

lemma rx_count_left: "length E - 8 * rx_count E \<le> 16"
  unfolding rx_count_def by linarith

lemma rx_count_mono: "rx_count E \<le> rx_count (E @ F)"
  by (simp add: rx_count_def div_le_mono)

lemma rx_holds_rbits: "rx_holds E j rx \<Longrightarrow> length E - 8 * j \<le> 28 \<Longrightarrow> unat (r_rbits rx) = length E - 8 * j"
  by (simp add: rx_holds_def unat_of_nat del: of_nat_diff)

lemma rx_drain_holds:
  assumes "rx_holds E j (l_rx l)" "j \<le> rx_count E" "length E - 8 * j \<le> 28" "allocs (l_ch l) = []"
    and "rx_count E \<le> rx_max l"
  shows "\<exists>l'. rx_drain l = (None, l') \<and> rx_holds E (rx_count E) (l_rx l') \<and> rx_rest l' = rx_rest l"
  using assms
proof (induction "rx_count E - j" arbitrary: j l)
  case (0 j l)
  then have j: "j = rx_count E"
    by simp
  then have "\<not> 16 < r_rbits (l_rx l)"
    using rx_holds_rbits[OF 0(2)] rx_count_left[of E] by (simp add: word_less_nat_alt)
  then show ?case
    using 0(2) j by (subst rx_drain.simps) simp
next
  case (Suc n j l)
  have lt: "j < rx_count E"
    using Suc.hyps(2) by simp
  then have big: "16 < length E - 8 * j"
    by (simp add: rx_count_def)
  then have "16 < r_rbits (l_rx l)"
    using rx_holds_rbits[OF Suc.prems(1,3)] by (simp add: word_less_nat_alt)
  moreover obtain l' where l': "rx_store l = (None, l')" "rx_holds E (Suc j) (l_rx l')" "rx_rest l' = rx_rest l"
    using rx_store_holds[OF Suc.prems(1) big Suc.prems(3,4)] Suc.prems(5) lt by (metis Suc_leI le_trans)
  moreover have "allocs (l_ch l') = []"
    using l'(3) Suc.prems(4) by (simp add: rx_rest_def)
  ultimately show ?case
    using Suc.hyps(1)[of "Suc j" l'] Suc.hyps(2) Suc.prems(3,5) lt rx_rest_max[OF l'(3)]
    by (subst rx_drain.simps) auto
qed

section \<open>Table entries\<close>

definition rx_shows :: "rx_entry \<Rightarrow> reading \<Rightarrow> bool" where
  "rx_shows r A = (ucast (re_string r) = (lsb_val (rd_out A) :: u32)
     \<and> ucast (re_length r) = (word_of_nat (length (rd_out A)) :: u32) \<and> (re_length r = 0 \<longleftrightarrow> rd_out A = [])
     \<and> length (rd_out A) \<le> 12 \<and> unat (ucast (re_state r) :: u32) = rd_state A
     \<and> re_sync r = rd_sync A \<and> re_hunt r = rd_hunt A \<and> re_flag r = rd_flag A \<and> re_idle r = rd_idle A)"

lemma rx_octet_entry:
  assumes "unat (r_state (l_rx l)) < 16"
  obtains r where "rx_octet type b l = rx_entry_step r (count sdl_rx_octets_update l)"
    "rx_shows r (read_bits (unat (r_state (l_rx l))) (take (width type) (msb_bits 8 b)))"
proof -
  let ?s = "unat (r_state (l_rx l))"
  define r where "r = rx_table_valueN ?s b (width type)"
  define A where "A = read_bits ?s (take (width type) (msb_bits 8 b))"
  have "rx_octet type b l = rx_entry_step r (count sdl_rx_octets_update l)"
    using rx_index_value[OF assms, of b] by (simp add: rx_octet_def r_def width_def)
  moreover have "rx_shows r A"
  proof -
    note e = rx_entry_reads[OF assms width_le(2)[of type], of b, folded r_def A_def]
    have "ucast (re_length r) = (word_of_nat (length (rd_out A)) :: u32)"
      using e by (metis of_nat_unat)
    moreover have "re_length r = 0 \<longleftrightarrow> rd_out A = []"
      using e by (metis length_0_conv unat_0 unsigned_0 unsigned_eq_0_iff)
    moreover have "unat (ucast (re_state r) :: u32) = unat (re_state r)"
      by (simp add: unsigned_ucast_eq take_bit_nat_eq_self unat_4_less[THEN less_trans])
    moreover have "ucast (lsb_val (rd_out A) :: 12 word) = (lsb_val (rd_out A) :: u32)"
      using e by (intro ucast_lsb_val) simp
    ultimately show ?thesis
      using e by (simp add: rx_shows_def)
  qed
  ultimately show ?thesis
    using that[of r] by (simp add: A_def)
qed

section \<open>Inside a frame\<close>

definition in_frame :: "line \<Rightarrow> bool list \<Rightarrow> bool" where
  "in_frame l z =
     (let E = rx_emit 8 z; rx = l_rx l in
      inside z \<and> unat (r_state rx) = rx_run 8 z
      \<and> (if E = [] then r_mode rx = RX_MODE_SYNC \<and> r_msg rx = None \<and> r_nxt rx = None
         else r_mode rx = RX_MODE_MOF \<and> rx_holds E (rx_count E) rx))"

text \<open>What the octets of a frame leave alone.\<close>

definition rx_env :: "line \<Rightarrow> ch \<times> tx_path \<times> u32 \<times> u32 \<times> nat" where
  "rx_env l = (l_ch l, l_tx l, cfg_N l, cfg_m l, fastbuf l)"

lemma rx_rest_env: "rx_rest l = rx_rest l' \<Longrightarrow> rx_env l = rx_env l'"
  by (simp add: rx_rest_def rx_env_def)

lemma in_frame_count [simp]:
  "in_frame (count u l) z = in_frame l z" "rx_env (count u l) = rx_env l" "l_rx (count u l) = l_rx l"
  "l_ch (count u l) = l_ch l"
  by (simp_all add: in_frame_def count_def rx_env_def)

lemma rx_count_short: "length E \<le> 16 \<Longrightarrow> rx_count E = 0"
  by (simp add: rx_count_def)

text \<open>The first bits of a frame.\<close>

lemma begin_in_frame:
  fixes r rx
  assumes "rx_shows r A" "rd_out A = rx_emit 8 z" "inside z" "unat (r_state rx) = rx_run 8 z"
    and "r_mode rx = RX_MODE_SYNC" "r_msg rx = None" "r_nxt rx = None"
  shows "in_frame (l\<lparr>l_rx := rx_begin_frame r rx\<rparr>) z"
proof (cases "rx_emit 8 z = []")
  case True
  then show ?thesis
    using assms by (simp add: in_frame_def rx_begin_frame_def rx_shows_def)
next
  case False
  have "length (rx_emit 8 z) \<le> 12"
    using assms(1,2) by (simp add: rx_shows_def)
  then have "rx_count (rx_emit 8 z) = 0"
    by (simp add: rx_count_short)
  then show ?thesis
    using False assms by (simp add: in_frame_def rx_begin_frame_def rx_shows_def rx_holds_def rx_stored_def)
qed

lemma read_inside:
  assumes "inside (z @ c)" "c \<noteq> []"
  shows "read_bits (rx_run 8 z) c = \<lparr>rd_out = rx_emit (rx_run 8 z) c, rd_state = rx_run 8 (z @ c),
    rd_sync = (z = []), rd_hunt = False, rd_flag = (z = []), rd_idle = False\<rparr>"
proof (cases "z = []")
  case True
  then show ?thesis
    using read_after_flag[of "reading0 8" c] assms by (simp add: read_bits_def reading0_def)
next
  case False
  then have "quiet (rx_run 8 z) c"
    using assms(1) inside_append by blast
  then show ?thesis
    using read_quiet[of "reading0 (rx_run 8 z)" c] False by (simp add: read_bits_def reading0_def)
qed

lemma rx_append_holds:
  assumes "rx_holds E j rx" "rx_shows r A" "length E - 8 * j \<le> 16"
  shows "rx_holds (E @ rd_out A) j (rx\<lparr>
      r_residue := r_residue rx OR push_bit (unat (r_rbits rx)) (ucast (re_string r)),
      r_rbits := r_rbits rx + ucast (re_length r)\<rparr>)"
proof -
  have h: "8 * j \<le> length E" "r_residue rx = lsb_val (drop (8 * j) E)" "r_rbits rx = word_of_nat (length E - 8 * j)"
    using assms(1) by (simp_all add: rx_holds_def)
  have u: "unat (r_rbits rx) = length E - 8 * j"
    using rx_holds_rbits[OF assms(1)] assms(3) by simp
  have "r_residue rx OR push_bit (unat (r_rbits rx)) (ucast (re_string r)) = lsb_val (drop (8 * j) (E @ rd_out A))"
    using assms(2) h(1) by (simp add: rx_shows_def u h(2) lsb_val_append)
  moreover have "r_rbits rx + ucast (re_length r) = word_of_nat (length (E @ rd_out A) - 8 * j)"
    using assms(2) h(1) by (simp add: rx_shows_def h(3))
  ultimately show ?thesis
    using assms(1) h(1) by (simp add: rx_holds_def rx_stored_def)
qed

lemma in_frame_step:
  assumes f: "in_frame l z" and r: "rx_shows r (read_bits (rx_run 8 z) c)"
    and i: "inside (z @ c)" "c \<noteq> []" and a: "allocs (l_ch l) = []"
    and m: "rx_count (rx_emit 8 (z @ c)) \<le> rx_max l"
  shows "in_frame (rx_entry_step r l) (z @ c) \<and> rx_env (rx_entry_step r l) = rx_env l"
proof -
  let ?E = "rx_emit 8 z" and ?out = "rx_emit (rx_run 8 z) c"
  define rx where "rx = (l_rx l)\<lparr>r_state := ucast (re_state r)\<rparr>"
  note A = read_inside[OF i]
  have E: "rx_emit 8 (z @ c) = ?E @ ?out"
    by (rule rx_emit_append)
  have st: "unat (r_state rx) = rx_run 8 (z @ c)"
    using r unfolding A by (simp add: rx_shows_def rx_def)
  have marks: "\<not> re_hunt r" "\<not> re_idle r" "re_flag r = (z = [])" "re_sync r = (z = [])" "re_length r = 0 \<longleftrightarrow> ?out = []"
      "length ?out \<le> 12"
    using r unfolding A by (simp_all add: rx_shows_def)
  show ?thesis
  proof (cases "?E = []")
    case True
    then have "rx_entry_step r l = l\<lparr>l_rx := rx_begin_frame r rx\<rparr>"
      using f marks by (simp add: rx_entry_step_def in_frame_def rx_def Let_def)
    then show ?thesis
      using begin_in_frame[OF r, of "z @ c" rx l] A E True i(1) st f
      by (simp add: in_frame_def rx_def rx_env_def Let_def)
  next
    case False
    then have z: "z \<noteq> []"
      by auto
    let ?j = "rx_count ?E"
    define rx1 where "rx1 = (if ?out = [] then rx else rx\<lparr>
        r_residue := r_residue rx OR push_bit (unat (r_rbits rx)) (ucast (re_string r)),
        r_rbits := r_rbits rx + ucast (re_length r)\<rparr>)"
    have h0: "rx_holds ?E ?j rx" and mode: "r_mode rx = RX_MODE_MOF"
      using f False by (simp_all add: in_frame_def rx_holds_def rx_def rx_stored_def Let_def)
    have h: "rx_holds (rx_emit 8 (z @ c)) ?j rx1"
      using rx_append_holds[OF h0 r rx_count_left] h0 unfolding A rx1_def E by simp
    have left: "length (rx_emit 8 (z @ c)) - 8 * ?j \<le> 28"
      using rx_count_left[of ?E] marks(6) unfolding E length_append by linarith
    have "\<exists>l'. rx_drain (l\<lparr>l_rx := rx1\<rparr>) = (None, l') \<and> rx_holds (rx_emit 8 (z @ c)) (rx_count (rx_emit 8 (z @ c))) (l_rx l')
        \<and> rx_rest l' = rx_rest (l\<lparr>l_rx := rx1\<rparr>)"
    proof (rule rx_drain_holds)
      show "rx_count ?E \<le> rx_count (rx_emit 8 (z @ c))"
        unfolding E by (rule rx_count_mono)
    qed (use h left a m in \<open>simp_all add: rx_max_def\<close>)
    then obtain l' where l': "rx_drain (l\<lparr>l_rx := rx1\<rparr>) = (None, l')"
        "rx_holds (rx_emit 8 (z @ c)) (rx_count (rx_emit 8 (z @ c))) (l_rx l')" "rx_rest l' = rx_rest (l\<lparr>l_rx := rx1\<rparr>)"
      by blast
    have "rx_mof r (l\<lparr>l_rx := rx\<rparr>) = l'"
      using l'(1) marks z by (simp add: rx_mof_def rx1_def Let_def split: if_splits)
    then have "rx_entry_step r l = l'"
      using mode by (simp add: rx_entry_step_def rx_def Let_def)
    moreover have "r_state (l_rx l') = r_state rx" "r_mode (l_rx l') = RX_MODE_MOF" "rx_env l' = rx_env l"
      using l'(3) mode rx_rest_env[OF l'(3)] by (auto simp: rx_rest_def rx1_def rx_env_def split: if_splits)
    ultimately show ?thesis
      using l'(2) st i(1) False E by (simp add: in_frame_def Let_def)
  qed
qed

section \<open>The end of a frame\<close>

text \<open>What is left of the bits behind a flag in the same octet: only a second flag that shares its first zero
  with the first fits in, and starts the count again.\<close>

definition after_flag :: "bool list \<Rightarrow> bool list" where
  "after_flag b = (if b = tl hdlc_flag then [] else b)"

lemma tl_flag: "tl hdlc_flag = replicate 6 True @ [False]"
  by (simp add: hdlc_flag_def numeral_eq_Suc)

lemma read_two_flags:
  "rd_state A = 8 \<Longrightarrow> fold rd_bit (tl hdlc_flag) A = \<lparr>rd_out = [], rd_state = 8, rd_sync = False, rd_hunt = False,
     rd_flag = True, rd_idle = False\<rparr>"
  by (simp add: hdlc_flag_def rd_bit_def rx_out_def rx_next_def)

lemma read_flag_octet:
  assumes "inside (z @ a)" "rx_run 8 (z @ a) \<in> {7, 14}" "inside b \<or> b = tl hdlc_flag"
  shows "read_bits (rx_run 8 z) (a @ False # b) =
    \<lparr>rd_out = (if b = [] then rx_emit (rx_run 8 z) a else rx_emit 8 (after_flag b)),
     rd_state = rx_run 8 (after_flag b), rd_sync = (after_flag b \<noteq> []), rd_hunt = False, rd_flag = True,
     rd_idle = False\<rparr>"
proof -
  let ?s = "rx_run 8 z"
  define A1 where "A1 = fold rd_bit a (reading0 ?s)"
  have A1: "rd_state A1 = rx_run 8 (z @ a)" "rd_out A1 = rx_emit ?s a"
  proof (atomize (full), cases "a = []")
    case True
    then show "rd_state A1 = rx_run 8 (z @ a) \<and> rd_out A1 = rx_emit ?s a"
      by (simp add: A1_def reading0_def)
  next
    case False
    then show "rd_state A1 = rx_run 8 (z @ a) \<and> rd_out A1 = rx_emit ?s a"
      using read_inside[OF assms(1) False] by (simp add: A1_def read_bits_def)
  qed
  define A2 where "A2 = rd_bit False A1"
  have A2: "A2 = A1\<lparr>rd_state := 8, rd_sync := False, rd_hunt := False, rd_flag := True, rd_idle := False\<rparr>"
    unfolding A2_def by (rule read_flag_end) (use assms(2) A1 in auto)
  have r: "read_bits ?s (a @ False # b) = fold rd_bit b A2"
    by (simp add: read_bits_def A1_def A2_def)
  show ?thesis
  proof (cases "b = [] \<or> b = tl hdlc_flag")
    case True
    then show ?thesis
      unfolding r using A1(2) read_two_flags[of A2]
      by (auto simp: A2 after_flag_def hdlc_flag_def intro: reading.equality)
  next
    case False
    then show ?thesis
      unfolding r using read_after_flag[of A2 b] assms(3) by (simp add: A2 after_flag_def)
  qed
qed

lemma frame_bits_length: "length (frame_bits os) = 8 * (length os + 2)"
  by (simp add: frame_bits_def fcs_def Let_def)

lemma rx_count_frame: "length E \<le> length (frame_bits os) \<Longrightarrow> length (frame_bits os) \<le> length E + 7 \<Longrightarrow> rx_count E = length os"
  by (simp add: rx_count_def frame_bits_length)

lemma lsb_bits_inj: "lsb_bits 8 (a :: u8) = lsb_bits 8 b \<Longrightarrow> a = b"
proof -
  assume e: "lsb_bits 8 a = lsb_bits 8 b"
  have "take_bit 8 a = take_bit 8 b"
    by (simp only: lsb_val_lsb_bits[symmetric] e)
  then show "a = b"
    by (simp add: take_bit_word_eq_self)
qed

lemma octet_bits_inj: "octet_bits xs = octet_bits ys \<Longrightarrow> length xs = length ys \<Longrightarrow> xs = ys"
  by (induction xs ys rule: list_induct2') (auto dest: lsb_bits_inj)

lemma lsb_val_fcs: "(lsb_val (octet_bits (fcs r os)) :: u32) = ucast (NOT (foldl bcc_octet r os))"
proof -
  define c where "c = NOT (foldl bcc_octet r os)"
  have "lsb_bits 8 (ucast c :: u8) @ lsb_bits 8 (ucast (drop_bit 8 c) :: u8) = lsb_bits 16 c"
    by (rule nth_equalityI) (auto simp: nth_append bit_ucast_iff bit_drop_bit_eq)
  then have "(lsb_val (octet_bits (fcs r os)) :: u32) = lsb_val (lsb_bits 16 c)"
    by (simp add: fcs_def c_def Let_def)
  also have "\<dots> = ucast c"
  proof (rule bit_eqI)
    fix n
    have "bit c n \<Longrightarrow> n < 16"
      using bit_imp_le_length[of c n] by simp
    then show "bit (lsb_val (lsb_bits 16 c) :: u32) n = bit (ucast c :: u32) n"
      by (auto simp: bit_lsb_val bit_ucast_iff)
  qed
  finally show ?thesis
    by (simp add: c_def)
qed

lemma hlen_cases: "hlen ch = 3 \<or> hlen ch = 6"
  by (simp add: hlen_def)

lemma frame_end_ok:
  assumes "rx_holds (frame_bits os) (length os) (l_rx l)" "hlen (l_ch l) \<le> length os" "length os < 2 ^ 32"
    and "rx_length_ok (l_ch l) os (length os - hlen (l_ch l))"
  obtains rx where "rx_frame_end r l = (count rx_sus_update l)\<lparr>
      l_ch := sl_daedr_received_bits \<lparr>mid = 0, octets = os\<rparr> (l_ch l), l_rx := rx_new_frame r rx\<rparr>"
    "r_msg rx = None" "r_nxt rx = None" "r_state rx = r_state (l_rx l)"
proof -
  let ?rx = "l_rx l" and ?n = "length os" and ?h = "hlen (l_ch l)"
  have h: "r_rbits ?rx = 16" "r_residue ?rx = lsb_val (drop (8 * ?n) (frame_bits os))" "r_bytes ?rx = word_of_nat ?n"
      "octet_bits (rx_stored ?rx) = octet_bits os" "length (rx_stored ?rx) = ?n"
      "r_bcc ?rx = foldl bcc_octet 0xffff (rx_stored ?rx)"
    using assms(1) by (simp_all add: rx_holds_def frame_bits_length del: of_nat_diff)
      (simp_all add: frame_bits_def)
  have st: "rx_stored ?rx = os"
    using octet_bits_inj[OF h(4,5)] .
  have crc: "ucast (NOT (r_bcc ?rx)) = r_residue ?rx AND 0xffff"
  proof -
    have "r_residue ?rx = ucast (NOT (r_bcc ?rx))"
      by (simp add: h(2) frame_bits_def lsb_val_fcs h(6) st)
    moreover have "(ucast w :: u32) AND 0xffff = ucast w" for w :: u16
    proof -
      have "(0xffff :: u32) = mask 16"
        by (simp add: mask_eq_exp_minus_1)
      moreover have "take_bit 16 (ucast w :: u32) = ucast w"
        by (rule bit_eqI) (auto simp: bit_take_bit_iff bit_ucast_iff dest: bit_imp_le_length)
      ultimately show ?thesis
        by (simp only: take_bit_eq_mask)
    qed
    ultimately show ?thesis
      by simp
  qed
  have un: "unat (word_of_nat ?n :: u32) = ?n" "unat (word_of_nat ?h :: u32) = ?h"
    using assms(3) hlen_cases[of "l_ch l"] by (auto simp: unat_of_nat)
  have b: "\<not> r_bytes ?rx < word_of_nat ?h" "unat (r_bytes ?rx - word_of_nat ?h) = ?n - ?h"
    using assms(2) un by (simp_all add: h(3) word_less_nat_alt unat_sub word_le_nat_alt)
  have "os \<noteq> []"
    using assms(2) hlen_cases[of "l_ch l"] by auto
  then have m: "r_msg (xp_rx_linkb ?rx) = Some os" "r_bytes (xp_rx_linkb ?rx) = r_bytes ?rx"
    using st by (auto simp: rx_stored_def xp_rx_linkb_def split: option.splits)
  let ?rx' = "(xp_rx_linkb ?rx)\<lparr>r_msg := None\<rparr>"
  have "rx_frame_end r l = (count rx_sus_update l)\<lparr>
      l_ch := sl_daedr_received_bits \<lparr>mid = 0, octets = os\<rparr> (l_ch l), l_rx := rx_new_frame r ?rx'\<rparr>"
    using h(1) crc b m assms(4) by (simp add: rx_frame_end_def Let_def count_def)
  then show ?thesis
    by (rule that) (simp_all add: xp_rx_linkb_def)
qed

lemma inside_after_flag: "inside b \<or> b = tl hdlc_flag \<Longrightarrow> inside (after_flag b)"
  by (auto simp: after_flag_def inside_def)

lemma new_in_frame:
  fixes r rx
  assumes "rx_shows r A" "rd_sync A = (z \<noteq> [])" "z \<noteq> [] \<Longrightarrow> rd_out A = rx_emit 8 z" "inside z"
    and "unat (r_state rx) = rx_run 8 z" "r_msg rx = None" "r_nxt rx = None"
  shows "in_frame (l\<lparr>l_rx := rx_new_frame r rx\<rparr>) z"
proof (cases "z = []")
  case True
  then show ?thesis
    using assms by (simp add: in_frame_def rx_new_frame_def rx_shows_def inside_def Let_def)
next
  case False
  let ?rx = "rx\<lparr>r_mode := RX_MODE_SYNC, r_residue := 0, r_rbits := 0, r_bytes := 0, r_bcc := 0xffff\<rparr>"
  have "rx_new_frame r rx = rx_begin_frame r ?rx"
    using assms(1,2) False by (simp add: rx_new_frame_def rx_shows_def Let_def)
  moreover have "in_frame (l\<lparr>l_rx := rx_begin_frame r ?rx\<rparr>) z"
    by (rule begin_in_frame[OF assms(1)]) (use assms False in simp_all)
  ultimately show ?thesis
    by simp
qed

lemma in_frame_idle_flag:
  assumes f: "in_frame l z" and r: "rx_shows r (read_bits (rx_run 8 z) (a @ False # b))"
    and i: "inside (z @ a)" "rx_run 8 (z @ a) \<in> {7, 14}" "inside b \<or> b = tl hdlc_flag"
    and D: "rx_emit 8 (z @ a) = []"
  shows "in_frame (rx_entry_step r l) (after_flag b) \<and> rx_env (rx_entry_step r l) = rx_env l"
proof -
  define rx where "rx = (l_rx l)\<lparr>r_state := ucast (re_state r)\<rparr>"
  note A = read_flag_octet[OF i]
  have E: "rx_emit 8 z = []" "rx_emit (rx_run 8 z) a = []"
    using D by (simp_all add: rx_emit_append)
  have s: "rx_entry_step r l = l\<lparr>l_rx := rx_begin_frame r rx\<rparr>"
    using f r E(1) unfolding A by (simp add: rx_entry_step_def in_frame_def rx_def rx_shows_def Let_def)
  have out: "rd_out (read_bits (rx_run 8 z) (a @ False # b)) = rx_emit 8 (after_flag b)"
    using E(2) unfolding A by (auto simp: after_flag_def)
  have "in_frame (l\<lparr>l_rx := rx_begin_frame r rx\<rparr>) (after_flag b)"
    by (rule begin_in_frame[OF r out inside_after_flag[OF i(3)]])
      (use f r E(1) in \<open>simp_all add: A rx_def rx_shows_def in_frame_def Let_def\<close>)
  then show ?thesis
    by (simp add: s rx_env_def)
qed

lemma in_frame_closing_flag:
  assumes f: "in_frame l z" and r: "rx_shows r (read_bits (rx_run 8 z) (a @ False # b))"
    and i: "inside (z @ a)" "rx_run 8 (z @ a) \<in> {7, 14}" "inside b \<or> b = tl hdlc_flag"
    and q: "b \<noteq> [] \<Longrightarrow> rx_emit (rx_run 8 z) a = []" "length (rx_emit (rx_run 8 z) a) \<le> 7"
    and D: "rx_emit 8 (z @ a) = frame_bits os"
    and ok: "hlen (l_ch l) \<le> length os" "length os < 2 ^ 32" "rx_length_ok (l_ch l) os (length os - hlen (l_ch l))"
  shows "in_frame (rx_entry_step r l) (after_flag b)
    \<and> rx_env (rx_entry_step r l) = rx_env (l\<lparr>l_ch := sl_daedr_received_bits \<lparr>mid = 0, octets = os\<rparr> (l_ch l)\<rparr>)"
proof -
  let ?E = "rx_emit 8 z" and ?out = "rx_emit (rx_run 8 z) a"
  define rx where "rx = (l_rx l)\<lparr>r_state := ucast (re_state r)\<rparr>"
  define A where "A = read_bits (rx_run 8 z) (a @ False # b)"
  note Aeq = read_flag_octet[OF i, folded A_def]
  note r = r[folded A_def]
  have E: "?E @ ?out = frame_bits os"
    using D by (simp add: rx_emit_append)
  have "length ?E + length ?out = 8 * (length os + 2)"
    using arg_cong[OF E, of length] by (simp add: frame_bits_length)
  then have ne: "?E \<noteq> []" and n: "rx_count ?E = length os"
    using q(2) by (auto intro!: rx_count_frame simp: frame_bits_length)
  have h0: "rx_holds ?E (length os) rx" and mode: "r_mode rx = RX_MODE_MOF"
    using f ne n by (simp_all add: in_frame_def rx_holds_def rx_def rx_stored_def Let_def)
  have marks: "re_flag r" "re_sync r = (after_flag b \<noteq> [])" "re_length r = 0 \<longleftrightarrow> rd_out A = []"
      "unat (r_state rx) = rx_run 8 (after_flag b)"
    using r unfolding Aeq by (simp_all add: rx_shows_def rx_def)
  define rx1 where "rx1 = (if \<not> re_sync r \<and> re_length r \<noteq> 0 then rx\<lparr>
        r_residue := r_residue rx OR push_bit (unat (r_rbits rx)) (ucast (re_string r)),
        r_rbits := r_rbits rx + ucast (re_length r)\<rparr> else rx)"
  have "rx_holds (frame_bits os) (length os) rx1"
  proof (cases "b = []")
    case True
    then have "rd_out A = ?out" "\<not> re_sync r"
      using marks(2) unfolding Aeq by (simp_all add: after_flag_def)
    then show ?thesis
      using rx_append_holds[OF h0 r] h0 rx_count_left[of ?E] E marks(3) by (auto simp: rx1_def n)
  next
    case False
    then have "?E = frame_bits os" and "\<not> re_sync r \<Longrightarrow> rd_out A = []"
      using q(1) E marks(2) unfolding Aeq by (auto simp: after_flag_def)
    then show ?thesis
      using h0 marks(3) by (auto simp: rx1_def)
  qed
  then obtain rx2 where e: "rx_frame_end r (l\<lparr>l_rx := rx1\<rparr>) = (count rx_sus_update (l\<lparr>l_rx := rx1\<rparr>))\<lparr>
      l_ch := sl_daedr_received_bits \<lparr>mid = 0, octets = os\<rparr> (l_ch l), l_rx := rx_new_frame r rx2\<rparr>"
    "r_msg rx2 = None" "r_nxt rx2 = None" "r_state rx2 = r_state rx1"
    using frame_end_ok[of os "l\<lparr>l_rx := rx1\<rparr>" r] ok by auto
  have "rx_mof r (l\<lparr>l_rx := rx\<rparr>) = rx_frame_end r (l\<lparr>l_rx := rx1\<rparr>)"
    using marks(1) by (simp add: rx_mof_def rx1_def Let_def)
  then have s: "rx_entry_step r l = rx_frame_end r (l\<lparr>l_rx := rx1\<rparr>)"
    using mode by (simp add: rx_entry_step_def rx_def Let_def)
  have "in_frame (rx_entry_step r l) (after_flag b)"
    unfolding s e(1)
  proof (rule new_in_frame[OF r])
    show "after_flag b \<noteq> [] \<Longrightarrow> rd_out A = rx_emit 8 (after_flag b)"
      unfolding Aeq by (auto simp: after_flag_def)
    show "unat (r_state rx2) = rx_run 8 (after_flag b)"
      using marks(4) e(4) by (simp add: rx1_def split: if_splits)
  qed (use e inside_after_flag[OF i(3)] in \<open>simp_all add: Aeq\<close>)
  then show ?thesis
    by (simp add: s e(1) rx_env_def count_def)
qed

section \<open>From flag to flag\<close>

text \<open>The bits \<open>Y\<close> after a flag, up to the last zero of the next, carry \<open>D\<close>.\<close>

definition closing :: "bool list \<Rightarrow> bool list \<Rightarrow> bool" where
  "closing Y D = (inside Y \<and> rx_run 8 Y \<in> {7, 14} \<and> rx_emit 8 Y = D \<and> (\<exists>X. Y = X @ replicate 6 True))"

lemma rx_run_less: "s < 16 \<Longrightarrow> rx_run s z < 16"
  by (induction z arbitrary: s) (simp_all add: rx_weight_next)

lemma in_frame_state: "in_frame l z \<Longrightarrow> unat (r_state (l_rx l)) = rx_run 8 z \<and> rx_run 8 z < 16"
  by (simp add: in_frame_def rx_run_less Let_def)

lemma rx_emit_ones_inside:
  assumes "inside (z @ replicate k True)"
  shows "rx_emit (rx_run 8 z) (replicate k True) = []"
proof (cases "z = []")
  case True
  then show ?thesis
    using assms by (cases k) (auto simp: inside_def rx_out_def rx_emit_ones)
next
  case False
  then show ?thesis
    using assms by (simp add: inside_append rx_emit_ones)
qed

lemma closing_suffix:
  assumes "closing (z @ a) D" "length a < width type"
  shows "length a \<le> 6 \<Longrightarrow> rx_emit (rx_run 8 z) a = []" and "length (rx_emit (rx_run 8 z) a) \<le> 7"
proof -
  obtain X where X: "z @ a = X @ replicate 6 True" and i: "inside (z @ a)"
    using assms(1) by (auto simp: closing_def)
  have ones: "rx_emit (rx_run 8 (z @ u)) v = []" if "a = u @ v" "length v \<le> 6" for u v
  proof -
    have "length (z @ u) + length v = length X + 6"
      using arg_cong[OF X, of length] that(1) by simp
    then have "v = drop (length (z @ u)) (X @ replicate 6 True)" "length X \<le> length (z @ u)"
      using that X[symmetric] by simp_all
    then have "v = replicate (6 - (length (z @ u) - length X)) True"
      by simp
    then show ?thesis
      using i that(1) rx_emit_ones_inside[of "z @ u" "length v"] by simp
  qed
  show "length a \<le> 6 \<Longrightarrow> rx_emit (rx_run 8 z) a = []"
    using ones[of "[]" a] by simp
  show "length (rx_emit (rx_run 8 z) a) \<le> 7"
  proof (cases a)
    case (Cons x v)
    have "length v \<le> 6"
      using assms(2) width_le(2)[of type] Cons by simp
    then have "rx_emit (rx_next (rx_run 8 z) x) v = []"
      using ones[of "[x]" v] Cons by simp
    then show ?thesis
      using Cons by (auto simp: rx_out_def)
  qed simp
qed

text \<open>The line after the bits \<open>D\<close>: nothing, or the frame of \<open>os\<close>.\<close>

definition rx_carries :: "line \<Rightarrow> bool list \<Rightarrow> u8 list \<Rightarrow> bool" where
  "rx_carries l D os = (D = [] \<or> D = frame_bits os \<and> hlen (l_ch l) \<le> length os \<and> length os \<le> rx_max l
     \<and> rx_length_ok (l_ch l) os (length os - hlen (l_ch l)))"

definition rx_handed :: "line \<Rightarrow> bool list \<Rightarrow> u8 list \<Rightarrow> line" where
  "rx_handed l D os = (if D = [] then l
     else l\<lparr>l_ch := sl_daedr_received_bits \<lparr>mid = 0, octets = os\<rparr> (l_ch l)\<rparr>)"

lemma in_frame_flag:
  assumes f: "in_frame l z" and r: "rx_shows r (read_bits (rx_run 8 z) (a @ False # b))"
    and c: "closing (z @ a) D" and b: "inside b \<or> b = tl hdlc_flag" "length a + length b < 8"
    and D: "rx_carries l D os"
  shows "in_frame (rx_entry_step r l) (after_flag b) \<and> rx_env (rx_entry_step r l) = rx_env (rx_handed l D os)"
proof -
  have i: "inside (z @ a)" "rx_run 8 (z @ a) \<in> {7, 14}" "rx_emit 8 (z @ a) = D"
    using c by (simp_all add: closing_def)
  show ?thesis
  proof (cases "D = []")
    case True
    then show ?thesis
      using in_frame_idle_flag[OF f r i(1,2) b(1)] i(3) by (simp add: rx_handed_def)
  next
    case False
    have a: "length a < width SDL_DS0"
      using b(2) by (simp add: width_def seven_def)
    have q: "b \<noteq> [] \<Longrightarrow> rx_emit (rx_run 8 z) a = []" "length (rx_emit (rx_run 8 z) a) \<le> 7"
      using closing_suffix[OF c a] b(2) by (auto simp: Suc_le_eq[symmetric] neq_Nil_conv)
    have "length os < 2 ^ 32"
      using D False u32_less[of "cfg_m l + 1 + word_of_nat (hlen (l_ch l))"] by (simp add: rx_carries_def rx_max_def)
    then show ?thesis
      using in_frame_closing_flag[OF f r i(1,2) b(1) q, of os] i(3) D False
      by (simp add: rx_carries_def rx_handed_def)
  qed
qed

end
