(* ===== verification/HDLC_Frames.thy ===== *)
theory HDLC_Frames
  imports HDLC_Receive
begin

text \<open>
  Streams of octets between two ends: the receiver reads the flags between frames and then the frame, and a
  message taken by the transmitter of one end arrives at the link of the other end.
\<close>

section \<open>Reading a stream of octets\<close>

lemma rx_unit:
  assumes "in_frame l z" "z @ sent_bits type os = Y @ False # y" "closing Y D" "length z \<le> length Y"
    and "length y < width type" "inside y \<or> y = tl hdlc_flag" "allocs (l_ch l) = []" "rx_carries l D m"
  shows "in_frame (rx_octets type os l) (after_flag y) \<and> rx_env (rx_octets type os l) = rx_env (rx_handed l D m)"
  using assms
proof (induction os arbitrary: l z)
  case Nil
  then show ?case
    using arg_cong[OF Nil.prems(2), of length] by simp
next
  case (Cons b os)
  define c where "c = take (width type) (msb_bits 8 b)"
  have "length c = width type"
    using width_le[of type] by (simp add: c_def)
  then have c: "length c = width type" "c \<noteq> []"
    using width_le[of type] by auto
  have bits: "z @ c @ sent_bits type os = Y @ False # y"
    using Cons.prems(2) by (simp add: c_def)
  note st = in_frame_state[OF Cons.prems(1)]
  obtain r where r: "rx_octet type b l = rx_entry_step r (count sdl_rx_octets_update l)"
      "rx_shows r (read_bits (rx_run 8 z) c)"
    using rx_octet_entry[of l type b] st by (auto simp: c_def)
  define l1 where "l1 = count sdl_rx_octets_update l"
  have l1: "in_frame l1 z" "allocs (l_ch l1) = []" "rx_env l1 = rx_env l" "rx_max l1 = rx_max l" "rx_carries l1 D m"
      "rx_env (rx_handed l1 D m) = rx_env (rx_handed l D m)"
    using Cons.prems(1,7,8) by (simp_all add: l1_def)
      (simp_all add: rx_max_def rx_carries_def count_def rx_handed_def rx_env_def)
  show ?case
  proof (cases "length (z @ c) \<le> length Y")
    case True
    then obtain Y2 where Y2: "Y = (z @ c) @ Y2"
      using bits append_longer[of Y "False # y" "z @ c" "sent_bits type os"] by auto
    have i: "inside (z @ c)"
      using Cons.prems(3) inside_prefix[of "z @ c" Y2] by (simp add: closing_def Y2)
    have m: "rx_count (rx_emit 8 (z @ c)) \<le> rx_max l1"
    proof -
      have "rx_count (rx_emit 8 (z @ c)) \<le> rx_count D"
        using Cons.prems(3) rx_count_mono by (auto simp: closing_def Y2 rx_emit_append[of 8 "z @ c" Y2, simplified])
      also have "\<dots> \<le> rx_max l1"
        using Cons.prems(8) l1(4) rx_count_frame[of "frame_bits m" m] by (auto simp: rx_carries_def rx_count_def)
      finally show ?thesis .
    qed
    have s: "in_frame (rx_octet type b l) (z @ c)" "rx_env (rx_octet type b l) = rx_env l"
      using in_frame_step[OF l1(1) r(2) i c(2) l1(2) m] l1(3) r(1) by (simp_all add: l1_def)
    have e: "l_ch (rx_octet type b l) = l_ch l" "rx_carries (rx_octet type b l) D m"
        "rx_env (rx_handed (rx_octet type b l) D m) = rx_env (rx_handed l D m)"
      using s(2) Cons.prems(8) by (auto simp: rx_env_def rx_carries_def rx_max_def rx_handed_def)
    show ?thesis
      using Cons.IH[OF s(1)] bits Cons.prems(3,5,6,7) True e by simp
  next
    case False
    obtain a where a: "Y = z @ a"
      using bits Cons.prems(4) append_longer[of Y "False # y" z "c @ sent_bits type os"] by auto
    then have ac: "c @ sent_bits type os = a @ False # y"
      using bits by simp
    then obtain d where d: "c = a @ d"
      using append_longer[of c "sent_bits type os" a "False # y"] False a by auto
    then have "d @ sent_bits type os = False # y" "d \<noteq> []"
      using ac False a by auto
    then obtain d' where d': "d = False # d'" "d' @ sent_bits type os = y"
      by (cases d) auto
    have os: "os = []"
      using arg_cong[OF d'(2), of length] Cons.prems(5) width_le(2)[of type] by (cases os) auto
    then have cb: "c = a @ False # y"
      using d d' by simp
    have "length a + length y < 8"
      using arg_cong[OF cb, of length] c(1) width_le(2)[of type] by simp
    then show ?thesis
      using in_frame_flag[OF l1(1) r(2)[unfolded cb] Cons.prems(3)[unfolded a] Cons.prems(6) _ l1(5)] l1(6) os r(1)
      by (simp add: l1_def)
  qed
qed

lemma split_octets:
  assumes "z @ sent_bits type os = X @ rest" "length z < length X"
  obtains os1 os2 y where "os = os1 @ os2" "z @ sent_bits type os1 = X @ y" "length y < width type"
    "rest = y @ sent_bits type os2"
  using assms
proof (induction os arbitrary: z thesis)
  case Nil
  then show ?case
    using arg_cong[OF Nil.prems(2), of length] by simp
next
  case (Cons b os)
  define c where "c = take (width type) (msb_bits 8 b)"
  have c: "length c = width type"
    using width_le[of type] by (simp add: c_def)
  have bits: "(z @ c) @ sent_bits type os = X @ rest"
    using Cons.prems(2) by (simp add: c_def)
  show ?case
  proof (cases "length (z @ c) < length X")
    case True
    from Cons.IH[OF _ bits True] obtain os1 os2 y where "os = os1 @ os2" "(z @ c) @ sent_bits type os1 = X @ y"
        "length y < width type" "rest = y @ sent_bits type os2"
      by blast
    then show ?thesis
      using Cons.prems(1)[of "b # os1" os2 y] by (simp add: c_def)
  next
    case False
    then obtain y where y: "z @ c = X @ y"
      using append_longer[OF bits] by auto
    have "length y < width type"
      using arg_cong[OF y, of length] c Cons.prems(3) by simp
    then show ?thesis
      using Cons.prems(1)[of "[b]" os y] y bits by (simp add: c_def)
  qed
qed

text \<open>Flags with nothing between them, also two that share a zero.\<close>

abbreviation idle_unit :: "bool list \<Rightarrow> bool" where
  "idle_unit Y \<equiv> Y = butlast hdlc_flag \<or> Y = replicate 6 True"

lemma closing_idle: "idle_unit Y \<Longrightarrow> closing Y []"
proof (elim disjE)
  assume Y: "Y = butlast hdlc_flag"
  have "\<exists>X. Y = X @ replicate 6 True"
    by (rule exI[of _ "[False]"]) (simp add: Y hdlc_flag_def numeral_eq_Suc)
  then show "closing Y []"
    by (simp add: closing_def) (simp add: Y hdlc_flag_def inside_def rx_next_def rx_out_def)
next
  assume Y: "Y = replicate 6 True"
  have "\<exists>X. Y = X @ replicate 6 True"
    by (simp add: Y)
  then show "closing Y []"
    by (simp add: closing_def) (simp add: Y numeral_eq_Suc inside_def rx_next_def rx_out_def)
qed

lemma closing_stuffed: "closing (stuff 0 D @ butlast hdlc_flag) D"
proof -
  have b: "butlast hdlc_flag = False # replicate 6 True"
    by (simp add: hdlc_flag_def numeral_eq_Suc)
  have end_flag: "quiet s (butlast hdlc_flag) \<and> rx_run s (butlast hdlc_flag) = 7 \<and> rx_emit s (butlast hdlc_flag) = rx_held s"
    if "in_step n s" "s \<noteq> 8" for n s
  proof -
    have "n = 0 \<or> n = 1 \<or> n = 2 \<or> n = 3 \<or> n = 4"
      using that(1) by (auto simp: in_step_def)
    then have "s \<in> {0, 6, 1, 2, 3, 4, 9, 10, 11, 12}"
      using that by (auto simp: in_step_def)
    then show ?thesis
      by (elim insertE emptyE; simp add: hdlc_flag_def rx_next_def rx_out_def rx_held_def)
  qed
  have X: "\<exists>X. stuff 0 D @ butlast hdlc_flag = X @ replicate 6 True"
    unfolding b by (rule exI[of _ "stuff 0 D @ [False]"]) simp
  show ?thesis
  proof (cases D)
    case Nil
    then show ?thesis
      using closing_idle[of "butlast hdlc_flag"] by simp
  next
    case (Cons x xs)
    let ?n = "if x then 1 else 0 :: nat" and ?s = "rx_next 8 x"
    have st: "stuff 0 D = x # stuff ?n xs"
      using Cons by simp
    have i: "in_step ?n ?s" "?s \<noteq> 8" "rx_held ?s = [x]" "rx_out 8 x = []"
      by (simp_all add: in_step_def rx_next_def rx_held_def rx_out_def)
    note r = read_stuffed[OF i(1,2), of xs]
    note e = end_flag[of "stuff_state ?n xs" "rx_run ?s (stuff ?n xs)"]
    have "inside (stuff 0 D @ butlast hdlc_flag)" "rx_run 8 (stuff 0 D @ butlast hdlc_flag) = 7"
      using r e by (simp_all add: st inside_def quiet_append)
    moreover have "rx_emit 8 (stuff 0 D @ butlast hdlc_flag) = D"
      using r e i(3,4) Cons by (cases x) (simp_all add: st rx_emit_append)
    ultimately show ?thesis
      using X by (simp add: closing_def)
  qed
qed

lemma not_inside_two: "\<not> inside (tl hdlc_flag)"
  by (simp add: inside_def hdlc_flag_def rx_next_def)

lemma rx_stream:
  assumes "in_frame l z" "z @ sent_bits type os = concat (map (\<lambda>Y. Y @ [False]) Ys) @ Y' @ False # y"
    and "list_all idle_unit Ys" "closing Y' D" "7 \<le> length Y'" "length z \<le> length (hd (Ys @ [Y']))"
    and "length y < width type" "inside y \<or> y = tl hdlc_flag" "allocs (l_ch l) = []" "rx_carries l D m"
  shows "in_frame (rx_octets type os l) (after_flag y) \<and> rx_env (rx_octets type os l) = rx_env (rx_handed l D m)"
  using assms
proof (induction Ys arbitrary: l z os rule: length_induct)
  case (1 Ys)
  show ?case
  proof (cases Ys)
    case Nil
    then show ?thesis
      using rx_unit[OF 1(2) _ 1(5) _ 1(8,9,10,11)] 1(3,7) by simp
  next
    case (Cons Y Ys1)
    let ?N = "hd (Ys1 @ [Y'])" and ?rest = "concat (map (\<lambda>Y. Y @ [False]) Ys1) @ Y' @ False # y"
    have idle: "idle_unit Y" "list_all idle_unit Ys1"
      using 1(4) Cons by auto
    have N: "closing ?N (if Ys1 = [] then D else [])"
      using 1(5) idle(2) closing_idle by (cases Ys1) auto
    obtain R where R: "?rest = ?N @ False # R"
      by (cases Ys1) auto
    have len: "6 \<le> length ?N"
      using 1(6) idle(2) by (cases Ys1) (auto simp: hdlc_flag_def)
    have "z @ sent_bits type os = (Y @ [False]) @ ?rest"
      using 1(3) Cons by simp
    then obtain os1 os2 y1 where s: "os = os1 @ os2" "z @ sent_bits type os1 = (Y @ [False]) @ y1"
        "length y1 < width type" "?rest = y1 @ sent_bits type os2"
      by (rule split_octets) (use 1(7) Cons in auto)
    have y1: "length y1 \<le> length ?N \<and> inside y1 \<or> y1 = tl hdlc_flag \<and> (\<exists>Ys2. Ys1 = replicate 6 True # Ys2)"
    proof (cases "length y1 \<le> length ?N")
      case True
      then obtain X where "?N = y1 @ X"
        using append_longer[of ?N "False # R" y1 "sent_bits type os2"] R s(4) by auto
      then show ?thesis
        using N True inside_prefix[of y1 X] by (auto simp: closing_def)
    next
      case False
      then have "length ?N = 6" "length y1 = 7"
        using s(3) width_le(2)[of type] len by simp_all
      then obtain Ys2 where Ys2: "Ys1 = replicate 6 True # Ys2"
        using 1(6) idle(2) by (cases Ys1) (auto simp: hdlc_flag_def)
      have "take 7 (?N @ False # R) = take 7 (y1 @ sent_bits type os2)"
        using R s(4) by simp
      then show ?thesis
        using Ys2 \<open>length y1 = 7\<close> by (auto simp: tl_flag)
    qed
    have u: "in_frame (rx_octets type os1 l) (after_flag y1)" "rx_env (rx_octets type os1 l) = rx_env l"
      using rx_unit[OF 1(2) _ closing_idle[OF idle(1)] _ s(3) _ 1(10), of os1 m] s(2) 1(7) y1 Cons
      by (auto simp: rx_carries_def rx_handed_def)
    let ?l = "rx_octets type os1 l"
    have e: "l_ch ?l = l_ch l" "rx_carries ?l D m" "rx_env (rx_handed ?l D m) = rx_env (rx_handed l D m)"
      using u(2) 1(11) by (auto simp: rx_env_def rx_carries_def rx_max_def rx_handed_def)
    have app: "rx_octets type os l = rx_octets type os2 ?l"
      unfolding s(1) by (induction os1 arbitrary: l) simp_all
    show ?thesis
    proof (cases "y1 = tl hdlc_flag")
      case True
      then obtain Ys2 where Ys2: "Ys1 = replicate 6 True # Ys2"
        using y1 not_inside_two by auto
      have "in_frame ?l []" "[] @ sent_bits type os2 = concat (map (\<lambda>Y. Y @ [False]) Ys2) @ Y' @ False # y"
        using u(1) True s(4) Ys2 by (simp_all add: after_flag_def tl_flag)
      then show ?thesis
        using 1(1)[rule_format, of Ys2 ?l "[]" os2] Ys2 Cons idle(2) 1(5,6,8,9,10) e app by auto
    next
      case False
      then have "in_frame ?l y1" "length y1 \<le> length ?N"
        using u(1) y1 by (auto simp: after_flag_def)
      then show ?thesis
        using 1(1)[rule_format, of Ys1 ?l y1 os2] Cons idle(2) s(4) 1(5,6,8,9,10) e app by auto
    qed
  qed
qed

section \<open>A message over the line\<close>

lemma in_frame_not_flag: "in_frame l z \<Longrightarrow> z \<noteq> hdlc_flag"
  by (auto simp: in_frame_def inside_def hdlc_flag_def rx_next_def Let_def)

text \<open>The flags a frame begins with, as units of the receiver.\<close>

fun flag_units :: "sdt_flags \<Rightarrow> bool list list" where
  "flag_units SDT_FLAGS_ONE = [butlast hdlc_flag]"
| "flag_units SDT_FLAGS_SHARED = [butlast hdlc_flag, replicate 6 True]"
| "flag_units SDT_FLAGS_TWO = [butlast hdlc_flag, butlast hdlc_flag]"
| "flag_units SDT_FLAGS_THREE = [butlast hdlc_flag, butlast hdlc_flag, butlast hdlc_flag]"

lemma flag_units_bits: "flag_bits f = concat (map (\<lambda>Y. Y @ [False]) (flag_units f))" "list_all idle_unit (flag_units f)"
    "hd (flag_units f @ xs) = butlast hdlc_flag"
  by (cases f; simp add: hdlc_flag_def numeral_eq_Suc)+

lemma line_delivers:
  fixes A B type n
  assumes A: "tx_ok (l_tx A)" "t_mode (l_tx A) = TX_MODE_BOF" "t_nxt (l_tx A) = Some m"
    and B: "in_frame B z" "z @ tx_bits (l_tx A) \<in> {[], hdlc_flag}" "allocs (l_ch B) = []"
    and m: "hlen (l_ch B) \<le> length m" "length m \<le> rx_max B" "rx_length_ok (l_ch B) m (length m - hlen (l_ch B))"
    and n: "length (tx_owed (cfg_f A) (l_tx A)) + 8 \<le> width type * n"
      "width type * n < length (tx_owed (cfg_f A) (l_tx A)) + 8 + width type"
  defines "B' \<equiv> rx_octets type (fst (tx_send type n A)) B"
  shows "(\<exists>y. sent_bits type (fst (tx_send type n A)) = tx_owed (cfg_f A) (l_tx A) @ hdlc_flag @ y
        \<and> length y < width type \<and> in_frame B' (after_flag y))
    \<and> rx_env B' = rx_env (B\<lparr>l_ch := sl_daedr_received_bits \<lparr>mid = 0, octets = m\<rparr> (l_ch B)\<rparr>)"
proof -
  obtain os A' where s: "tx_send type n A = (os, A')"
    by (cases "tx_send type n A") simp
  have act: "tx_active (l_tx A)"
    using A by (simp add: tx_active_def)
  obtain y where y: "sent_bits type os = tx_owed (cfg_f A) (l_tx A) @ hdlc_flag @ y"
      "length y \<le> 7 \<Longrightarrow> inside y \<or> y = tl hdlc_flag"
    using tx_send_frame[OF A(1) act s n(1)] by metis
  have "length os = n"
    using length_tx_send[of type n A] s by simp
  then have ly: "length y < width type"
    using arg_cong[OF y(1), of length] n(2) by (simp add: hdlc_flag_def)
  let ?D = "frame_bits m" and ?p = "z @ tx_bits (l_tx A)"
  let ?Y = "stuff 0 ?D @ butlast hdlc_flag"
  let ?Ys = "(if ?p = [] then [] else [butlast hdlc_flag]) @ flag_units (cfg_f A)"
  have flag: "hdlc_flag = butlast hdlc_flag @ [False]"
    by (simp add: hdlc_flag_def)
  have owed: "tx_owed (cfg_f A) (l_tx A) = tx_bits (l_tx A) @ flag_bits (cfg_f A) @ stuff 0 ?D"
    using A by (simp add: tx_owed_def)
  have p: "?p = concat (map (\<lambda>Y. Y @ [False]) (if ?p = [] then [] else [butlast hdlc_flag]))"
    using B(2) flag by auto
  have "z @ sent_bits type os = ?p @ flag_bits (cfg_f A) @ stuff 0 ?D @ hdlc_flag @ y"
    by (simp add: y(1) owed)
  also have "\<dots> = concat (map (\<lambda>Y. Y @ [False]) ?Ys) @ ?Y @ False # y"
    by (subst p, subst flag, subst flag_units_bits(1)) simp
  finally have bits: "z @ sent_bits type os = concat (map (\<lambda>Y. Y @ [False]) ?Ys) @ ?Y @ False # y" .
  have z: "length z \<le> length (hd (?Ys @ [?Y]))"
  proof -
    have "length z \<le> 7"
      using in_frame_not_flag[OF B(1)] B(2) by (auto simp: append_eq_Cons_conv hdlc_flag_def Cons_eq_append_conv)
    then show ?thesis
      using B(2) by (auto simp: flag_units_bits(3)) (auto simp: hdlc_flag_def)
  qed
  have Y: "7 \<le> length ?Y" "?D \<noteq> []"
    by (auto simp: hdlc_flag_def length_frame_bits dest: arg_cong[of _ _ length])
  have idle: "list_all idle_unit ?Ys"
    by (simp add: flag_units_bits(2))
  have c: "rx_carries B ?D m"
    using m by (simp add: rx_carries_def)
  have "inside y \<or> y = tl hdlc_flag"
    using y(2) ly width_le(2)[of type] by simp
  from rx_stream[OF B(1) bits idle closing_stuffed Y(1) z ly this B(3) c]
  show ?thesis
    using ly Y(2) s y(1) by (auto simp: B'_def rx_handed_def)
qed

end
