(* ===== verification/HDLC_Transfer.thy ===== *)
theory HDLC_Transfer
  imports HDLC_Frames SL_Demo
begin

text \<open>
  A message between two ends of a line, through the memory of the card: the loop of \<open>xp_tx_block\<close> writes the
  octets that the loop of \<open>xp_rx_block\<close> reads.  With the line that the concrete examples use.
\<close>

section \<open>Octets in memory\<close>

text \<open>The loop over a block writes, at the addresses it visits, the octets of the path in order, and nothing
  else.\<close>

lemma tx_octets_send:
  assumes "distinct as"
  shows "map (fst (tx_octets type as (M, l))) as = fst (tx_send type (length as) l)
    \<and> snd (tx_octets type as (M, l)) = snd (tx_send type (length as) l)
    \<and> (\<forall>a. a \<notin> set as \<longrightarrow> fst (tx_octets type as (M, l)) a = M a)"
  using assms
proof (induction as arbitrary: M l)
  case (Cons a as)
  obtain b l1 where b: "tx_octet type l = (b, l1)"
    by fastforce
  have "map (fst (tx_octets type as (M(a := b), l1))) as = fst (tx_send type (length as) l1)
      \<and> snd (tx_octets type as (M(a := b), l1)) = snd (tx_send type (length as) l1)
      \<and> (\<forall>x. x \<notin> set as \<longrightarrow> fst (tx_octets type as (M(a := b), l1)) x = (M(a := b)) x)"
    using Cons.IH Cons.prems unfolding distinct.simps by blast
  then show ?case
    using b Cons.prems by (auto simp: case_prod_beta)
qed simp

section \<open>An E1 channel\<close>

text \<open>The defaults of the signalling data terminal and the data link for a channel of an E1 span, on a machine
  with blocks of 128 octets, and paths as they are between two frames.\<close>

definition hdlc_stats_zero :: hdlc_stats where
  "hdlc_stats_zero = \<lparr>tx_bytes = 0, tx_sus = 0, rx_bytes = 0, rx_sus = 0, rx_aborts = 0, rx_sus_in_error = 0,
     rx_sync_transitions = 0, rx_bits_octet_counted = 0, rx_crc_errors = 0, rx_frame_errors = 0,
     rx_frame_too_long = 0, rx_frame_too_short = 0, rx_residue_errors = 0, rx_length_error = 0,
     sdl_tx_octets = 0, sdl_rx_octets = 0, sdl_rx_overflows = 0,
     sdl_tx_underruns = 0, sdl_rx_overruns = 0, sdt_tx_underruns = 0, sdt_rx_overruns = 0\<rparr>"

definition e1_line :: "ch \<Rightarrow> tx_path \<Rightarrow> rx_path \<Rightarrow> line" where
  "e1_line ch tx rx = \<lparr>l_ch = ch, l_tx = tx, l_rx = rx, l_st = hdlc_stats_zero, cfg_N = 16, cfg_m = 272,
     cfg_f = SDT_FLAGS_ONE, ifblksize = 8, fastbuf = 128\<rparr>"

definition tx_begin :: "msg \<Rightarrow> tx_path" where
  "tx_begin m = \<lparr>t_residue = 0, t_rbits = 0, t_bcc = 0, t_state = 0, t_mode = TX_MODE_BOF, t_msg = Some m,
     t_nxt = Some (octets m)\<rparr>"

definition rx_between :: rx_path where
  "rx_between = \<lparr>r_residue = 0, r_rbits = 0, r_bcc = 0xffff, r_state = 8, r_mode = RX_MODE_SYNC, r_bytes = 0,
     r_msg = None, r_nxt = None, r_octets = 0\<rparr>"

lemmas line_defs = e1_line_def tx_begin_def rx_between_def

section \<open>A message over the line\<close>

text \<open>C17. A message that a transmit path has taken arrives at the other end as it was.  Let the transmitter stand
  before a frame, with nothing or an idle flag under way to the receiver, which stands after a flag and whose
  allocations succeed.  Let the message be long enough for a header, not longer than the receiver's limit and in
  agreement with its length indicator, and let the two loops move just so many octets that the frame and the flag
  behind it are through.  Then the receiver hands its link exactly this message, once, and nothing else of
  the link and its transmit path changes; the receiver is again inside the octets after a flag, ready for the next
  frame; and the transmitter has written no other address.\<close>

theorem frame_over_the_line:
  fixes A B :: line and M :: memory and as :: "nat list"
  assumes A: "tx_ok (l_tx A)" "t_mode (l_tx A) = TX_MODE_BOF" "t_nxt (l_tx A) = Some m"
    and B: "in_frame B z" "z @ tx_bits (l_tx A) \<in> {[], hdlc_flag}" "allocs (l_ch B) = []"
    and m: "hlen (l_ch B) \<le> length m" "length m \<le> rx_max B" "rx_length_ok (l_ch B) m (length m - hlen (l_ch B))"
    and as: "distinct as" "length (tx_owed (cfg_f A) (l_tx A)) + 8 \<le> width type * length as"
      "width type * length as < length (tx_owed (cfg_f A) (l_tx A)) + 8 + width type"
  defines "M' \<equiv> fst (tx_octets type as (M, A))"
  defines "B' \<equiv> rx_octets type (map M' as) B"
  shows "l_ch B' = sl_daedr_received_bits \<lparr>mid = 0, octets = m\<rparr> (l_ch B) \<and> l_tx B' = l_tx B
    \<and> (\<exists>y. length y < width type \<and> in_frame B' y) \<and> (\<forall>a. a \<notin> set as \<longrightarrow> M' a = M a)"
proof -
  note t = tx_octets_send[OF as(1), of type M A]
  have B': "B' = rx_octets type (fst (tx_send type (length as) A)) B"
    using t by (simp add: B'_def M'_def)
  note d = line_delivers[OF A B m as(2,3), folded B']
  then obtain y where "length y < width type" "in_frame B' (after_flag y)"
    by blast
  then have "length (after_flag y) < width type" "in_frame B' (after_flag y)"
    using width_le(1)[of type] by (auto simp: after_flag_def)
  then show ?thesis
    using d t unfolding M'_def rx_env_def by auto
qed

theorem frame_over_the_line_witness:
  "l_ch (rx_octets SDL_DS0 (map (fst (tx_octets SDL_DS0 [0, 128, 256, 384, 512, 640, 768]
        ((\<lambda>_. 0), e1_line (up_ch 0 []) (tx_begin \<lparr>mid = 0, octets = [0x80, 0x80, 0]\<rparr>) rx_between)))
      [0, 128, 256, 384, 512, 640, 768]) (e1_line (up_ch 0 []) (tx_begin \<lparr>mid = 0, octets = []\<rparr>) rx_between))
    = sl_daedr_received_bits \<lparr>mid = 0, octets = [0x80, 0x80, 0]\<rparr> (up_ch 0 [])"
proof -
  let ?A = "e1_line (up_ch 0 []) (tx_begin \<lparr>mid = 0, octets = [0x80, 0x80, 0]\<rparr>) rx_between"
  let ?B = "e1_line (up_ch 0 []) (tx_begin \<lparr>mid = 0, octets = []\<rparr>) rx_between"
  have owed: "length (tx_owed SDT_FLAGS_ONE (tx_begin \<lparr>mid = 0, octets = [0x80, 0x80, 0]\<rparr>)) = 48"
    unfolding tx_owed_def frame_bits_def fcs_def bcc_octet_crc by code_simp
  have tx: "tx_ok (l_tx ?A)" "tx_bits (l_tx ?A) = []"
    by (simp_all add: line_defs tx_ok_def tx_bits_def msb_bits_def lsb_bits_def)
  have rx: "in_frame ?B []"
    by (simp add: line_defs in_frame_def inside_def)
  have ch: "hlen (up_ch 0 []) = 3" "allocs (up_ch 0 []) = []" "rx_max ?B = 276" "rx_length_ok (up_ch 0 []) [0x80, 0x80, 0] 0"
    by (simp_all add: demo_defs hlen_def rx_max_def line_defs rx_length_ok_def rx_li_def rd8_def)
  show ?thesis
    using frame_over_the_line[of ?A "[0x80, 0x80, 0]" ?B "[]" "[0, 128, 256, 384, 512, 640, 768]" SDL_DS0 "\<lambda>_. 0"] tx rx ch owed
    by (simp add: width_def seven_def) (simp add: line_defs)
qed

end
