(* ===== verification/HDLC_Checks.thy ===== *)
theory HDLC_Checks
  imports HDLC_Transfer
begin

text \<open>
  The receiver on arbitrary octets.  \<open>rx_ok\<close> says that what the receive path holds of a frame is consistent: the
  stored octets, their number and block check, and the residue; between frames nothing is stored.  Every octet
  keeps it, whatever the line carries and whatever allocations fail, and a frame is handed up exactly when
  its bits are a message with its block check that passes the length checks.
\<close>

section \<open>The state of the receive path\<close>

definition rx_bits :: "rx_path \<Rightarrow> bool list" where
  "rx_bits rx = octet_bits (rx_stored rx) @ lsb_bits (unat (r_rbits rx)) (r_residue rx)"

definition rx_consistent :: "line \<Rightarrow> bool list \<Rightarrow> bool" where
  "rx_consistent l D = (rx_holds D (length (rx_stored (l_rx l))) (l_rx l) \<and> length (rx_stored (l_rx l)) \<le> rx_max l)"

text \<open>The configured length must leave room for the header in the 32-bit count of octets.\<close>

definition rx_ok :: "line \<Rightarrow> bool" where
  "rx_ok l = (let rx = l_rx l in unat (r_state rx) < 16 \<and> cfg_m l < 0x80000000 \<and>
     (if r_mode rx = RX_MODE_MOF then rx_consistent l (rx_bits rx) \<and> r_rbits rx \<le> 16
      else r_msg rx = None \<and> r_nxt rx = None))"

lemma rx_holds_bits: "rx_holds D j rx \<Longrightarrow> length D - 8 * j \<le> 28 \<Longrightarrow> D = rx_bits rx"
proof -
  assume h: "rx_holds D j rx" and n: "length D - 8 * j \<le> 28"
  have "drop (8 * j) D = lsb_bits (length D - 8 * j) (r_residue rx)"
    using h n lsb_bits_lsb_val[of "drop (8 * j) D", where 'a = 32] by (simp add: rx_holds_def)
  then show ?thesis
    using h rx_holds_rbits[OF h n] by (simp add: rx_bits_def rx_holds_def) (metis append_take_drop_id)
qed

lemma rx_max_less: "cfg_m l < 0x80000000 \<Longrightarrow> rx_max l < 2 ^ 32 - 1"
proof -
  assume "cfg_m l < 0x80000000"
  then have "unat (cfg_m l) < 2 ^ 31"
    by (simp add: word_less_nat_alt)
  moreover have "rx_max l \<le> unat (cfg_m l) + 1 + hlen (l_ch l)"
  proof -
    have add: "unat (x + y) \<le> unat x + unat y" for x y :: u32
      by (simp add: unat_word_ariths)
    have "unat (word_of_nat (hlen (l_ch l)) :: u32) = hlen (l_ch l)"
      using hlen_cases[of "l_ch l"] by auto
    then show ?thesis
      using add[of "cfg_m l + 1" "word_of_nat (hlen (l_ch l))"] add[of "cfg_m l" 1] by (simp add: rx_max_def)
  qed
  ultimately show ?thesis
    using hlen_cases[of "l_ch l"] by auto
qed

text \<open>What receiving may do to the channel short of handing up a frame or an error.\<close>

definition ch_quiet :: "ch \<Rightarrow> ch \<Rightarrow> bool" where
  "ch_quiet ch ch' = (\<exists>a s. ch' = ch\<lparr>allocs := a, sdt_st := s\<rparr>)"

lemma ch_quiet_refl [simp]: "ch_quiet ch ch"
proof -
  have "ch = ch\<lparr>allocs := allocs ch, sdt_st := sdt_st ch\<rparr>"
    by simp
  then show ?thesis
    unfolding ch_quiet_def by blast
qed

lemma ch_quiet_trans: "ch_quiet a b \<Longrightarrow> ch_quiet b c \<Longrightarrow> ch_quiet a c"
proof -
  assume "ch_quiet a b" "ch_quiet b c"
  then obtain x s y t where "b = a\<lparr>allocs := x, sdt_st := s\<rparr>" "c = b\<lparr>allocs := y, sdt_st := t\<rparr>"
    unfolding ch_quiet_def by blast
  then have "c = a\<lparr>allocs := y, sdt_st := t\<rparr>"
    by simp
  then show ?thesis
    unfolding ch_quiet_def by blast
qed

lemma ch_quiet_popt: "ch_quiet ch ch' \<Longrightarrow> hlen ch' = hlen ch"
  by (auto simp: ch_quiet_def hlen_def xsn_def)

lemma allocb_quiet: "allocb n ch = (b, ch') \<Longrightarrow> ch_quiet ch ch'"
proof -
  assume "allocb n ch = (b, ch')"
  then have "ch' = ch \<or> (\<exists>a. ch' = ch\<lparr>allocs := a\<rparr>)"
    by (auto simp: allocb_def split: list.splits option.splits)
  moreover have "ch\<lparr>allocs := a\<rparr> = ch\<lparr>allocs := a, sdt_st := sdt_st ch\<rparr>" for a
    by simp
  ultimately show ?thesis
    by (metis ch_quiet_def ch_quiet_refl)
qed

section \<open>Storing octets\<close>

lemma rx_store_cases:
  assumes "cfg_m l < 0x80000000" "rx_consistent l D" "16 < length D - 8 * length (rx_stored (l_rx l))"
    and "length D - 8 * length (rx_stored (l_rx l)) \<le> 28"
  obtains e l' where "rx_store l = (e, l')" "ch_quiet (l_ch l) (l_ch l')" "cfg_m l' = cfg_m l"
    "r_mode (l_rx l') = r_mode (l_rx l)" "r_state (l_rx l') = r_state (l_rx l)"
    "e = None \<Longrightarrow> rx_consistent l' D \<and> length (rx_stored (l_rx l')) = Suc (length (rx_stored (l_rx l)))"
proof -
  obtain e l' where s: "rx_store l = (e, l')"
    by fastforce
  have q: "ch_quiet (l_ch l) (l_ch l')" "cfg_m l' = cfg_m l"
      "r_mode (l_rx l') = r_mode (l_rx l)" "r_state (l_rx l') = r_state (l_rx l)"
    using s by (auto simp: rx_store_def Let_def xp_rx_linkb_def split: option.splits prod.splits if_splits
        dest!: allocb_quiet)
  have "rx_consistent l' D \<and> length (rx_stored (l_rx l')) = Suc (length (rx_stored (l_rx l)))" if e: "e = None"
  proof -
    let ?j = "length (rx_stored (l_rx l))" and ?l0 = "l\<lparr>l_ch := (l_ch l)\<lparr>allocs := []\<rparr>\<rparr>"
    have h: "hlen (l_ch l') = hlen (l_ch l)"
      using ch_quiet_popt[OF q(1)] .
    have "\<not> cfg_m l + 1 + word_of_nat (hlen (l_ch l)) < r_bytes (l_rx l) + 1"
      using s e by (auto simp: rx_store_def Let_def xp_rx_linkb_def split: option.splits prod.splits if_splits)
    moreover have "r_bytes (l_rx l) + 1 = word_of_nat (Suc ?j)"
      using assms(2) by (simp add: rx_consistent_def rx_holds_def)
    moreover have "Suc ?j < 2 ^ 32"
      using assms(2) rx_max_less[OF assms(1)] by (simp add: rx_consistent_def)
    ultimately have m: "Suc ?j \<le> rx_max l"
      by (simp add: word_less_nat_alt rx_max_def unat_of_nat del: of_nat_Suc)
    have "rx_store ?l0 = (None, l'\<lparr>l_ch := (l_ch l)\<lparr>allocs := []\<rparr>\<rparr>)"
      using s e by (auto simp: rx_store_def Let_def xp_rx_linkb_def allocb_def hlen_def xsn_def split: option.splits prod.splits if_splits list.splits)
    moreover have "hlen ((l_ch l)\<lparr>allocs := []\<rparr>) = hlen (l_ch l)"
      by (simp add: hlen_def xsn_def)
    ultimately have "rx_holds D (Suc ?j) (l_rx l')"
      using rx_store_holds[of D ?j ?l0] assms m by (auto simp: rx_consistent_def rx_max_def)
    then show ?thesis
      using m h q(2) by (auto simp: rx_consistent_def rx_holds_def rx_max_def)
  qed
  then show ?thesis
    using that s q by blast
qed

lemma rx_drain_cases:
  assumes "cfg_m l < 0x80000000" "rx_consistent l D" "length D - 8 * length (rx_stored (l_rx l)) \<le> 28"
  obtains e l' where "rx_drain l = (e, l')" "ch_quiet (l_ch l) (l_ch l')" "cfg_m l' = cfg_m l"
    "r_mode (l_rx l') = r_mode (l_rx l)" "r_state (l_rx l') = r_state (l_rx l)"
    "e = None \<Longrightarrow> rx_consistent l' D \<and> length D - 8 * length (rx_stored (l_rx l')) \<le> 16"
  using assms
proof (induction l arbitrary: thesis rule: rx_drain.induct)
  case (1 l)
  let ?j = "length (rx_stored (l_rx l))"
  have n: "unat (r_rbits (l_rx l)) = length D - 8 * ?j"
    using 1(4,5) rx_holds_rbits by (simp add: rx_consistent_def)
  show ?case
  proof (cases "16 < r_rbits (l_rx l)")
    case True
    then have big: "16 < length D - 8 * ?j"
      using n by (simp add: word_less_nat_alt)
    obtain e l' where s: "rx_store l = (e, l')" "ch_quiet (l_ch l) (l_ch l')" "cfg_m l' = cfg_m l"
        "r_mode (l_rx l') = r_mode (l_rx l)" "r_state (l_rx l') = r_state (l_rx l)"
        "e = None \<Longrightarrow> rx_consistent l' D \<and> length (rx_stored (l_rx l')) = Suc ?j"
      using rx_store_cases[OF 1(3,4) big 1(5)] by blast
    show ?thesis
    proof (cases e)
      case None
      then have c: "rx_consistent l' D" "length D - 8 * length (rx_stored (l_rx l')) \<le> 28" "cfg_m l' < 0x80000000"
        using s(3,6) 1(3,5) by simp_all
      have d: "rx_drain l = rx_drain l'"
        using True s(1) None by (simp add: rx_drain.simps[of l])
      from 1(1)[OF True s(1)[symmetric] None] obtain e2 l2 where "rx_drain l' = (e2, l2)"
          "ch_quiet (l_ch l') (l_ch l2)" "cfg_m l2 = cfg_m l'" "r_mode (l_rx l2) = r_mode (l_rx l')"
          "r_state (l_rx l2) = r_state (l_rx l')"
          "e2 = None \<Longrightarrow> rx_consistent l2 D \<and> length D - 8 * length (rx_stored (l_rx l2)) \<le> 16"
        using c by blast
      then show ?thesis
        using 1(2)[of e2 l2] ch_quiet_trans[OF s(2)] s(3-5) d by simp
    next
      case (Some x)
      then show ?thesis
        using 1(2)[of e l'] s True by (simp add: rx_drain.simps[of l])
    qed
  next
    case False
    then show ?thesis
      using 1(2)[of None l] 1(4) n by (simp add: rx_drain.simps[of l] word_less_nat_alt)
  qed
qed

section \<open>Between frames\<close>

lemma rx_begin_ok:
  fixes r rx
  assumes "rx_shows r A" "unat (r_state rx) < 16" "cfg_m l < 0x80000000" "r_mode rx = RX_MODE_SYNC"
    and "r_msg rx = None" "r_nxt rx = None"
  shows "rx_ok (l\<lparr>l_rx := rx_begin_frame r rx\<rparr>)"
proof (cases "rd_out A = []")
  case True
  then show ?thesis
    using assms by (simp add: rx_ok_def rx_begin_frame_def rx_shows_def)
next
  case False
  let ?rx = "rx_begin_frame r rx"
  have n: "length (rd_out A) \<le> 12"
    using assms(1) by (simp add: rx_shows_def)
  have h: "rx_holds (rd_out A) 0 ?rx" "r_mode ?rx = RX_MODE_MOF" "rx_stored ?rx = []" "unat (r_state ?rx) < 16"
    using assms False by (simp_all add: rx_begin_frame_def rx_shows_def rx_holds_def rx_stored_def)
  moreover have "rd_out A = rx_bits ?rx"
    using rx_holds_bits[OF h(1)] n by simp
  moreover have "r_rbits ?rx \<le> 16"
    using rx_holds_rbits[OF h(1)] n by (simp add: word_le_nat_alt)
  ultimately show ?thesis
    using assms(3) by (simp add: rx_ok_def rx_consistent_def)
qed

lemma rx_new_ok:
  fixes r rx
  assumes "rx_shows r A" "unat (r_state rx) < 16" "cfg_m l < 0x80000000" "r_msg rx = None" "r_nxt rx = None"
  shows "rx_ok (l\<lparr>l_rx := rx_new_frame r rx\<rparr>)"
  using rx_begin_ok[OF assms(1), of "rx\<lparr>r_mode := RX_MODE_SYNC, r_residue := 0, r_rbits := 0, r_bytes := 0,
      r_bcc := 0xffff\<rparr>" l] assms
  by (cases "re_sync r") (simp_all add: rx_new_frame_def Let_def, simp add: rx_ok_def)

lemma rx_hunt_ok:
  "unat (r_state (l_rx l)) < 16 \<Longrightarrow> cfg_m l < 0x80000000 \<Longrightarrow> r_msg (l_rx l) = None \<Longrightarrow> r_nxt (l_rx l) = None
    \<Longrightarrow> rx_ok (rx_start_hunt r l)"
  by (simp add: rx_start_hunt_def count_def rx_ok_def)

lemma rx_abort:
  fixes l r e
  assumes "rx_shows r A" "unat (r_state (l_rx l)) < 16" "cfg_m l < 0x80000000"
  defines "l' \<equiv> rx_abort_frame r e l"
  shows "rx_ok l' \<and> (\<exists>c. ch_quiet (l_ch l) c \<and> (e \<noteq> Buffer_overflow \<longrightarrow> c = l_ch l) \<and> l_ch l' = sl_daedr_su_in_error c)"
proof -
  define l1 where "l1 = steps [count_error e, (\<lambda>l. l\<lparr>l_rx := (l_rx l)\<lparr>r_nxt := None, r_msg := None\<rparr>\<rparr>), rx_in_error] l"
  have l': "l' = (if re_flag r then l1\<lparr>l_rx := rx_new_frame r (l_rx l1)\<rparr> else rx_start_hunt r l1)"
    by (simp add: l'_def rx_abort_frame_def l1_def Let_def)
  have rx: "l_rx l1 = (l_rx l)\<lparr>r_nxt := None, r_msg := None\<rparr>" "cfg_m l1 = cfg_m l"
    by (cases e; simp add: l1_def rx_in_error_def count_def)+
  have ch: "\<exists>c. ch_quiet (l_ch l) c \<and> (e \<noteq> Buffer_overflow \<longrightarrow> c = l_ch l) \<and> l_ch l1 = sl_daedr_su_in_error c"
  proof (cases "e = Buffer_overflow")
    case True
    let ?c = "set_rx_buffer_overflows (rx_buffer_overflows (sdt_st (l_ch l)) + 1) (l_ch l)"
    have "?c = (l_ch l)\<lparr>allocs := allocs (l_ch l), sdt_st := sdt_st ?c\<rparr>"
      by simp
    then have "ch_quiet (l_ch l) ?c"
      unfolding ch_quiet_def by blast
    moreover have "l_ch l1 = sl_daedr_su_in_error ?c"
      using True by (simp add: l1_def rx_in_error_def count_def)
    ultimately show ?thesis
      using True by blast
  next
    case False
    then have "l_ch l1 = sl_daedr_su_in_error (l_ch l)"
      by (cases e; simp add: l1_def rx_in_error_def count_def)
    then show ?thesis
      using ch_quiet_refl by blast
  qed
  have "rx_ok l'"
    using rx_new_ok[OF assms(1), of "l_rx l1" l1] rx_hunt_ok[of l1 r] assms(2,3) rx by (simp add: l')
  moreover have "l_ch l' = l_ch l1"
    by (simp add: l' rx_start_hunt_def)
  ultimately show ?thesis
    using ch by simp
qed

section \<open>The end of a frame\<close>

text \<open>A frame that passes the checks: the bits of a message and its block check, of a permitted length.\<close>

definition rx_good :: "ch \<Rightarrow> bool list \<Rightarrow> u8 list \<Rightarrow> bool" where
  "rx_good ch D m = (D = frame_bits m \<and> hlen ch \<le> length m \<and> rx_length_ok ch m (length m - hlen ch))"

lemma frame_checked:
  assumes "rx_consistent l D" "length D - 8 * length (rx_stored (l_rx l)) \<le> 28" "r_rbits (l_rx l) = 16"
    and "ucast (NOT (r_bcc (l_rx l))) = r_residue (l_rx l) AND 0xffff"
  shows "D = frame_bits (rx_stored (l_rx l))"
proof -
  let ?os = "rx_stored (l_rx l)" and ?rx = "l_rx l"
  have h: "rx_holds D (length ?os) ?rx"
    using assms(1) by (simp add: rx_consistent_def)
  have n: "length (drop (8 * length ?os) D) = 16"
    using rx_holds_rbits[OF h assms(2)] assms(3) by simp
  have "r_residue ?rx AND 0xffff = take_bit 16 (r_residue ?rx)"
    by (simp add: take_bit_eq_mask mask_eq_exp_minus_1)
  also have "\<dots> = r_residue ?rx"
    using h n by (simp add: rx_holds_def) (rule bit_eqI, auto simp: bit_take_bit_iff bit_lsb_val)
  finally have "lsb_val (drop (8 * length ?os) D) = (lsb_val (octet_bits (fcs 0xffff ?os)) :: u32)"
    using assms(4) h by (simp add: lsb_val_fcs rx_holds_def)
  then have "lsb_bits 16 (lsb_val (drop (8 * length ?os) D) :: u32) = lsb_bits 16 (lsb_val (octet_bits (fcs 0xffff ?os)) :: u32)"
    by simp
  then have "drop (8 * length ?os) D = octet_bits (fcs 0xffff ?os)"
    using n lsb_bits_lsb_val[of "drop (8 * length ?os) D", where 'a = 32]
      lsb_bits_lsb_val[of "octet_bits (fcs 0xffff ?os)", where 'a = 32] by (simp add: fcs_def Let_def)
  then show ?thesis
    using h by (simp add: frame_bits_def rx_holds_def) (metis append_take_drop_id)
qed

lemma frame_end_cases:
  fixes l r D
  assumes r: "rx_shows r A" and st: "unat (r_state (l_rx l)) < 16" "cfg_m l < 0x80000000"
    and c: "rx_consistent l D" "length D - 8 * length (rx_stored (l_rx l)) \<le> 28"
  defines "l' \<equiv> rx_frame_end r l" and "m \<equiv> rx_stored (l_rx l)"
  shows "rx_ok l' \<and> l_ch l' = (if rx_good (l_ch l) D m then sl_daedr_received_bits \<lparr>mid = 0, octets = m\<rparr> (l_ch l)
    else sl_daedr_su_in_error (l_ch l))"
proof (cases "rx_good (l_ch l) D m")
  case True
  have "length m < 2 ^ 32"
    using c(1) rx_max_less[OF st(2)] by (simp add: rx_consistent_def m_def)
  then obtain rx where rx: "rx_frame_end r l = (count rx_sus_update l)\<lparr>
      l_ch := sl_daedr_received_bits \<lparr>mid = 0, octets = m\<rparr> (l_ch l), l_rx := rx_new_frame r rx\<rparr>"
      "r_msg rx = None" "r_nxt rx = None" "r_state rx = r_state (l_rx l)"
    using frame_end_ok[of m l r] True c(1) by (auto simp: rx_good_def rx_consistent_def m_def)
  then show ?thesis
    using rx_new_ok[OF r, of rx "(count rx_sus_update l)\<lparr>l_ch := sl_daedr_received_bits \<lparr>mid = 0, octets = m\<rparr> (l_ch l)\<rparr>"]
      True st by (simp add: l'_def count_def)
next
  case False
  have un: "unat (word_of_nat (length m) :: u32) = length m" "unat (word_of_nat (hlen (l_ch l)) :: u32) = hlen (l_ch l)"
    using c(1) rx_max_less[OF st(2)] hlen_cases[of "l_ch l"] by (auto simp: rx_consistent_def m_def unat_of_nat)
  let ?l = "l\<lparr>l_rx := xp_rx_linkb (l_rx l)\<rparr>"
  have b: "r_bytes (l_rx l) = word_of_nat (length m)" "r_bytes (xp_rx_linkb (l_rx l)) = r_bytes (l_rx l)"
      "(case r_msg (xp_rx_linkb (l_rx l)) of None \<Rightarrow> [] | Some bs \<Rightarrow> bs) = m"
    using c(1) by (auto simp: rx_consistent_def rx_holds_def m_def xp_rx_linkb_def rx_stored_def split: option.split)
  have "\<exists>e. e \<noteq> Buffer_overflow \<and> (l' = rx_abort_frame r e l \<or> l' = rx_abort_frame r e ?l)"
  proof (cases "r_rbits (l_rx l) = 16 \<and> ucast (NOT (r_bcc (l_rx l))) = r_residue (l_rx l) AND 0xffff
      \<and> \<not> r_bytes (l_rx l) < word_of_nat (hlen (l_ch l))")
    case True
    then have "D = frame_bits m" "hlen (l_ch l) \<le> length m"
      using frame_checked[OF c] un by (simp_all add: m_def b(1) word_less_nat_alt)
    then have "\<not> rx_length_ok (l_ch l) m (unat (r_bytes (l_rx l) - word_of_nat (hlen (l_ch l))))"
      using False un by (simp add: rx_good_def b(1) unat_sub word_le_nat_alt)
    then have "l' = rx_abort_frame r Length_error ?l"
      using True b by (simp add: l'_def rx_frame_end_def Let_def)
    then show ?thesis
      by blast
  next
    case False
    then show ?thesis
      by (auto simp: l'_def rx_frame_end_def)
  qed
  then obtain e l1 where e: "e \<noteq> Buffer_overflow" "l' = rx_abort_frame r e l1" "l1 = l \<or> l1 = ?l"
    by blast
  then have "unat (r_state (l_rx l1)) < 16" "cfg_m l1 < 0x80000000" "l_ch l1 = l_ch l"
    using st by (auto simp: xp_rx_linkb_def)
  then show ?thesis
    using rx_abort[OF r, of l1 e] e(1,2) False by auto
qed

section \<open>One octet\<close>

lemma rx_ok_count [simp]: "rx_ok (count u l) = rx_ok l"
  by (simp add: rx_ok_def Let_def rx_consistent_def rx_max_def count_def)

lemma rx_mof_cases:
  fixes l r
  assumes r: "rx_shows r A" and st: "unat (r_state (l_rx l)) < 16" "cfg_m l < 0x80000000" "r_mode (l_rx l) = RX_MODE_MOF"
    and c: "rx_consistent l (rx_bits (l_rx l))" "r_rbits (l_rx l) \<le> 16"
  defines "l' \<equiv> rx_mof r l" and "m \<equiv> rx_stored (l_rx l)" and "D \<equiv> rx_bits (l_rx l) @ (if rd_sync A then [] else rd_out A)"
  shows "rx_ok l' \<and> (if rd_flag A
      then l_ch l' = (if rx_good (l_ch l) D m then sl_daedr_received_bits \<lparr>mid = 0, octets = m\<rparr> (l_ch l)
        else sl_daedr_su_in_error (l_ch l))
      else \<exists>c. ch_quiet (l_ch l) c \<and> l_ch l' \<in> {c, sl_daedr_su_in_error c})"
proof -
  let ?E = "rx_bits (l_rx l)"
  define l1 where "l1 = (if \<not> re_sync r \<and> re_length r \<noteq> 0 then
                 l\<lparr>l_rx := (l_rx l)\<lparr>
                   r_residue := r_residue (l_rx l) OR push_bit (unat (r_rbits (l_rx l))) (ucast (re_string r)),
                   r_rbits := r_rbits (l_rx l) + ucast (re_length r)\<rparr>\<rparr>
               else l)"
  have l': "l' = (if \<not> re_flag r then
           if re_hunt r \<or> re_idle r then rx_abort_frame r Aborted l1
           else (case rx_drain l1 of (None, l) \<Rightarrow> l | (Some e, l) \<Rightarrow> rx_abort_frame r e l)
         else rx_frame_end r l1)"
    unfolding l'_def rx_mof_def l1_def Let_def by (rule refl)
  have marks: "re_sync r = rd_sync A" "re_flag r = rd_flag A" "re_length r = 0 \<longleftrightarrow> rd_out A = []" "length (rd_out A) \<le> 12"
    using r by (simp_all add: rx_shows_def)
  have left: "length ?E - 8 * length m \<le> 16"
    using c(2) by (simp add: rx_bits_def m_def word_le_nat_alt)
  have l1: "l_ch l1 = l_ch l" "rx_max l1 = rx_max l" "cfg_m l1 = cfg_m l" "rx_stored (l_rx l1) = m"
      "r_mode (l_rx l1) = RX_MODE_MOF" "r_state (l_rx l1) = r_state (l_rx l)"
    using st(3) by (simp_all add: l1_def rx_max_def m_def rx_stored_def)
  have h0: "rx_holds ?E (length m) (l_rx l)"
    using c(1) by (simp add: rx_consistent_def m_def)
  have "rx_holds D (length m) (l_rx l1)"
    using rx_append_holds[OF h0 r left] h0 marks(1,3) by (auto simp: D_def l1_def)
  then have c1: "rx_consistent l1 D"
    using c(1) l1 by (simp add: rx_consistent_def m_def)
  have d1: "length D - 8 * length (rx_stored (l_rx l1)) \<le> 28"
    using left marks(4) by (auto simp: D_def l1(4))
  have s1: "unat (r_state (l_rx l1)) < 16" "cfg_m l1 < 0x80000000"
    using st l1 by simp_all
  show ?thesis
  proof (cases "rd_flag A")
    case True
    then show ?thesis
      using frame_end_cases[OF r s1 c1 d1] l' marks(2) l1(1,4) by simp
  next
    case False
    show ?thesis
    proof (cases "re_hunt r \<or> re_idle r")
      case True
      then have "l' = rx_abort_frame r Aborted l1"
        using l' marks(2) False by simp
      then show ?thesis
        using rx_abort[OF r s1, of Aborted] False l1(1) by (auto intro: exI[of _ "l_ch l"])
    next
      case n: False
      obtain e l2 where d: "rx_drain l1 = (e, l2)" "ch_quiet (l_ch l1) (l_ch l2)" "cfg_m l2 = cfg_m l1"
          "r_mode (l_rx l2) = r_mode (l_rx l1)" "r_state (l_rx l2) = r_state (l_rx l1)"
          "e = None \<Longrightarrow> rx_consistent l2 D \<and> length D - 8 * length (rx_stored (l_rx l2)) \<le> 16"
        using rx_drain_cases[OF s1(2) c1 d1] by blast
      show ?thesis
      proof (cases e)
        case None
        then have c2: "rx_consistent l2 D" "length D - 8 * length (rx_stored (l_rx l2)) \<le> 16"
          using d(6) by simp_all
        then have "rx_holds D (length (rx_stored (l_rx l2))) (l_rx l2)"
          by (simp add: rx_consistent_def)
        note h = rx_holds_bits[OF this] rx_holds_rbits[OF this]
        have "rx_ok l2"
          using c2 h d(3-5) s1 l1(5) by (simp add: rx_ok_def Let_def word_le_nat_alt)
        moreover have "l' = l2"
          using l' marks(2) False n d(1) None by simp
        ultimately show ?thesis
          using d(2) l1(1) False by auto
      next
        case (Some x)
        then have "l' = rx_abort_frame r x l2"
          using l' marks(2) False n d(1) by simp
        moreover obtain c where "ch_quiet (l_ch l2) c" "l_ch (rx_abort_frame r x l2) = sl_daedr_su_in_error c"
            "rx_ok (rx_abort_frame r x l2)"
          using rx_abort[OF r, of l2 x] s1 d(3,5) by auto
        moreover have "ch_quiet (l_ch l) c"
          using ch_quiet_trans d(2) l1(1) calculation(2) by simp
        ultimately show ?thesis
          using False by auto
      qed
    qed
  qed
qed

lemma rx_step_cases:
  fixes l r
  assumes r: "rx_shows r A" and ok: "rx_ok l"
  defines "l' \<equiv> rx_entry_step r l" and "m \<equiv> rx_stored (l_rx l)"
    and "D \<equiv> rx_bits (l_rx l) @ (if rd_sync A then [] else rd_out A)"
  shows "rx_ok l' \<and> (if r_mode (l_rx l) = RX_MODE_MOF \<and> rd_flag A
      then l_ch l' = (if rx_good (l_ch l) D m then sl_daedr_received_bits \<lparr>mid = 0, octets = m\<rparr> (l_ch l)
        else sl_daedr_su_in_error (l_ch l))
      else \<exists>c. ch_quiet (l_ch l) c \<and> l_ch l' \<in> {c, sl_daedr_su_in_error c})"
proof -
  define l1 where "l1 = l\<lparr>l_rx := (l_rx l)\<lparr>r_state := ucast (re_state r)\<rparr>\<rparr>"
  have l': "l' = (case r_mode (l_rx l1) of RX_MODE_MOF \<Rightarrow> rx_mof r l1
         | RX_MODE_SYNC \<Rightarrow>
             if \<not> re_hunt r \<and> \<not> re_idle r then l1\<lparr>l_rx := rx_begin_frame r (l_rx l1)\<rparr> else rx_start_hunt r l1
         | RX_MODE_IDLE \<Rightarrow>
             rx_hunt r (if \<not> re_idle r then l1\<lparr>l_rx := (l_rx l1)\<lparr>r_mode := RX_MODE_HUNT\<rparr>\<rparr> else l1)
         | RX_MODE_HUNT \<Rightarrow> rx_hunt r l1)"
    unfolding l'_def rx_entry_step_def l1_def Let_def by (rule refl)
  have s: "unat (r_state (l_rx l1)) < 16" "cfg_m l1 < 0x80000000" "l_ch l1 = l_ch l" "r_mode (l_rx l1) = r_mode (l_rx l)"
      "rx_stored (l_rx l1) = m" "rx_bits (l_rx l1) = rx_bits (l_rx l)" "r_msg (l_rx l1) = r_msg (l_rx l)"
      "r_nxt (l_rx l1) = r_nxt (l_rx l)" "r_rbits (l_rx l1) = r_rbits (l_rx l)"
    using ok unat_4_less[of "re_state r"]
    by (simp_all add: l1_def rx_ok_def m_def rx_stored_def rx_bits_def Let_def unsigned_ucast_eq take_bit_nat_eq_self)
  show ?thesis
  proof (cases "r_mode (l_rx l) = RX_MODE_MOF")
    case True
    then have c: "rx_consistent l (rx_bits (l_rx l))" "r_rbits (l_rx l) \<le> 16"
      using ok by (simp_all add: rx_ok_def Let_def)
    moreover have "rx_holds D j (l_rx l1) = rx_holds D j (l_rx l)" "rx_max l1 = rx_max l" for D j
      using s(5) by (simp_all add: rx_holds_def m_def) (simp_all add: l1_def rx_max_def)
    ultimately have "rx_consistent l1 (rx_bits (l_rx l1))" "r_rbits (l_rx l1) \<le> 16"
      using s(5,6,9) by (simp_all add: rx_consistent_def m_def)
    from rx_mof_cases[OF r s(1,2) _ this] show ?thesis
      using True s(3-6) l' by (cases "rd_flag A") (auto simp: D_def)
  next
    case False
    then have none: "r_msg (l_rx l1) = None" "r_nxt (l_rx l1) = None"
      using ok s by (simp_all add: rx_ok_def Let_def)
    have hunt: "rx_ok (rx_hunt r l2) \<and> l_ch (rx_hunt r l2) \<in> {l_ch l, sl_daedr_su_in_error (l_ch l)}"
      if "l2 = l1 \<or> l2 = l1\<lparr>l_rx := (l_rx l1)\<lparr>r_mode := RX_MODE_HUNT\<rparr>\<rparr>" for l2
    proof (cases "re_flag r")
      case True
      then show ?thesis
        using rx_new_ok[OF r, of "l_rx l2" "count rx_sync_transitions_update l2"] that s(1-3) none
        by (auto simp: rx_hunt_def count_def)
    next
      case f: False
      then show ?thesis
        using that s(1-4) none False
        by (auto simp: rx_hunt_def Let_def rx_in_error_def count_def rx_ok_def)
    qed
    have "rx_ok l' \<and> l_ch l' \<in> {l_ch l, sl_daedr_su_in_error (l_ch l)}"
    proof (cases "r_mode (l_rx l1)")
      case RX_MODE_SYNC
      then show ?thesis
        using rx_begin_ok[OF r s(1,2) RX_MODE_SYNC none] rx_hunt_ok[OF s(1,2) none, of r] l' s(3)
        by (auto simp: rx_start_hunt_def)
    qed (use hunt l' s(4) False in auto)
    then show ?thesis
      using False by (auto intro: exI[of _ "l_ch l"])
  qed
qed

lemma rx_octet_cases:
  fixes type b l
  assumes ok: "rx_ok l"
  defines "l' \<equiv> rx_octet type b l" and "m \<equiv> rx_stored (l_rx l)"
    and "A \<equiv> read_bits (unat (r_state (l_rx l))) (take (width type) (msb_bits 8 b))"
  defines "D \<equiv> rx_bits (l_rx l) @ (if rd_sync A then [] else rd_out A)"
  shows "rx_ok l' \<and> (if r_mode (l_rx l) = RX_MODE_MOF \<and> rd_flag A
      then l_ch l' = (if rx_good (l_ch l) D m then sl_daedr_received_bits \<lparr>mid = 0, octets = m\<rparr> (l_ch l)
        else sl_daedr_su_in_error (l_ch l))
      else \<exists>c. ch_quiet (l_ch l) c \<and> l_ch l' \<in> {c, sl_daedr_su_in_error c})"
proof -
  have "unat (r_state (l_rx l)) < 16"
    using ok by (simp add: rx_ok_def Let_def)
  then obtain r where r: "rx_octet type b l = rx_entry_step r (count sdl_rx_octets_update l)" "rx_shows r A"
    unfolding A_def by (rule rx_octet_entry)
  have "rx_ok (count sdl_rx_octets_update l)"
    using ok by simp
  from rx_step_cases[OF r(2) this] show ?thesis
    unfolding in_frame_count l'_def r(1) m_def D_def .
qed

text \<open>C18. Whatever the line carries, the receiver is consistent after every octet, and it hands up only checked
  frames.  Let the bits of the frame be those received since the last flag, freed of stuffing, up to the flag
  in this octet.  If a frame is under way and the octet completes a flag, the stored octets are handed to the link
  if the bits of the frame are exactly those octets and their block check, there are enough of them for a header
  and their number fits the length indicator; in every other case the link is told of one signal unit in error.  On any
  other octet no frame is handed up: the channel is as it was but for a pending allocation or a counter of
  overflows, or it is told of a signal unit in error.  A frame that is handed up is never longer than configured.\<close>

theorem rx_delivers_checked:
  fixes type b l
  assumes ok: "rx_ok l"
  defines "l' \<equiv> rx_octet type b l" and "m \<equiv> rx_stored (l_rx l)"
    and "A \<equiv> read_bits (unat (r_state (l_rx l))) (take (width type) (msb_bits 8 b))"
  defines "D \<equiv> rx_bits (l_rx l) @ (if rd_sync A then [] else rd_out A)"
  shows "rx_ok l' \<and> length m \<le> rx_max l \<and> (if r_mode (l_rx l) = RX_MODE_MOF \<and> rd_flag A
      then l_ch l' = (if D = frame_bits m \<and> hlen (l_ch l) \<le> length m
            \<and> rx_length_ok (l_ch l) m (length m - hlen (l_ch l))
          then sl_daedr_received_bits \<lparr>mid = 0, octets = m\<rparr> (l_ch l) else sl_daedr_su_in_error (l_ch l))
      else \<exists>c. ch_quiet (l_ch l) c \<and> l_ch l' \<in> {c, sl_daedr_su_in_error c})"
proof -
  have "length m \<le> rx_max l"
    using ok by (auto simp: rx_ok_def Let_def rx_consistent_def m_def rx_stored_def split: if_splits)
  then show ?thesis
    using rx_octet_cases[OF ok, of type b] unfolding l'_def m_def D_def A_def rx_good_def by blast
qed

text \<open>A fill-in unit whose last bit and closing flag are still to come.\<close>

definition rx_last :: rx_path where
  "rx_last = \<lparr>r_residue = 0x46ec, r_rbits = 15, r_bcc = 0xb913, r_state = 0, r_mode = RX_MODE_MOF, r_bytes = 3,
     r_msg = None, r_nxt = Some [0x80, 0x80, 0], r_octets = 0\<rparr>"

theorem rx_delivers_checked_witness:
  "l_ch (rx_octet SDL_DS0 0x7e (e1_line (up_ch 0 []) (tx_begin \<lparr>mid = 0, octets = []\<rparr>) rx_last))
    = sl_daedr_received_bits \<lparr>mid = 0, octets = [0x80, 0x80, 0]\<rparr> (up_ch 0 [])"
proof -
  let ?l = "e1_line (up_ch 0 []) (tx_begin \<lparr>mid = 0, octets = []\<rparr>) rx_last" and ?A = "read_bits 0 (msb_bits 8 (0x7e :: u8))"
  have bits: "octet_bits [0x80, 0x80, 0] @ lsb_bits 15 (0x46ec :: u32) @ [False] = frame_bits [0x80, 0x80, 0]"
      "0xb913 = foldl bcc_octet 0xffff [0x80, 0x80, 0]"
    unfolding frame_bits_def fcs_def bcc_octet_crc by code_simp+
  have st: "rx_stored (l_rx ?l) = [0x80, 0x80, 0]"
      "rx_bits (l_rx ?l) = octet_bits [0x80, 0x80, 0] @ lsb_bits 15 (0x46ec :: u32)"
    by (simp_all add: line_defs rx_last_def rx_stored_def rx_bits_def)
  have l: "l_ch ?l = up_ch 0 []" "unat (r_state (l_rx ?l)) = 0" "r_mode (l_rx ?l) = RX_MODE_MOF"
      "take (width SDL_DS0) (msb_bits 8 (0x7e :: u8)) = msb_bits 8 (0x7e :: u8)"
    by (simp_all add: line_defs rx_last_def width_def seven_def)
  have A: "rd_flag ?A" "\<not> rd_sync ?A" "rd_out ?A = [False]"
    by code_simp+
  have ch: "hlen (up_ch 0 []) = 3" "rx_max ?l = 276" "rx_length_ok (up_ch 0 []) [0x80, 0x80, 0] 0"
    by (simp_all add: demo_defs hlen_def rx_max_def line_defs rx_length_ok_def rx_li_def rd8_def)
  have "(0x46ec :: u32) = lsb_val (lsb_bits 15 (0x46ec :: u32))"
    by code_simp
  then have "rx_ok ?l"
    using bits(2) ch(2) unfolding rx_ok_def rx_consistent_def rx_holds_def st
    by (simp add: line_defs rx_last_def Let_def) (simp add: rx_stored_def rx_bits_def)
  from rx_delivers_checked[OF this, of SDL_DS0 "0x7e"] show ?thesis
    unfolding st l using A ch bits(1) by simp
qed

end
