(* ===== verification/HDLC_Card.thy ===== *)
theory HDLC_Card
  imports HDLC_Checks SL_Step
begin

text \<open>
  The tasklet and the interrupt of the card.  \<open>line_ok\<close> is the invariant of a line: its link, its transmit path
  and, while it receives frames, its receive path are consistent; the tasklet keeps it for every line of the card.
  The blocks that the tasklet and the interrupt exchange form two queues.
\<close>

section \<open>Transmission requests\<close>

text \<open>A transmission request changes the transmit side of the channel only.\<close>

locale request_view = ind_view v for v :: "ch \<Rightarrow> 'v" +
  assumes v_statem: "v (statem_update f1 ch) = v ch"
    and v_tx_sn: "v (tx_sn_update f2 ch) = v ch"
    and v_rx_sn: "v (rx_sn_update f3 ch) = v ch"
    and v_timers: "v (xp_timer_start t ch) = v ch"
    and v_stats: "v (stats_update f4 ch) = v ch"
    and v_sdt_st: "v (sdt_st_update f5 ch) = v ch"
    and v_tb: "v (tb_update f6 ch) = v ch"
    and v_rtb: "v (rtb_update f7 ch) = v ch"
    and v_sdt_tb: "v (sdt_tb_update f8 ch) = v ch"
    and v_sdl_tb: "v (sdl_tb_update f9 ch) = v ch"
    and v_sdl_over: "v (sdl_tx_buffer_overflows_update f10 ch) = v ch"
    and v_tx_cmp: "v (tx_cmp_update f11 ch) = v ch"
    and v_tx_repeat: "v (tx_repeat_update f12 ch) = v ch"
begin

lemmas keeps = v_statem v_tx_sn v_rx_sn v_timers v_stats v_sdt_st v_tb v_rtb v_sdt_tb v_sdl_tb v_sdl_over v_tx_cmp
  v_tx_repeat indications after_ifthen after_ifelse

lemma txc_parts:
  "v (txc_fill ch) = v ch"
  "v (snd (txc_fisu ch)) = v ch"
  "v (snd (txc_lssu ch)) = v ch"
  "v (txc_rtb_limit ch) = v ch"
  "v (txc_pcr_limits ch) = v ch"
  "v (snd (dupmsg bp ch)) = v ch"
  "v (snd (txc_send_dup z mp ch)) = v ch"
  by (auto simp: txc_fill_def txc_fisu_def txc_lssu_def txc_rtb_limit_def txc_pcr_limits_def dupmsg_def
      txc_send_dup_def Let_def keeps split: option.split prod.split dest: allocb_pair)

lemma retransmit: "v (snd (txc_retransmit ch)) = v ch"
proof -
  have d: "v c' = v c" if "dupmsg bp c = (r, c')" for bp r c c'
    using txc_parts(6)[of bp c] that by simp
  show ?thesis
    by (auto simp: txc_retransmit_def Let_def txc_parts v_statem split: option.split prod.split dest!: d)
qed

lemma new_msu: "v (snd (txc_new_msu ch)) = v ch"
  by (auto simp: txc_new_msu_def Let_def keeps txc_parts sl_rc_fsnt_value_def split: option.split prod.split
      dest: allocb_pair)

lemma sdt_request: "v (snd (sdt_transmission_request ch)) = v ch"
  by (auto simp: sdt_transmission_request_def Let_def keeps split: option.split prod.split dest!: allocb_pair)

lemma request: "v (snd (sl_daedt_transmission_request ch)) = v ch"
proof -
  have "v (snd (sl_txc_transmission_request c)) = v c" for c
    by (simp add: sl_txc_transmission_request_def Let_def new_msu retransmit txc_parts)
  then have t: "v c' = v c" if "sl_txc_transmission_request c = (r, c')" for r c c'
    using that by (metis snd_conv)
  show ?thesis
    by (auto simp: sl_daedt_transmission_request_def keeps sdt_request split: option.split prod.split dest!: t)
qed

end

interpretation options: request_view "\<lambda>ch. (popt ch, sdt_sm ch)"
  by unfold_locales (simp_all add: emit_def rq_putq_def timer_fields)

section \<open>The transmit path\<close>

lemma tx_next_message_path:
  "t_rbits (l_tx (tx_next_message l)) = t_rbits (l_tx l)"
  "t_state (l_tx (tx_next_message l)) = t_state (l_tx l)"
  by (simp_all add: tx_next_message_def Let_def split: prod.split option.split)

lemma tx_fill_ok:
  assumes "unat (t_rbits (l_tx l)) < 8" "tx_ok (l_tx l)"
  shows "tx_ok (l_tx (tx_fill l)) \<and> 8 \<le> unat (t_rbits (l_tx (tx_fill l)))"
proof -
  have st: "unat (t_state (l_tx l)) < 5"
    using assms(2) by (simp add: tx_ok_def)
  have stuff: "unat (t_state (xp_tx_bitstuff b tx)) < 5 \<and> 8 \<le> unat (t_rbits (xp_tx_bitstuff b tx))
      \<and> unat (t_rbits (xp_tx_bitstuff b tx)) \<le> 31"
    if "t_state tx = t_state (l_tx l)" "t_rbits tx = t_rbits (l_tx l)" for b tx
    using xp_tx_bitstuff_bits[of tx b] that st assms(1) by simp
  have put: "tx_ok (tx_put 8 w (l_tx l)) \<and> 8 \<le> unat (t_rbits (tx_put 8 w (l_tx l)))" for w
    using st assms(1) by (simp add: tx_ok_def tx_put_def unat_word_ariths)
  show ?thesis
  proof (cases "t_mode (l_tx l)")
    case TX_MODE_BOF
    then show ?thesis
      using tx_flags_bits[OF assms(1), of "cfg_f l"] by (simp add: tx_fill_def tx_ok_def)
  next
    case TX_MODE_MOF
    then show ?thesis
      by (auto simp: tx_fill_def tx_ok_def Let_def stuff split: option.split list.split)
  next
    case TX_MODE_BCC
    then show ?thesis
      by (simp add: tx_fill_def tx_next_message_path tx_ok_def stuff)
  qed (simp_all add: tx_fill_def put)
qed

section \<open>The invariant of a line\<close>

definition line_ok :: "line \<Rightarrow> bool" where
  "line_ok l = (ctl_ok (ctl (l_ch l)) \<and> tx_ok (l_tx l) \<and> (daedr_state (sdt_sm (l_ch l)) \<noteq> ST_IDLE \<longrightarrow> rx_ok l))"

text \<open>What transmission leaves alone.\<close>

definition ch_side :: "ch \<Rightarrow> control \<times> u32 \<times> sdt_statem" where
  "ch_side ch = (ctl ch, popt ch, sdt_sm ch)"

definition rx_side :: "line \<Rightarrow> rx_path \<times> u32 \<times> control \<times> u32 \<times> sdt_statem" where
  "rx_side l = (l_rx l, cfg_m l, ch_side (l_ch l))"

lemma line_ok_rx_side: "line_ok l \<Longrightarrow> rx_side l' = rx_side l \<Longrightarrow> tx_ok (l_tx l') \<Longrightarrow> line_ok l'"
  by (auto simp: line_ok_def rx_side_def ch_side_def rx_ok_def rx_consistent_def rx_max_def hlen_def xsn_def Let_def)

lemma rx_side_simps [simp]:
  "rx_side (l_tx_update f l) = rx_side l" "rx_side (l_st_update g l) = rx_side l"
  "ch_side c = ch_side (l_ch l) \<Longrightarrow> rx_side (l\<lparr>l_ch := c\<rparr>) = rx_side l"
  by (simp_all add: rx_side_def)

lemma freemsg_side: "ch_side (freemsg m ch) = ch_side ch"
  by (simp add: ch_side_def ctl_freemsg sdt_sm_v.freemsg popt_v.freemsg)

text \<open>The channel when the message just sent is released.\<close>

lemma release_side:
  "ch_side (case m of None \<Rightarrow> ch | Some m \<Rightarrow> if mid m = 0 then ch else freemsg (Some (mid m)) ch) = ch_side ch"
  by (simp add: freemsg_side split: option.split)

lemma request_side: "sl_daedt_transmission_request c = (r, c') \<Longrightarrow> ch_side c' = ch_side c"
  using ctl_transmission_request[of c] options.request[of c] by (simp add: ch_side_def)

lemma tx_next_message_side: "rx_side (tx_next_message l) = rx_side l"
proof -
  define c where "c = (case t_msg (l_tx l) of None \<Rightarrow> l_ch l
                | Some m \<Rightarrow> if mid m = 0 then l_ch l else freemsg (Some (mid m)) (l_ch l))"
  obtain r c' where r: "sl_daedt_transmission_request c = (r, c')"
    by fastforce
  then have "ch_side c' = ch_side (l_ch l)"
    using request_side release_side[of "l_ch l" "t_msg (l_tx l)"] by (simp add: c_def)
  then show ?thesis
    using r unfolding tx_next_message_def c_def[symmetric] Let_def by (cases r) simp_all
qed

lemma tx_fill_side: "rx_side (tx_fill l) = rx_side l"
  by (cases "t_mode (l_tx l)")
    (simp_all add: tx_fill_def tx_next_message_side Let_def split: option.split list.split)

lemma tx_octet_keeps:
  assumes "tx_ok (l_tx l)"
  shows "tx_ok (l_tx (snd (tx_octet type l))) \<and> rx_side (snd (tx_octet type l)) = rx_side l"
proof -
  define l1 where "l1 = (if 8 \<le> t_rbits (l_tx l) then l else tx_fill l)"
  have l1: "tx_ok (l_tx l1)" "8 \<le> unat (t_rbits (l_tx l1))" "rx_side l1 = rx_side l"
    using assms tx_fill_ok[of l] by (auto simp: l1_def word_le_nat_alt tx_fill_side)
  then have "unat (t_rbits (l_tx (snd (tx_drain type l1)))) \<le> unat (t_rbits (l_tx l1))"
    using tx_drain_owed(2)[of l1 type] by (simp add: tx_ok_def)
  then have "tx_ok (l_tx (snd (tx_drain type l1)))"
    using l1(1) by (simp add: tx_ok_def)
  moreover have "rx_side (snd (tx_drain type l1)) = rx_side l1"
    by (simp add: tx_drain_def Let_def)
  ultimately show ?thesis
    using l1(3) by (simp add: tx_octet_def l1_def)
qed

lemma tx_octets_keeps:
  "tx_ok (l_tx (snd x)) \<Longrightarrow> tx_ok (l_tx (snd (tx_octets type as x))) \<and> rx_side (snd (tx_octets type as x)) = rx_side (snd x)"
proof (induction as arbitrary: x)
  case (Cons a as)
  then show ?case
    using tx_octet_keeps[of "snd x" type] by (simp add: case_prod_beta)
qed simp

lemma tx_raw_octet_keeps:
  "rx_side (snd (tx_raw_octet l)) = rx_side l \<and> t_state (l_tx (snd (tx_raw_octet l))) = t_state (l_tx l)
    \<and> t_rbits (l_tx (snd (tx_raw_octet l))) = t_rbits (l_tx l)"
proof -
  define c where "c = (case t_msg (l_tx l) of None \<Rightarrow> l_ch l
                | Some m \<Rightarrow> if mid m = 0 then l_ch l else freemsg (Some (mid m)) (l_ch l))"
  obtain r c' where r: "sl_daedt_transmission_request c = (r, c')"
    by fastforce
  then have s: "ch_side c' = ch_side (l_ch l)"
    using request_side release_side[of "l_ch l" "t_msg (l_tx l)"] by (simp add: c_def)
  moreover have "ch_side (sdl_tx_buffer_overflows_update f c') = ch_side c'" for f
    by (simp add: ch_side_def ctl_frame)
  ultimately show ?thesis
    using r unfolding tx_raw_octet_def c_def[symmetric] Let_def by (auto split: option.split list.split)
qed

lemma tx_raw_octets_keeps:
  "rx_side (snd (tx_raw_octets as x)) = rx_side (snd x) \<and> tx_ok (l_tx (snd (tx_raw_octets as x))) = tx_ok (l_tx (snd x))"
proof (induction as arbitrary: x)
  case (Cons a as)
  obtain r l where r: "tx_raw_octet (snd x) = (r, l)"
    by fastforce
  then show ?case
    using tx_raw_octet_keeps[of "snd x"] Cons.IH[of "((fst x)(a := b), l)" for b] by (cases r) (simp_all add: tx_ok_def)
qed simp

lemma xp_tx_block_ok: "line_ok (snd x) \<Longrightarrow> line_ok (snd (xp_tx_block bp be type x))"
proof -
  assume ok: "line_ok (snd x)"
  then have tx: "tx_ok (l_tx (snd x))"
    by (simp add: line_ok_def)
  define l1 where "l1 = (if t_mode (l_tx (snd x)) \<in> {TX_MODE_IDLE, TX_MODE_FLAG} \<and> t_nxt (l_tx (snd x)) = None
                  then tx_next_message (snd x) else snd x)"
  have l1: "tx_ok (l_tx l1)" "rx_side l1 = rx_side (snd x)"
    using tx by (simp_all add: l1_def tx_next_message_side tx_ok_def tx_next_message_path)
  have "rx_side (snd (xp_tx_block bp be type x)) = rx_side (snd x) \<and> tx_ok (l_tx (snd (xp_tx_block bp be type x)))"
    using tx l1 tx_octets_keeps[of "(fst x, l1)" type "block_addrs (chan_slots type) bp be"]
      tx_raw_octets_keeps[of "block_addrs (chan_slots type) bp be" x]
    unfolding xp_tx_block_def Let_def l1_def[symmetric] by simp
  then show ?thesis
    using line_ok_rx_side[OF ok] by simp
qed

section \<open>The receive path\<close>

lemma rx_store_tx: "l_tx (snd (rx_store l)) = l_tx l"
  by (simp add: rx_store_def Let_def split: option.split prod.split)

lemma rx_drain_tx: "l_tx (snd (rx_drain l)) = l_tx l"
proof (induction l rule: rx_drain.induct)
  case (1 l)
  obtain e l' where s: "rx_store l = (e, l')"
    by fastforce
  then have "l_tx l' = l_tx l"
    using rx_store_tx[of l] by simp
  then show ?case
    using 1[OF _ s[symmetric]] s by (subst rx_drain.simps) (cases e; simp)
qed

lemma rx_abort_tx: "l_tx (rx_abort_frame r e l) = l_tx l"
  by (cases e; simp add: rx_abort_frame_def Let_def rx_in_error_def count_def rx_start_hunt_def)

lemma rx_frame_end_tx: "l_tx (rx_frame_end r l) = l_tx l"
  by (simp add: rx_frame_end_def Let_def rx_abort_tx count_def)

lemma rx_mof_tx: "l_tx (rx_mof r l) = l_tx l"
proof -
  have "l_tx (case rx_drain l1 of (None, l) \<Rightarrow> l | (Some e, l) \<Rightarrow> rx_abort_frame r e l) = l_tx l1" for l1
    using rx_drain_tx[of l1] by (auto simp: rx_abort_tx split: prod.split option.split)
  then show ?thesis
    by (simp add: rx_mof_def Let_def rx_abort_tx rx_frame_end_tx)
qed

lemma rx_octet_tx: "l_tx (rx_octet type b l) = l_tx l"
proof -
  have "l_tx (rx_hunt r l1) = l_tx l1" for r l1
    by (simp add: rx_hunt_def Let_def rx_in_error_def count_def)
  then have "l_tx (rx_entry_step r l1) = l_tx l1" for r l1
    by (simp add: rx_entry_step_def Let_def rx_mof_tx rx_start_hunt_def count_def split: rx_mode.split)
  then show ?thesis
    by (simp add: rx_octet_def count_def)
qed

lemma quiet_ctl: "ch_quiet ch ch' \<Longrightarrow> ctl ch' = ctl ch"
  by (auto simp: ch_quiet_def ctl_frame)

lemma rx_octet_ctl:
  assumes "rx_ok l" "ctl_ok (ctl (l_ch l))"
  shows "ctl_ok (ctl (l_ch (rx_octet type b l)))"
proof -
  let ?l = "rx_octet type b l"
  have "(\<exists>m. l_ch ?l = sl_daedr_received_bits m (l_ch l))
      \<or> (\<exists>c. ch_quiet (l_ch l) c \<and> (l_ch ?l = c \<or> l_ch ?l = sl_daedr_su_in_error c))"
    using rx_octet_cases[OF assms(1), of type b] by (auto split: if_splits intro: exI[of _ "l_ch l"])
  then show ?thesis
    using assms(2) by (auto simp: ok_received_bits ok_daedr_su_in_error quiet_ctl)
qed

lemma rx_octets_ok:
  "rx_ok l \<Longrightarrow> ctl_ok (ctl (l_ch l)) \<Longrightarrow> tx_ok (l_tx l) \<Longrightarrow> line_ok (rx_octets type bs l)"
proof (induction bs arbitrary: l)
  case (Cons b bs)
  then show ?case
    using Cons.IH[of "rx_octet type b l"] rx_octet_cases[OF Cons.prems(1), of type b] rx_octet_ctl[OF Cons.prems(1,2), of type b]
    by (simp add: rx_octet_tx)
qed (simp add: line_ok_def)

text \<open>Without frames, only a line that does not receive frames stores octets.\<close>

definition raw_side :: "line \<Rightarrow> tx_path \<times> control \<times> sdt_statem" where
  "raw_side l = (l_tx l, ctl (l_ch l), sdt_sm (l_ch l))"

lemma allocb_raw: "allocb n ch = (b, c) \<Longrightarrow> ctl c = ctl ch \<and> sdt_sm c = sdt_sm ch"
  using allocb_ctl sdt_sm_v.allocb_pair by blast

lemma rx_raw_octet_side: "raw_side (snd (rx_raw_octet b l)) = raw_side l"
proof -
  have ind: "ctl c = ctl ch \<and> sdt_sm c = sdt_sm ch" if "sdl_received_bits_ind bs ch = (e, c)" for bs ch e c
    using that by (auto simp: sdl_received_bits_ind_def rq_putq_def ctl_frame split: option.splits if_splits)
  define store where "store = (\<lambda>bs l. (True, (count sdl_rx_octets_update l)\<lparr>l_rx := (l_rx l)\<lparr>r_nxt := Some (bs @ [b])\<rparr>\<rparr>))"
  define alloc where "alloc = (\<lambda>l. case allocb (fastbuf l) (l_ch l) of
             (Some _, ch) \<Rightarrow> store [] (l\<lparr>l_ch := ch\<rparr>)
           | (None, ch) \<Rightarrow> (False, (count sdl_rx_overflows_update l)\<lparr>l_ch := ch, l_rx := (l_rx l)\<lparr>r_nxt := None\<rparr>\<rparr>))"
  have eq: "rx_raw_octet b l = (case r_nxt (l_rx l) of None \<Rightarrow> alloc l
      | Some bs \<Rightarrow>
             if length bs < unat (ifblksize l) then store bs l
             else (case sdl_received_bits_ind bs (l_ch l) of
                 (OK, ch) \<Rightarrow> alloc (l\<lparr>l_ch := ch\<rparr>)
               | (_, ch) \<Rightarrow> store [] (count sdl_rx_overflows_update (l\<lparr>l_ch := ch\<rparr>))))"
    unfolding rx_raw_octet_def Let_def store_def alloc_def by (rule refl)
  have st: "raw_side (snd (store bs l)) = raw_side l" for bs l
    by (simp add: store_def raw_side_def count_def)
  have al: "raw_side (snd (alloc l)) = raw_side l" for l
  proof -
    obtain r c where r: "allocb (fastbuf l) (l_ch l) = (r, c)"
      by fastforce
    then have "ctl c = ctl (l_ch l) \<and> sdt_sm c = sdt_sm (l_ch l)"
      by (rule allocb_raw)
    then show ?thesis
      using r st[of "[]" "l\<lparr>l_ch := c\<rparr>"] by (cases r) (simp_all add: alloc_def raw_side_def count_def)
  qed
  show ?thesis
  proof (cases "r_nxt (l_rx l)")
    case None
    then show ?thesis
      using al[of l] by (simp add: eq)
  next
    case (Some bs)
    obtain e c where e: "sdl_received_bits_ind bs (l_ch l) = (e, c)"
      by fastforce
    then have "raw_side (l\<lparr>l_ch := c\<rparr>) = raw_side l" "raw_side (count sdl_rx_overflows_update (l\<lparr>l_ch := c\<rparr>)) = raw_side l"
      using ind by (simp_all add: raw_side_def count_def)
    then show ?thesis
      using Some e al[of "l\<lparr>l_ch := c\<rparr>"] st[of bs l] st[of "[]" "count sdl_rx_overflows_update (l\<lparr>l_ch := c\<rparr>)"]
      by (cases e) (simp_all add: eq)
  qed
qed

lemma rx_raw_octets_side: "raw_side (rx_raw_octets bs l) = raw_side l"
proof (induction bs arbitrary: l)
  case (Cons b bs)
  obtain r l1 where "rx_raw_octet b l = (r, l1)"
    by fastforce
  then show ?case
    using rx_raw_octet_side[of b l] Cons.IH[of l1] by (cases r) simp_all
qed simp

lemma xp_rx_block_ok: "line_ok l \<Longrightarrow> line_ok (xp_rx_block bp be type m l)"
proof -
  assume ok: "line_ok l"
  have raw: "line_ok (rx_raw_octets bs l)" if "daedr_state (sdt_sm (l_ch l)) = ST_IDLE" for bs
    using rx_raw_octets_side[of bs l] ok that by (simp add: raw_side_def line_ok_def)
  show ?thesis
    using ok raw rx_octets_ok[of l] by (simp add: xp_rx_block_def Let_def line_ok_def)
qed

section \<open>The tasklet\<close>

definition span_ok :: "span \<Rightarrow> bool" where
  "span_ok sp = (\<forall>chan type l. sp_chans sp chan = Some (type, l) \<longrightarrow> line_ok l)"

definition card_ok :: "card \<Rightarrow> bool" where
  "card_ok cd = (\<forall>s sp. cd_spans cd s = Some sp \<longrightarrow> span_ok sp)"

lemma chan_process_ok: "line_ok (snd x) \<Longrightarrow> line_ok (snd (chan_process wbp wend rbp rend m type x))"
  using xp_tx_block_ok xp_rx_block_ok by (simp add: chan_process_def Let_def)

lemma span_chan_ok: "span_ok (snd x) \<Longrightarrow> span_ok (snd (span_chan wspan wend rspan rend m chan x))"
proof (cases "sp_chans (snd x) chan")
  case (Some p)
  assume ok: "span_ok (snd x)"
  obtain type l where p: "p = (type, l)"
    by fastforce
  let ?coff = "(if sp_e1 (snd x) then xp_e1_chan_map else xp_t1_chan_map) ! chan * 4"
  obtain m' l' where r: "chan_process (wspan + ?coff) wend (rspan + ?coff) rend m type (fst x, l) = (m', l')"
    by fastforce
  have "line_ok l"
    using ok Some p by (auto simp: span_ok_def)
  then have "line_ok l'"
    using chan_process_ok[of "(fst x, l)" "wspan + ?coff" wend "rspan + ?coff" rend m type] r by simp
  then show ?thesis
    using ok Some p r by (auto simp: span_chan_def span_ok_def Let_def)
qed (simp add: span_chan_def)

lemma xp_span_process_ok: "span_ok (snd x) \<Longrightarrow> span_ok (snd (xp_span_process wspan wend rspan rend m x))"
proof -
  have "span_ok (snd y) \<Longrightarrow> span_ok (snd (fold (span_chan wspan wend rspan rend m) cs y))" for cs y
    by (induction cs arbitrary: y) (simp_all add: span_chan_ok)
  then show "span_ok (snd x) \<Longrightarrow> ?thesis"
    by (simp add: xp_span_process_def)
qed

lemma card_span_ok: "card_ok cd \<Longrightarrow> card_ok (card_span little boff s cd)"
proof -
  assume ok: "card_ok cd"
  show ?thesis
  proof (cases "cd_spans cd s")
    case (Some sp)
    have "span_ok sp"
      using ok Some by (auto simp: card_ok_def)
    then show ?thesis
      using ok Some xp_span_process_ok[of "(wbuf cd, sp)" "boff + span_to_byte little s" "boff + 1024"
          "boff + span_to_byte little s" "boff + 1024" "rbuf cd"]
      by (auto simp: card_span_def card_ok_def Let_def split: prod.split)
  qed (simp add: card_span_def ok)
qed

lemma tasklet_ok: "card_ok cd \<Longrightarrow> card_ok (snd (xp_card_tasklet little cd))"
proof -
  have "card_ok c \<Longrightarrow> card_ok (fold (card_span little boff) ss c)" for boff ss c
    by (induction ss arbitrary: c) (simp_all add: card_span_ok)
  moreover have "card_ok (uebno_update f cd) = card_ok cd" for f
    by (simp add: card_ok_def)
  ultimately show "card_ok cd \<Longrightarrow> ?thesis"
    by (simp add: xp_card_tasklet_eq Let_def)
qed

text \<open>Each of its steps too.\<close>

lemma tasklet_steps_ok:
  assumes "card_ok cd"
  shows "card_ok (fst (tasklet_claim cd))" "card_ok (fst (tasklet_next little (cd, run)))"
proof -
  have "card_ok (uebno_update f cd) = card_ok cd" for f
    by (simp add: card_ok_def)
  then show "card_ok (fst (tasklet_claim cd))"
    using assms by (simp add: tasklet_claim_def Let_def)
  show "card_ok (fst (tasklet_next little (cd, run)))"
    using assms by (cases "(little, (cd, run))" rule: tasklet_next.cases) (auto simp: card_span_ok)
qed

lemma overflow_ok: "card_ok cd \<Longrightarrow> card_ok (xp_overflow cd)"
proof -
  have line: "line_ok (line_overflow n l) = line_ok l" for n l
    by (simp add: line_overflow_def Let_def line_ok_def rx_ok_def rx_consistent_def rx_max_def)
  have "span_ok sp \<Longrightarrow> span_ok (span_overflow sp)" for sp
    by (cases "sp_type sp") (auto simp: span_overflow_def span_ok_def Let_def line)
  then show "card_ok cd \<Longrightarrow> ?thesis"
    by (auto simp: xp_overflow_def card_ok_def split: if_splits)
qed

text \<open>The copy of a block, word by word.\<close>

definition copied :: "bool \<Rightarrow> nat \<Rightarrow> bool" where
  "copied t1 o1 = (o1 < 1024 \<and> o1 div 4 \<in> set (burst_words t1))"

lemma card_rbuf_cong: "(\<And>a. r a = r' a) \<Longrightarrow> cd\<lparr>rbuf := r\<rparr> = cd\<lparr>rbuf := r'\<rparr>"
  by (rule arg_cong[where f = "\<lambda>r. cd\<lparr>rbuf := r\<rparr>"]) (simp add: fun_eq_iff)

lemma burst_word_eq:
  "burst_word rxm b w (xll, cd) = ((\<lambda>o1. if o1 div 4 = w then wbuf cd (b + o1) else xll o1),
     cd\<lparr>rbuf := (\<lambda>a. if b \<le> a \<and> (a - b) div 4 = w then rxm (a - b) else rbuf cd a)\<rparr>)"
proof -
  have d: "o1 div 4 = w \<longleftrightarrow> o1 = 4 * w \<or> o1 = 4 * w + 1 \<or> o1 = 4 * w + 2 \<or> o1 = 4 * w + 3" for o1
    by auto
  let ?r = "(rbuf cd)(b + 4 * w := rxm (4 * w), b + (4 * w + 1) := rxm (4 * w + 1), b + (4 * w + 2) := rxm (4 * w + 2),
    b + (4 * w + 3) := rxm (4 * w + 3))"
  have "burst_word rxm b w (xll, cd) = (xll(4 * w := wbuf cd (b + 4 * w), 4 * w + 1 := wbuf cd (b + (4 * w + 1)),
      4 * w + 2 := wbuf cd (b + (4 * w + 2)), 4 * w + 3 := wbuf cd (b + (4 * w + 3))), cd\<lparr>rbuf := ?r\<rparr>)"
    by (simp add: burst_word_def)
  moreover have "cd\<lparr>rbuf := ?r\<rparr> = cd\<lparr>rbuf := (\<lambda>a. if b \<le> a \<and> (a - b) div 4 = w then rxm (a - b) else rbuf cd a)\<rparr>"
    by (rule card_rbuf_cong) (auto simp: d)
  ultimately show ?thesis
    by (auto simp: d fun_eq_iff)
qed

lemma burst_words_eq:
  "fold (burst_word rxm b) ws (xll, cd) = ((\<lambda>o1. if o1 div 4 \<in> set ws then wbuf cd (b + o1) else xll o1),
     cd\<lparr>rbuf := (\<lambda>a. if b \<le> a \<and> (a - b) div 4 \<in> set ws then rxm (a - b) else rbuf cd a)\<rparr>)"
proof (induction ws arbitrary: xll cd)
  case (Cons w ws)
  show ?case
    by (simp add: burst_word_eq Cons.IH) (intro conjI ext card_rbuf_cong; auto)
qed simp

lemma burst_ok: "card_ok cd \<Longrightarrow> card_ok (snd (snd (xp_txrx_burst t1 rxm (xll, cd))))"
proof -
  have "card_ok (rbuf_update f cd) = card_ok cd" "card_ok (lebno_update g (rbuf_update f cd)) = card_ok cd"
    "card_ok (rbuf_update f (lebno_update g cd)) = card_ok cd" for f g cd
    by (simp_all add: card_ok_def)
  then show "card_ok cd \<Longrightarrow> ?thesis"
    by (simp add: xp_txrx_burst_def Let_def burst_words_eq overflow_ok)
qed

text \<open>The paths of a channel as it is allocated: zeroed.\<close>

definition tx_path_zero :: tx_path where
  "tx_path_zero = \<lparr>t_residue = 0, t_rbits = 0, t_bcc = 0, t_state = 0, t_mode = TX_MODE_IDLE, t_msg = None, t_nxt = None\<rparr>"

definition rx_path_zero :: rx_path where
  "rx_path_zero = \<lparr>r_residue = 0, r_rbits = 0, r_bcc = 0, r_state = 0, r_mode = RX_MODE_IDLE, r_bytes = 0, r_msg = None,
     r_nxt = None, r_octets = 0\<rparr>"

text \<open>C20. Every line of the card stays well-formed.  A line is well-formed when the state machines of its link
  agree with each other and with their timers, when its transmit path has a state of the bit stuffer and at most 31 bits left
  over (so that no bit is shifted out of the 32-bit residue), and when, as long as the link receives frames, its
  receive path has a state of its automaton and what it holds of a frame is consistent: the count, the block check and the
  residue fit the stored octets, at most 16 bits are left over, and between frames nothing is stored.  A newly allocated
  line is well-formed, and a run of the tasklet, which takes every running channel of the card through a block in both
  directions, keeps all lines well-formed, whatever was received, whatever allocations fail and whatever the links above
  do; so does each step of it, between which the interrupt may come, and so does the interrupt, on an overflow
  too.\<close>

theorem tasklet_keeps_lines:
  assumes "card_ok cd"
  shows "card_ok (snd (xp_card_tasklet little cd)) \<and> card_ok (fst (tasklet_claim cd))
    \<and> card_ok (fst (tasklet_next little (cd, run))) \<and> card_ok (snd (snd (xp_txrx_burst t1 rxm (xll, cd))))
    \<and> line_ok (e1_line (xp_init_ch pv po c sc x) tx_path_zero rx_path_zero)"
proof -
  have "line_ok (e1_line (xp_init_ch pv po c sc x) tx_path_zero rx_path_zero)"
    using ok_init[of pv po c sc x]
    by (simp add: line_ok_def e1_line_def tx_path_zero_def tx_ok_def) (simp add: xp_init_ch_def sdt_statem_zero_def)
  then show ?thesis
    using tasklet_ok[OF assms] tasklet_steps_ok[OF assms] burst_ok[OF assms] by blast
qed

text \<open>A card with one span, on whose first time slot a link in service sends a fill-in unit and receives.\<close>

definition demo_line :: line where
  "demo_line = e1_line (sdl_ifflags_update (\<lambda>_. 7) (up_ch 0 [])) (tx_begin \<lparr>mid = 0, octets = [0x80, 0x80, 0]\<rparr>) rx_between"

definition demo_card :: card where
  "demo_card = \<lparr>uebno = 0, lebno = 1, ports = 1, wbuf = (\<lambda>_. 0xff), rbuf = (\<lambda>_. 0x7e),
     cd_spans = [0 \<mapsto> \<lparr>sp_e1 = True, sp_up = True, sp_type = SDL_DS0, sp_chans = [1 \<mapsto> (SDL_DS0, demo_line)]\<rparr>]\<rparr>"

theorem tasklet_keeps_lines_witness:
  "card_ok demo_card \<and> card_ok (snd (xp_card_tasklet True demo_card))"
proof -
  have "ctl_ok (ctl (sdl_ifflags_update (\<lambda>_. 7) (up_ch 0 [])))"
    by (simp add: ctl_frame) (simp add: ctl_ok_def ctl_def demo_defs lsc_up_def armed_def)
  then have "line_ok demo_line"
    by (simp add: line_ok_def demo_line_def e1_line_def tx_begin_def tx_ok_def rx_between_def rx_ok_def)
  then have "card_ok demo_card"
    by (auto simp: card_ok_def demo_card_def span_ok_def split: if_splits)
  then show ?thesis
    using tasklet_keeps_lines by blast
qed

end
