(* ===== verification/HDLC_Elastic.thy ===== *)
theory HDLC_Elastic
  imports HDLC_Card
begin

text \<open>
  The elastic buffers between the tasklet and the interrupt, step by step, as the lock of the card lets them
  interleave: the tasklet writes and reads only the block it works on, and the two block numbers \<open>uebno\<close> and \<open>lebno\<close>
  divide the buffers into two queues, blocks received that wait for the tasklet and blocks written that wait for
  the interrupt.
\<close>

section \<open>The addresses of a block\<close>

definition in_block :: "nat \<Rightarrow> nat \<Rightarrow> bool" where
  "in_block boff a = (boff \<le> a \<and> a < boff + 1024)"

definition same_outside :: "nat \<Rightarrow> memory \<Rightarrow> memory \<Rightarrow> bool" where
  "same_outside boff m m' = (\<forall>a. \<not> in_block boff a \<longrightarrow> m' a = m a)"

lemma same_outside_trans: "same_outside b m m1 \<Longrightarrow> same_outside b m1 m2 \<Longrightarrow> same_outside b m m2"
  by (simp add: same_outside_def)

lemma same_outside_refl [simp]: "same_outside b m m"
  by (simp add: same_outside_def)

lemma block_addrs_bound:
  "a \<in> set (block_addrs slots bp be) \<Longrightarrow> \<exists>k s. s \<in> set slots \<and> bp + 128 * k < be \<and> a = bp + 128 * k + s"
proof (induction slots bp be rule: block_addrs.induct)
  case (1 slots bp be)
  show ?case
  proof (cases "bp < be")
    case True
    then consider s where "s \<in> set slots" "a = bp + s" | "a \<in> set (block_addrs slots (bp + 128) be)"
      using 1(2) by (auto simp: block_addrs.simps[of slots bp be])
    then show ?thesis
    proof cases
      case 1
      then show ?thesis
        using True by (intro exI[of _ 0] exI[of _ s]) simp
    next
      case 2
      then obtain k s where "s \<in> set slots" "bp + 128 + 128 * k < be" "a = bp + 128 + 128 * k + s"
        using 1(1)[OF True] by blast
      then show ?thesis
        by (intro exI[of _ "Suc k"] exI[of _ s]) simp
    qed
  next
    case False
    then show ?thesis
      using 1(2) by (simp add: block_addrs.simps[of slots bp be])
  qed
qed

lemma chan_maps:
  "chan < 32 \<Longrightarrow> xp_e1_chan_map ! chan \<le> 31" "chan < 25 \<Longrightarrow> xp_t1_chan_map ! chan \<le> 31"
  "xp_e1_chan_map ! 0 = 0" "xp_t1_chan_map ! 0 = 0"
proof -
  have "list_all (\<lambda>x. x \<le> 31) xp_e1_chan_map" "length xp_e1_chan_map = 32"
      "list_all (\<lambda>x. x \<le> 31) xp_t1_chan_map" "length xp_t1_chan_map = 25"
    by (simp_all add: xp_e1_chan_map_def xp_t1_chan_map_def)
  then show "chan < 32 \<Longrightarrow> xp_e1_chan_map ! chan \<le> 31" "chan < 25 \<Longrightarrow> xp_t1_chan_map ! chan \<le> 31"
    by (simp_all add: list_all_length)
qed (simp_all add: xp_e1_chan_map_def xp_t1_chan_map_def)

lemma chan_slots_bound: "s \<in> set (chan_slots type) \<Longrightarrow> s \<le> 124 \<and> (type \<in> {SDL_DS0, SDL_DS0A, SDL_OTHER} \<longrightarrow> s = 0)"
  by (cases type) (auto simp: chan_slots_def dest: chan_maps(1,2))

text \<open>A whole span is channel 0, a time slot any other.\<close>

definition whole_first :: "nat \<Rightarrow> sdl_type \<Rightarrow> bool" where
  "whole_first chan type = (chan = 0 \<or> type \<in> {SDL_DS0, SDL_DS0A, SDL_OTHER})"

lemma chan_in_block:
  assumes "a \<in> set (block_addrs (chan_slots type) (boff + soff + coff) (boff + 1024))" "soff < 4"
    and "coff \<le> 124" "coff = 0 \<or> type \<in> {SDL_DS0, SDL_DS0A, SDL_OTHER}"
  shows "in_block boff a"
proof -
  obtain k s where a: "s \<in> set (chan_slots type)" "boff + soff + coff + 128 * k < boff + 1024"
      "a = boff + soff + coff + 128 * k + s"
    using block_addrs_bound[OF assms(1)] by blast
  then have "s \<le> 124" "coff \<noteq> 0 \<Longrightarrow> s = 0"
    using chan_slots_bound[OF a(1)] assms(4) by auto
  moreover have "k \<le> 7"
    using a(2) by linarith
  ultimately have "soff + coff + 128 * k + s < 1024"
    using a(2) assms(2) by (cases "coff = 0") linarith+
  then show ?thesis
    by (simp add: in_block_def a(3))
qed

section \<open>What the tasklet writes\<close>

lemma tx_octets_frame: "a \<notin> set as \<Longrightarrow> fst (tx_octets type as x) a = fst x a"
  by (induction as arbitrary: x) (auto simp: case_prod_beta)

lemma tx_raw_octets_frame: "a \<notin> set as \<Longrightarrow> fst (tx_raw_octets as x) a = fst x a"
  by (induction as arbitrary: x) (auto split: prod.split option.split)

lemma tx_idle_frame: "a \<notin> set as \<Longrightarrow> fold (\<lambda>a m. m(a := v)) as m a = m a"
  by (induction as arbitrary: m) auto

lemma chan_process_frame:
  "a \<notin> set (block_addrs (chan_slots type) wbp wend) \<Longrightarrow> fst (chan_process wbp wend rbp rend rmem type x) a = fst x a"
  by (simp add: chan_process_def xp_tx_block_def xp_tx_idle_def Let_def tx_octets_frame tx_raw_octets_frame tx_idle_frame)

definition span_wf :: "span \<Rightarrow> bool" where
  "span_wf sp = (\<forall>chan type l. sp_chans sp chan = Some (type, l) \<longrightarrow> whole_first chan type)"

lemma span_chan_frame:
  fixes rmem rend rspan boff soff chan x
  assumes "span_wf (snd x)" "soff < 4" "chan < (if sp_e1 (snd x) then 32 else 25)"
  defines "x' \<equiv> span_chan (boff + soff) (boff + 1024) rspan rend rmem chan x"
  shows "same_outside boff (fst x) (fst x') \<and> span_wf (snd x') \<and> sp_e1 (snd x') = sp_e1 (snd x)"
proof (cases "sp_chans (snd x) chan")
  case None
  then show ?thesis
    using assms(1) by (simp add: x'_def span_chan_def)
next
  case (Some p)
  obtain type l where p: "p = (type, l)"
    by fastforce
  define coff where "coff = (if sp_e1 (snd x) then xp_e1_chan_map else xp_t1_chan_map) ! chan * 4"
  have w: "whole_first chan type"
    using assms(1) Some p by (auto simp: span_wf_def)
  have c: "coff \<le> 124" "chan = 0 \<Longrightarrow> coff = 0"
    using assms(3) chan_maps(1,2)[of chan] chan_maps(3,4) by (auto simp: coff_def split: if_splits)
  have ab: "same_outside boff (fst x) (fst (chan_process (boff + soff + coff) (boff + 1024) (rspan + coff) rend rmem type (fst x, l)))"
    unfolding same_outside_def
    using chan_process_frame[of _ type "boff + soff + coff" "boff + 1024"] chan_in_block[of _ type boff soff coff] c w assms(2)
    by (fastforce simp: whole_first_def)
  obtain m' l' where r: "chan_process (boff + soff + coff) (boff + 1024) (rspan + coff) rend rmem type (fst x, l) = (m', l')"
    by fastforce
  then have "x' = (m', (snd x)\<lparr>sp_chans := (sp_chans (snd x))(chan := Some (type, l'))\<rparr>)"
    using Some p by (simp add: x'_def span_chan_def coff_def Let_def)
  then show ?thesis
    using ab r assms(1) w by (auto simp: span_wf_def)
qed

lemma xp_span_process_frame:
  assumes "span_wf sp" "soff < 4"
  shows "same_outside boff m (fst (xp_span_process (boff + soff) (boff + 1024) rspan rend rmem (m, sp)))
    \<and> span_wf (snd (xp_span_process (boff + soff) (boff + 1024) rspan rend rmem (m, sp)))"
proof -
  have "same_outside boff (fst x) (fst (fold (span_chan (boff + soff) (boff + 1024) rspan rend rmem) cs x))
      \<and> span_wf (snd (fold (span_chan (boff + soff) (boff + 1024) rspan rend rmem) cs x))"
    if "span_wf (snd x)" "\<forall>c \<in> set cs. c < (if sp_e1 (snd x) then 32 else 25)" for cs x
    using that
  proof (induction cs arbitrary: x)
    case (Cons c cs)
    let ?x = "span_chan (boff + soff) (boff + 1024) rspan rend rmem c x"
    have s: "same_outside boff (fst x) (fst ?x)" "span_wf (snd ?x)" "sp_e1 (snd ?x) = sp_e1 (snd x)"
      using span_chan_frame[OF Cons.prems(1) assms(2), of c boff rspan rend rmem] Cons.prems(2) by simp_all
    then show ?case
      using Cons.IH[OF s(2)] Cons.prems(2) same_outside_trans[OF s(1)] by simp
  qed simp
  from this[of "(m, sp)"] show ?thesis
    using assms(1) by (simp add: xp_span_process_def)
qed

definition card_wf :: "card \<Rightarrow> bool" where
  "card_wf cd = (uebno cd < X400P_EBUFNO \<and> lebno cd < X400P_EBUFNO \<and> ports cd \<le> 4
     \<and> (\<forall>s sp. cd_spans cd s = Some sp \<longrightarrow> span_wf sp))"

text \<open>The fields of a card that processing a span leaves alone.\<close>

definition card_rest :: "card \<Rightarrow> nat \<times> nat \<times> nat \<times> memory" where
  "card_rest cd = (uebno cd, lebno cd, ports cd, rbuf cd)"

lemma card_span_frame:
  assumes "card_wf cd" "s < 4"
  shows "same_outside boff (wbuf cd) (wbuf (card_span little boff s cd)) \<and> card_wf (card_span little boff s cd)
    \<and> card_rest (card_span little boff s cd) = card_rest cd"
proof (cases "cd_spans cd s")
  case (Some sp)
  have so: "span_to_byte little s < 4"
    using assms(2) by (cases little) (simp_all add: span_to_byte_def)
  have "span_wf sp"
    using assms(1) Some by (auto simp: card_wf_def)
  then show ?thesis
    using xp_span_process_frame[OF _ so, of sp boff "wbuf cd" "boff + span_to_byte little s" "boff + 1024" "rbuf cd"] Some assms(1)
    by (auto simp: card_span_def Let_def card_wf_def card_rest_def split: prod.split)
qed (simp add: card_span_def assms(1))

lemma card_spans_frame:
  assumes "card_wf cd" "\<forall>s \<in> set ss. s < 4"
  shows "same_outside boff (wbuf cd) (wbuf (fold (card_span little boff) ss cd)) \<and> card_wf (fold (card_span little boff) ss cd)
    \<and> card_rest (fold (card_span little boff) ss cd) = card_rest cd"
  using assms
proof (induction ss arbitrary: cd)
  case (Cons s ss)
  let ?cd = "card_span little boff s cd"
  have s: "same_outside boff (wbuf cd) (wbuf ?cd)" "card_wf ?cd" "card_rest ?cd = card_rest cd"
    using card_span_frame[OF Cons.prems(1), of s boff little] Cons.prems(2) by simp_all
  then show ?case
    using Cons.IH[OF s(2)] Cons.prems(2) same_outside_trans[OF s(1)] by simp
qed simp

section \<open>The two queues\<close>

definition blk :: "memory \<Rightarrow> nat \<Rightarrow> u8 list" where
  "blk m k = map m [k * 1024..<k * 1024 + 1024]"

definition ring :: "nat \<Rightarrow> nat \<Rightarrow> nat list" where
  "ring k n = map (\<lambda>i. (k + i) mod X400P_EBUFNO) [0..<n]"

text \<open>Blocks received that the tasklet has not worked on, the oldest first, and blocks written that the
  interrupt has not sent.\<close>

definition rx_queue :: "card \<Rightarrow> u8 list list" where
  "rx_queue cd = map (blk (rbuf cd)) (ring (uebno cd) ((lebno cd + X400P_EBUFNO - uebno cd) mod X400P_EBUFNO + 1))"

definition tx_queue :: "card \<Rightarrow> u8 list list" where
  "tx_queue cd = map (blk (wbuf cd)) (ring (lebno cd + 1) ((uebno cd + X400P_EBUFNO - 1 - lebno cd) mod X400P_EBUFNO))"

lemma ring_mod: "ring (k mod X400P_EBUFNO) n = ring k n"
  by (simp add: ring_def mod_add_left_eq)

lemma ring_Suc: "ring k (Suc n) = k mod X400P_EBUFNO # ring (Suc k) n"
  by (simp add: ring_def upt_conv_Cons map_Suc_upt[symmetric] del: upt_Suc)

lemma ring_snoc: "ring k (Suc n) = ring k n @ [(k + n) mod X400P_EBUFNO]"
  by (simp add: ring_def)

lemma length_ring [simp]: "length (ring k n) = n"
  by (simp add: ring_def)

lemma ring_neq: "i < j \<Longrightarrow> j < i + X400P_EBUFNO \<Longrightarrow> (k + j) mod X400P_EBUFNO \<noteq> (k + i) mod X400P_EBUFNO"
  using mod_eq_dvd_iff_nat[of "k + i" "k + j" X400P_EBUFNO] by (auto dest: dvd_imp_le)

lemma ring_fresh: "n < X400P_EBUFNO \<Longrightarrow> (k + n) mod X400P_EBUFNO \<notin> set (ring k n)"
proof
  assume n: "n < X400P_EBUFNO" and "(k + n) mod X400P_EBUFNO \<in> set (ring k n)"
  then obtain i where "i < n" "(k + n) mod X400P_EBUFNO = (k + i) mod X400P_EBUFNO"
    by (auto simp: ring_def)
  then show False
    using n ring_neq[of i n k] by auto
qed

lemma blk_outside: "same_outside (k * 1024) m m' \<Longrightarrow> j \<noteq> k \<Longrightarrow> blk m' j = blk m j"
proof -
  assume s: "same_outside (k * 1024) m m'" and "j \<noteq> k"
  then have "\<not> in_block (k * 1024) a" if "a \<in> {j * 1024..<j * 1024 + 1024}" for a
    using that unfolding in_block_def by (cases "j < k") auto
  then show ?thesis
    using s by (simp add: blk_def same_outside_def)
qed

lemma blk_map: "same_outside (k * 1024) m m' \<Longrightarrow> k \<notin> set ks \<Longrightarrow> map (blk m') ks = map (blk m) ks"
  using blk_outside by (metis (mono_tags, lifting) map_eq_conv)

text \<open>How many blocks wait on either side, and how the tasklet and the interrupt change the numbers.\<close>

lemma queue_lengths:
  "length (rx_queue cd) = (lebno cd + X400P_EBUFNO - uebno cd) mod X400P_EBUFNO + 1"
  "length (tx_queue cd) = (uebno cd + X400P_EBUFNO - 1 - lebno cd) mod X400P_EBUFNO"
  by (simp_all add: rx_queue_def tx_queue_def)

lemma ebuf_counts:
  assumes "u < X400P_EBUFNO" "l < X400P_EBUFNO"
  shows "(l + X400P_EBUFNO - u) mod X400P_EBUFNO + 1 + (u + X400P_EBUFNO - 1 - l) mod X400P_EBUFNO = X400P_EBUFNO"
    and "(u + X400P_EBUFNO - 1 - l) mod X400P_EBUFNO = 0 \<longleftrightarrow> (l + 1) mod X400P_EBUFNO = u"
    and "(l + X400P_EBUFNO - u) mod X400P_EBUFNO = 0 \<longleftrightarrow> u = l"
    and "(l + 1) mod X400P_EBUFNO \<noteq> u \<Longrightarrow>
      ((l + 1) mod X400P_EBUFNO + X400P_EBUFNO - u) mod X400P_EBUFNO = Suc ((l + X400P_EBUFNO - u) mod X400P_EBUFNO)
      \<and> Suc ((u + X400P_EBUFNO - 1 - (l + 1) mod X400P_EBUFNO) mod X400P_EBUFNO) = (u + X400P_EBUFNO - 1 - l) mod X400P_EBUFNO"
    and "u \<noteq> l \<Longrightarrow>
      Suc ((l + X400P_EBUFNO - (u + 1) mod X400P_EBUFNO) mod X400P_EBUFNO) = (l + X400P_EBUFNO - u) mod X400P_EBUFNO
      \<and> ((u + 1) mod X400P_EBUFNO + X400P_EBUFNO - 1 - l) mod X400P_EBUFNO = Suc ((u + X400P_EBUFNO - 1 - l) mod X400P_EBUFNO)"
proof -
  have m: "x mod 128 = (if x < 128 then x else x - 128)" if "x < 256" for x :: nat
    using that by (auto simp: mod_if)
  have b: "u < 128" "l < 128"
    using assms by (simp_all add: X400P_EBUFNO_def)
  show "(l + X400P_EBUFNO - u) mod X400P_EBUFNO + 1 + (u + X400P_EBUFNO - 1 - l) mod X400P_EBUFNO = X400P_EBUFNO"
      "(u + X400P_EBUFNO - 1 - l) mod X400P_EBUFNO = 0 \<longleftrightarrow> (l + 1) mod X400P_EBUFNO = u"
      "(l + X400P_EBUFNO - u) mod X400P_EBUFNO = 0 \<longleftrightarrow> u = l"
    using b by (auto simp: X400P_EBUFNO_def m split: if_splits)
  show "(l + 1) mod X400P_EBUFNO \<noteq> u \<Longrightarrow>
      ((l + 1) mod X400P_EBUFNO + X400P_EBUFNO - u) mod X400P_EBUFNO = Suc ((l + X400P_EBUFNO - u) mod X400P_EBUFNO)
      \<and> Suc ((u + X400P_EBUFNO - 1 - (l + 1) mod X400P_EBUFNO) mod X400P_EBUFNO) = (u + X400P_EBUFNO - 1 - l) mod X400P_EBUFNO"
    using b by (cases "l = 127") (auto simp: X400P_EBUFNO_def m split: if_splits)
  show "u \<noteq> l \<Longrightarrow>
      Suc ((l + X400P_EBUFNO - (u + 1) mod X400P_EBUFNO) mod X400P_EBUFNO) = (l + X400P_EBUFNO - u) mod X400P_EBUFNO
      \<and> ((u + 1) mod X400P_EBUFNO + X400P_EBUFNO - 1 - l) mod X400P_EBUFNO = Suc ((u + X400P_EBUFNO - 1 - l) mod X400P_EBUFNO)"
    using b by (cases "u = 127") (auto simp: X400P_EBUFNO_def m split: if_splits)
qed

lemma ebuf_ends:
  assumes "u < X400P_EBUFNO" "l < X400P_EBUFNO"
  shows "(u + Suc ((l + X400P_EBUFNO - u) mod X400P_EBUFNO)) mod X400P_EBUFNO = (l + 1) mod X400P_EBUFNO"
    and "(l + 1 + (u + X400P_EBUFNO - 1 - l) mod X400P_EBUFNO) mod X400P_EBUFNO = u"
proof -
  have "(u + Suc ((l + X400P_EBUFNO - u) mod X400P_EBUFNO)) mod X400P_EBUFNO = (u + 1 + (l + X400P_EBUFNO - u)) mod X400P_EBUFNO"
    using mod_add_right_eq[of "u + 1" "l + X400P_EBUFNO - u" X400P_EBUFNO] by simp
  also have "u + 1 + (l + X400P_EBUFNO - u) = l + 1 + X400P_EBUFNO"
    using assms(1) by simp
  also have "(l + 1 + X400P_EBUFNO) mod X400P_EBUFNO = (l + 1) mod X400P_EBUFNO"
    by (rule mod_add_self2)
  finally show "(u + Suc ((l + X400P_EBUFNO - u) mod X400P_EBUFNO)) mod X400P_EBUFNO = (l + 1) mod X400P_EBUFNO" .
  have "(l + 1 + (u + X400P_EBUFNO - 1 - l) mod X400P_EBUFNO) mod X400P_EBUFNO = (l + 1 + (u + X400P_EBUFNO - 1 - l)) mod X400P_EBUFNO"
    by (rule mod_add_right_eq)
  also have "l + 1 + (u + X400P_EBUFNO - 1 - l) = u + X400P_EBUFNO"
    using assms(2) by simp
  finally show "(l + 1 + (u + X400P_EBUFNO - 1 - l) mod X400P_EBUFNO) mod X400P_EBUFNO = u"
    using assms(1) by simp
qed

lemma burst_eq:
  fixes cd t1 rxm xll
  defines "n \<equiv> (lebno cd + 1) mod X400P_EBUFNO"
  assumes "n \<noteq> uebno cd"
  shows "xp_txrx_burst t1 rxm (xll, cd) = (True, (\<lambda>o1. if copied t1 o1 then wbuf cd (n * 1024 + o1) else xll o1),
     cd\<lparr>lebno := n, rbuf := (\<lambda>a. if in_block (n * 1024) a \<and> copied t1 (a - n * 1024) then rxm (a - n * 1024) else rbuf cd a)\<rparr>)"
proof -
  have words: "w \<in> set (burst_words t1) \<Longrightarrow> w < 256" for w
    by (simp add: burst_words_def)
  have cp: "o1 div 4 \<in> set (burst_words t1) \<longleftrightarrow> copied t1 o1" for o1
    using words[of "o1 div 4"] by (auto simp: copied_def)
  have "xp_txrx_burst t1 rxm (xll, cd) = (True, fold (burst_word rxm (n * 1024)) (burst_words t1) (xll, cd\<lparr>lebno := n\<rparr>))"
    using assms(2) by (simp add: xp_txrx_burst_def Let_def n_def)
  also have "\<dots> = (True, (\<lambda>o1. if copied t1 o1 then wbuf cd (n * 1024 + o1) else xll o1),
     cd\<lparr>lebno := n, rbuf := (\<lambda>a. if in_block (n * 1024) a \<and> copied t1 (a - n * 1024) then rxm (a - n * 1024) else rbuf cd a)\<rparr>)"
    unfolding burst_words_eq cp by (auto intro!: card_rbuf_cong simp: in_block_def copied_def)
  finally show ?thesis .
qed

lemma burst_queues:
  fixes cd t1 rxm xll
  assumes "card_wf cd" "(lebno cd + 1) mod X400P_EBUFNO \<noteq> uebno cd"
  defines "n \<equiv> (lebno cd + 1) mod X400P_EBUFNO" and "x \<equiv> snd (xp_txrx_burst t1 rxm (xll, cd))"
  shows "rx_queue (snd x) = rx_queue cd @ [blk (rbuf (snd x)) n]" and "tx_queue cd = blk (wbuf cd) n # tx_queue (snd x)"
    and "rbuf (snd x) = (\<lambda>a. if in_block (n * 1024) a \<and> copied t1 (a - n * 1024) then rxm (a - n * 1024) else rbuf cd a)"
    and "fst x = (\<lambda>o1. if copied t1 o1 then wbuf cd (n * 1024 + o1) else xll o1)"
    and "wbuf (snd x) = wbuf cd" "card_wf (snd x)"
proof -
  have ul: "uebno cd < X400P_EBUFNO" "lebno cd < X400P_EBUFNO"
    using assms(1) by (simp_all add: card_wf_def)
  note x = burst_eq[OF assms(2), of t1 rxm xll, folded n_def]
  show r: "rbuf (snd x) = (\<lambda>a. if in_block (n * 1024) a \<and> copied t1 (a - n * 1024) then rxm (a - n * 1024) else rbuf cd a)"
    by (simp add: x_def x)
  show "fst x = (\<lambda>o1. if copied t1 o1 then wbuf cd (n * 1024 + o1) else xll o1)" "wbuf (snd x) = wbuf cd" "card_wf (snd x)"
    using assms(1) by (simp_all add: x_def x card_wf_def) (simp_all add: n_def X400P_EBUFNO_def)
  define c where "c = Suc ((lebno cd + X400P_EBUFNO - uebno cd) mod X400P_EBUFNO)"
  note cnt = ebuf_counts(4)[OF ul assms(2), folded n_def]
  have c: "c < X400P_EBUFNO"
    using ebuf_counts(1)[OF ul] ebuf_counts(2)[OF ul] assms(2) by (simp add: c_def)
  have n: "(uebno cd + c) mod X400P_EBUFNO = n"
    using ebuf_ends(1)[OF ul] by (simp add: c_def n_def)
  have out: "same_outside (n * 1024) (rbuf cd) (rbuf (snd x))"
    by (simp add: r same_outside_def)
  have "rx_queue (snd x) = map (blk (rbuf (snd x))) (ring (uebno cd) (Suc c))"
    using cnt by (simp add: rx_queue_def x_def x c_def)
  also have "\<dots> = map (blk (rbuf cd)) (ring (uebno cd) c) @ [blk (rbuf (snd x)) n]"
    using blk_map[OF out] ring_fresh[OF c, of "uebno cd"] by (simp add: ring_snoc n)
  finally show "rx_queue (snd x) = rx_queue cd @ [blk (rbuf (snd x)) n]"
    by (simp add: rx_queue_def c_def)
  have "ring (lebno cd + 1) ((uebno cd + X400P_EBUFNO - 1 - lebno cd) mod X400P_EBUFNO)
      = n # ring (n + 1) ((uebno cd + X400P_EBUFNO - 1 - n) mod X400P_EBUFNO)"
    using cnt ring_Suc[of "lebno cd + 1"] ring_mod[of "lebno cd + 2"] ring_mod[of "n + 1"]
    by (simp add: n_def mod_Suc_eq) (metis Suc_eq_plus1 mod_Suc_eq ring_mod)
  then show "tx_queue cd = blk (wbuf cd) n # tx_queue (snd x)"
    by (simp add: tx_queue_def x_def x)
qed

section \<open>The steps of the tasklet\<close>

text \<open>A span reads only the block it works on.\<close>

definition same_inside :: "nat \<Rightarrow> memory \<Rightarrow> memory \<Rightarrow> bool" where
  "same_inside boff m m' = (\<forall>a. in_block boff a \<longrightarrow> m' a = m a)"

lemma chan_process_reads:
  assumes "\<forall>a \<in> set (block_addrs (chan_slots type) rbp rend). m' a = m a"
  shows "chan_process wbp wend rbp rend m' type x = chan_process wbp wend rbp rend m type x"
proof -
  have "map m' (block_addrs (chan_slots type) rbp rend) = map m (block_addrs (chan_slots type) rbp rend)"
    using assms by simp
  then have "xp_rx_block rbp rend type m' l = xp_rx_block rbp rend type m l" for l
    by (simp only: xp_rx_block_def)
  then show ?thesis
    by (simp only: chan_process_def)
qed

lemma span_chan_reads:
  assumes "span_wf (snd x)" "soff < 4" "chan < (if sp_e1 (snd x) then 32 else 25)" "same_inside boff m m'"
  shows "span_chan wspan wend (boff + soff) (boff + 1024) m' chan x = span_chan wspan wend (boff + soff) (boff + 1024) m chan x"
proof (cases "sp_chans (snd x) chan")
  case None
  then show ?thesis
    by (simp add: span_chan_def)
next
  case (Some p)
  obtain type l where p: "p = (type, l)"
    by fastforce
  define coff where "coff = (if sp_e1 (snd x) then xp_e1_chan_map else xp_t1_chan_map) ! chan * 4"
  have w: "whole_first chan type"
    using assms(1) Some p by (auto simp: span_wf_def)
  have c: "coff \<le> 124" "chan = 0 \<Longrightarrow> coff = 0"
    using assms(3) chan_maps(1,2)[of chan] chan_maps(3,4) by (auto simp: coff_def split: if_splits)
  have "\<forall>a \<in> set (block_addrs (chan_slots type) (boff + soff + coff) (boff + 1024)). m' a = m a"
    using chan_in_block[of _ type boff soff coff] c w assms(2,4) by (fastforce simp: whole_first_def same_inside_def)
  from chan_process_reads[OF this] show ?thesis
    using Some p by (simp add: span_chan_def coff_def Let_def)
qed

lemma xp_span_process_reads:
  assumes "span_wf sp" "soff < 4" "same_inside boff m m'"
  shows "xp_span_process (boff + soff) (boff + 1024) (boff + soff) (boff + 1024) m' (w, sp)
    = xp_span_process (boff + soff) (boff + 1024) (boff + soff) (boff + 1024) m (w, sp)"
proof -
  let ?f = "\<lambda>m. span_chan (boff + soff) (boff + 1024) (boff + soff) (boff + 1024) m"
  have "fold (?f m') cs x = fold (?f m) cs x"
    if "span_wf (snd x)" "\<forall>c \<in> set cs. c < (if sp_e1 (snd x) then 32 else 25)" for cs x
    using that
  proof (induction cs arbitrary: x)
    case (Cons c cs)
    have s: "span_wf (snd (?f m c x))" "sp_e1 (snd (?f m c x)) = sp_e1 (snd x)"
      using span_chan_frame[OF Cons.prems(1) assms(2), of c boff "boff + soff" "boff + 1024" m] Cons.prems(2) by simp_all
    have "?f m' c x = ?f m c x"
      using span_chan_reads[OF Cons.prems(1) assms(2) _ assms(3), of c] Cons.prems(2) by simp
    then show ?case
      using Cons.IH[OF s(1)] Cons.prems(2) s(2) by simp
  qed simp
  from this[of "(w, sp)"] show ?thesis
    using assms(1) by (simp add: xp_span_process_def)
qed

lemma card_span_moves:
  assumes "card_wf cd" "s < 4" "same_inside boff (rbuf cd) r"
  shows "card_span little boff s (cd\<lparr>lebno := n, rbuf := r\<rparr>) = (card_span little boff s cd)\<lparr>lebno := n, rbuf := r\<rparr>"
proof (cases "cd_spans cd s")
  case (Some sp)
  have so: "span_to_byte little s < 4"
    using assms(2) by (cases little) (simp_all add: span_to_byte_def)
  have "span_wf sp"
    using assms(1) Some by (auto simp: card_wf_def)
  then show ?thesis
    using xp_span_process_reads[OF _ so assms(3)] Some by (simp add: card_span_def Let_def split: prod.split)
qed (simp add: card_span_def)

text \<open>So an interrupt that comes while the tasklet works on another block than the one transferred makes no difference:
  it may come before the span or after it.\<close>

lemma burst_commutes:
  fixes cd
  defines "n \<equiv> (lebno cd + 1) mod X400P_EBUFNO"
  assumes "card_wf cd" "s < 4" "n \<noteq> uebno cd" "n \<noteq> u"
    and "xp_txrx_burst t1 rxm (xll, cd) = (ok, xll', cd')"
  shows "xp_txrx_burst t1 rxm (xll, card_span little (u * 1024) s cd) = (ok, xll', card_span little (u * 1024) s cd')"
proof -
  let ?c = "card_span little (u * 1024) s cd"
  let ?r = "\<lambda>a. if in_block (n * 1024) a \<and> copied t1 (a - n * 1024) then rxm (a - n * 1024) else rbuf cd a"
  have f: "same_outside (u * 1024) (wbuf cd) (wbuf ?c)" "uebno ?c = uebno cd" "lebno ?c = lebno cd" "rbuf ?c = rbuf cd"
    using card_span_frame[OF assms(2,3), of "u * 1024" little] by (simp_all add: card_rest_def)
  have disj: "\<not> in_block (u * 1024) a" if "in_block (n * 1024) a" for a
    using that assms(5) unfolding in_block_def by (cases "u < n") auto
  have "wbuf ?c (n * 1024 + o1) = wbuf cd (n * 1024 + o1)" if "copied t1 o1" for o1
    using that f(1) disj[of "n * 1024 + o1"] by (simp add: same_outside_def copied_def in_block_def)
  then have sent: "(\<lambda>o1. if copied t1 o1 then wbuf ?c (n * 1024 + o1) else xll o1) =
      (\<lambda>o1. if copied t1 o1 then wbuf cd (n * 1024 + o1) else xll o1)"
    by auto
  have b: "ok = True" "xll' = (\<lambda>o1. if copied t1 o1 then wbuf cd (n * 1024 + o1) else xll o1)"
      "cd' = cd\<lparr>lebno := n, rbuf := ?r\<rparr>"
    using burst_eq[of cd t1 rxm xll, folded n_def, OF assms(4)] unfolding assms(6) by simp_all
  have "same_inside (u * 1024) (rbuf cd) ?r"
    using disj by (auto simp: same_inside_def)
  then have "card_span little (u * 1024) s cd' = ?c\<lparr>lebno := n, rbuf := ?r\<rparr>"
    unfolding b by (rule card_span_moves[OF assms(2,3)])
  moreover have "xp_txrx_burst t1 rxm (xll, ?c) = (ok, xll', ?c\<lparr>lebno := n, rbuf := ?r\<rparr>)"
    using burst_eq[of ?c t1 rxm xll, unfolded f(2-4), folded n_def, OF assms(4)] unfolding sent b .
  ultimately show ?thesis
    by simp
qed

text \<open>A card and the tasklet between two steps.  The block in work still counts as received.\<close>

definition elastic_wf :: "card \<times> tasklet_run \<Rightarrow> bool" where
  "elastic_wf x = (card_wf (fst x) \<and>
     (case snd x of
        None \<Rightarrow> True
      | Some (u, spans, again) \<Rightarrow> u < X400P_EBUFNO \<and> uebno (fst x) = (u + 1) mod X400P_EBUFNO \<and> u \<noteq> lebno (fst x)
          \<and> list_all (\<lambda>s. s < 4) spans))"

definition as_waiting :: "card \<times> tasklet_run \<Rightarrow> card" where
  "as_waiting x = (case snd x of None \<Rightarrow> fst x | Some (u, _) \<Rightarrow> (fst x)\<lparr>uebno := u\<rparr>)"

definition received :: "card \<times> tasklet_run \<Rightarrow> u8 list list" where
  "received x = rx_queue (as_waiting x)"

definition written :: "card \<times> tasklet_run \<Rightarrow> u8 list list" where
  "written x = tx_queue (as_waiting x)"

lemma as_waiting_wf: "elastic_wf x \<Longrightarrow> card_wf (as_waiting x)"
  by (auto simp: elastic_wf_def as_waiting_def card_wf_def split: option.splits)

lemma as_waiting_fields:
  "lebno (as_waiting x) = lebno (fst x)" "wbuf (as_waiting x) = wbuf (fst x)" "rbuf (as_waiting x) = rbuf (fst x)"
  by (simp_all add: as_waiting_def split: option.split)

lemma next_not_uebno:
  assumes "elastic_wf x" "(lebno (fst x) + 1) mod X400P_EBUFNO \<noteq> uebno (as_waiting x)"
  shows "(lebno (fst x) + 1) mod X400P_EBUFNO \<noteq> uebno (fst x)"
proof (cases "snd x")
  case (Some p)
  obtain u spans again where p: "p = (u, spans, again)"
    by (cases p)
  have "u < 128" "lebno (fst x) < 128" "u \<noteq> lebno (fst x)" "uebno (fst x) = (u + 1) mod 128"
    using assms(1) Some p by (simp_all add: elastic_wf_def card_wf_def X400P_EBUFNO_def)
  then show ?thesis
    by (simp add: X400P_EBUFNO_def mod_if split: if_splits)
qed (use assms(2) in \<open>simp add: as_waiting_def\<close>)

lemma burst_step:
  fixes x t1 rxm xll
  defines "n \<equiv> (lebno (fst x) + 1) mod X400P_EBUFNO" and "burst \<equiv> xp_txrx_burst t1 rxm (xll, fst x)"
  assumes "elastic_wf x" "n \<noteq> uebno (as_waiting x)"
  shows "fst burst" "written x = blk (wbuf (fst x)) n # written (snd (snd burst), snd x)"
    "fst (snd burst) = (\<lambda>o1. if copied t1 o1 then blk (wbuf (fst x)) n ! o1 else xll o1)"
    "received (snd (snd burst), snd x) =
       received x @ [map (\<lambda>o1. if copied t1 o1 then rxm o1 else rbuf (fst x) (n * 1024 + o1)) [0..<1024]]"
    "elastic_wf (snd (snd burst), snd x)"
proof -
  let ?r = "\<lambda>a. if in_block (n * 1024) a \<and> copied t1 (a - n * 1024) then rxm (a - n * 1024) else rbuf (fst x) a"
  have n: "n \<noteq> uebno (fst x)"
    using next_not_uebno[OF assms(3)] assms(4) by (simp add: n_def)
  note b = burst_eq[of "fst x" t1 rxm xll, folded n_def, OF n, folded burst_def]
  note b' = burst_eq[of "as_waiting x" t1 rxm xll, unfolded as_waiting_fields, folded n_def, OF assms(4)]
  have aw: "as_waiting (snd (snd burst), snd x) = snd (snd (xp_txrx_burst t1 rxm (xll, as_waiting x)))"
    unfolding b b' by (simp add: as_waiting_def split: option.split)
  have n': "(lebno (as_waiting x) + 1) mod X400P_EBUFNO \<noteq> uebno (as_waiting x)"
    using assms(4) by (simp add: as_waiting_fields n_def)
  note q = burst_queues[OF as_waiting_wf[OF assms(3)] n', of t1 rxm xll, unfolded as_waiting_fields, folded n_def]
  have blkn: "blk m k ! o1 = m (k * 1024 + o1)" if "o1 < 1024" for m k o1
    using that by (simp add: blk_def)
  show "fst burst"
    by (simp add: b)
  show "fst (snd burst) = (\<lambda>o1. if copied t1 o1 then blk (wbuf (fst x)) n ! o1 else xll o1)"
    by (auto simp: b fun_eq_iff blkn copied_def)
  show "written x = blk (wbuf (fst x)) n # written (snd (snd burst), snd x)"
    unfolding written_def aw by (rule q(2))
  have "blk ?r n = map (\<lambda>o1. if copied t1 o1 then rxm o1 else rbuf (fst x) (n * 1024 + o1)) [0..<1024]"
    by (rule nth_equalityI) (auto simp: blk_def in_block_def)
  then show "received (snd (snd burst), snd x) =
       received x @ [map (\<lambda>o1. if copied t1 o1 then rxm o1 else rbuf (fst x) (n * 1024 + o1)) [0..<1024]]"
    unfolding received_def aw q(1) by (simp add: b' as_waiting_fields)
  have "lebno (fst x) < X400P_EBUFNO"
    using assms(3) by (simp add: elastic_wf_def card_wf_def)
  then show "elastic_wf (snd (snd burst), snd x)"
    using assms(3,4) by (auto simp: elastic_wf_def card_wf_def as_waiting_def b n_def X400P_EBUFNO_def split: option.splits)
qed

lemma written_empty:
  "elastic_wf x \<Longrightarrow> written x = [] \<longleftrightarrow> (lebno (fst x) + 1) mod X400P_EBUFNO = uebno (as_waiting x)"
  using ebuf_counts(2)[of "uebno (as_waiting x)" "lebno (fst x)"] as_waiting_wf[of x]
  by (simp add: written_def queue_lengths as_waiting_fields card_wf_def flip: length_0_conv)

lemma claim_step:
  fixes cd
  defines "x \<equiv> (cd, None)" and "y \<equiv> tasklet_claim cd"
  assumes "elastic_wf x"
  shows "uebno cd \<noteq> lebno cd \<Longrightarrow> received y = received x \<and> written y = written x \<and> elastic_wf y \<and>
      hd (received x) = blk (rbuf cd) (uebno cd) \<and>
      snd y = Some (uebno cd, [0..<ports cd], 2 < length (received x))"
    and "uebno cd = lebno cd \<Longrightarrow> y = x"
    and "uebno cd = lebno cd \<longleftrightarrow> length (received x) = 1"
proof -
  have ul: "uebno cd < X400P_EBUFNO" "lebno cd < X400P_EBUFNO" "ports cd \<le> 4"
    using assms(3) by (simp_all add: elastic_wf_def card_wf_def x_def)
  show "uebno cd = lebno cd \<longleftrightarrow> length (received x) = 1"
    using ebuf_counts(3)[OF ul(1,2)] by (simp add: received_def as_waiting_def x_def queue_lengths)
  show "uebno cd = lebno cd \<Longrightarrow> y = x"
    by (simp add: y_def x_def tasklet_claim_def)
  assume ne: "uebno cd \<noteq> lebno cd"
  define n where "n = (uebno cd + 1) mod X400P_EBUFNO"
  have n: "n < X400P_EBUFNO"
    by (simp add: n_def X400P_EBUFNO_def)
  have y: "y = (cd\<lparr>uebno := n\<rparr>, Some (uebno cd, [0..<ports cd], n \<noteq> lebno cd))"
    using ne by (simp add: y_def tasklet_claim_def n_def Let_def)
  have aw: "as_waiting y = cd" "as_waiting x = cd"
    by (simp_all add: y x_def as_waiting_def)
  have "hd (received x) = blk (rbuf cd) (uebno cd)"
    using ring_Suc[of "uebno cd"] ul(1) by (simp add: received_def aw rx_queue_def)
  moreover have "n \<noteq> lebno cd \<longleftrightarrow> 2 < length (received x)"
  proof -
    have "length (received x) = (lebno cd + X400P_EBUFNO - uebno cd) mod X400P_EBUFNO + 1"
      by (simp add: received_def aw queue_lengths)
    also have "\<dots> = (lebno cd + X400P_EBUFNO - n) mod X400P_EBUFNO + 2"
      using ebuf_counts(5)[OF ul(1,2) ne, folded n_def] by linarith
    finally show ?thesis
      using ebuf_counts(3)[OF n ul(2)] by linarith
  qed
  moreover have "elastic_wf y"
    using assms(3) ne ul n by (auto simp: y x_def elastic_wf_def card_wf_def list_all_iff n_def)
  ultimately show "received y = received x \<and> written y = written x \<and> elastic_wf y \<and>
      hd (received x) = blk (rbuf cd) (uebno cd) \<and> snd y = Some (uebno cd, [0..<ports cd], 2 < length (received x))"
    by (simp add: received_def written_def aw) (simp add: y)
qed

lemma span_step:
  fixes cd little u s ss again
  defines "x \<equiv> (cd, Some (u, s # ss, again))" and "y \<equiv> tasklet_next little (cd, Some (u, s # ss, again))"
  assumes "elastic_wf x"
  shows "received y = received x" "written y = written x" "elastic_wf y" "rbuf (fst y) = rbuf cd"
    "same_outside (u * 1024) (wbuf cd) (wbuf (fst y))" "snd y = Some (u, ss, again)"
proof -
  have wf: "card_wf cd" "s < 4" "u < X400P_EBUFNO" "lebno cd < X400P_EBUFNO"
    using assms(3) by (simp_all add: elastic_wf_def x_def card_wf_def)
  let ?c = "card_span little (u * 1024) s cd"
  note f = card_span_frame[OF wf(1,2), of "u * 1024" little, unfolded card_rest_def]
  have y: "y = (?c, Some (u, ss, again))"
    by (simp add: y_def)
  show "rbuf (fst y) = rbuf cd" "same_outside (u * 1024) (wbuf cd) (wbuf (fst y))" "snd y = Some (u, ss, again)"
    using f by (simp_all add: y)
  show "elastic_wf y"
    using assms(3) f by (simp add: y x_def elastic_wf_def)
  show "received y = received x"
    using f by (simp add: received_def as_waiting_def y x_def rx_queue_def)
  define c where "c = (u + X400P_EBUFNO - 1 - lebno cd) mod X400P_EBUFNO"
  have c: "c < X400P_EBUFNO" "(lebno cd + 1 + c) mod X400P_EBUFNO = u"
    using ebuf_ends(2)[OF wf(3,4)] by (simp_all add: c_def X400P_EBUFNO_def)
  have "u \<notin> set (ring (lebno cd + 1) c)"
    using ring_fresh[OF c(1), of "lebno cd + 1"] c(2) by simp
  with f have "map (blk (wbuf ?c)) (ring (lebno cd + 1) c) = map (blk (wbuf cd)) (ring (lebno cd + 1) c)"
    by (intro blk_map) simp_all
  then show "written y = written x"
    unfolding c_def using f by (simp add: written_def as_waiting_def y x_def tx_queue_def del: map_eq_conv)
qed

lemma finish_step:
  fixes cd u again
  defines "x \<equiv> (cd, Some (u, [], again))"
  assumes "elastic_wf x"
  shows "received x = blk (rbuf cd) u # received (cd, None)" "written (cd, None) = written x @ [blk (wbuf cd) u]"
    "elastic_wf (cd, None)"
proof -
  have wf: "card_wf cd" "u < X400P_EBUFNO" "lebno cd < X400P_EBUFNO" "u \<noteq> lebno cd" "uebno cd = (u + 1) mod X400P_EBUFNO"
    using assms(2) by (simp_all add: elastic_wf_def x_def card_wf_def)
  note cnt = ebuf_counts(5)[OF wf(2-4), folded wf(5)]
  have "ring u ((lebno cd + X400P_EBUFNO - u) mod X400P_EBUFNO + 1)
      = u # ring (uebno cd) ((lebno cd + X400P_EBUFNO - uebno cd) mod X400P_EBUFNO + 1)"
    using cnt ring_Suc[of u] ring_mod[of "u + 1"] wf(2) by (simp add: wf(5))
  then show "received x = blk (rbuf cd) u # received (cd, None)"
    by (simp add: received_def as_waiting_def x_def rx_queue_def)
  define c where "c = (u + X400P_EBUFNO - 1 - lebno cd) mod X400P_EBUFNO"
  have c: "(lebno cd + 1 + c) mod X400P_EBUFNO = u"
    using ebuf_ends(2)[OF wf(2,3)] by (simp add: c_def)
  then show "written (cd, None) = written x @ [blk (wbuf cd) u]"
    using cnt ring_snoc[of "lebno cd + 1" c] by (simp add: written_def as_waiting_def x_def tx_queue_def c_def)
  show "elastic_wf (cd, None)"
    using wf(1) by (simp add: elastic_wf_def)
qed

lemma overflow_wf: "card_wf cd \<Longrightarrow> card_wf (xp_overflow cd)"
proof -
  have "span_wf sp \<Longrightarrow> span_wf (span_overflow sp)" for sp
    by (cases "sp_type sp") (auto simp: span_overflow_def span_wf_def Let_def split: if_splits)
  then show "card_wf cd \<Longrightarrow> ?thesis"
    by (auto simp: card_wf_def xp_overflow_def split: if_splits)
qed

lemma overflow_step:
  assumes "elastic_wf (cd, None)"
  shows "received (xp_overflow cd, None) = received (cd, None)" "written (xp_overflow cd, None) = written (cd, None)"
    "elastic_wf (xp_overflow cd, None)"
  using assms overflow_wf[of cd]
  by (simp_all add: received_def written_def as_waiting_def rx_queue_def tx_queue_def elastic_wf_def)
    (simp_all add: xp_overflow_def)

text \<open>The case of the interrupt, and the steps of the tasklet.\<close>

lemma burst_before_or_after:
  fixes cd u s ss again t1 rxm xll little
  defines "x \<equiv> (cd, Some (u, s # ss, again))" and "burst \<equiv> xp_txrx_burst t1 rxm (xll, cd)"
  assumes "elastic_wf x" "written x \<noteq> []"
  shows "xp_txrx_burst t1 rxm (xll, fst (tasklet_next little x)) =
    (fst burst, fst (snd burst), fst (tasklet_next little (snd (snd burst), snd x)))"
proof -
  have wf: "card_wf cd" "s < 4"
    using assms(3) by (simp_all add: elastic_wf_def x_def)
  have "(lebno cd + 1) mod X400P_EBUFNO \<noteq> u"
    using written_empty[OF assms(3)] assms(4) by (simp add: x_def as_waiting_def)
  moreover from this have "(lebno cd + 1) mod X400P_EBUFNO \<noteq> uebno cd"
    using next_not_uebno[OF assms(3)] by (simp add: x_def as_waiting_def)
  moreover obtain ok xll' cd' where "burst = (ok, xll', cd')"
    by (cases burst)
  ultimately show ?thesis
    using burst_commutes[OF wf, of u t1 rxm xll ok xll' cd' little] by (simp add: x_def burst_def)
qed

lemma burst_into_work:
  fixes cd u ss again t1 rxm xll
  defines "x \<equiv> (cd, Some (u, ss, again))" and "burst \<equiv> xp_txrx_burst t1 rxm (xll, cd)"
  assumes "elastic_wf x" "written x = []"
  shows "fst burst \<and> fst (snd burst) = (\<lambda>o1. if copied t1 o1 then blk (wbuf cd) u ! o1 else xll o1) \<and>
    blk (rbuf (snd (snd burst))) u = map (\<lambda>o1. if copied t1 o1 then rxm o1 else rbuf cd (u * 1024 + o1)) [0..<1024] \<and>
    lebno (snd (snd burst)) = u"
proof -
  have u: "(lebno cd + 1) mod X400P_EBUFNO = u" "u < X400P_EBUFNO" "uebno cd = (u + 1) mod X400P_EBUFNO"
    using written_empty[OF assms(3)] assms(3,4) by (simp_all add: x_def as_waiting_def elastic_wf_def)
  then have "u \<noteq> uebno cd"
    by (simp add: X400P_EBUFNO_def mod_if split: if_splits)
  note b = burst_eq[of cd t1 rxm xll, unfolded u(1), OF this, folded burst_def]
  have "copied t1 o1 \<Longrightarrow> blk (wbuf cd) u ! o1 = wbuf cd (u * 1024 + o1)" for o1
    by (simp add: blk_def copied_def)
  moreover have "blk (rbuf (snd (snd burst))) u = map (\<lambda>o1. if copied t1 o1 then rxm o1 else rbuf cd (u * 1024 + o1)) [0..<1024]"
    unfolding b by (rule nth_equalityI) (auto simp: blk_def in_block_def)
  ultimately show ?thesis
    by (auto simp: b fun_eq_iff)
qed

lemma tasklet_steps:
  fixes x little
  defines "cd \<equiv> fst x" and "claim \<equiv> tasklet_claim (fst x)" and "work \<equiv> tasklet_next little x"
  assumes "elastic_wf x"
  shows "case snd x of
         None \<Rightarrow> (case received x of
             b # b' # bs \<Rightarrow> snd claim = Some (uebno cd, [0..<ports cd], bs \<noteq> []) \<and> b = blk (rbuf cd) (uebno cd)
               \<and> received claim = received x \<and> written claim = written x \<and> elastic_wf claim
           | _ \<Rightarrow> claim = x)
       | Some (u, s # ss, again) \<Rightarrow> received work = received x \<and> written work = written x \<and> elastic_wf work
           \<and> snd work = Some (u, ss, again)
           \<and> rbuf (fst work) = rbuf cd \<and> same_outside (u * 1024) (wbuf cd) (wbuf (fst work))
       | Some (u, [], again) \<Rightarrow> work = (cd, None) \<and> elastic_wf work
           \<and> received x = blk (rbuf cd) u # received work \<and> written work = written x @ [blk (wbuf cd) u]"
proof (cases "snd x")
  case None
  then have x: "x = (cd, None)"
    by (metis cd_def prod.collapse)
  note wf = assms(4)[unfolded x]
  show ?thesis
  proof (cases "uebno cd = lebno cd")
    case True
    then have "length (received x) = 1" "claim = x"
      using claim_step(2,3)[OF wf] by (simp_all add: x claim_def)
    then show ?thesis
      by (auto simp: x split: list.split)
  next
    case False
    then have "length (received x) \<noteq> 1" "received x \<noteq> []"
      using claim_step(3)[OF wf] by (auto simp: x received_def queue_lengths simp flip: length_greater_0_conv)
    then obtain b b' bs where "received x = b # b' # bs"
      by (cases "received x" rule: remdups_adj.cases) auto
    then show ?thesis
      using claim_step(1)[OF wf False] by (simp add: x claim_def)
  qed
next
  case (Some p)
  obtain u ss again where p: "p = (u, ss, again)"
    by (cases p)
  have x: "x = (cd, Some (u, ss, again))"
    using Some p by (metis cd_def prod.collapse)
  show ?thesis
  proof (cases ss)
    case Nil
    then show ?thesis
      using finish_step[of cd u again] assms(4) by (simp add: x work_def)
  next
    case (Cons s ss')
    then show ?thesis
      using span_step[of cd u s ss' again little] assms(4) by (simp add: x work_def)
  qed
qed

text \<open>C19. The elastic buffers are two queues of blocks, 128 blocks in all, at every step of the tasklet and the
  interrupt, however they interleave; the tasklet holds the lock of the card only while it takes a block, which counts as
  received until the tasklet is done with it.  When a written block waits, the interrupt sends the oldest one, the
  block received goes to the end of the queue of the tasklet, and it makes no difference to the tasklet whether the
  interrupt comes before or after it works on a span.  When none waits and the tasklet is idle, an overflow is counted and
  neither queue changes.  The idle tasklet takes the oldest received block when another one follows it, and schedules
  itself again when a third one does; otherwise it does nothing.  A span that it works on changes nothing but that block of
  the write buffer, and when all spans are done the block leaves the received ones and goes to the end of the
  written ones.  So blocks are processed in the order in which they come and sent in the order in which
  they are written, none twice, and none is lost while no overflow is counted.  One case is different: when no
  written block waits while the tasklet works on one, the lock does not protect it.  The interrupt does not
  see the overflow, sends the block that the tasklet is still writing, and overwrites the received block that it
  is reading.\<close>

theorem elastic_buffers_are_queues:
  fixes x t1 rxm xll little
  assumes "elastic_wf x"
  defines "cd \<equiv> fst x" and "burst \<equiv> xp_txrx_burst t1 rxm (xll, fst x)" and "claim \<equiv> tasklet_claim (fst x)"
    and "work \<equiv> tasklet_next little x" and "n \<equiv> (lebno (fst x) + 1) mod X400P_EBUFNO"
    and "fresh \<equiv> (\<lambda>k. map (\<lambda>o1. if copied t1 o1 then rxm o1 else rbuf (fst x) (k * 1024 + o1)) [0..<1024])"
    and "sent \<equiv> (\<lambda>b o1. if copied t1 o1 then b ! o1 else xll o1)"
  shows "length (received x) + length (written x) = X400P_EBUFNO
    \<and> (case (written x, snd x) of
         (b # bs, run) \<Rightarrow> fst burst \<and> fst (snd burst) = sent b
           \<and> written (snd (snd burst), run) = bs \<and> received (snd (snd burst), run) = received x @ [fresh n]
           \<and> elastic_wf (snd (snd burst), run)
           \<and> (case run of
                Some (u, s # ss, again) \<Rightarrow>
                  xp_txrx_burst t1 rxm (xll, fst work) =
                    (True, sent b, fst (tasklet_next little (snd (snd burst), run)))
              | _ \<Rightarrow> True)
       | ([], None) \<Rightarrow> burst = (False, xll, xp_overflow cd) \<and> received (xp_overflow cd, None) = received x
           \<and> written (xp_overflow cd, None) = [] \<and> elastic_wf (xp_overflow cd, None)
       | ([], Some (u, ss, again)) \<Rightarrow> fst burst \<and> fst (snd burst) = sent (blk (wbuf cd) u)
           \<and> blk (rbuf (snd (snd burst))) u = fresh u \<and> lebno (snd (snd burst)) = u)
    \<and> (case snd x of
         None \<Rightarrow> (case received x of
             b # b' # bs \<Rightarrow> snd claim = Some (uebno cd, [0..<ports cd], bs \<noteq> []) \<and> b = blk (rbuf cd) (uebno cd)
               \<and> received claim = received x \<and> written claim = written x \<and> elastic_wf claim
           | _ \<Rightarrow> claim = x)
       | Some (u, s # ss, again) \<Rightarrow> received work = received x \<and> written work = written x \<and> elastic_wf work
           \<and> snd work = Some (u, ss, again)
           \<and> rbuf (fst work) = rbuf cd \<and> same_outside (u * 1024) (wbuf cd) (wbuf (fst work))
       | Some (u, [], again) \<Rightarrow> work = (cd, None) \<and> elastic_wf work
           \<and> received x = blk (rbuf cd) u # received work \<and> written work = written x @ [blk (wbuf cd) u])"
proof -
  obtain run where x: "x = (cd, run)"
    by (metis cd_def prod.collapse)
  note wf = assms(1)[unfolded x]
  have aw: "uebno (as_waiting x) < X400P_EBUFNO" "lebno (fst x) < X400P_EBUFNO"
    using as_waiting_wf[OF assms(1)] by (simp_all add: card_wf_def as_waiting_fields)
  have sum: "length (received x) + length (written x) = X400P_EBUFNO"
    using ebuf_counts(1)[OF aw] by (simp add: received_def written_def queue_lengths as_waiting_fields)
  have next_block: "written x \<noteq> [] \<longleftrightarrow> n \<noteq> uebno (as_waiting x)"
    using written_empty[OF assms(1)] by (simp add: n_def)
  show ?thesis
  proof (intro conjI sum)
    show "case (written x, snd x) of
         (b # bs, run) \<Rightarrow> fst burst \<and> fst (snd burst) = sent b
           \<and> written (snd (snd burst), run) = bs \<and> received (snd (snd burst), run) = received x @ [fresh n]
           \<and> elastic_wf (snd (snd burst), run)
           \<and> (case run of
                Some (u, s # ss, again) \<Rightarrow>
                  xp_txrx_burst t1 rxm (xll, fst work) =
                    (True, sent b, fst (tasklet_next little (snd (snd burst), run)))
              | _ \<Rightarrow> True)
       | ([], None) \<Rightarrow> burst = (False, xll, xp_overflow cd) \<and> received (xp_overflow cd, None) = received x
           \<and> written (xp_overflow cd, None) = [] \<and> elastic_wf (xp_overflow cd, None)
       | ([], Some (u, ss, again)) \<Rightarrow> fst burst \<and> fst (snd burst) = sent (blk (wbuf cd) u)
           \<and> blk (rbuf (snd (snd burst))) u = fresh u \<and> lebno (snd (snd burst)) = u"
    proof (cases "written x")
      case (Cons b bs)
      then have "n \<noteq> uebno (as_waiting x)"
        using next_block by simp
      note q = burst_step[OF assms(1) this[unfolded n_def], folded burst_def n_def cd_def, of t1 rxm xll]
      show ?thesis
        using q burst_before_or_after[of cd _ _ _ _ t1 rxm xll little] wf Cons
        by (auto simp: x fresh_def sent_def work_def burst_def split: option.split list.split)
    next
      case Nil
      show ?thesis
      proof (cases run)
        case None
        then have "burst = (False, xll, xp_overflow cd)"
          using Nil next_block by (simp add: x n_def as_waiting_def burst_def xp_txrx_burst_def Let_def)
        then show ?thesis
          using Nil overflow_step[of cd] wf by (simp add: x None)
      next
        case (Some p)
        obtain u ss again where p: "p = (u, ss, again)"
          by (cases p)
        show ?thesis
          using burst_into_work[of cd u ss again t1 rxm xll] wf Nil by (simp add: x Some p burst_def sent_def fresh_def)
      qed
    qed
  qed (rule tasklet_steps[OF assms(1), of little, folded cd_def claim_def work_def])
qed

text \<open>The tasklet takes a block of a card that has two, an interrupt comes, and the tasklet goes on.\<close>

theorem elastic_buffers_are_queues_witness:
  "length (written (tasklet_claim demo_card)) = 126 \<and> length (received (tasklet_claim demo_card)) = 2 \<and>
   written (snd (snd (xp_txrx_burst False (\<lambda>_. 0) (\<lambda>_. 0, fst (tasklet_claim demo_card)))), snd (tasklet_claim demo_card))
     = tl (written (tasklet_claim demo_card)) \<and>
   received (tasklet_next True (tasklet_claim demo_card)) = received (tasklet_claim demo_card)"
proof -
  let ?y = "tasklet_claim demo_card"
  have wf: "elastic_wf (demo_card, None)"
    by (auto simp: elastic_wf_def card_wf_def demo_card_def X400P_EBUFNO_def span_wf_def whole_first_def split: if_splits)
  have q: "received (demo_card, None) = [blk (\<lambda>_. 0x7e) 0, blk (\<lambda>_. 0x7e) 1]" "length (written (demo_card, None)) = 126"
    by (simp_all add: received_def written_def as_waiting_def rx_queue_def tx_queue_def demo_card_def ring_def X400P_EBUFNO_def)
  note t = elastic_buffers_are_queues[OF wf, of False "\<lambda>_. 0" "\<lambda>_. 0" True]
  have y: "snd ?y = Some (0, [0], False)" "received ?y = received (demo_card, None)"
      "written ?y = written (demo_card, None)" "elastic_wf ?y"
    using t q by (simp_all add: demo_card_def)
  have "written ?y \<noteq> []"
    using y(3) q(2) by auto
  then show ?thesis
    using elastic_buffers_are_queues[OF y(4), of False "\<lambda>_. 0" "\<lambda>_. 0" True] y q
    by (simp split: list.splits)
qed

end
