(* ===== verification/HDLC_Units.thy ===== *)
theory HDLC_Units
  imports HDLC_Path SL_Formats
begin

text \<open>
  The signal units of transmission control at the length check of the receiver.
\<close>

lemma rx_li_basic:
  assumes "\<not> xsn ch" "n < 64"
  shows "rx_li ch (a # b # word_of_nat n # rest) = n"
proof -
  have "rd8 (a # b # word_of_nat n # rest) 2 AND 0x3f = word_of_nat n"
    using li_octet[OF assms(2)] by (simp add: rd8_def)
  then show ?thesis
    using assms by (simp add: rx_li_def unat_of_nat)
qed

lemma rx_length_ok_header:
  assumes "\<not> xsn rx" "\<not> xsn tx" "n < 64" "len = n \<or> n = 63 \<and> 63 \<le> len"
  shows "rx_length_ok rx (su_header tx (int n) @ rest) len"
  using assms rx_li_basic[OF assms(1,3)] by (auto simp: rx_length_ok_def su_header_3 Let_def)

text \<open>C35. In the basic format every signal unit that transmission control writes passes the length check of
  the receiver at a channel of the same format: fill-in units, status units of one octet, and messages of any length, whose indicator
  is 63 when they are longer.  With extended sequence numbers the receiver reads the length indicator with its octets
  exchanged: a status unit of one octet reads as 256 and is rejected as a length error.\<close>

theorem units_length_checked:
  assumes "xsn rx = xsn tx" "hlen tx \<le> msgdsize mp"
  shows "(\<not> xsn tx \<longrightarrow> rx_length_ok rx (sl_daedt_fisu tx) 0 \<and> rx_length_ok rx (sl_daedt_lssu tx) 1
      \<and> rx_length_ok rx (octets (sl_daedt_msu tx mp)) (msgdsize mp - hlen tx))
    \<and> (xsn tx \<longrightarrow> rx_li rx (sl_daedt_lssu tx) = 256 \<and> \<not> rx_length_ok rx (sl_daedt_lssu tx) 1)"
proof (cases "xsn tx")
  case False
  then have n: "\<not> xsn rx" "3 \<le> msgdsize mp" "hlen tx = 3"
    using assms by (simp_all add: hlen_def)
  let ?n = "min (msgdsize mp - 3) 63"
  have "octets (sl_daedt_msu tx mp) = su_header tx (int ?n) @ drop 3 (octets mp)"
    using False li_min[OF n(2)] by (simp add: sl_daedt_msu_def Let_def)
  moreover have "?n < 64" "msgdsize mp - 3 = ?n \<or> ?n = 63 \<and> 63 \<le> msgdsize mp - 3"
    by linarith+
  ultimately have "rx_length_ok rx (octets (sl_daedt_msu tx mp)) (msgdsize mp - hlen tx)"
    using rx_length_ok_header[OF n(1) False] n(3) by simp
  moreover have "rx_length_ok rx (sl_daedt_fisu tx) 0" "rx_length_ok rx (sl_daedt_lssu tx) 1"
    using rx_length_ok_header[OF n(1) False, of 0 0 "[]"] rx_length_ok_header[OF n(1) False, of 1 1]
    by (simp_all add: sl_daedt_fisu_def sl_daedt_lssu_def)
  ultimately show ?thesis
    using False by blast
next
  case True
  then have "rx_li rx (sl_daedt_lssu tx) = 256"
    using assms(1) by (simp add: rx_li_def sl_daedt_lssu_def su_header_def rd8_def htons_def)
  then show ?thesis
    using True assms(1) by (simp add: rx_length_ok_def)
qed

theorem units_length_checked_witness:
  "rx_length_ok (up_ch 0 []) (octets (sl_daedt_msu (up_ch 0 []) (msu 1))) 4
     \<and> rx_li (up_ch 8 []) (sl_daedt_lssu (up_ch 8 [])) = 256"
proof -
  have "xsn (up_ch 8 [])" "\<not> xsn (up_ch 0 [])" "msgdsize (msu 1) = 7" "hlen (up_ch 0 []) = 3" "hlen (up_ch 8 []) = 6"
    by (simp_all add: demo_defs hlen_def)
  then show ?thesis
    using units_length_checked[of "up_ch 0 []" "up_ch 0 []" "msu 1"] units_length_checked[of "up_ch 8 []" "up_ch 8 []" "msu 1"]
    by simp
qed

end
