(* ===== verification/STR_Queue.thy ===== *)
theory STR_Queue
  imports Prelude "HOL-Library.Monad_Syntax"
begin

text \<open>
  The message queues of STREAMS (\<open>src/src/include/sys/openss7/stream.h\<close>, \<open>src/src/kernel/strutil.c\<close>): message
  blocks doubly linked through \<open>b_next\<close> and \<open>b_prev\<close>, a queue with its head and tail pointers, and the list of
  its priority bands, each with its own count, flags and pointers to its first and last message.

  The operations of this theory are the ones the C code runs under the lock of one queue.  They act on the blocks,
  that queue and the answers the cache of band structures will give.  An operation that follows a pointer the C
  code does not test returns an option: \<open>None\<close> is the access through a null pointer, or a loop that does not end.
\<close>

section \<open>Messages\<close>

text \<open>A message block: the type of its data block, the octets of the data block, and the read and write pointers
  as offsets into them.\<close>

record block =
  db_type :: u8
  db_data :: "u8 list"
  b_rptr :: nat
  b_wptr :: nat

text \<open>A message on a queue is named by the address of its first block; \<open>b_datap\<close> is that block and \<open>b_cont\<close> the
  blocks that continue it.\<close>

record msgb =
  b_next :: "nat option"
  b_prev :: "nat option"
  b_band :: u8
  b_datap :: block
  b_cont :: "block list"

type_synonym u64 = "64 word"

definition QPCTL :: u8 where "QPCTL = 0x80"
definition M_DATA :: u8 where "M_DATA = 0x00"
definition M_PROTO :: u8 where "M_PROTO = 0x01"
definition M_DELAY :: u8 where "M_DELAY = 0x0c"
definition M_IOCACK :: u8 where "M_IOCACK = 0x81"
definition M_PCPROTO :: u8 where "M_PCPROTO = 0x83"
definition M_FLUSH :: u8 where "M_FLUSH = 0x86"
definition M_COPYOUT :: u8 where "M_COPYOUT = 0x8c"

lemmas msg_types = QPCTL_def M_DATA_def M_PROTO_def M_DELAY_def M_IOCACK_def M_PCPROTO_def M_FLUSH_def M_COPYOUT_def

text \<open>\<open>1 << n\<close> on the 32-bit \<open>int\<close>.\<close>

definition shl1 :: "u8 \<Rightarrow> u32" where
  "shl1 n = push_bit (unat n) 1"

definition datamsg :: "u8 \<Rightarrow> bool" where
  "datamsg type = (let md = type AND NOT QPCTL in
     shl1 md AND (shl1 M_DATA OR shl1 M_PROTO OR shl1 (M_PCPROTO AND NOT QPCTL) OR shl1 M_DELAY) \<noteq> 0)"

definition ctlmsg :: "u8 \<Rightarrow> bool" where
  "ctlmsg type = (let md = type AND NOT QPCTL in
     shl1 md AND (shl1 M_DATA OR shl1 M_PROTO OR shl1 (M_PCPROTO AND NOT QPCTL)) = 0)"

definition pcmsg :: "u8 \<Rightarrow> bool" where
  "pcmsg type \<longleftrightarrow> type AND QPCTL \<noteq> 0"

abbreviation isdatamsg :: "msgb \<Rightarrow> bool" where
  "isdatamsg b \<equiv> datamsg (db_type (b_datap b))"

abbreviation is_pri :: "msgb \<Rightarrow> bool" where
  "is_pri b \<equiv> QPCTL \<le> db_type (b_datap b)"

text \<open>\<open>msgsize\<close>: the loop over the blocks of the message.\<close>

fun msgsize_loop :: "block list \<Rightarrow> nat \<Rightarrow> nat" where
  "msgsize_loop [] sz = sz"
| "msgsize_loop (b # bs) sz =
     msgsize_loop bs (if b_rptr b < b_wptr b then sz + (b_wptr b - b_rptr b) else sz)"

definition msgsize :: "msgb \<Rightarrow> nat" where
  "msgsize mp = msgsize_loop (b_datap mp # b_cont mp) 0"

section \<open>Queues and bands\<close>

datatype qbflag = QB_FULL | QB_WANTW | QB_BACK

record qband =
  qb_count :: u64
  qb_first :: "nat option"
  qb_last :: "nat option"
  qb_hiwat :: u64
  qb_lowat :: u64
  qb_flag :: "qbflag \<Rightarrow> bool"
  qb_msgs :: int

text \<open>The bits of \<open>q_flag\<close> that the queue operations use.\<close>

datatype qflag = QENAB | QWANTR | QWANTW | QFULL | QNOENB | QBACK | QSVCBUSY | QPROCS | QSRVP

text \<open>\<open>q_bandp\<close> is the list of band structures along \<open>qb_next\<close>, from band \<open>q_nband\<close> down to band one.\<close>

record queue =
  q_first :: "nat option"
  q_last :: "nat option"
  q_next :: "nat option"
  q_count :: u64
  q_flag :: "qflag \<Rightarrow> bool"
  q_minpsz :: int
  q_maxpsz :: int
  q_hiwat :: u64
  q_lowat :: u64
  q_bandp :: "qband list"
  q_nband :: u8
  q_blocked :: u8
  q_msgs :: int
  q_nfsrv :: "nat option"
  q_nbsrv :: "nat option"

text \<open>What an operation under the lock of a queue sees.  \<open>allocs\<close> are the answers of \<open>allocqb\<close> to come: whether the
  cache has a structure to give; when it is empty the cache is exhausted.\<close>

record qctx =
  que :: queue
  mem :: "nat \<Rightarrow> msgb"
  allocs :: "bool list"

definition upd_mem :: "nat \<Rightarrow> (msgb \<Rightarrow> msgb) \<Rightarrow> qctx \<Rightarrow> qctx" where
  "upd_mem x f s = s\<lparr>mem := (mem s)(x := f (mem s x))\<rparr>"

definition upd_que :: "(queue \<Rightarrow> queue) \<Rightarrow> qctx \<Rightarrow> qctx" where
  "upd_que f s = s\<lparr>que := f (que s)\<rparr>"

abbreviation set_b_next :: "nat \<Rightarrow> nat option \<Rightarrow> qctx \<Rightarrow> qctx" where
  "set_b_next x p \<equiv> upd_mem x (b_next_update (\<lambda>_. p))"

abbreviation set_b_prev :: "nat \<Rightarrow> nat option \<Rightarrow> qctx \<Rightarrow> qctx" where
  "set_b_prev x p \<equiv> upd_mem x (b_prev_update (\<lambda>_. p))"

abbreviation set_q_first :: "nat option \<Rightarrow> qctx \<Rightarrow> qctx" where
  "set_q_first p \<equiv> upd_que (q_first_update (\<lambda>_. p))"

abbreviation set_q_last :: "nat option \<Rightarrow> qctx \<Rightarrow> qctx" where
  "set_q_last p \<equiv> upd_que (q_last_update (\<lambda>_. p))"

abbreviation set_flag :: "qflag \<Rightarrow> qctx \<Rightarrow> qctx" where
  "set_flag f \<equiv> upd_que (\<lambda>q. q\<lparr>q_flag := (q_flag q)(f := True)\<rparr>)"

abbreviation clear_flag :: "qflag \<Rightarrow> qctx \<Rightarrow> qctx" where
  "clear_flag f \<equiv> upd_que (\<lambda>q. q\<lparr>q_flag := (q_flag q)(f := False)\<rparr>)"

text \<open>\<open>if (p) A;\<close> on a pointer.\<close>

definition on_ptr :: "nat option \<Rightarrow> (nat \<Rightarrow> 's \<Rightarrow> 's) \<Rightarrow> 's \<Rightarrow> 's" where
  "on_ptr p f = (case p of Some x \<Rightarrow> f x | None \<Rightarrow> id)"

lemma on_ptr_simps [simp]: "on_ptr None f = id" "on_ptr (Some x) f = f x"
  by (simp_all add: on_ptr_def)

section \<open>Finding a band\<close>

text \<open>\<open>__find_qband\<close>: the position in \<open>q_bandp\<close> of the structure its loop stops at.\<close>

fun find_qband_loop :: "qband list \<Rightarrow> u8 \<Rightarrow> u8 \<Rightarrow> nat \<Rightarrow> nat option" where
  "find_qband_loop [] n band i = None"
| "find_qband_loop (qb # qbs) n band i = (if band < n then find_qband_loop qbs (n - 1) band (i + 1) else Some i)"

definition find_qband :: "queue \<Rightarrow> u8 \<Rightarrow> nat option" where
  "find_qband q band = find_qband_loop (q_bandp q) (q_nband q) band 0"

definition new_qband :: "queue \<Rightarrow> qband" where
  "new_qband q = \<lparr>qb_count = 0, qb_first = None, qb_last = None, qb_hiwat = q_hiwat q, qb_lowat = q_lowat q,
     qb_flag = (\<lambda>_. False), qb_msgs = 0\<rparr>"

text \<open>The loop of \<open>__get_qband\<close> that allocates structures up to the band asked for.\<close>

function get_qband_loop :: "u8 \<Rightarrow> qctx \<Rightarrow> nat option \<times> qctx" where
  "get_qband_loop band s = (case allocs s of
      True # as \<Rightarrow>
        (let q = que s;
             s = s\<lparr>allocs := as, que := q\<lparr>q_bandp := new_qband q # q_bandp q, q_nband := q_nband q + 1\<rparr>\<rparr>
         in if q_nband (que s) < band then get_qband_loop band s else (Some 0, s))
    | False # as \<Rightarrow> (None, s\<lparr>allocs := as\<rparr>)
    | [] \<Rightarrow> (None, s))"
  by pat_completeness auto
termination
  by (relation "measure (\<lambda>(band, s). length (allocs s))") auto

definition get_qband :: "u8 \<Rightarrow> qctx \<Rightarrow> nat option \<times> qctx" where
  "get_qband band s =
     (if band \<le> q_nband (que s) then (find_qband (que s) band, s) else get_qband_loop band s)"

declare get_qband_loop.simps [simp del]

definition upd_band :: "nat \<Rightarrow> (qband \<Rightarrow> qband) \<Rightarrow> qctx \<Rightarrow> qctx" where
  "upd_band i f = upd_que (\<lambda>q. q\<lparr>q_bandp := (q_bandp q)[i := f (q_bandp q ! i)]\<rparr>)"

abbreviation band_at :: "qctx \<Rightarrow> nat \<Rightarrow> qband" where
  "band_at s i \<equiv> q_bandp (que s) ! i"

text \<open>\<open>if ((q->q_count += msgsize(mp)) > q->q_hiwat) set_bit(QFULL_BIT, \<dots>)\<close>, and its like for a band.\<close>

definition count_in :: "nat \<Rightarrow> qctx \<Rightarrow> qctx" where
  "count_in mp s = steps [
     upd_que (\<lambda>q. q\<lparr>q_count := q_count q + of_nat (msgsize (mem s mp))\<rparr>),
     ifthen (\<lambda>s. q_hiwat (que s) < q_count (que s)) (set_flag QFULL)] s"

definition band_count_in :: "nat \<Rightarrow> nat \<Rightarrow> qctx \<Rightarrow> qctx" where
  "band_count_in i mp s = steps [
     upd_band i (\<lambda>qb. qb\<lparr>qb_count := qb_count qb + of_nat (msgsize (mem s mp))\<rparr>),
     ifthen (\<lambda>s. qb_hiwat (band_at s i) < qb_count (band_at s i))
       (ifthen (\<lambda>s. \<not> qb_flag (band_at s i) QB_FULL)
         (\<lambda>s. steps [
           upd_band i (\<lambda>qb. qb\<lparr>qb_flag := (qb_flag qb)(QB_FULL := True)\<rparr>),
           upd_que (\<lambda>q. q\<lparr>q_blocked := q_blocked q + 1\<rparr>)] s))] s"

definition msgs_inc :: "qctx \<Rightarrow> qctx" where
  "msgs_inc = upd_que (\<lambda>q. q\<lparr>q_msgs := q_msgs q + 1\<rparr>)"

definition msgs_dec :: "qctx \<Rightarrow> qctx" where
  "msgs_dec = upd_que (\<lambda>q. q\<lparr>q_msgs := q_msgs q - 1\<rparr>)"

text \<open>The accounting when a message leaves; the result tells whether the writers blocked on it are to be
  enabled.\<close>

definition count_out :: "nat \<Rightarrow> qctx \<Rightarrow> bool \<times> qctx" where
  "count_out mp s =
     (let s = upd_que (\<lambda>q. q\<lparr>q_count := q_count q - of_nat (msgsize (mem s mp))\<rparr>) s in
      if (q_count (que s) = 0 \<or> q_count (que s) < q_lowat (que s)) \<and> q_flag (que s) QFULL then
        (let s = clear_flag QFULL s in
         if q_flag (que s) QWANTW then (True, clear_flag QWANTW s) else (False, s))
      else (False, s))"

definition band_count_out :: "nat \<Rightarrow> nat \<Rightarrow> qctx \<Rightarrow> bool \<times> qctx" where
  "band_count_out i mp s =
     (let s = steps [
        upd_band i (\<lambda>qb. qb\<lparr>qb_msgs := qb_msgs qb - 1\<rparr>),
        upd_band i (\<lambda>qb. qb\<lparr>qb_count := qb_count qb - of_nat (msgsize (mem s mp))\<rparr>)] s in
      if (qb_count (band_at s i) = 0 \<or> qb_count (band_at s i) < qb_lowat (band_at s i)) \<and> qb_flag (band_at s i) QB_FULL then
        (let s = steps [
           upd_band i (\<lambda>qb. qb\<lparr>qb_flag := (qb_flag qb)(QB_FULL := False)\<rparr>),
           upd_que (\<lambda>q. q\<lparr>q_blocked := q_blocked q - 1\<rparr>)] s in
         if qb_flag (band_at s i) QB_WANTW
         then (True, upd_band i (\<lambda>qb. qb\<lparr>qb_flag := (qb_flag qb)(QB_WANTW := False)\<rparr>) s)
         else (False, s))
      else (False, s))"

lemmas queue_acct = upd_mem_def upd_que_def upd_band_def count_in_def band_count_in_def msgs_inc_def msgs_dec_def
  count_out_def band_count_out_def

section \<open>Walking a queue\<close>

text \<open>\<open>while (b_next && P(b_next)) { b_prev = b_next; b_next = b_prev->b_next; }\<close>\<close>

partial_function (option) skip ::
  "(msgb \<Rightarrow> bool) \<Rightarrow> (nat \<Rightarrow> msgb) \<Rightarrow> nat option \<Rightarrow> nat option \<Rightarrow> (nat option \<times> nat option) option" where
  "skip P h pv nx =
     (if nx \<noteq> None \<and> P (h (the nx)) then skip P h nx (b_next (h (the nx))) else Some (pv, nx))"

declare skip.simps [code]

lemma skip_simps [simp]:
  "skip P h pv None = Some (pv, None)"
  "\<not> P (h x) \<Longrightarrow> skip P h pv (Some x) = Some (pv, Some x)"
  "P (h x) \<Longrightarrow> skip P h pv (Some x) = skip P h (Some x) (b_next (h x))"
  by (simp_all add: skip.simps[of P h pv])

text \<open>The loop ends on a chain of blocks, at the first one that fails the test.\<close>

lemma skip_links:
  assumes "links (\<lambda>x. b_next (h x)) (\<lambda>x. b_prev (h x)) pv xs None"
  shows "skip P h pv (first xs None) =
    Some (final pv (takeWhile (\<lambda>x. P (h x)) xs), first (dropWhile (\<lambda>x. P (h x)) xs) None)"
  using assms by (induction xs arbitrary: pv) auto

section \<open>Putting a message on a queue\<close>

text \<open>The statements that link a block between two others, or at an end of the queue.\<close>

definition queue_link :: "nat \<Rightarrow> nat option \<Rightarrow> nat option \<Rightarrow> qctx \<Rightarrow> qctx" where
  "queue_link mp pv nx s = steps [
     ifthen (\<lambda>s. q_last (que s) = pv) (set_q_last (Some mp)),
     ifthen (\<lambda>s. q_first (que s) = nx) (set_q_first (Some mp)),
     msgs_inc,
     set_b_next mp nx,
     on_ptr nx (\<lambda>n. set_b_prev n (Some mp)),
     set_b_prev mp pv,
     on_ptr pv (\<lambda>p. set_b_next p (Some mp))] s"

text \<open>The pointers of a band.\<close>

definition band_link :: "nat \<Rightarrow> nat \<Rightarrow> nat option \<Rightarrow> nat option \<Rightarrow> qctx \<Rightarrow> qctx" where
  "band_link i mp pv nx s = steps [
     ifthen (\<lambda>s. qb_last (band_at s i) = pv \<or> qb_last (band_at s i) = None) (upd_band i (qb_last_update (\<lambda>_. Some mp))),
     ifthen (\<lambda>s. qb_first (band_at s i) = nx \<or> qb_first (band_at s i) = None)
       (upd_band i (qb_first_update (\<lambda>_. Some mp))),
     upd_band i (\<lambda>qb. qb\<lparr>qb_msgs := qb_msgs qb + 1\<rparr>),
     band_count_in i mp] s"

text \<open>The fast paths link a block at an end of the queue.\<close>

definition head_link :: "nat \<Rightarrow> qctx \<Rightarrow> qctx" where
  "head_link mp s = steps [
     set_b_next mp (q_first (que s)),
     on_ptr (q_first (que s)) (\<lambda>n. set_b_prev n (Some mp)),
     set_b_prev mp None,
     set_q_first (Some mp),
     ifthen (\<lambda>s. q_last (que s) = None) (set_q_last (Some mp)),
     msgs_inc] s"

definition tail_link :: "nat \<Rightarrow> qctx \<Rightarrow> qctx" where
  "tail_link mp s = steps [
     set_b_next mp None,
     set_b_prev mp (q_last (que s)),
     on_ptr (q_last (que s)) (\<lambda>p. set_b_next p (Some mp)),
     set_q_last (Some mp),
     ifthen (\<lambda>s. q_first (que s) = None) (set_q_first (Some mp)),
     msgs_inc] s"

definition putbq_pri :: "nat \<Rightarrow> qctx \<Rightarrow> nat \<times> qctx" where
  "putbq_pri mp s = (2, steps [upd_mem mp (b_band_update (\<lambda>_. 0)), head_link mp, count_in mp] s)"

definition putbq_band :: "nat \<Rightarrow> qctx \<Rightarrow> (nat \<times> qctx) option" where
  "putbq_band mp s = do {
     (pv, nx) \<leftarrow> skip is_pri (mem s) None (q_first (que s));
     (pv, nx) \<leftarrow> skip (\<lambda>b. b_band (mem s mp) < b_band b) (mem s) pv nx;
     (case get_qband (b_band (mem s mp)) s of
        (None, s) \<Rightarrow> Some (0, s)
      | (Some i, s) \<Rightarrow>
          (let s = steps [band_link i mp pv nx, queue_link mp pv nx] s in
           Some (1 + of_bool (q_first (que s) = Some mp \<and> \<not> q_flag (que s) QNOENB \<and> q_flag (que s) QWANTR), s)))
   }"

definition putbq_norm :: "nat \<Rightarrow> qctx \<Rightarrow> (nat \<times> qctx) option" where
  "putbq_norm mp s =
     (if b_band (mem s mp) = 0 then do {
        (pv, nx) \<leftarrow> skip is_pri (mem s) None (q_first (que s));
        (pv, nx) \<leftarrow> skip (\<lambda>b. 0 < b_band b) (mem s) pv nx;
        (let s = steps [queue_link mp pv nx, count_in mp] s in
         Some (1 + of_bool (q_first (que s) = Some mp \<and> \<not> q_flag (que s) QNOENB \<and> q_flag (que s) QWANTR), s))
      }
      else putbq_band mp s)"

text \<open>\<open>__putbq\<close>: the result is 0 for no band structure, 1 for success, 2 for success and the queue to be enabled.\<close>

definition putbq_locked :: "nat \<Rightarrow> qctx \<Rightarrow> (nat \<times> qctx) option" where
  "putbq_locked mp s = (if db_type (b_datap (mem s mp)) < QPCTL then putbq_norm mp s else Some (putbq_pri mp s))"

definition putq_pri :: "nat \<Rightarrow> bool \<Rightarrow> qctx \<Rightarrow> (nat \<times> qctx) option" where
  "putq_pri mp insq s = do {
     (pv, nx) \<leftarrow> skip is_pri (mem s) None (q_first (que s));
     (let s = steps [upd_mem mp (b_band_update (\<lambda>_. 0)), count_in mp, queue_link mp pv nx] s in
      Some (1 + of_bool (\<not> insq \<or> \<not> q_flag (que s) QNOENB), s))
   }"

definition putq_band :: "nat \<Rightarrow> qctx \<Rightarrow> (nat \<times> qctx) option" where
  "putq_band mp s = do {
     (pv, nx) \<leftarrow> skip is_pri (mem s) None (q_first (que s));
     (case get_qband (b_band (mem s mp)) s of
        (None, s) \<Rightarrow> Some (0, s)
      | (Some i, s) \<Rightarrow> do {
          (pv, nx) \<leftarrow> skip (\<lambda>b. b_band (mem s mp) \<le> b_band b) (mem s) pv nx;
          (let s = steps [band_link i mp pv nx, queue_link mp pv nx] s in
           Some (1 + of_bool (q_first (que s) = Some mp \<and> \<not> q_flag (que s) QNOENB), s))
        })
   }"

definition putq_norm :: "nat \<Rightarrow> qctx \<Rightarrow> (nat \<times> qctx) option" where
  "putq_norm mp s =
     (if b_band (mem s mp) = 0 then
        (let s = steps [tail_link mp, count_in mp] s
         in Some (1 + of_bool (q_first (que s) = Some mp \<and> \<not> q_flag (que s) QNOENB \<and> q_flag (que s) QWANTR), s))
      else putq_band mp s)"

definition putq_locked :: "nat \<Rightarrow> qctx \<Rightarrow> (nat \<times> qctx) option" where
  "putq_locked mp s = (if db_type (b_datap (mem s mp)) < QPCTL then putq_norm mp s else putq_pri mp False s)"

definition putq_insq :: "nat \<Rightarrow> qctx \<Rightarrow> (nat \<times> qctx) option" where
  "putq_insq mp s = (if db_type (b_datap (mem s mp)) < QPCTL then putq_norm mp s else putq_pri mp True s)"

end
