(* ===== verification/STR_Take.thy ===== *)
theory STR_Take
  imports STR_Queue
begin

text \<open>
  The operations on one queue that insert before a message, take messages off, and flush
  (\<open>src/src/kernel/strutil.c\<close>: \<open>__insq\<close>, \<open>__rmvq\<close>, \<open>__getq\<close>, \<open>__flushband\<close>, \<open>__flushq\<close>), and the reading and
  setting of a queue's parameters (\<open>strqget\<close>, \<open>strqset\<close>), as they run under the lock of the queue.
\<close>

section \<open>Inserting before a message\<close>

text \<open>\<open>p && p->b_datap->db_type < QPCTL && \<dots>\<close> on the message before \<open>emp\<close>.\<close>

definition prev_norm :: "(msgb \<Rightarrow> bool) \<Rightarrow> nat \<Rightarrow> qctx \<Rightarrow> bool" where
  "prev_norm P emp s = (case b_prev (mem s emp) of
      None \<Rightarrow> False
    | Some p \<Rightarrow> db_type (b_datap (mem s p)) < QPCTL \<and> P (mem s p))"

definition insq_link :: "nat \<Rightarrow> nat \<Rightarrow> qctx \<Rightarrow> qctx" where
  "insq_link emp nmp s = steps [
     ifthen (\<lambda>s. q_first (que s) = Some emp) (set_q_first (Some nmp)),
     set_b_prev nmp (b_prev (mem s emp)),
     on_ptr (b_prev (mem s emp)) (\<lambda>p. set_b_next p (Some nmp)),
     set_b_next nmp (Some emp),
     set_b_prev emp (Some nmp),
     msgs_inc] s"

definition insq_result :: "nat \<Rightarrow> qctx \<Rightarrow> nat \<times> qctx" where
  "insq_result nmp s = (1 + of_bool (q_first (que s) = Some nmp \<and> \<not> q_flag (que s) QNOENB \<and> q_flag (que s) QWANTR), s)"

definition insq_middle :: "nat \<Rightarrow> nat \<Rightarrow> qctx \<Rightarrow> nat \<times> qctx" where
  "insq_middle emp nmp s =
     (if QPCTL \<le> db_type (b_datap (mem s nmp)) then
        (if prev_norm (\<lambda>_. True) emp s then (0, s)
         else insq_result nmp (steps [upd_mem nmp (b_band_update (\<lambda>_. 0)), insq_link emp nmp, count_in nmp] s))
      else if QPCTL \<le> db_type (b_datap (mem s emp)) \<or> b_band (mem s emp) < b_band (mem s nmp) then (0, s)
      else if prev_norm (\<lambda>b. b_band (mem s nmp) < b_band b) emp s then (0, s)
      else if b_band (mem s nmp) \<noteq> 0 then
        (case get_qband (b_band (mem s nmp)) s of
           (None, s) \<Rightarrow> (0, s)
         | (Some i, s) \<Rightarrow> insq_result nmp (steps [
             ifthen (\<lambda>s. qb_last (band_at s i) = Some emp \<or> qb_last (band_at s i) = None)
               (upd_band i (qb_last_update (\<lambda>_. Some nmp))),
             ifthen (\<lambda>s. qb_first (band_at s i) = b_next (mem s emp) \<or> qb_first (band_at s i) = None)
               (upd_band i (qb_first_update (\<lambda>_. Some nmp))),
             insq_link emp nmp,
             upd_band i (\<lambda>qb. qb\<lparr>qb_msgs := qb_msgs qb + 1\<rparr>),
             band_count_in i nmp] s))
      else insq_result nmp (steps [insq_link emp nmp, count_in nmp] s))"

definition insq_locked :: "nat option \<Rightarrow> nat \<Rightarrow> qctx \<Rightarrow> (nat \<times> qctx) option" where
  "insq_locked emp nmp s = (case emp of None \<Rightarrow> putq_insq nmp s | Some e \<Rightarrow> Some (insq_middle e nmp s))"

section \<open>Taking a message off\<close>

text \<open>The first half of \<open>__rmvq_norm\<close> and \<open>__rmvq_band\<close>.\<close>

definition rmvq_unlink :: "nat \<Rightarrow> qctx \<Rightarrow> qctx" where
  "rmvq_unlink mp s =
     (let pv = b_prev (mem s mp); nx = b_next (mem s mp) in steps [
        on_ptr pv (\<lambda>p s. steps [set_b_next p nx, set_b_prev mp None] s),
        on_ptr nx (\<lambda>n s. steps [set_b_prev n pv, set_b_next mp None] s),
        ifthen (\<lambda>s. q_first (que s) = Some mp) (set_q_first nx),
        ifthen (\<lambda>s. q_last (que s) = Some mp) (set_q_last pv),
        msgs_dec] s)"

definition rmvq_norm :: "nat \<Rightarrow> qctx \<Rightarrow> bool \<times> qctx" where
  "rmvq_norm mp s = count_out mp (rmvq_unlink mp s)"

definition rmvq_band :: "nat \<Rightarrow> qctx \<Rightarrow> (bool \<times> qctx) option" where
  "rmvq_band mp s0 =
     (let pv = b_prev (mem s0 mp); nx = b_next (mem s0 mp); s = rmvq_unlink mp s0 in
      case find_qband (que s) (b_band (mem s mp)) of
        None \<Rightarrow> None
      | Some i \<Rightarrow>
          (let s = (if qb_first (band_at s i) = Some mp \<and> qb_last (band_at s i) = Some mp
                    then upd_band i (\<lambda>qb. qb\<lparr>qb_first := None, qb_last := None\<rparr>) s
                    else steps [
                      ifthen (\<lambda>s. qb_first (band_at s i) = Some mp) (upd_band i (qb_first_update (\<lambda>_. nx))),
                      ifthen (\<lambda>s. qb_last (band_at s i) = Some mp) (upd_band i (qb_last_update (\<lambda>_. pv)))] s)
           in Some (band_count_out i mp s)))"

definition rmvq_locked :: "nat \<Rightarrow> qctx \<Rightarrow> (bool \<times> qctx) option" where
  "rmvq_locked mp s = (if b_band (mem s mp) = 0 then Some (rmvq_norm mp s) else rmvq_band mp s)"

text \<open>\<open>__getq\<close>: the message, whether the writers are to be enabled, and the queue afterwards.\<close>

definition getq_unlink :: "nat \<Rightarrow> qctx \<Rightarrow> qctx" where
  "getq_unlink mp s = steps [
     set_q_first (b_next (mem s mp)),
     on_ptr (b_next (mem s mp)) (\<lambda>n s. steps [set_b_prev n None, set_b_next mp None] s),
     ifthen (\<lambda>s. q_last (que s) = Some mp) (set_q_last None),
     msgs_dec] s"

definition getq_locked :: "qctx \<Rightarrow> (nat option \<times> bool \<times> qctx) option" where
  "getq_locked s = (case q_first (que s) of
      None \<Rightarrow> Some (None, False, set_flag QWANTR s)
    | Some mp \<Rightarrow>
        (let s = getq_unlink mp s in
         if b_band (mem s mp) = 0 then
           (let (be, s) = count_out mp s in Some (Some mp, be, clear_flag QWANTR s))
         else (case find_qband (que s) (b_band (mem s mp)) of
             None \<Rightarrow> None
           | Some i \<Rightarrow>
               (let s = steps [
                  upd_band i (qb_first_update (\<lambda>_. q_first (que s))),
                  ifthen (\<lambda>s. qb_last (band_at s i) = Some mp) (upd_band i (qb_last_update (\<lambda>_. None)))] s;
                    (be, s) = band_count_out i mp s
                in Some (Some mp, be, clear_flag QWANTR s)))))"

section \<open>Flushing\<close>

text \<open>The chain of messages to be freed grows at its end through a pointer to a pointer: the local head, or the
  \<open>b_next\<close> of a message (of no message, when the pointer it was taken from was null).\<close>

datatype ploc = Head | Next "nat option"

record fchain =
  c_head :: "nat option"
  c_tail :: ploc

definition empty_chain :: fchain where
  "empty_chain = \<lparr>c_head = None, c_tail = Head\<rparr>"

text \<open>\<open>**mppp = v\<close>.\<close>

definition put_tail :: "nat option \<Rightarrow> fchain \<times> qctx \<Rightarrow> (fchain \<times> qctx) option" where
  "put_tail v cs = (case c_tail (fst cs) of
      Head \<Rightarrow> Some (fst cs\<lparr>c_head := v\<rparr>, snd cs)
    | Next None \<Rightarrow> None
    | Next (Some x) \<Rightarrow> Some (fst cs, set_b_next x v (snd cs)))"

datatype fflag = FLUSHALL | FLUSHDATA

definition flush_first_norm :: "qctx \<Rightarrow> nat option option" where
  "flush_first_norm s = do {
     (pv, nx) \<leftarrow> skip is_pri (mem s) None (q_first (que s));
     (pv, nx) \<leftarrow> skip (\<lambda>b. 0 < b_band b) (mem s) pv nx;
     Some nx
   }"

definition flush_all_norm :: "fchain \<Rightarrow> qctx \<Rightarrow> (bool \<times> fchain \<times> qctx) option" where
  "flush_all_norm c s = do {
     nx \<leftarrow> flush_first_norm s;
     (c, s) \<leftarrow> put_tail nx (c, s);
     (case nx of
        None \<Rightarrow> Some (False, c, s)
      | Some b \<Rightarrow> do {
          s \<leftarrow> Some (steps [
            on_ptr (b_prev (mem s b)) (\<lambda>p. set_b_next p None),
            ifthen (\<lambda>s. q_first (que s) = Some b) (set_q_first None),
            ifthen (\<lambda>s. q_last (que s) = Some b) (set_q_last (b_prev (mem s b)))] s);
          (c, s) \<leftarrow> put_tail None (c\<lparr>c_tail := Next (q_last (que s))\<rparr>, s);
          Some (True, c, steps [
            set_b_prev b None,
            upd_que (\<lambda>q. q\<lparr>q_count := 0, q_msgs := 0\<rparr>),
            clear_flag QFULL,
            clear_flag QWANTW] s)
        })
   }"

definition flush_all_band :: "u8 \<Rightarrow> fchain \<Rightarrow> qctx \<Rightarrow> (bool \<times> fchain \<times> qctx) option" where
  "flush_all_band band c s = (case find_qband (que s) band of
      None \<Rightarrow> Some (False, c, s)
    | Some i \<Rightarrow> do {
        (c, s) \<leftarrow> put_tail (qb_first (band_at s i)) (c, s);
        (case qb_first (band_at s i) of
           None \<Rightarrow> Some (False, c, s)
         | Some f \<Rightarrow> (case qb_last (band_at s i) of
              None \<Rightarrow> None
            | Some l \<Rightarrow> do {
                s \<leftarrow> Some (steps [
                  \<lambda>s. on_ptr (b_prev (mem s f)) (\<lambda>p. set_b_next p (b_next (mem s l))) s,
                  \<lambda>s. on_ptr (b_next (mem s l)) (\<lambda>n. set_b_prev n (b_prev (mem s f))) s,
                  ifthen (\<lambda>s. q_first (que s) = Some f) (\<lambda>s. set_q_first (b_next (mem s l)) s),
                  ifthen (\<lambda>s. q_last (que s) = Some l) (\<lambda>s. set_q_last (b_prev (mem s f)) s)] s);
                (c, s) \<leftarrow> put_tail None (c\<lparr>c_tail := Next (Some l)\<rparr>, s);
                Some (True, c, steps [
                  set_b_prev f None,
                  set_b_next l None,
                  upd_band i (\<lambda>qb. qb\<lparr>qb_count := 0\<rparr>),
                  (\<lambda>s. upd_que (\<lambda>q. q\<lparr>q_msgs := q_msgs q - qb_msgs (band_at s i)\<rparr>) s),
                  upd_band i (\<lambda>qb. qb\<lparr>qb_msgs := 0, qb_first := None, qb_last := None\<rparr>),
                  ifthen (\<lambda>s. qb_flag (band_at s i) QB_FULL)
                    (\<lambda>s. steps [
                      upd_band i (\<lambda>qb. qb\<lparr>qb_flag := (qb_flag qb)(QB_FULL := False)\<rparr>),
                      upd_que (\<lambda>q. q\<lparr>q_blocked := q_blocked q - 1\<rparr>)] s),
                  upd_band i (\<lambda>qb. qb\<lparr>qb_flag := (qb_flag qb)(QB_WANTW := False)\<rparr>)] s)
              }))
      })"

text \<open>\<open>while ((b = b_next)) { \<dots> }\<close> of the flushes of data messages only; it collects the bands of the messages
  whose removal asks for writers to be enabled.\<close>

partial_function (option) flush_data_loop ::
  "nat option \<Rightarrow> u8 list \<Rightarrow> fchain \<Rightarrow> qctx \<Rightarrow> (u8 list \<times> fchain \<times> qctx) option" where
  "flush_data_loop nx bands c s =
     (if nx = None then Some (bands, c, s)
      else if isdatamsg (mem s (the nx)) then
        Option.bind (rmvq_locked (the nx) s) (\<lambda>es.
        Option.bind (put_tail nx (c, snd es)) (\<lambda>cs.
        Option.bind (put_tail None (fst cs\<lparr>c_tail := Next nx\<rparr>, snd cs)) (\<lambda>ds.
        flush_data_loop (b_next (mem s (the nx)))
          (if fst es then bands @ [b_band (mem s (the nx))] else bands) (fst ds) (snd ds))))
      else flush_data_loop (b_next (mem s (the nx))) bands c s)"

definition flushband_locked :: "u8 \<Rightarrow> fflag \<Rightarrow> qctx \<Rightarrow> (bool \<times> fchain \<times> qctx) option" where
  "flushband_locked band flag s = (case flag of
      FLUSHALL \<Rightarrow> if band = 0 then flush_all_norm empty_chain s else flush_all_band band empty_chain s
    | FLUSHDATA \<Rightarrow>
        if band = 0 then do {
          nx \<leftarrow> flush_first_norm s;
          (bands, c, s) \<leftarrow> flush_data_loop nx [] empty_chain s;
          Some (bands \<noteq> [], c, s)
        }
        else (case find_qband (que s) band of
            None \<Rightarrow> Some (False, empty_chain, s)
          | Some i \<Rightarrow> do {
              (bands, c, s) \<leftarrow> flush_data_loop (qb_first (band_at s i)) [] empty_chain s;
              Some (bands \<noteq> [], c, s)
            }))"

text \<open>The loop over the bands of \<open>__flushq\<close>: the bands emptied, how many were full, and those to be enabled.\<close>

fun flush_bands :: "qband list \<Rightarrow> u8 \<Rightarrow> u8 list \<Rightarrow> qband list \<times> u8 list" where
  "flush_bands [] n bands = ([], bands)"
| "flush_bands (qb # qbs) n bands =
     (let qb' = qb\<lparr>qb_first := None, qb_last := None, qb_count := 0, qb_msgs := 0\<rparr>;
          (qb', bands) =
            (if qb_flag qb' QB_FULL then
               (let qb' = qb'\<lparr>qb_flag := (qb_flag qb')(QB_FULL := False)\<rparr> in
                if qb_flag qb' QB_WANTW then (qb'\<lparr>qb_flag := (qb_flag qb')(QB_WANTW := False)\<rparr>, bands @ [n])
                else (qb', bands))
             else (qb', bands));
          (qbs', bands) = flush_bands qbs (n - 1) bands
      in (qb' # qbs', bands))"

text \<open>Band zero of \<open>__flushq\<close>: \<open>QFULL\<close> and \<open>QWANTW\<close> are tested and cleared.\<close>

definition flush_norm :: "qctx \<Rightarrow> u8 list \<times> qctx" where
  "flush_norm s =
     (if q_flag (que s) QFULL then
        (let s = clear_flag QFULL s in if q_flag (que s) QWANTW then ([0], clear_flag QWANTW s) else ([], s))
      else ([], s))"

definition flushq_locked :: "fflag \<Rightarrow> qctx \<Rightarrow> (u8 list \<times> fchain \<times> qctx) option" where
  "flushq_locked flag s = (case q_first (que s) of
      None \<Rightarrow> Some ([], empty_chain, s)
    | Some b \<Rightarrow> (case flag of
        FLUSHALL \<Rightarrow> do {
          (c, s) \<leftarrow> put_tail (Some b) (empty_chain, s);
          (c, s) \<leftarrow> put_tail None (c\<lparr>c_tail := Next (q_last (que s))\<rparr>, s);
          (let (bands, s) = flush_norm (upd_que (\<lambda>q. q\<lparr>q_first := None, q_last := None, q_count := 0, q_msgs := 0\<rparr>) s);
               (qbs, bands) = flush_bands (q_bandp (que s)) (q_nband (que s)) bands
           in Some (bands, c, upd_que (\<lambda>q. q\<lparr>q_bandp := qbs, q_blocked := 0\<rparr>) s))
        }
      | FLUSHDATA \<Rightarrow> flush_data_loop (Some b) [] empty_chain s))"

text \<open>\<open>freechain\<close> (\<open>src/src/kernel/strsched.c\<close>): the messages it frees, in order.\<close>

partial_function (option) freechain_loop :: "nat option \<Rightarrow> nat list \<Rightarrow> qctx \<Rightarrow> (nat list \<times> qctx) option" where
  "freechain_loop nx freed s =
     (if nx = None then Some (freed, s)
      else freechain_loop (b_next (mem s (the nx))) (freed @ [the nx])
        (set_b_prev (the nx) None (set_b_next (the nx) None s)))"

declare flush_data_loop.simps [code] freechain_loop.simps [code]

definition freechain :: "fchain \<Rightarrow> qctx \<Rightarrow> (nat list \<times> qctx) option" where
  "freechain c s = freechain_loop (c_head c) [] s"

section \<open>Parameters of a queue\<close>

datatype qfield = F_HIWAT | F_LOWAT | F_MAXPSZ | F_MINPSZ | F_COUNT | F_FIRST | F_LAST | F_FLAG | F_OTHER

text \<open>The value \<open>strqget\<close> stores: a number, an address or the flags.\<close>

datatype qvalue = V_num int | V_ptr "nat option" | V_flags "qflag \<Rightarrow> bool"

definition EPERM :: int where "EPERM = 1"
definition ENOMEM :: int where "ENOMEM = 12"
definition EINVAL :: int where "EINVAL = 22"

definition strqget :: "qfield \<Rightarrow> u8 \<Rightarrow> qctx \<Rightarrow> (int \<times> qvalue option) \<times> qctx" where
  "strqget what band s =
     (if band = 0 then
        ((case what of
            F_HIWAT \<Rightarrow> (0, Some (V_num (sint (q_hiwat (que s)))))
          | F_LOWAT \<Rightarrow> (0, Some (V_num (sint (q_lowat (que s)))))
          | F_MAXPSZ \<Rightarrow> (0, Some (V_num (q_maxpsz (que s))))
          | F_MINPSZ \<Rightarrow> (0, Some (V_num (q_minpsz (que s))))
          | F_COUNT \<Rightarrow> (0, Some (V_num (sint (q_count (que s)))))
          | F_FIRST \<Rightarrow> (0, Some (V_ptr (q_first (que s))))
          | F_LAST \<Rightarrow> (0, Some (V_ptr (q_last (que s))))
          | F_FLAG \<Rightarrow> (0, Some (V_flags (q_flag (que s))))
          | F_OTHER \<Rightarrow> (EINVAL, None)), s)
      else (case get_qband band s of
          (None, s) \<Rightarrow> ((ENOMEM, None), s)
        | (Some i, s) \<Rightarrow>
            ((case what of
                F_HIWAT \<Rightarrow> (0, Some (V_num (sint (qb_hiwat (band_at s i)))))
              | F_LOWAT \<Rightarrow> (0, Some (V_num (sint (qb_lowat (band_at s i)))))
              | F_MAXPSZ \<Rightarrow> (0, Some (V_num (q_maxpsz (que s))))
              | F_MINPSZ \<Rightarrow> (0, Some (V_num (q_minpsz (que s))))
              | F_COUNT \<Rightarrow> (0, Some (V_num (sint (qb_count (band_at s i)))))
              | F_FIRST \<Rightarrow> (0, Some (V_ptr (qb_first (band_at s i))))
              | F_LAST \<Rightarrow> (0, Some (V_ptr (qb_last (band_at s i))))
              | F_FLAG \<Rightarrow> (0, Some (V_flags (q_flag (que s))))
              | F_OTHER \<Rightarrow> (EINVAL, None)), s)))"

definition strqset :: "qfield \<Rightarrow> u8 \<Rightarrow> int \<Rightarrow> qctx \<Rightarrow> int \<times> qctx" where
  "strqset what band val s =
     (if band = 0 then
        (case what of
            F_MAXPSZ \<Rightarrow> (0, upd_que (\<lambda>q. q\<lparr>q_maxpsz := val\<rparr>) s)
          | F_MINPSZ \<Rightarrow> (0, upd_que (\<lambda>q. q\<lparr>q_minpsz := val\<rparr>) s)
          | F_HIWAT \<Rightarrow> (0, upd_que (\<lambda>q. q\<lparr>q_hiwat := word_of_int val\<rparr>) s)
          | F_LOWAT \<Rightarrow> (0, upd_que (\<lambda>q. q\<lparr>q_lowat := word_of_int val\<rparr>) s)
          | F_OTHER \<Rightarrow> (EINVAL, s)
          | _ \<Rightarrow> (EPERM, s))
      else (case get_qband band s of
          (None, s) \<Rightarrow> (ENOMEM, s)
        | (Some i, s) \<Rightarrow> (case what of
            F_MAXPSZ \<Rightarrow> (0, upd_que (\<lambda>q. q\<lparr>q_maxpsz := val\<rparr>) s)
          | F_MINPSZ \<Rightarrow> (0, upd_que (\<lambda>q. q\<lparr>q_minpsz := val\<rparr>) s)
          | F_HIWAT \<Rightarrow> (0, upd_band i (\<lambda>qb. qb\<lparr>qb_hiwat := word_of_int val\<rparr>) s)
          | F_LOWAT \<Rightarrow> (0, upd_band i (\<lambda>qb. qb\<lparr>qb_lowat := word_of_int val\<rparr>) s)
          | F_OTHER \<Rightarrow> (EINVAL, s)
          | _ \<Rightarrow> (EPERM, s))))"

end
