(* ===== verification/STR_Chain.thy ===== *)
theory STR_Chain
  imports STR_Take
begin

text \<open>
  What the pointers of a STREAMS queue represent: the list of its messages from \<open>q_first\<close> to \<open>q_last\<close>, linked both
  ways.  The linking statements of each operation implement inserting into that list and taking out of it; the
  accounting statements leave it alone.
\<close>

section \<open>Chains of messages\<close>

definition chain :: "(nat \<Rightarrow> msgb) \<Rightarrow> nat option \<Rightarrow> nat list \<Rightarrow> nat option \<Rightarrow> bool" where
  "chain h = links (\<lambda>x. b_next (h x)) (\<lambda>x. b_prev (h x))"

lemma chain_simps [simp]:
  "chain h p [] n"
  "chain h p (x # xs) n \<longleftrightarrow> b_prev (h x) = p \<and> b_next (h x) = first xs n \<and> chain h (Some x) xs n"
  "chain h p (xs @ ys) n \<longleftrightarrow> chain h p xs (first ys n) \<and> chain h (final p xs) ys n"
  by (simp_all add: chain_def)

lemma chain_upd [simp]: "x \<notin> set xs \<Longrightarrow> chain (h(x := v)) p xs n = chain h p xs n"
  by (auto simp: chain_def intro!: links_cong)

lemma chain_cong:
  "(\<And>x. x \<in> set xs \<Longrightarrow> b_next (h x) = b_next (h' x) \<and> b_prev (h x) = b_prev (h' x)) \<Longrightarrow>
    chain h p xs n = chain h' p xs n"
  unfolding chain_def by (rule links_cong) simp

definition on_queue :: "qctx \<Rightarrow> nat list \<Rightarrow> bool" where
  "on_queue s xs \<longleftrightarrow> distinct xs \<and> q_first (que s) = first xs None \<and> q_last (que s) = final None xs \<and>
     chain (mem s) None xs None"

lemma on_queueD:
  assumes "on_queue s xs"
  shows "distinct xs" "q_first (que s) = first xs None" "q_last (que s) = final None xs" "chain (mem s) None xs None"
  using assms by (simp_all add: on_queue_def)

lemma skip_chain:
  "chain h pv xs None \<Longrightarrow> skip P h pv (first xs None) =
    Some (final pv (takeWhile (\<lambda>x. P (h x)) xs), first (dropWhile (\<lambda>x. P (h x)) xs) None)"
  by (simp add: chain_def skip_links)

section \<open>What the statements leave alone\<close>

text \<open>Links apart, no statement but the clearing of the band of a high priority message changes a message.\<close>

lemma upd_mem_simps [simp]:
  "que (upd_mem x f s) = que s" "allocs (upd_mem x f s) = allocs s" "mem (upd_mem x f s) = (mem s)(x := f (mem s x))"
  by (simp_all add: upd_mem_def)

lemma upd_que_simps [simp]:
  "que (upd_que f s) = f (que s)" "allocs (upd_que f s) = allocs s" "mem (upd_que f s) = mem s"
  by (simp_all add: upd_que_def)

lemma upd_band_simps [simp]:
  "mem (upd_band i f s) = mem s" "allocs (upd_band i f s) = allocs s" "q_first (que (upd_band i f s)) = q_first (que s)"
  "q_last (que (upd_band i f s)) = q_last (que s)" "q_count (que (upd_band i f s)) = q_count (que s)"
  "q_flag (que (upd_band i f s)) = q_flag (que s)" "q_msgs (que (upd_band i f s)) = q_msgs (que s)"
  "q_nband (que (upd_band i f s)) = q_nband (que s)" "q_blocked (que (upd_band i f s)) = q_blocked (que s)"
  "q_hiwat (que (upd_band i f s)) = q_hiwat (que s)" "q_lowat (que (upd_band i f s)) = q_lowat (que s)"
  "q_bandp (que (upd_band i f s)) = (q_bandp (que s))[i := f (q_bandp (que s) ! i)]"
  by (simp_all add: upd_band_def)

text \<open>The accounting statements keep the messages and the pointers to them.\<close>

definition keeps_msgs :: "(qctx \<Rightarrow> qctx) \<Rightarrow> bool" where
  "keeps_msgs f \<longleftrightarrow> (\<forall>s. mem (f s) = mem s \<and> q_first (que (f s)) = q_first (que s) \<and> q_last (que (f s)) = q_last (que s))"

lemma on_queue_keeps: "keeps_msgs f \<Longrightarrow> on_queue (f s) xs = on_queue s xs"
  by (simp add: keeps_msgs_def on_queue_def)

lemma acct_keeps_msgs [simp]:
  "keeps_msgs (count_in mp)" "keeps_msgs (band_count_in i mp)" "keeps_msgs (set_flag f)" "keeps_msgs (clear_flag f)"
  "keeps_msgs (\<lambda>s. snd (count_out mp s))" "keeps_msgs (\<lambda>s. snd (band_count_out i mp s))"
  "keeps_msgs (band_link i mp pv nx)" "keeps_msgs (upd_band i g)"
  by (auto simp: keeps_msgs_def queue_acct ifthen_def band_link_def Let_def)

lemmas on_queue_acct [simp] = acct_keeps_msgs[THEN on_queue_keeps]

lemma acct_mem [simp]:
  "mem (count_in mp s) = mem s" "mem (band_count_in i mp s) = mem s"
  "mem (snd (count_out mp s)) = mem s" "mem (snd (band_count_out i mp s)) = mem s" "mem (band_link i mp pv nx s) = mem s"
  by (auto simp: queue_acct ifthen_def band_link_def Let_def)

lemma acct_ends [simp]:
  "q_first (que (count_in mp s)) = q_first (que s)" "q_last (que (count_in mp s)) = q_last (que s)"
  "q_first (que (band_link i mp pv nx s)) = q_first (que s)" "q_last (que (band_link i mp pv nx s)) = q_last (que s)"
  by (auto simp: queue_acct ifthen_def band_link_def Let_def)

text \<open>The contents of a message are those of the same message after the links have changed.\<close>

definition same_contents :: "qctx \<Rightarrow> qctx \<Rightarrow> bool" where
  "same_contents s s' \<longleftrightarrow> (\<forall>x. b_band (mem s' x) = b_band (mem s x) \<and> b_datap (mem s' x) = b_datap (mem s x) \<and>
     b_cont (mem s' x) = b_cont (mem s x))"

lemma same_contentsD:
  assumes "same_contents s s'"
  shows "b_band (mem s' x) = b_band (mem s x)" "b_datap (mem s' x) = b_datap (mem s x)"
    "b_cont (mem s' x) = b_cont (mem s x)" "msgsize (mem s' x) = msgsize (mem s x)"
  using assms by (simp_all add: same_contents_def msgsize_def)

lemma links_same_contents [simp]:
  "same_contents s (queue_link mp pv nx s)" "same_contents s (head_link mp s)" "same_contents s (tail_link mp s)"
  "same_contents s (rmvq_unlink mp s)" "same_contents s (getq_unlink mp s)"
  by (auto simp: same_contents_def queue_link_def head_link_def tail_link_def rmvq_unlink_def getq_unlink_def
      msgs_inc_def msgs_dec_def
      ifthen_def on_ptr_def Let_def split: option.split)

section \<open>Linking and unlinking\<close>

lemma queue_link_on:
  assumes "on_queue s (xs @ ys)" "mp \<notin> set (xs @ ys)"
  shows "on_queue (queue_link mp (final None xs) (first ys None) s) (xs @ mp # ys)"
  using assms
  by (cases xs rule: rev_cases; cases ys)
    (auto simp: on_queue_def queue_link_def msgs_inc_def ifthen_def dest: final_Some_in first_Some_in)

lemma rmvq_unlink_on:
  assumes "on_queue s (xs @ mp # ys)"
  shows "on_queue (rmvq_unlink mp s) (xs @ ys)"
  using assms
  by (cases xs rule: rev_cases; cases ys)
    (auto simp: on_queue_def rmvq_unlink_def msgs_dec_def ifthen_def Let_def dest: final_Some_in first_Some_in)

lemma getq_unlink_on:
  assumes "on_queue s (mp # ys)"
  shows "on_queue (getq_unlink mp s) ys"
  using assms
  by (cases ys) (auto simp: on_queue_def getq_unlink_def msgs_dec_def ifthen_def dest: final_Some_in first_Some_in)

text \<open>The fast paths: a high priority message put back at the head, a normal one put at the tail.\<close>

lemma head_link_on:
  assumes "on_queue s xs" "mp \<notin> set xs"
  shows "on_queue (head_link mp s) (mp # xs)"
  using assms by (cases xs) (auto simp: on_queue_def head_link_def msgs_inc_def ifthen_def)

lemma tail_link_on:
  assumes "on_queue s xs" "mp \<notin> set xs"
  shows "on_queue (tail_link mp s) (xs @ [mp])"
  using assms by (cases xs rule: rev_cases) (auto simp: on_queue_def tail_link_def msgs_inc_def ifthen_def)

section \<open>Bands\<close>

lemma find_qband_loop_eq:
  "length qbs = unat n \<Longrightarrow> band \<le> n \<Longrightarrow> find_qband_loop qbs n band i =
    (if band = 0 then None else Some (i + (unat n - unat band)))"
proof (induction qbs n band i rule: find_qband_loop.induct)
  case (1 n band i)
  then show ?case by (simp add: word_le_nat_alt unat_eq_zero)
next
  case (2 qb qbs n band i)
  show ?case
  proof (cases "band < n")
    case True
    have n: "unat (n - 1) = unat n - 1" using 2 by (simp add: unat_minus_one unat_eq_zero[symmetric])
    have "band \<le> n - 1" using True n by (simp add: word_le_nat_alt word_less_nat_alt)
    moreover have "length qbs = unat (n - 1)" using 2 n by simp
    ultimately show ?thesis using 2 True n
      by (auto simp: word_less_nat_alt)
  next
    case False
    then have "band = n" using 2 by simp
    moreover have "n \<noteq> 0" using 2 by auto
    ultimately show ?thesis by simp
  qed
qed

definition bands_ok :: "queue \<Rightarrow> bool" where
  "bands_ok q \<longleftrightarrow> length (q_bandp q) = unat (q_nband q)"

lemma find_qband_eq:
  "bands_ok q \<Longrightarrow> 0 < band \<Longrightarrow> band \<le> q_nband q \<Longrightarrow> find_qband q band = Some (unat (q_nband q) - unat band)"
  by (simp add: find_qband_def bands_ok_def find_qband_loop_eq word_gt_0)

text \<open>Getting a band adds structures in front of the list, one for each band number, and nothing else.\<close>

definition grow :: "nat \<Rightarrow> bool list \<Rightarrow> qctx \<Rightarrow> qctx" where
  "grow j as s = s\<lparr>allocs := as, que := (que s)\<lparr>q_bandp := replicate j (new_qband (que s)) @ q_bandp (que s),
     q_nband := q_nband (que s) + of_nat j\<rparr>\<rparr>"

lemma get_qband_loop_grow:
  assumes "q_nband (que s) < band"
  shows "\<exists>j as. snd (get_qband_loop band s) = grow j as s \<and> unat (q_nband (que s)) + j \<le> unat band \<and>
    (fst (get_qband_loop band s) = Some 0 \<and> unat (q_nband (que s)) + j = unat band \<or> fst (get_qband_loop band s) = None)"
  using assms
proof (induction band s rule: get_qband_loop.induct)
  case (1 band s)
  let ?q = "que s"
  have one: "unat (q_nband ?q + 1) = unat (q_nband ?q) + 1"
    using "1.prems" unsigned_less[of band, where 'a = nat] by (simp add: word_less_nat_alt unat_word_ariths)
  show ?case
  proof (cases "allocs s")
    case Nil
    then show ?thesis using "1.prems"
      by (intro exI[of _ 0] exI[of _ "[]"]) (simp add: get_qband_loop.simps[of band s] grow_def word_less_nat_alt)
  next
    case (Cons a as)
    show ?thesis
    proof (cases a)
      case False
      then show ?thesis using Cons "1.prems"
        by (intro exI[of _ 0] exI[of _ as]) (simp add: get_qband_loop.simps[of band s] grow_def word_less_nat_alt)
    next
      case True
      let ?s = "s\<lparr>allocs := as, que := ?q\<lparr>q_bandp := new_qband ?q # q_bandp ?q, q_nband := q_nband ?q + 1\<rparr>\<rparr>"
      show ?thesis
      proof (cases "q_nband ?q + 1 < band")
        case more: True
        then have e: "get_qband_loop band s = get_qband_loop band ?s"
          using Cons True by (simp add: get_qband_loop.simps[of band s] Let_def)
        obtain j bs where j: "snd (get_qband_loop band ?s) = grow j bs ?s" "unat (q_nband ?q) + 1 + j \<le> unat band"
          "fst (get_qband_loop band ?s) = Some 0 \<and> unat (q_nband ?q) + 1 + j = unat band \<or>
           fst (get_qband_loop band ?s) = None"
          using "1.IH"[of True as ?q ?s] Cons True more one by auto
        have "grow j bs ?s = grow (Suc j) bs s"
          by (simp add: grow_def new_qband_def replicate_app_Cons_same add.assoc)
        then show ?thesis using j e by (intro exI[of _ "Suc j"] exI[of _ bs]) auto
      next
        case False
        then have "unat band = unat (q_nband ?q) + 1"
          using "1.prems" one by (simp add: word_less_nat_alt)
        then show ?thesis using Cons True False
          by (intro exI[of _ 1] exI[of _ as]) (simp add: get_qband_loop.simps[of band s] grow_def Let_def)
      qed
    qed
  qed
qed

lemma grow_simps [simp]:
  "mem (grow j as s) = mem s" "q_first (que (grow j as s)) = q_first (que s)" "q_last (que (grow j as s)) = q_last (que s)"
  "q_count (que (grow j as s)) = q_count (que s)" "q_flag (que (grow j as s)) = q_flag (que s)"
  "q_msgs (que (grow j as s)) = q_msgs (que s)" "q_blocked (que (grow j as s)) = q_blocked (que s)"
  "q_hiwat (que (grow j as s)) = q_hiwat (que s)" "q_lowat (que (grow j as s)) = q_lowat (que s)"
  "q_bandp (que (grow j as s)) = replicate j (new_qband (que s)) @ q_bandp (que s)"
  by (simp_all add: grow_def)

lemma on_queue_grow [simp]: "on_queue (grow j as s) xs = on_queue s xs"
  by (simp add: on_queue_def)

lemma grow_nothing: "grow 0 (allocs s) s = s"
  by (simp add: grow_def)

text \<open>\<open>__get_qband\<close> gives the structure of the band asked for, or none.\<close>

lemma get_qband_spec:
  assumes "bands_ok (que s)" "0 < band"
  obtains j as where "snd (get_qband band s) = grow j as s" "unat (q_nband (que (grow j as s))) = unat (q_nband (que s)) + j"
    "bands_ok (que (grow j as s))"
    "fst (get_qband band s) = None \<or> band \<le> q_nband (que (grow j as s)) \<and>
       fst (get_qband band s) = Some (unat (q_nband (que (grow j as s))) - unat band)"
proof (cases "band \<le> q_nband (que s)")
  case True
  then show ?thesis using that[of 0 "allocs s"] assms
    by (simp add: get_qband_def grow_nothing find_qband_eq)
next
  case False
  then obtain j as where j: "snd (get_qband_loop band s) = grow j as s" "unat (q_nband (que s)) + j \<le> unat band"
    "fst (get_qband_loop band s) = Some 0 \<and> unat (q_nband (que s)) + j = unat band \<or> fst (get_qband_loop band s) = None"
    using get_qband_loop_grow[of s band] by (auto simp: not_le)
  have n: "unat (q_nband (que (grow j as s))) = unat (q_nband (que s)) + j"
    using j(2) unsigned_less[of band, where 'a = nat] by (simp add: grow_def unat_word_ariths unat_of_nat)
  show ?thesis
  proof (rule that[of j as])
    show "bands_ok (que (grow j as s))" using assms(1) n by (simp add: bands_ok_def)
    show "fst (get_qband band s) = None \<or> band \<le> q_nband (que (grow j as s)) \<and>
       fst (get_qband band s) = Some (unat (q_nband (que (grow j as s))) - unat band)"
      using j(3) n False by (auto simp: get_qband_def word_le_nat_alt)
  qed (use j n False in \<open>simp_all add: get_qband_def\<close>)
qed

end
