(* ===== verification/STR_Order.thy ===== *)
theory STR_Order
  imports STR_Chain
begin

text \<open>
  The order of the messages on a STREAMS queue: high priority messages first, then the bands from the highest down
  to band zero.  Each operation is shown to do to the list what its specification says: put behind the messages of
  the same priority, put back before them, take the first, take out, flush; and to keep the order.
\<close>

section \<open>Priorities\<close>

definition prio :: "msgb \<Rightarrow> nat" where
  "prio b = (if is_pri b then 256 else unat (b_band b))"

lemma prio_pri: "prio b = 256 \<longleftrightarrow> is_pri b"
  using unsigned_less[of "b_band b", where 'a = nat] by (auto simp: prio_def)

lemma prio_le: "prio b \<le> 256"
  using unsigned_less[of "b_band b", where 'a = nat] by (auto simp: prio_def)

text \<open>A list behind whose messages of priority at least \<open>k\<close> a new one goes; and one put before those of priority at
  most \<open>k\<close>.\<close>

definition behind :: "(nat \<Rightarrow> nat) \<Rightarrow> nat \<Rightarrow> nat list \<Rightarrow> nat list" where
  "behind pr x xs = takeWhile (\<lambda>y. pr x \<le> pr y) xs @ x # dropWhile (\<lambda>y. pr x \<le> pr y) xs"

definition before :: "(nat \<Rightarrow> nat) \<Rightarrow> nat \<Rightarrow> nat list \<Rightarrow> nat list" where
  "before pr x xs = takeWhile (\<lambda>y. pr x < pr y) xs @ x # dropWhile (\<lambda>y. pr x < pr y) xs"

definition descending :: "(nat \<Rightarrow> nat) \<Rightarrow> nat list \<Rightarrow> bool" where
  "descending pr = sorted_wrt (\<lambda>x y. pr y \<le> pr x)"

lemma set_placed [simp]: "set (behind pr x xs) = insert x (set xs)" "set (before pr x xs) = insert x (set xs)"
  by (auto simp: behind_def before_def dest: set_takeWhileD set_dropWhileD)
    (metis UnE set_append takeWhile_dropWhile_id)+

lemma distinct_placed [simp]:
  "x \<notin> set xs \<Longrightarrow> distinct (behind pr x xs) = distinct xs" "x \<notin> set xs \<Longrightarrow> distinct (before pr x xs) = distinct xs"
  using distinct_append[of "takeWhile P xs" "dropWhile P xs" for P]
  by (auto simp: behind_def before_def dest: set_takeWhileD set_dropWhileD)

lemma descending_Cons: "descending pr (x # xs) \<longleftrightarrow> (\<forall>y \<in> set xs. pr y \<le> pr x) \<and> descending pr xs"
  by (simp add: descending_def)

lemma descending_cong: "(\<And>x. x \<in> set xs \<Longrightarrow> pr x = pr' x) \<Longrightarrow> descending pr xs = descending pr' xs"
  by (induction xs) (auto simp: descending_def)

lemma behind_Cons: "behind pr x (y # ys) = (if pr x \<le> pr y then y # behind pr x ys else x # y # ys)"
  by (simp add: behind_def)

lemma before_Cons: "before pr x (y # ys) = (if pr x < pr y then y # before pr x ys else x # y # ys)"
  by (simp add: before_def)

lemma placed_Nil [simp]: "behind pr x [] = [x]" "before pr x [] = [x]"
  by (simp_all add: behind_def before_def)

lemma descending_behind: "descending pr xs \<Longrightarrow> descending pr (behind pr x xs)"
  by (induction xs) (auto simp: descending_Cons behind_Cons)

lemma descending_before: "descending pr xs \<Longrightarrow> descending pr (before pr x xs)"
  by (induction xs) (auto simp: descending_Cons before_Cons)

lemma descending_filter: "descending pr xs \<Longrightarrow> descending pr (filter P xs)"
  by (induction xs) (auto simp: descending_Cons)

lemma descending_nil [simp]: "descending pr []"
  by (simp add: descending_def)

text \<open>Behind everything when nothing has a lower priority; before everything when nothing has a higher one.\<close>

lemma behind_lowest: "(\<And>y. y \<in> set xs \<Longrightarrow> pr x \<le> pr y) \<Longrightarrow> behind pr x xs = xs @ [x]"
  by (simp add: behind_def takeWhile_eq_all_conv[THEN iffD2] dropWhile_eq_Nil_conv[THEN iffD2])

lemma before_highest: "(\<And>y. y \<in> set xs \<Longrightarrow> pr y \<le> pr x) \<Longrightarrow> before pr x xs = x # xs"
  by (cases xs) (simp_all add: before_Cons leD)

text \<open>Walking over the high priority messages and then over the bands is one walk over the priorities.\<close>

lemma two_walks:
  assumes "sorted_wrt (\<lambda>x y. P y \<longrightarrow> P x) xs" "\<And>x. R x \<longleftrightarrow> P x \<or> Q x"
  shows "takeWhile P xs @ takeWhile Q (dropWhile P xs) = takeWhile R xs \<and> dropWhile Q (dropWhile P xs) = dropWhile R xs"
  using assms
proof (induction xs)
  case (Cons x xs)
  show ?case
  proof (cases "P x")
    case False
    then have "\<And>y. y \<in> set (x # xs) \<Longrightarrow> Q y = R y" using Cons.prems by auto
    then have "takeWhile Q (x # xs) = takeWhile R (x # xs)" "dropWhile Q (x # xs) = dropWhile R (x # xs)"
      by (auto intro!: takeWhile_cong dropWhile_cong simp del: takeWhile.simps dropWhile.simps)
    then show ?thesis using False by simp
  qed (use Cons in auto)
qed simp

section \<open>Ordered queues\<close>

definition ordered :: "qctx \<Rightarrow> nat list \<Rightarrow> bool" where
  "ordered s xs \<longleftrightarrow> descending (\<lambda>x. prio (mem s x)) xs \<and> (\<forall>x \<in> set xs. is_pri (mem s x) \<longrightarrow> b_band (mem s x) = 0)"

lemma ordered_pri_first: "ordered s xs \<Longrightarrow> sorted_wrt (\<lambda>x y. is_pri (mem s y) \<longrightarrow> is_pri (mem s x)) xs"
proof (induction xs)
  case (Cons x xs)
  have "is_pri (mem s x)" if "y \<in> set xs" "is_pri (mem s y)" for y
  proof -
    have "prio (mem s y) \<le> prio (mem s x)" using Cons.prems that(1) by (simp add: ordered_def descending_Cons)
    then have "256 \<le> prio (mem s x)" using that(2) by (simp add: prio_def)
    then show ?thesis using prio_le[of "mem s x"] prio_pri by simp
  qed
  then show ?case using Cons by (auto simp: ordered_def descending_Cons)
qed simp

lemma band_ge_prio: "0 < k \<Longrightarrow> is_pri b \<or> k \<le> b_band b \<longleftrightarrow> unat k \<le> prio b"
  using unsigned_less[of k, where 'a = nat] by (auto simp: prio_def word_le_nat_alt)

lemma band_gt_prio: "is_pri b \<or> k < b_band b \<longleftrightarrow> unat k < prio b"
  using unsigned_less[of k, where 'a = nat] by (auto simp: prio_def word_less_nat_alt)

lemma skip_pri:
  assumes "on_queue s xs"
  shows "skip is_pri (mem s) None (q_first (que s)) =
    Some (final None (takeWhile (\<lambda>x. is_pri (mem s x)) xs), first (dropWhile (\<lambda>x. is_pri (mem s x)) xs) None)"
  using assms skip_chain[of "mem s" None xs is_pri] by (simp add: on_queue_def)

lemma chain_split: "chain h p xs n \<Longrightarrow> xs = ys @ zs \<Longrightarrow> chain h (final p ys) zs n"
  by simp

lemma skip_bands:
  assumes "on_queue s xs" "ordered s xs" "R = (\<lambda>x. is_pri (mem s x) \<or> P (mem s x))"
  shows "skip P (mem s) (final None (takeWhile (\<lambda>x. is_pri (mem s x)) xs))
      (first (dropWhile (\<lambda>x. is_pri (mem s x)) xs) None) =
    Some (final None (takeWhile R xs), first (dropWhile R xs) None)"
proof -
  let ?ps = "takeWhile (\<lambda>x. is_pri (mem s x)) xs" and ?ns = "dropWhile (\<lambda>x. is_pri (mem s x)) xs"
  have c: "chain (mem s) (final None ?ps) ?ns None"
    using on_queueD(4)[OF assms(1)] by (rule chain_split) simp
  have w: "?ps @ takeWhile (\<lambda>x. P (mem s x)) ?ns = takeWhile R xs"
    "dropWhile (\<lambda>x. P (mem s x)) ?ns = dropWhile R xs"
    using two_walks[OF ordered_pri_first[OF assms(2)], of R "\<lambda>x. P (mem s x)"] assms(3) by auto
  show ?thesis using skip_chain[OF c, of P] w by (metis final_append)
qed


section \<open>What each operation does to the list\<close>

text \<open>A message keeps its contents and its priority: only a high priority message's band is cleared.\<close>

definition same_prio :: "nat \<Rightarrow> qctx \<Rightarrow> qctx \<Rightarrow> bool" where
  "same_prio mp s s' \<longleftrightarrow> (\<forall>x. prio (mem s' x) = prio (mem s x) \<and> b_datap (mem s' x) = b_datap (mem s x) \<and>
     b_cont (mem s' x) = b_cont (mem s x) \<and> (x \<noteq> mp \<longrightarrow> b_band (mem s' x) = b_band (mem s x)) \<and>
     (is_pri (mem s mp) \<longrightarrow> b_band (mem s' mp) = 0))"

lemma same_contents_prio: "same_contents s s' \<Longrightarrow> \<not> is_pri (mem s mp) \<Longrightarrow> same_prio mp s s'"
  by (auto simp: same_prio_def same_contents_def prio_def)

lemma ordered_same_prio: "same_prio mp s s' \<Longrightarrow> mp \<notin> set xs \<Longrightarrow> ordered s' xs = ordered s xs"
  by (auto simp: ordered_def same_prio_def)

lemma ordered_placed:
  assumes "same_prio mp s s'" "mp \<notin> set xs" "ordered s xs"
  shows "ordered s' (behind (\<lambda>x. prio (mem s x)) mp xs)" "ordered s' (before (\<lambda>x. prio (mem s x)) mp xs)"
proof -
  have "(\<lambda>x. prio (mem s' x)) = (\<lambda>x. prio (mem s x))" using assms(1) by (simp add: same_prio_def)
  moreover have "b_band (mem s' x) = 0" if "x \<in> insert mp (set xs)" "is_pri (mem s' x)" for x
    using that assms by (cases "x = mp") (auto simp: same_prio_def ordered_def)
  ultimately show "ordered s' (behind (\<lambda>x. prio (mem s x)) mp xs)" "ordered s' (before (\<lambda>x. prio (mem s x)) mp xs)"
    using assms(3) by (auto simp: ordered_def descending_behind descending_before)
qed

lemma queue_link_placed:
  assumes "on_queue s xs" "mp \<notin> set xs"
  shows "on_queue (queue_link mp (final None (takeWhile R xs)) (first (dropWhile R xs) None) s)
    (takeWhile R xs @ mp # dropWhile R xs)"
  using queue_link_on[of s "takeWhile R xs" "dropWhile R xs" mp] assms by simp

text \<open>The result codes: 0 refused, 1 done, 2 done and the queue to be enabled.\<close>

lemma end_outside: "z \<notin> set xs \<Longrightarrow> final None xs \<noteq> Some z" "z \<notin> set xs \<Longrightarrow> first xs None \<noteq> Some z"
  by (auto simp: final_def first_def split: list.split)

lemma final_take_outside: "z \<notin> set xs \<Longrightarrow> final None (takeWhile R xs) \<noteq> Some z"
  by (auto simp: final_def dest: set_takeWhileD last_in_set[THEN set_takeWhileD])

lemma first_drop_outside: "z \<notin> set xs \<Longrightarrow> first (dropWhile R xs) None \<noteq> Some z"
  by (auto simp: first_def split: list.split dest: set_dropWhileD) (metis list.set_intros(1) set_dropWhileD)

lemma queue_link_outside:
  assumes "z \<noteq> mp" "pv \<noteq> Some z" "nx \<noteq> Some z"
  shows "mem (queue_link mp pv nx s) z = mem s z"
  using assms by (auto simp: queue_link_def msgs_inc_def ifthen_def on_ptr_def split: option.split)

lemma queue_link_frame:
  "z \<notin> insert mp (set xs) \<Longrightarrow>
    mem (queue_link mp (final None (takeWhile R xs)) (first (dropWhile R xs) None) s) z = mem s z"
  by (rule queue_link_outside) (auto simp: final_take_outside first_drop_outside)

lemma end_link_frame:
  assumes "on_queue s xs" "z \<notin> insert mp (set xs)"
  shows "mem (head_link mp s) z = mem s z" "mem (tail_link mp s) z = mem s z"
  using assms end_outside[of z xs]
  by (auto simp: head_link_def tail_link_def msgs_inc_def ifthen_def on_ptr_def on_queue_def split: option.split)

definition placed :: "qctx \<Rightarrow> nat \<Rightarrow> nat list \<Rightarrow> nat list \<Rightarrow> (nat \<times> qctx) option \<Rightarrow> bool" where
  "placed s mp xs ys res \<longleftrightarrow> (\<exists>r s'. res = Some (r, s') \<and> r \<le> 2 \<and> on_queue s' (if r = 0 then xs else ys) \<and>
     (\<forall>z. z \<notin> insert mp (set xs) \<longrightarrow> mem s' z = mem s z) \<and>
     (if r = 0 then same_contents s s' \<and> \<not> is_pri (mem s mp) \<and> 0 < b_band (mem s mp) else same_prio mp s s'))"

lemma same_contents_trans: "same_contents s t \<Longrightarrow> same_contents t u \<Longrightarrow> same_contents s u"
  by (simp add: same_contents_def)

lemma same_contents_mem: "mem s' = mem s \<Longrightarrow> same_contents s s'"
  by (simp add: same_contents_def)

lemma putq_pri_placed:
  assumes "on_queue s xs" "ordered s xs" "mp \<notin> set xs" "is_pri (mem s mp)"
  shows "placed s mp xs (behind (\<lambda>x. prio (mem s x)) mp xs) (putq_pri mp insq s)"
proof -
  let ?R = "\<lambda>x. is_pri (mem s x)"
  let ?s1 = "count_in mp (upd_mem mp (b_band_update (\<lambda>_. 0)) s)"
  let ?s2 = "queue_link mp (final None (takeWhile ?R xs)) (first (dropWhile ?R xs) None) ?s1"
  have b: "behind (\<lambda>x. prio (mem s x)) mp xs = takeWhile ?R xs @ mp # dropWhile ?R xs"
  proof -
    have "prio (mem s mp) \<le> prio (mem s x) \<longleftrightarrow> is_pri (mem s x)" for x
      using assms(4) prio_le[of "mem s x"] prio_pri[of "mem s x"] prio_pri[of "mem s mp"] by auto
    then show ?thesis by (simp add: behind_def)
  qed
  have "on_queue ?s1 xs" using assms by (auto simp: on_queue_def)
  then have on: "on_queue ?s2 (takeWhile ?R xs @ mp # dropWhile ?R xs)"
    using assms(3) by (rule queue_link_placed)
  have "same_prio mp s ?s2"
    using links_same_contents(1)[of ?s1 mp] assms(4) by (auto simp: same_prio_def same_contents_def prio_def)
  moreover have "\<forall>z. z \<notin> insert mp (set xs) \<longrightarrow> mem ?s2 z = mem s z"
    using queue_link_frame[of _ mp xs ?R ?s1] by simp
  ultimately show ?thesis using on b skip_pri[OF assms(1)] by (simp add: placed_def putq_pri_def Let_def)
qed

lemma same_contents_acct:
  "same_contents s t \<Longrightarrow> same_contents s (count_in mp t)"
  by (simp add: same_contents_def)

lemma putq_norm_placed:
  assumes "on_queue s xs" "ordered s xs" "mp \<notin> set xs" "\<not> is_pri (mem s mp)" "b_band (mem s mp) = 0"
  shows "placed s mp xs (behind (\<lambda>x. prio (mem s x)) mp xs) (putq_norm mp s)"
proof -
  have "behind (\<lambda>x. prio (mem s x)) mp xs = xs @ [mp]"
    using assms(4,5) by (intro behind_lowest) (simp add: prio_def)
  moreover have "same_prio mp s (count_in mp (tail_link mp s))"
    using same_contents_acct links_same_contents(3) assms(4) by (intro same_contents_prio) blast+
  ultimately show ?thesis
    using tail_link_on[OF assms(1,3)] end_link_frame(2)[OF assms(1)] assms(5)
    by (simp add: placed_def putq_norm_def Let_def)
qed

lemma queue_link_same_prio:
  "same_contents s t \<Longrightarrow> \<not> is_pri (mem s mp) \<Longrightarrow> same_prio mp s (queue_link mp pv nx t)"
  using same_contents_trans[OF _ links_same_contents(1)] by (blast intro: same_contents_prio)

lemma putq_band_placed:
  assumes "on_queue s xs" "ordered s xs" "mp \<notin> set xs" "\<not> is_pri (mem s mp)" "0 < b_band (mem s mp)"
    "bands_ok (que s)"
  shows "placed s mp xs (behind (\<lambda>x. prio (mem s x)) mp xs) (putq_band mp s)"
proof -
  let ?R = "\<lambda>x. is_pri (mem s x) \<or> b_band (mem s mp) \<le> b_band (mem s x)"
  have b: "behind (\<lambda>x. prio (mem s x)) mp xs = takeWhile ?R xs @ mp # dropWhile ?R xs"
    using assms(4) by (simp add: behind_def band_ge_prio[OF assms(5)] prio_def)
  obtain j as where g: "snd (get_qband (b_band (mem s mp)) s) = grow j as s"
    using get_qband_spec[OF assms(6,5)] by metis
  note k = skip_pri[OF assms(1)] skip_bands[OF assms(1,2), of ?R "\<lambda>b. b_band (mem s mp) \<le> b_band b"]
  show ?thesis
  proof (cases "fst (get_qband (b_band (mem s mp)) s)")
    case None
    then have "putq_band mp s = Some (0, grow j as s)"
      using k g by (simp add: putq_band_def prod_eq_iff split: prod.split)
    then show ?thesis using assms by (simp add: placed_def same_contents_mem)
  next
    case (Some i)
    let ?t = "band_link i mp (final None (takeWhile ?R xs)) (first (dropWhile ?R xs) None) (grow j as s)"
    let ?u = "queue_link mp (final None (takeWhile ?R xs)) (first (dropWhile ?R xs) None) ?t"
    have e: "get_qband (b_band (mem s mp)) s = (Some i, grow j as s)" using Some g by (simp add: prod_eq_iff)
    have "on_queue ?u (takeWhile ?R xs @ mp # dropWhile ?R xs)"
      using assms(1,3) by (intro queue_link_placed) simp_all
    moreover have "same_prio mp s ?u" by (rule queue_link_same_prio) (simp_all add: assms(4) same_contents_mem)
    moreover have "\<forall>z. z \<notin> insert mp (set xs) \<longrightarrow> mem ?u z = mem s z"
      using queue_link_frame[of _ mp xs ?R ?t] by simp
    ultimately show ?thesis using k e b by (simp add: putq_band_def placed_def Let_def)
  qed
qed

lemma putbq_band_placed:
  assumes "on_queue s xs" "ordered s xs" "mp \<notin> set xs" "\<not> is_pri (mem s mp)" "0 < b_band (mem s mp)"
    "bands_ok (que s)"
  shows "placed s mp xs (before (\<lambda>x. prio (mem s x)) mp xs) (putbq_band mp s)"
proof -
  let ?R = "\<lambda>x. is_pri (mem s x) \<or> b_band (mem s mp) < b_band (mem s x)"
  have b: "before (\<lambda>x. prio (mem s x)) mp xs = takeWhile ?R xs @ mp # dropWhile ?R xs"
    using assms(4) by (simp add: before_def band_gt_prio prio_def)
  obtain j as where g: "snd (get_qband (b_band (mem s mp)) s) = grow j as s"
    using get_qband_spec[OF assms(6,5)] by metis
  note k = skip_pri[OF assms(1)] skip_bands[OF assms(1,2), of ?R "\<lambda>b. b_band (mem s mp) < b_band b"]
  show ?thesis
  proof (cases "fst (get_qband (b_band (mem s mp)) s)")
    case None
    then have "putbq_band mp s = Some (0, grow j as s)"
      using k g by (simp add: putbq_band_def prod_eq_iff split: prod.split)
    then show ?thesis using assms by (simp add: placed_def same_contents_mem)
  next
    case (Some i)
    let ?t = "band_link i mp (final None (takeWhile ?R xs)) (first (dropWhile ?R xs) None) (grow j as s)"
    let ?u = "queue_link mp (final None (takeWhile ?R xs)) (first (dropWhile ?R xs) None) ?t"
    have e: "get_qband (b_band (mem s mp)) s = (Some i, grow j as s)" using Some g by (simp add: prod_eq_iff)
    have "on_queue ?u (takeWhile ?R xs @ mp # dropWhile ?R xs)"
      using assms(1,3) by (intro queue_link_placed) simp_all
    moreover have "same_prio mp s ?u" by (rule queue_link_same_prio) (simp_all add: assms(4) same_contents_mem)
    moreover have "\<forall>z. z \<notin> insert mp (set xs) \<longrightarrow> mem ?u z = mem s z"
      using queue_link_frame[of _ mp xs ?R ?t] by simp
    ultimately show ?thesis using k e b by (simp add: putbq_band_def placed_def Let_def)
  qed
qed

lemma putbq_norm_placed:
  assumes "on_queue s xs" "ordered s xs" "mp \<notin> set xs" "\<not> is_pri (mem s mp)" "b_band (mem s mp) = 0"
  shows "placed s mp xs (before (\<lambda>x. prio (mem s x)) mp xs) (putbq_norm mp s)"
proof -
  let ?R = "\<lambda>x. is_pri (mem s x) \<or> 0 < b_band (mem s x)"
  have b: "before (\<lambda>x. prio (mem s x)) mp xs = takeWhile ?R xs @ mp # dropWhile ?R xs"
    using assms(4,5) by (simp add: before_def band_gt_prio[of _ 0] prio_def)
  note k = skip_pri[OF assms(1)] skip_bands[OF assms(1,2), of ?R "\<lambda>b. 0 < b_band b"]
  let ?u = "queue_link mp (final None (takeWhile ?R xs)) (first (dropWhile ?R xs) None) s"
  have "on_queue (count_in mp ?u) (takeWhile ?R xs @ mp # dropWhile ?R xs)"
    using queue_link_placed[OF assms(1,3), of ?R] by simp
  moreover have "same_prio mp s (count_in mp ?u)"
    using queue_link_same_prio[of s s mp] assms(4) by (simp add: same_prio_def same_contents_mem)
  moreover have "\<forall>z. z \<notin> insert mp (set xs) \<longrightarrow> mem (count_in mp ?u) z = mem s z"
    using queue_link_frame[of _ mp xs ?R s] by simp
  ultimately show ?thesis using k b assms(5) by (simp add: putbq_norm_def placed_def Let_def)
qed

lemma putbq_pri_placed:
  assumes "on_queue s xs" "ordered s xs" "mp \<notin> set xs" "is_pri (mem s mp)"
  shows "placed s mp xs (before (\<lambda>x. prio (mem s x)) mp xs) (Some (putbq_pri mp s))"
proof -
  have "before (\<lambda>x. prio (mem s x)) mp xs = mp # xs"
    using assms(4) by (intro before_highest) (simp add: prio_def[of "mem s mp"] prio_le)
  moreover have on: "on_queue (upd_mem mp (b_band_update (\<lambda>_. 0)) s) xs" using assms(1,3) by (simp add: on_queue_def)
  note head_link_on[OF on assms(3)]
  moreover have "same_prio mp s (count_in mp (head_link mp (upd_mem mp (b_band_update (\<lambda>_. 0)) s)))"
    using links_same_contents(2)[of "upd_mem mp (b_band_update (\<lambda>_. 0)) s" mp] assms(4)
    by (auto simp: same_prio_def same_contents_def prio_def)
  moreover have "\<forall>z. z \<notin> insert mp (set xs) \<longrightarrow>
      mem (count_in mp (head_link mp (upd_mem mp (b_band_update (\<lambda>_. 0)) s))) z = mem s z"
    using end_link_frame(1)[OF on] by simp
  ultimately show ?thesis by (simp add: placed_def putbq_pri_def)
qed

text \<open>Together: \<open>__putq\<close>, \<open>__putbq\<close> and \<open>__insq\<close> with no message to insert before.\<close>

lemma putq_placed:
  assumes "on_queue s xs" "ordered s xs" "mp \<notin> set xs" "bands_ok (que s)"
  shows "placed s mp xs (behind (\<lambda>x. prio (mem s x)) mp xs) (putq_locked mp s)"
    "placed s mp xs (before (\<lambda>x. prio (mem s x)) mp xs) (putbq_locked mp s)"
    "placed s mp xs (behind (\<lambda>x. prio (mem s x)) mp xs) (insq_locked None mp s)"
  using putq_pri_placed[OF assms(1-3)] putq_norm_placed[OF assms(1-3)] putq_band_placed[OF assms(1-3) _ _ assms(4)]
    putbq_pri_placed[OF assms(1-3)] putbq_norm_placed[OF assms(1-3)] putbq_band_placed[OF assms(1-3) _ _ assms(4)]
  by (auto simp: putq_locked_def putbq_locked_def insq_locked_def putq_insq_def putq_norm_def putbq_norm_def not_less
      word_gt_0)

end
