(* ===== verification/STR_Count.thy ===== *)
theory STR_Count
  imports STR_Order
begin

text \<open>
  The counts of a STREAMS queue: messages on the queue and in each band, octets of band zero and of each band, and
  the number of full bands.  They are derived from the messages on the queue, and every operation keeps them so.
\<close>

section \<open>Effect of the accounting statements\<close>

text \<open>What the statements for a band do to its structure when a message of \<open>n\<close> octets comes and goes.\<close>

definition band_in :: "nat \<Rightarrow> nat \<Rightarrow> nat option \<Rightarrow> nat option \<Rightarrow> qband \<Rightarrow> qband" where
  "band_in n mp pv nx qb = qb\<lparr>
     qb_last := if qb_last qb = pv \<or> qb_last qb = None then Some mp else qb_last qb,
     qb_first := if qb_first qb = nx \<or> qb_first qb = None then Some mp else qb_first qb,
     qb_msgs := qb_msgs qb + 1,
     qb_count := qb_count qb + of_nat n,
     qb_flag := if qb_hiwat qb < qb_count qb + of_nat n then (qb_flag qb)(QB_FULL := True) else qb_flag qb\<rparr>"

definition drained :: "qband \<Rightarrow> bool" where
  "drained qb \<longleftrightarrow> (qb_count qb = 0 \<or> qb_count qb < qb_lowat qb) \<and> qb_flag qb QB_FULL"

definition band_out :: "nat \<Rightarrow> qband \<Rightarrow> qband" where
  "band_out n qb = (let qb = qb\<lparr>qb_msgs := qb_msgs qb - 1, qb_count := qb_count qb - of_nat n\<rparr> in
     if drained qb then qb\<lparr>qb_flag := (qb_flag qb)(QB_FULL := False, QB_WANTW := False)\<rparr> else qb)"

definition add_blocked :: "u8 \<Rightarrow> qctx \<Rightarrow> qctx" where
  "add_blocked n = upd_que (\<lambda>q. q\<lparr>q_blocked := q_blocked q + n\<rparr>)"

lemma add_blocked_0 [simp]: "add_blocked 0 s = s"
  by (simp add: add_blocked_def upd_que_def)

text \<open>Statements on one band compose to one update of its structure.\<close>

lemma upd_band_comp: "i < length (q_bandp (que s)) \<Longrightarrow> upd_band i f (upd_band i g s) = upd_band i (\<lambda>_. f (g (band_at s i))) s"
  by (simp add: upd_band_def upd_que_def)

lemma upd_band_const: "upd_band i f s = upd_band i (\<lambda>_. f (band_at s i)) s"
  by (simp add: upd_band_def upd_que_def)

lemma upd_band_same: "upd_band i (\<lambda>_. band_at s i) s = s"
  by (simp add: upd_band_def upd_que_def)

lemma ifthen_band:
  "ifthen (\<lambda>s. P (band_at s i)) (upd_band i f) s = upd_band i (\<lambda>_. if P (band_at s i) then f (band_at s i) else band_at s i) s"
  using upd_band_const[of i f s] by (simp add: ifthen_def upd_band_same)

lemma band_count_in_eq:
  assumes "i < length (q_bandp (que s))"
  shows "band_count_in i mp s =
    (let qb = (band_at s i)\<lparr>qb_count := qb_count (band_at s i) + of_nat (msgsize (mem s mp))\<rparr>;
         full = (qb_hiwat qb < qb_count qb)
     in add_blocked (of_bool (full \<and> \<not> qb_flag qb QB_FULL))
          (upd_band i (\<lambda>_. if full then qb\<lparr>qb_flag := (qb_flag qb)(QB_FULL := True)\<rparr> else qb) s))"
proof -
  define qb where "qb = (band_at s i)\<lparr>qb_count := qb_count (band_at s i) + of_nat (msgsize (mem s mp))\<rparr>"
  define t where "t = upd_band i (\<lambda>_. qb) s"
  have t: "band_at t i = qb" "mem t = mem s" using assms by (simp_all add: t_def)
  have i: "i < length (q_bandp (que t))" using assms by (simp add: t_def)
  have b: "band_count_in i mp s = ifthen (\<lambda>s. qb_hiwat (band_at s i) < qb_count (band_at s i))
      (ifthen (\<lambda>s. \<not> qb_flag (band_at s i) QB_FULL) (\<lambda>s. steps [
         upd_band i (\<lambda>qb. qb\<lparr>qb_flag := (qb_flag qb)(QB_FULL := True)\<rparr>),
         upd_que (\<lambda>q. q\<lparr>q_blocked := q_blocked q + 1\<rparr>)] s)) t"
    using upd_band_const[of i "\<lambda>qb. qb\<lparr>qb_count := qb_count qb + of_nat (msgsize (mem s mp))\<rparr>" s]
    by (simp add: band_count_in_def t_def qb_def)
  have f: "upd_band i (\<lambda>q. q\<lparr>qb_flag := (qb_flag q)(QB_FULL := True)\<rparr>) t =
      upd_band i (\<lambda>_. qb\<lparr>qb_flag := (qb_flag qb)(QB_FULL := True)\<rparr>) s"
    unfolding t_def by (simp add: upd_band_comp[OF assms])
  have "qb\<lparr>qb_flag := (qb_flag qb)(QB_FULL := True)\<rparr> = qb" if "qb_flag qb QB_FULL"
    using that by (simp add: fun_upd_idem)
  then show ?thesis
    unfolding b qb_def[symmetric] Let_def using f t
    by (simp add: ifthen_def add_blocked_def[symmetric] t_def[symmetric])
qed

lemma band_link_eq:
  assumes "i < length (q_bandp (que s))"
  shows "band_link i mp pv nx s =
    (let qb = band_at s i; qb' = band_in (msgsize (mem s mp)) mp pv nx qb in
     add_blocked (of_bool (qb_flag qb' QB_FULL \<and> \<not> qb_flag qb QB_FULL)) (upd_band i (\<lambda>_. qb') s))"
proof -
  define qb where "qb = band_at s i"
  define q3 where "q3 = qb\<lparr>qb_last := if qb_last qb = pv \<or> qb_last qb = None then Some mp else qb_last qb,
     qb_first := if qb_first qb = nx \<or> qb_first qb = None then Some mp else qb_first qb, qb_msgs := qb_msgs qb + 1\<rparr>"
  define t where "t = upd_band i (\<lambda>_. q3) s"
  have "band_link i mp pv nx s = band_count_in i mp t"
    using assms
    by (simp add: band_link_def ifthen_band upd_band_comp upd_band_const[of _ "\<lambda>qb. qb\<lparr>qb_msgs := qb_msgs qb + 1\<rparr>"]
        t_def q3_def qb_def[symmetric])
  moreover have "band_at t i = q3" "mem t = mem s" "i < length (q_bandp (que t))" using assms by (simp_all add: t_def)
  ultimately have e: "band_link i mp pv nx s =
    (let q = q3\<lparr>qb_count := qb_count q3 + of_nat (msgsize (mem s mp))\<rparr>; full = (qb_hiwat q < qb_count q)
     in add_blocked (of_bool (full \<and> \<not> qb_flag q QB_FULL))
          (upd_band i (\<lambda>_. if full then q\<lparr>qb_flag := (qb_flag q)(QB_FULL := True)\<rparr> else q) t))"
    by (simp add: band_count_in_eq)
  have u: "upd_band i (\<lambda>_. q) t = upd_band i (\<lambda>_. q) s" for q using assms by (simp add: t_def upd_band_comp)
  show ?thesis unfolding e u Let_def qb_def[symmetric]
    by (simp add: q3_def band_in_def)
qed

lemma band_count_out_eq:
  assumes "i < length (q_bandp (que s))"
  shows "band_count_out i mp s =
    (let qb = band_at s i; qb' = band_out (msgsize (mem s mp)) qb in
     (qb_flag qb QB_FULL \<and> \<not> qb_flag qb' QB_FULL \<and> qb_flag qb QB_WANTW,
      add_blocked (- of_bool (qb_flag qb QB_FULL \<and> \<not> qb_flag qb' QB_FULL)) (upd_band i (\<lambda>_. qb') s)))"
proof -
  define qb where "qb = (band_at s i)\<lparr>qb_msgs := qb_msgs (band_at s i) - 1,
    qb_count := qb_count (band_at s i) - of_nat (msgsize (mem s mp))\<rparr>"
  define t where "t = upd_band i (\<lambda>_. qb) s"
  define t' where "t' = add_blocked (- 1) (upd_band i (\<lambda>_. qb\<lparr>qb_flag := (qb_flag qb)(QB_FULL := False)\<rparr>) s)"
  have t: "band_at t i = qb" using assms by (simp add: t_def)
  have t': "band_at t' i = qb\<lparr>qb_flag := (qb_flag qb)(QB_FULL := False)\<rparr>"
    using assms by (simp add: t'_def add_blocked_def)
  have w: "upd_band i (\<lambda>_. q) t' = add_blocked (- 1) (upd_band i (\<lambda>_. q) s)" for q
    using assms by (simp add: t'_def add_blocked_def upd_band_def upd_que_def)
  have b: "band_count_out i mp s = (if drained qb then
      (if qb_flag qb QB_WANTW
       then (True, upd_band i (\<lambda>_. qb\<lparr>qb_flag := (qb_flag qb)(QB_FULL := False, QB_WANTW := False)\<rparr>) t')
       else (False, t')) else (False, t))"
  proof -
    have "steps [upd_band i (\<lambda>qb. qb\<lparr>qb_msgs := qb_msgs qb - 1\<rparr>),
        upd_band i (\<lambda>qb. qb\<lparr>qb_count := qb_count qb - of_nat (msgsize (mem s mp))\<rparr>)] s = t"
      using assms by (simp add: upd_band_comp t_def qb_def)
    moreover have "steps [upd_band i (\<lambda>qb. qb\<lparr>qb_flag := (qb_flag qb)(QB_FULL := False)\<rparr>),
        upd_que (\<lambda>q. q\<lparr>q_blocked := q_blocked q - 1\<rparr>)] t = t'"
      using assms by (simp add: upd_band_comp t_def t'_def add_blocked_def)
    moreover have "upd_band i (\<lambda>qb. qb\<lparr>qb_flag := (qb_flag qb)(QB_WANTW := False)\<rparr>) t' =
        upd_band i (\<lambda>_. qb\<lparr>qb_flag := (qb_flag qb)(QB_FULL := False, QB_WANTW := False)\<rparr>) t'"
      by (subst upd_band_const) (simp add: t')
    ultimately show ?thesis by (simp add: band_count_out_def Let_def t t' drained_def)
  qed
  have o: "band_out (msgsize (mem s mp)) (band_at s i) =
      (if drained qb then qb\<lparr>qb_flag := (qb_flag qb)(QB_FULL := False, QB_WANTW := False)\<rparr> else qb)"
    by (simp add: band_out_def qb_def Let_def)
  have f: "qb_flag qb = qb_flag (band_at s i)" by (simp add: qb_def)
  have n: "qb\<lparr>qb_flag := (qb_flag qb)(QB_FULL := False, QB_WANTW := False)\<rparr> = qb\<lparr>qb_flag := (qb_flag qb)(QB_FULL := False)\<rparr>"
    if "\<not> qb_flag qb QB_WANTW"
    using that by (simp add: fun_upd_idem)
  have d: "qb_flag qb QB_FULL" if "drained qb" using that by (simp add: drained_def)
  show ?thesis
  proof (cases "drained qb")
    case False
    then show ?thesis unfolding b o Let_def by (simp add: f[symmetric] t_def)
  next
    case True
    then show ?thesis unfolding b o Let_def using d
      by (cases "qb_flag qb QB_WANTW") (simp_all add: f[symmetric] w n t'_def[symmetric])
  qed
qed

lemma band_out_simps [simp]:
  "qb_msgs (band_out n qb) = qb_msgs qb - 1" "qb_count (band_out n qb) = qb_count qb - of_nat n"
  "qb_flag (band_out n qb) QB_FULL \<Longrightarrow> qb_flag qb QB_FULL"
  by (auto simp: band_out_def Let_def split: if_splits)

lemma not_drained: "\<not> drained qb \<Longrightarrow> qb_flag qb QB_FULL \<Longrightarrow> qb_count qb \<noteq> 0"
  by (simp add: drained_def)

lemma band_out_flow:
  "qb_flag (band_out n qb) QB_FULL \<Longrightarrow> qb_count (band_out n qb) \<noteq> 0"
  "qb_flag qb QB_WANTW \<longrightarrow> qb_flag qb QB_FULL \<Longrightarrow> qb_flag (band_out n qb) QB_WANTW \<longrightarrow> qb_flag (band_out n qb) QB_FULL"
proof -
  define q where "q = qb\<lparr>qb_msgs := qb_msgs qb - 1, qb_count := qb_count qb - of_nat n\<rparr>"
  have o: "band_out n qb = (if drained q then q\<lparr>qb_flag := (qb_flag q)(QB_FULL := False, QB_WANTW := False)\<rparr> else q)"
    by (simp add: band_out_def q_def Let_def)
  have f: "qb_flag qb = qb_flag q" by (simp add: q_def)
  show "qb_flag (band_out n qb) QB_FULL \<Longrightarrow> qb_count (band_out n qb) \<noteq> 0"
    unfolding o using not_drained[of q] by (cases "drained q") simp_all
  show "qb_flag qb QB_WANTW \<longrightarrow> qb_flag qb QB_FULL \<Longrightarrow> qb_flag (band_out n qb) QB_WANTW \<longrightarrow> qb_flag (band_out n qb) QB_FULL"
    unfolding o f by (cases "drained q") simp_all
qed

lemma band_in_wantw [simp]: "qb_flag (band_in n mp pv nx qb) QB_WANTW = qb_flag qb QB_WANTW"
  by (simp add: band_in_def)

lemma band_in_simps [simp]:
  "qb_msgs (band_in n mp pv nx qb) = qb_msgs qb + 1" "qb_count (band_in n mp pv nx qb) = qb_count qb + of_nat n"
  "qb_flag qb QB_FULL \<Longrightarrow> qb_flag (band_in n mp pv nx qb) QB_FULL"
  by (simp_all add: band_in_def)

lemma add_blocked_simps [simp]:
  "mem (add_blocked n s) = mem s" "q_first (que (add_blocked n s)) = q_first (que s)"
  "q_last (que (add_blocked n s)) = q_last (que s)" "q_count (que (add_blocked n s)) = q_count (que s)"
  "q_flag (que (add_blocked n s)) = q_flag (que s)" "q_msgs (que (add_blocked n s)) = q_msgs (que s)"
  "q_nband (que (add_blocked n s)) = q_nband (que s)" "q_bandp (que (add_blocked n s)) = q_bandp (que s)"
  "q_blocked (que (add_blocked n s)) = q_blocked (que s) + n" "q_hiwat (que (add_blocked n s)) = q_hiwat (que s)"
  "q_lowat (que (add_blocked n s)) = q_lowat (que s)"
  by (simp_all add: add_blocked_def)

text \<open>The fields of the queue that the linking statements and the counts of band zero touch.\<close>

lemma queue_link_fields [simp]:
  "q_count (que (queue_link mp pv nx s)) = q_count (que s)" "q_flag (que (queue_link mp pv nx s)) = q_flag (que s)"
  "q_msgs (que (queue_link mp pv nx s)) = q_msgs (que s) + 1" "q_nband (que (queue_link mp pv nx s)) = q_nband (que s)"
  "q_bandp (que (queue_link mp pv nx s)) = q_bandp (que s)" "q_blocked (que (queue_link mp pv nx s)) = q_blocked (que s)"
  "q_hiwat (que (queue_link mp pv nx s)) = q_hiwat (que s)" "q_lowat (que (queue_link mp pv nx s)) = q_lowat (que s)"
  by (auto simp: queue_link_def msgs_inc_def ifthen_def on_ptr_def split: option.split)

lemma head_link_fields [simp]:
  "q_count (que (head_link mp s)) = q_count (que s)" "q_flag (que (head_link mp s)) = q_flag (que s)"
  "q_msgs (que (head_link mp s)) = q_msgs (que s) + 1" "q_nband (que (head_link mp s)) = q_nband (que s)"
  "q_bandp (que (head_link mp s)) = q_bandp (que s)" "q_blocked (que (head_link mp s)) = q_blocked (que s)"
  "q_hiwat (que (head_link mp s)) = q_hiwat (que s)" "q_lowat (que (head_link mp s)) = q_lowat (que s)"
  by (auto simp: head_link_def msgs_inc_def ifthen_def on_ptr_def split: option.split)

lemma tail_link_fields [simp]:
  "q_count (que (tail_link mp s)) = q_count (que s)" "q_flag (que (tail_link mp s)) = q_flag (que s)"
  "q_msgs (que (tail_link mp s)) = q_msgs (que s) + 1" "q_nband (que (tail_link mp s)) = q_nband (que s)"
  "q_bandp (que (tail_link mp s)) = q_bandp (que s)" "q_blocked (que (tail_link mp s)) = q_blocked (que s)"
  "q_hiwat (que (tail_link mp s)) = q_hiwat (que s)" "q_lowat (que (tail_link mp s)) = q_lowat (que s)"
  by (auto simp: tail_link_def msgs_inc_def ifthen_def on_ptr_def split: option.split)

lemma rmvq_unlink_fields [simp]:
  "q_count (que (rmvq_unlink mp s)) = q_count (que s)" "q_flag (que (rmvq_unlink mp s)) = q_flag (que s)"
  "q_msgs (que (rmvq_unlink mp s)) = q_msgs (que s) - 1" "q_nband (que (rmvq_unlink mp s)) = q_nband (que s)"
  "q_bandp (que (rmvq_unlink mp s)) = q_bandp (que s)" "q_blocked (que (rmvq_unlink mp s)) = q_blocked (que s)"
  "q_hiwat (que (rmvq_unlink mp s)) = q_hiwat (que s)" "q_lowat (que (rmvq_unlink mp s)) = q_lowat (que s)"
  by (auto simp: rmvq_unlink_def msgs_dec_def ifthen_def on_ptr_def Let_def split: option.split)

lemma getq_unlink_fields [simp]:
  "q_count (que (getq_unlink mp s)) = q_count (que s)" "q_flag (que (getq_unlink mp s)) = q_flag (que s)"
  "q_msgs (que (getq_unlink mp s)) = q_msgs (que s) - 1" "q_nband (que (getq_unlink mp s)) = q_nband (que s)"
  "q_bandp (que (getq_unlink mp s)) = q_bandp (que s)" "q_blocked (que (getq_unlink mp s)) = q_blocked (que s)"
  "q_hiwat (que (getq_unlink mp s)) = q_hiwat (que s)" "q_lowat (que (getq_unlink mp s)) = q_lowat (que s)"
  by (auto simp: getq_unlink_def msgs_dec_def ifthen_def on_ptr_def split: option.split)

lemma count_in_fields [simp]:
  "q_count (que (count_in mp s)) = q_count (que s) + of_nat (msgsize (mem s mp))"
  "q_msgs (que (count_in mp s)) = q_msgs (que s)" "q_nband (que (count_in mp s)) = q_nband (que s)"
  "q_bandp (que (count_in mp s)) = q_bandp (que s)" "q_blocked (que (count_in mp s)) = q_blocked (que s)"
  "q_hiwat (que (count_in mp s)) = q_hiwat (que s)" "q_lowat (que (count_in mp s)) = q_lowat (que s)"
  "q_flag (que (count_in mp s)) = (if q_hiwat (que s) < q_count (que s) + of_nat (msgsize (mem s mp))
     then (q_flag (que s))(QFULL := True) else q_flag (que s))"
  by (simp_all add: count_in_def ifthen_def)

text \<open>Band zero when a message leaves.\<close>

definition q_drained :: "queue \<Rightarrow> bool" where
  "q_drained q \<longleftrightarrow> (q_count q = 0 \<or> q_count q < q_lowat q) \<and> q_flag q QFULL"

lemma count_out_eq:
  "count_out mp s =
    (let q = que s; q' = q\<lparr>q_count := q_count q - of_nat (msgsize (mem s mp))\<rparr> in
     (q_drained q' \<and> q_flag q QWANTW,
      s\<lparr>que := if q_drained q' then q'\<lparr>q_flag := (q_flag q)(QFULL := False, QWANTW := False)\<rparr> else q'\<rparr>))"
  by (auto simp: count_out_def q_drained_def Let_def upd_que_def fun_upd_idem)

lemma not_q_drained: "\<not> q_drained q \<Longrightarrow> q_flag q QFULL \<Longrightarrow> q_count q \<noteq> 0"
  by (simp add: q_drained_def)

lemma count_out_flow:
  "q_flag (que (snd (count_out mp t))) QFULL \<Longrightarrow> q_count (que (snd (count_out mp t))) \<noteq> 0"
  "q_flag (que t) QWANTW \<longrightarrow> q_flag (que t) QFULL \<Longrightarrow>
    q_flag (que (snd (count_out mp t))) QWANTW \<longrightarrow> q_flag (que (snd (count_out mp t))) QFULL"
proof -
  define q where "q = (que t)\<lparr>q_count := q_count (que t) - of_nat (msgsize (mem t mp))\<rparr>"
  have e: "que (snd (count_out mp t)) = (if q_drained q then q\<lparr>q_flag := (q_flag q)(QFULL := False, QWANTW := False)\<rparr> else q)"
    by (simp add: count_out_eq q_def Let_def)
  have f: "q_flag (que t) = q_flag q" by (simp add: q_def)
  show "q_flag (que (snd (count_out mp t))) QFULL \<Longrightarrow> q_count (que (snd (count_out mp t))) \<noteq> 0"
    unfolding e using not_q_drained[of q] by (cases "q_drained q") simp_all
  show "q_flag (que t) QWANTW \<longrightarrow> q_flag (que t) QFULL \<Longrightarrow>
      q_flag (que (snd (count_out mp t))) QWANTW \<longrightarrow> q_flag (que (snd (count_out mp t))) QFULL"
    unfolding e f by (cases "q_drained q") simp_all
qed

lemma count_out_fields [simp]:
  "q_count (que (snd (count_out mp t))) = q_count (que t) - of_nat (msgsize (mem t mp))"
  "q_msgs (que (snd (count_out mp t))) = q_msgs (que t)" "q_nband (que (snd (count_out mp t))) = q_nband (que t)"
  "q_bandp (que (snd (count_out mp t))) = q_bandp (que t)" "q_blocked (que (snd (count_out mp t))) = q_blocked (que t)"
  by (simp_all add: count_out_eq Let_def)

section \<open>Counts\<close>

definition in_band :: "qctx \<Rightarrow> nat set \<Rightarrow> u8 \<Rightarrow> nat set" where
  "in_band s X k = {x \<in> X. b_band (mem s x) = k}"

definition band_bytes :: "qctx \<Rightarrow> nat set \<Rightarrow> u8 \<Rightarrow> nat" where
  "band_bytes s X k = (\<Sum>x \<in> in_band s X k. msgsize (mem s x))"

definition band_no :: "queue \<Rightarrow> u8 \<Rightarrow> qband" where
  "band_no q k = q_bandp q ! (unat (q_nband q) - unat k)"

definition full_bands :: "qband list \<Rightarrow> nat" where
  "full_bands qbs = length (filter (\<lambda>qb. qb_flag qb QB_FULL) qbs)"

text \<open>Flow control: a full band has messages in it, and writers wait for it only while it is full.\<close>

definition flow_ok :: "bool \<Rightarrow> bool \<Rightarrow> nat set \<Rightarrow> bool" where
  "flow_ok full wantw Y \<longleftrightarrow> (full \<longrightarrow> Y \<noteq> {}) \<and> (wantw \<longrightarrow> full)"

definition counted :: "qctx \<Rightarrow> nat set \<Rightarrow> bool" where
  "counted s X \<longleftrightarrow> bands_ok (que s) \<and> q_msgs (que s) = int (card X) \<and> q_count (que s) = of_nat (band_bytes s X 0) \<and>
     (\<forall>x \<in> X. b_band (mem s x) \<le> q_nband (que s)) \<and>
     (\<forall>k. 0 < k \<and> k \<le> q_nband (que s) \<longrightarrow> qb_msgs (band_no (que s) k) = int (card (in_band s X k)) \<and>
        qb_count (band_no (que s) k) = of_nat (band_bytes s X k) \<and>
        flow_ok (qb_flag (band_no (que s) k) QB_FULL) (qb_flag (band_no (que s) k) QB_WANTW) (in_band s X k)) \<and>
     flow_ok (q_flag (que s) QFULL) (q_flag (que s) QWANTW) (in_band s X 0) \<and>
     q_blocked (que s) = of_nat (full_bands (q_bandp (que s)))"

lemma in_band_insert:
  "in_band s (insert x X) k = (if b_band (mem s x) = k then insert x (in_band s X k) else in_band s X k)"
  by (auto simp: in_band_def)

lemma in_band_finite [simp]: "finite X \<Longrightarrow> finite (in_band s X k)"
  by (simp add: in_band_def)

lemma in_band_notin [simp]: "x \<notin> X \<Longrightarrow> x \<notin> in_band s X k"
  by (simp add: in_band_def)

lemma band_bytes_insert:
  "finite X \<Longrightarrow> x \<notin> X \<Longrightarrow> band_bytes s (insert x X) k =
    (if b_band (mem s x) = k then msgsize (mem s x) + band_bytes s X k else band_bytes s X k)"
  by (simp add: band_bytes_def in_band_insert)

lemma card_in_band_insert:
  "finite X \<Longrightarrow> x \<notin> X \<Longrightarrow> card (in_band s (insert x X) k) =
    (if b_band (mem s x) = k then card (in_band s X k) + 1 else card (in_band s X k))"
  by (simp add: in_band_insert)

lemma band_bytes_empty: "in_band s X k = {} \<Longrightarrow> band_bytes s X k = 0"
  by (simp add: band_bytes_def)

text \<open>Bands and octets are those of the messages, whatever else has changed.\<close>

lemma in_band_cong:
  assumes "\<And>x. x \<in> X \<Longrightarrow> b_band (mem s' x) = b_band (mem s x) \<and> msgsize (mem s' x) = msgsize (mem s x)"
  shows "in_band s' X k = in_band s X k" "band_bytes s' X k = band_bytes s X k"
proof -
  show 1: "in_band s' X k = in_band s X k" using assms by (auto simp: in_band_def)
  show "band_bytes s' X k = band_bytes s X k"
    unfolding band_bytes_def 1 using assms by (intro sum.cong) (auto simp: in_band_def)
qed

lemma full_bands_update:
  "i < length qbs \<Longrightarrow> full_bands (qbs[i := qb]) + of_bool (qb_flag (qbs ! i) QB_FULL) =
    full_bands qbs + of_bool (qb_flag qb QB_FULL)"
proof (induction qbs arbitrary: i)
  case (Cons a qbs)
  then show ?case by (cases i) (auto simp: full_bands_def)
qed simp

lemma full_bands_append [simp]: "full_bands (xs @ ys) = full_bands xs + full_bands ys"
  by (simp add: full_bands_def)

lemma full_bands_new [simp]: "full_bands (replicate j (new_qband q)) = 0"
  by (simp add: full_bands_def new_qband_def)

section \<open>Keeping the counts\<close>

lemma countedD:
  assumes "counted s X"
  shows "bands_ok (que s)" "q_msgs (que s) = int (card X)" "q_count (que s) = of_nat (band_bytes s X 0)"
    "x \<in> X \<Longrightarrow> b_band (mem s x) \<le> q_nband (que s)" "q_blocked (que s) = of_nat (full_bands (q_bandp (que s)))"
    "0 < k \<Longrightarrow> k \<le> q_nband (que s) \<Longrightarrow> qb_msgs (band_no (que s) k) = int (card (in_band s X k))"
    "0 < k \<Longrightarrow> k \<le> q_nband (que s) \<Longrightarrow> qb_count (band_no (que s) k) = of_nat (band_bytes s X k)"
    "0 < k \<Longrightarrow> k \<le> q_nband (que s) \<Longrightarrow>
      flow_ok (qb_flag (band_no (que s) k) QB_FULL) (qb_flag (band_no (que s) k) QB_WANTW) (in_band s X k)"
    "flow_ok (q_flag (que s) QFULL) (q_flag (que s) QWANTW) (in_band s X 0)"
  using assms by (simp_all add: counted_def)

lemma counted_cong:
  assumes "\<And>x. x \<in> X \<Longrightarrow> b_band (mem s' x) = b_band (mem s x) \<and> msgsize (mem s' x) = msgsize (mem s x)"
    "q_msgs (que s') = q_msgs (que s)" "q_count (que s') = q_count (que s)" "q_nband (que s') = q_nband (que s)"
    "q_bandp (que s') = q_bandp (que s)" "q_blocked (que s') = q_blocked (que s)"
    "q_flag (que s') QFULL = q_flag (que s) QFULL" "q_flag (que s') QWANTW = q_flag (que s) QWANTW"
  shows "counted s' X = counted s X"
  using in_band_cong[OF assms(1)] assms by (simp add: counted_def bands_ok_def band_no_def)

lemma counted_grow:
  assumes "counted s X" "unat (q_nband (que (grow j as s))) = unat (q_nband (que s)) + j" "bands_ok (que (grow j as s))"
  shows "counted (grow j as s) X"
proof -
  let ?q = "que s" and ?q' = "que (grow j as s)"
  have le: "q_nband ?q \<le> q_nband ?q'" using assms(2) by (simp add: word_le_nat_alt)
  have "qb_msgs (band_no ?q' k) = int (card (in_band s X k)) \<and> qb_count (band_no ?q' k) = of_nat (band_bytes s X k) \<and>
      flow_ok (qb_flag (band_no ?q' k) QB_FULL) (qb_flag (band_no ?q' k) QB_WANTW) (in_band s X k)"
    if k: "0 < k" "k \<le> q_nband ?q'" for k
  proof (cases "k \<le> q_nband ?q")
    case True
    have "band_no ?q' k = band_no ?q k"
      using True assms(2) by (simp add: band_no_def nth_append word_le_nat_alt)
    then show ?thesis using countedD(6-8)[OF assms(1) k(1) True] by simp
  next
    case False
    then have "in_band s X k = {}" using countedD(4)[OF assms(1)] by (auto simp: in_band_def)
    moreover have "band_no ?q' k = new_qband ?q"
      using False k assms(2) by (simp add: band_no_def nth_append word_le_nat_alt)
    ultimately show ?thesis by (simp add: band_bytes_def new_qband_def flow_ok_def)
  qed
  then show ?thesis
    using assms(3) countedD[OF assms(1)] le in_band_cong[of X "grow j as s" s]
    by (auto simp: counted_def intro: order_trans)
qed

lemma counted_add_norm:
  assumes "counted s X" "finite X" "mp \<notin> X" "b_band (mem s' mp) = 0"
    "\<And>x. x \<in> X \<Longrightarrow> b_band (mem s' x) = b_band (mem s x)" "\<And>x. msgsize (mem s' x) = msgsize (mem s x)"
    "q_msgs (que s') = q_msgs (que s) + 1" "q_count (que s') = q_count (que s) + of_nat (msgsize (mem s mp))"
    "q_nband (que s') = q_nband (que s)" "q_bandp (que s') = q_bandp (que s)" "q_blocked (que s') = q_blocked (que s)"
    "q_flag (que s) QFULL \<Longrightarrow> q_flag (que s') QFULL" "q_flag (que s') QWANTW = q_flag (que s) QWANTW"
  shows "counted s' (insert mp X)"
  using countedD[OF assms(1)] assms in_band_cong[of X s' s]
  by (auto simp: counted_def band_bytes_insert card_in_band_insert bands_ok_def band_no_def flow_ok_def in_band_insert)

lemma counted_sub_norm:
  assumes "counted s (insert mp X)" "finite X" "mp \<notin> X" "b_band (mem s mp) = 0"
    "\<And>x. x \<in> X \<Longrightarrow> b_band (mem s' x) = b_band (mem s x)" "\<And>x. msgsize (mem s' x) = msgsize (mem s x)"
    "q_msgs (que s') = q_msgs (que s) - 1" "q_count (que s') = q_count (que s) - of_nat (msgsize (mem s mp))"
    "q_nband (que s') = q_nband (que s)" "q_bandp (que s') = q_bandp (que s)" "q_blocked (que s') = q_blocked (que s)"
    "q_flag (que s') QFULL \<Longrightarrow> q_count (que s') \<noteq> 0" "q_flag (que s') QWANTW \<Longrightarrow> q_flag (que s') QFULL"
  shows "counted s' X"
proof -
  note c = countedD[OF assms(1)]
  have z: "in_band s X 0 \<noteq> {}" if "q_flag (que s') QFULL"
    using assms(12)[OF that] c(3) assms(2-4,8)
      band_bytes_empty[of s X 0] band_bytes_insert[OF assms(2,3), of s 0] by auto
  have e: "in_band s (insert mp X) k = in_band s X k" "band_bytes s (insert mp X) k = band_bytes s X k" if "0 < k" for k
    using that assms(4) by (auto simp: in_band_insert band_bytes_def)
  have k: "qb_msgs (band_no (que s') k) = int (card (in_band s' X k)) \<and>
      qb_count (band_no (que s') k) = of_nat (band_bytes s' X k) \<and>
      flow_ok (qb_flag (band_no (que s') k) QB_FULL) (qb_flag (band_no (que s') k) QB_WANTW) (in_band s' X k)"
    if "0 < k" "k \<le> q_nband (que s')" for k
    using c(6-8)[OF that(1)] e[OF that(1)] that(2) assms(5,6,9,10) in_band_cong[of X s' s] by (simp add: band_no_def)
  have q: "q_count (que s') = of_nat (band_bytes s' X 0)"
    using c(3) assms(2-6,8) in_band_cong[of X s' s] by (simp add: band_bytes_insert)
  show ?thesis
    using c(1,2,4,5) q k z assms in_band_cong[of X s' s] by (auto simp: counted_def bands_ok_def flow_ok_def)
qed

lemma band_no_update:
  assumes "bands_ok q" "0 < b" "b \<le> q_nband q" "0 < k" "k \<le> q_nband q"
    "q_bandp q' = (q_bandp q)[unat (q_nband q) - unat b := qb]" "q_nband q' = q_nband q"
  shows "band_no q' k = (if k = b then qb else band_no q k)"
proof -
  have u: "0 < unat b" "unat b \<le> unat (q_nband q)" "0 < unat k" "unat k \<le> unat (q_nband q)"
    using assms by (simp_all add: word_le_nat_alt word_gt_0 unat_gt_0)
  have "unat (q_nband q) - unat b = unat (q_nband q) - unat k \<longleftrightarrow> b = k"
    using u by (auto simp: word_unat_eq_iff)
  then show ?thesis using assms u by (auto simp: band_no_def bands_ok_def nth_list_update)
qed

lemma counted_add_band:
  assumes "counted s X" "finite X" "mp \<notin> X" "0 < b_band (mem s mp)" "b_band (mem s mp) \<le> q_nband (que s)"
    "\<And>x. b_band (mem s' x) = b_band (mem s x) \<and> msgsize (mem s' x) = msgsize (mem s x)"
    "i = unat (q_nband (que s)) - unat (b_band (mem s mp))"
    "q_msgs (que s') = q_msgs (que s) + 1" "q_count (que s') = q_count (que s)" "q_nband (que s') = q_nband (que s)"
    "q_bandp (que s') = (q_bandp (que s))[i := band_in (msgsize (mem s mp)) mp pv nx (band_at s i)]"
    "q_blocked (que s') = q_blocked (que s) +
       of_bool (qb_flag (band_in (msgsize (mem s mp)) mp pv nx (band_at s i)) QB_FULL \<and> \<not> qb_flag (band_at s i) QB_FULL)"
    "q_flag (que s') = q_flag (que s)"
  shows "counted s' (insert mp X)"
proof -
  note c = countedD[OF assms(1)]
  let ?qb = "band_in (msgsize (mem s mp)) mp pv nx (band_at s i)"
  have i: "i < length (q_bandp (que s))" using c(1) assms(4,5,7) by (simp add: bands_ok_def word_gt_0 unat_gt_0)
      (metis assms(4) diff_less le_zero_eq not_gr_zero unat_gt_0 word_gt_0 word_le_nat_alt)
  have f: "full_bands ((q_bandp (que s))[i := ?qb]) = full_bands (q_bandp (que s)) +
      of_bool (qb_flag ?qb QB_FULL \<and> \<not> qb_flag (band_at s i) QB_FULL)"
    using full_bands_update[OF i, of ?qb] by (auto simp: of_bool_def split: if_splits)
  have b: "band_no (que s') k = (if k = b_band (mem s mp) then ?qb else band_no (que s) k)"
    if "0 < k" "k \<le> q_nband (que s)" for k
    using that band_no_update[OF c(1) assms(4,5), of k "que s'" ?qb] assms(7,10,11) by simp
  have e: "in_band s' Y k = in_band s Y k" "band_bytes s' Y k = band_bytes s Y k" for Y k
    using in_band_cong[of Y s' s] assms(6) by simp_all
  have "band_at s i = band_no (que s) (b_band (mem s mp))" using assms(7) by (simp add: band_no_def)
  then show ?thesis
    using c assms(2-6,8-13) b f
    by (auto simp: counted_def e band_bytes_insert card_in_band_insert bands_ok_def flow_ok_def in_band_insert)
qed

lemma counted_sub_band:
  assumes "counted s (insert mp X)" "finite X" "mp \<notin> X" "0 < b_band (mem s mp)"
    "\<And>x. b_band (mem s' x) = b_band (mem s x) \<and> msgsize (mem s' x) = msgsize (mem s x)"
    "i = unat (q_nband (que s)) - unat (b_band (mem s mp))"
    "q_msgs (que s') = q_msgs (que s) - 1" "q_count (que s') = q_count (que s)" "q_nband (que s') = q_nband (que s)"
    "q_bandp (que s') = (q_bandp (que s))[i := qb]" "qb_msgs qb = qb_msgs (band_at s i) - 1"
    "qb_count qb = qb_count (band_at s i) - of_nat (msgsize (mem s mp))"
    "qb_flag qb QB_FULL \<longrightarrow> qb_flag (band_at s i) QB_FULL"
    "q_blocked (que s') = q_blocked (que s) - of_bool (qb_flag (band_at s i) QB_FULL \<and> \<not> qb_flag qb QB_FULL)"
    "q_flag (que s') = q_flag (que s)" "qb_flag qb QB_FULL \<Longrightarrow> qb_count qb \<noteq> 0"
    "qb_flag (band_at s i) QB_WANTW \<longrightarrow> qb_flag (band_at s i) QB_FULL \<Longrightarrow> qb_flag qb QB_WANTW \<longrightarrow> qb_flag qb QB_FULL"
  shows "counted s' X"
proof -
  note c = countedD[OF assms(1)]
  have le: "b_band (mem s mp) \<le> q_nband (que s)" using c(4) by simp
  have i: "i < length (q_bandp (que s))" using c(1) assms(4,6) le by (simp add: bands_ok_def word_gt_0 unat_gt_0)
      (metis assms(4) diff_less le_zero_eq not_gr_zero unat_gt_0 word_gt_0 word_le_nat_alt)
  have f: "full_bands (q_bandp (que s)) = full_bands ((q_bandp (que s))[i := qb]) +
      of_bool (qb_flag (band_at s i) QB_FULL \<and> \<not> qb_flag qb QB_FULL)"
    using full_bands_update[OF i, of qb] assms(13) by (auto simp: of_bool_def split: if_splits)
  have b: "band_no (que s') k = (if k = b_band (mem s mp) then qb else band_no (que s) k)"
    if "0 < k" "k \<le> q_nband (que s)" for k
    using that band_no_update[OF c(1) assms(4) le, of k "que s'" qb] assms(6,9,10) by simp
  have e: "in_band s' Y k = in_band s Y k" "band_bytes s' Y k = band_bytes s Y k" for Y k
    using in_band_cong[of Y s' s] assms(5) by simp_all
  have a: "band_at s i = band_no (que s) (b_band (mem s mp))" using assms(6) by (simp add: band_no_def)
  have fl: "flow_ok (qb_flag qb QB_FULL) (qb_flag qb QB_WANTW) (in_band s X (b_band (mem s mp)))"
  proof -
    have "in_band s X (b_band (mem s mp)) \<noteq> {}" if "qb_flag qb QB_FULL"
      using assms(16)[OF that] c(7)[OF assms(4) le] assms(12) a
        band_bytes_empty[of s X "b_band (mem s mp)"] band_bytes_insert[OF assms(2,3), of s "b_band (mem s mp)"] by auto
    then show ?thesis using assms(17) c(8)[OF assms(4) le] a by (auto simp: flow_ok_def)
  qed
  have o: "flow_ok (qb_flag (band_no (que s) k) QB_FULL) (qb_flag (band_no (que s) k) QB_WANTW) (in_band s X k)"
    if "0 < k" "k \<le> q_nband (que s)" "k \<noteq> b_band (mem s mp)" for k
    using c(8)[OF that(1,2)] that(3) by (auto simp: in_band_insert)
  have z: "flow_ok (q_flag (que s) QFULL) (q_flag (que s) QWANTW) (in_band s X 0)"
    using c(9) assms(4) by (simp add: in_band_insert word_gt_0)
  show ?thesis
    using c(1-7) assms(2-5,7-15) b f a fl o z
    by (auto simp: counted_def e band_bytes_insert card_in_band_insert bands_ok_def)
qed

end
