(* ===== verification/STR_Invariant.thy ===== *)
theory STR_Invariant
  imports STR_Count
begin

text \<open>
  The invariant of a STREAMS queue, its pointers, order and counts together, and each operation under the lock of
  the queue: it returns, it does to the list of messages what its specification says, and it keeps the invariant.
\<close>

section \<open>The invariant\<close>

definition queue_ok :: "qctx \<Rightarrow> nat list \<Rightarrow> bool" where
  "queue_ok s xs \<longleftrightarrow> on_queue s xs \<and> ordered s xs \<and> counted s (set xs)"

lemma queue_okD:
  assumes "queue_ok s xs"
  shows "on_queue s xs" "ordered s xs" "counted s (set xs)" "distinct xs" "bands_ok (que s)"
  using assms on_queueD(1) countedD(1) by (auto simp: queue_ok_def)

text \<open>Statements that touch neither messages nor pointers nor counts.\<close>

definition same_counts :: "qctx \<Rightarrow> qctx \<Rightarrow> bool" where
  "same_counts s s' \<longleftrightarrow> mem s' = mem s \<and> q_first (que s') = q_first (que s) \<and> q_last (que s') = q_last (que s) \<and>
     q_msgs (que s') = q_msgs (que s) \<and> q_count (que s') = q_count (que s) \<and> q_nband (que s') = q_nband (que s) \<and>
     q_bandp (que s') = q_bandp (que s) \<and> q_blocked (que s') = q_blocked (que s) \<and>
     q_flag (que s') QFULL = q_flag (que s) QFULL \<and> q_flag (que s') QWANTW = q_flag (que s) QWANTW"

lemma queue_ok_same_counts: "same_counts s s' \<Longrightarrow> queue_ok s xs \<Longrightarrow> queue_ok s' xs"
  by (auto simp: queue_ok_def same_counts_def on_queue_def ordered_def counted_cong[of "set xs" s' s])

lemma flags_same_counts [simp]:
  "f \<noteq> QFULL \<Longrightarrow> f \<noteq> QWANTW \<Longrightarrow> same_counts s (set_flag f s)"
  "f \<noteq> QFULL \<Longrightarrow> f \<noteq> QWANTW \<Longrightarrow> same_counts s (clear_flag f s)"
  by (auto simp: same_counts_def)

text \<open>Messages that are not on the queue may be changed by whoever owns them.\<close>

lemma queue_ok_outside:
  assumes "queue_ok s xs" "que s' = que s" "\<And>x. x \<in> set xs \<Longrightarrow> mem s' x = mem s x"
  shows "queue_ok s' xs"
proof -
  have "counted s' (set xs) = counted s (set xs)" using assms(2,3) by (intro counted_cong) simp_all
  moreover have "descending (\<lambda>y. prio (mem s' y)) xs = descending (\<lambda>y. prio (mem s y)) xs"
    using assms(3) by (intro descending_cong) simp
  moreover have "chain (mem s') None xs None = chain (mem s) None xs None" using assms(3) by (intro chain_cong) simp
  ultimately show ?thesis using assms by (simp add: queue_ok_def ordered_def on_queue_def)
qed

section \<open>Putting\<close>

lemma same_contents_msgsize: "same_contents s s' \<Longrightarrow> msgsize (mem s' x) = msgsize (mem s x)"
  by (rule same_contentsD)

lemma band_put_counted:
  assumes "counted s (set xs)" "mp \<notin> set xs" "0 < b_band (mem s mp)" "get_qband (b_band (mem s mp)) s = (Some i, t)"
  shows "counted (queue_link mp pv nx (band_link i mp pv' nx' t)) (insert mp (set xs))"
proof -
  obtain j as where g: "snd (get_qband (b_band (mem s mp)) s) = grow j as s"
    "unat (q_nband (que (grow j as s))) = unat (q_nband (que s)) + j" "bands_ok (que (grow j as s))"
    "fst (get_qband (b_band (mem s mp)) s) = None \<or> b_band (mem s mp) \<le> q_nband (que (grow j as s)) \<and>
       fst (get_qband (b_band (mem s mp)) s) = Some (unat (q_nband (que (grow j as s))) - unat (b_band (mem s mp)))"
    using get_qband_spec[OF countedD(1)[OF assms(1)] assms(3)] by metis
  have t: "t = grow j as s" "mem t = mem s" using g(1) assms(4) by simp_all
  have i: "i = unat (q_nband (que t)) - unat (b_band (mem t mp))" "b_band (mem t mp) \<le> q_nband (que t)"
    using g(4) assms(4) t by simp_all
  have "0 < unat (b_band (mem t mp))" using assms(3) t by (simp add: word_gt_0 unat_gt_0)
  then have l: "i < length (q_bandp (que t))"
    using i g(3) t by (simp add: bands_ok_def word_le_nat_alt)
  let ?s' = "queue_link mp pv nx (band_link i mp pv' nx' t)"
  show ?thesis
  proof (rule counted_add_band[where s = t and i = i and pv = pv' and nx = nx'])
    show "counted t (set xs)" using counted_grow[OF assms(1) g(2,3)] t by simp
    show "b_band (mem ?s' x) = b_band (mem t x) \<and> msgsize (mem ?s' x) = msgsize (mem t x)" for x
      using same_contentsD[OF links_same_contents(1), of mp pv nx "band_link i mp pv' nx' t" x] by simp
  qed (use assms i l t in \<open>simp_all add: band_link_eq Let_def\<close>)
qed

lemma putq_band_counted:
  assumes "counted s (set xs)" "mp \<notin> set xs" "0 < b_band (mem s mp)" "putq_band mp s = Some (r, s')"
  shows "counted s' (if r = 0 then set xs else insert mp (set xs))"
proof (cases "get_qband (b_band (mem s mp)) s")
  case (Pair a t)
  show ?thesis
  proof (cases a)
    case None
    obtain j as where "snd (get_qband (b_band (mem s mp)) s) = grow j as s"
      "unat (q_nband (que (grow j as s))) = unat (q_nband (que s)) + j" "bands_ok (que (grow j as s))"
      using get_qband_spec[OF countedD(1)[OF assms(1)] assms(3)] by metis
    then have "counted t (set xs)" using counted_grow[OF assms(1)] Pair by simp
    then show ?thesis using assms(4) Pair None
      by (auto simp: putq_band_def bind_eq_Some_conv split: prod.splits)
  next
    case (Some i)
    then show ?thesis using assms(4) Pair band_put_counted[OF assms(1-3)]
      by (auto simp: putq_band_def bind_eq_Some_conv Let_def split: prod.splits)
  qed
qed

lemma putbq_band_counted:
  assumes "counted s (set xs)" "mp \<notin> set xs" "0 < b_band (mem s mp)" "putbq_band mp s = Some (r, s')"
  shows "counted s' (if r = 0 then set xs else insert mp (set xs))"
proof (cases "get_qband (b_band (mem s mp)) s")
  case (Pair a t)
  show ?thesis
  proof (cases a)
    case None
    obtain j as where "snd (get_qband (b_band (mem s mp)) s) = grow j as s"
      "unat (q_nband (que (grow j as s))) = unat (q_nband (que s)) + j" "bands_ok (que (grow j as s))"
      using get_qband_spec[OF countedD(1)[OF assms(1)] assms(3)] by metis
    then have "counted t (set xs)" using counted_grow[OF assms(1)] Pair by simp
    then show ?thesis using assms(4) Pair None
      by (auto simp: putbq_band_def bind_eq_Some_conv split: prod.splits)
  next
    case (Some i)
    then show ?thesis using assms(4) Pair band_put_counted[OF assms(1-3)]
      by (auto simp: putbq_band_def bind_eq_Some_conv Let_def split: prod.splits)
  qed
qed

lemma putq_norm_counted:
  assumes "counted s (set xs)" "mp \<notin> set xs" "b_band (mem s mp) = 0" "putq_norm mp s = Some (r, s')"
  shows "counted s' (insert mp (set xs))"
proof -
  have s': "s' = count_in mp (tail_link mp s)" using assms(3,4) by (simp add: putq_norm_def Let_def)
  note c = same_contentsD[OF links_same_contents(3)[of s mp]]
  show ?thesis by (rule counted_add_norm[OF assms(1)]) (use c assms(2,3) s' in simp_all)
qed

lemma putbq_norm_counted:
  assumes "counted s (set xs)" "mp \<notin> set xs" "b_band (mem s mp) = 0" "putbq_norm mp s = Some (r, s')"
  shows "counted s' (insert mp (set xs))"
proof -
  obtain pv nx where s': "s' = count_in mp (queue_link mp pv nx s)"
    using assms(3,4) by (auto simp: putbq_norm_def bind_eq_Some_conv Let_def)
  have m: "same_contents s s'"
    using same_contents_trans[OF links_same_contents(1) same_contents_mem] s' by simp
  note c = same_contentsD[OF m] same_contentsD[OF links_same_contents(1)[of s mp pv nx]]
  show ?thesis by (rule counted_add_norm[OF assms(1)]) (use c assms(2,3) s' in simp_all)
qed

lemma putq_pri_counted:
  assumes "counted s (set xs)" "mp \<notin> set xs" "putq_pri mp insq s = Some (r, s')"
  shows "counted s' (insert mp (set xs))"
proof -
  let ?s1 = "count_in mp (upd_mem mp (b_band_update (\<lambda>_. 0)) s)"
  obtain pv nx where s': "s' = queue_link mp pv nx ?s1"
    using assms(3) by (auto simp: putq_pri_def bind_eq_Some_conv Let_def)
  note c = same_contentsD[OF links_same_contents(1)[of ?s1 mp pv nx]]
  show ?thesis by (rule counted_add_norm[OF assms(1)]) (use c assms(2) s' in \<open>auto simp: msgsize_def\<close>)
qed

lemma putbq_pri_counted:
  assumes "counted s (set xs)" "mp \<notin> set xs"
  shows "counted (snd (putbq_pri mp s)) (insert mp (set xs))"
proof -
  let ?s1 = "upd_mem mp (b_band_update (\<lambda>_. 0)) s"
  note c = same_contentsD[OF links_same_contents(2)[of ?s1 mp]]
  have s': "snd (putbq_pri mp s) = count_in mp (head_link mp ?s1)" by (simp add: putbq_pri_def)
  show ?thesis unfolding s' by (rule counted_add_norm[OF assms(1)]) (use c assms(2) in \<open>auto simp: msgsize_def\<close>)
qed

lemma norm_counted:
  assumes "counted s (set xs)" "mp \<notin> set xs"
  shows "putq_norm mp s = Some (r, s') \<Longrightarrow> counted s' (if r = 0 then set xs else insert mp (set xs))"
    "putbq_norm mp s = Some (r, s') \<Longrightarrow> counted s' (if r = 0 then set xs else insert mp (set xs))"
proof -
  have r: "r \<noteq> 0" if "putq_norm mp s = Some (r, s') \<or> putbq_norm mp s = Some (r, s')" "b_band (mem s mp) = 0"
    using that by (auto simp: putq_norm_def putbq_norm_def bind_eq_Some_conv Let_def)
  show "counted s' (if r = 0 then set xs else insert mp (set xs))" if p: "putq_norm mp s = Some (r, s')"
  proof (cases "b_band (mem s mp) = 0")
    case True
    then show ?thesis using r p putq_norm_counted[OF assms True p] by simp
  next
    case False
    then show ?thesis using p putq_band_counted[OF assms] by (simp add: putq_norm_def word_gt_0)
  qed
  show "counted s' (if r = 0 then set xs else insert mp (set xs))" if p: "putbq_norm mp s = Some (r, s')"
  proof (cases "b_band (mem s mp) = 0")
    case True
    then show ?thesis using r p putbq_norm_counted[OF assms True p] by simp
  next
    case False
    then show ?thesis using p putbq_band_counted[OF assms] by (simp add: putbq_norm_def word_gt_0)
  qed
qed

lemma pri_counted:
  assumes "counted s (set xs)" "mp \<notin> set xs"
  shows "putq_pri mp insq s = Some (r, s') \<Longrightarrow> counted s' (if r = 0 then set xs else insert mp (set xs))"
    "putbq_pri mp s = (r, s') \<Longrightarrow> counted s' (if r = 0 then set xs else insert mp (set xs))"
proof -
  have "r \<noteq> 0" if "putq_pri mp insq s = Some (r, s')"
    using that by (auto simp: putq_pri_def bind_eq_Some_conv Let_def)
  then show "putq_pri mp insq s = Some (r, s') \<Longrightarrow> counted s' (if r = 0 then set xs else insert mp (set xs))"
    using putq_pri_counted[OF assms] by simp
  have "r = 2" if "putbq_pri mp s = (r, s')" using that by (simp add: putbq_pri_def)
  then show "putbq_pri mp s = (r, s') \<Longrightarrow> counted s' (if r = 0 then set xs else insert mp (set xs))"
    using putbq_pri_counted[OF assms] by simp
qed

lemma put_counted:
  assumes "counted s (set xs)" "mp \<notin> set xs"
  shows "putq_locked mp s = Some (r, s') \<Longrightarrow> counted s' (if r = 0 then set xs else insert mp (set xs))"
    "putbq_locked mp s = Some (r, s') \<Longrightarrow> counted s' (if r = 0 then set xs else insert mp (set xs))"
    "insq_locked None mp s = Some (r, s') \<Longrightarrow> counted s' (if r = 0 then set xs else insert mp (set xs))"
  by (cases "db_type (b_datap (mem s mp)) < QPCTL";
      simp add: putq_locked_def putbq_locked_def insq_locked_def putq_insq_def norm_counted[OF assms]
        pri_counted[OF assms] del: if_split)+

text \<open>Putting, putting back and inserting at the end: the operation returns, and either refuses the message for want
  of a band structure, leaving the list as it was, or places it by priority.\<close>

definition puts :: "(nat \<Rightarrow> nat list \<Rightarrow> nat list) \<Rightarrow> nat \<Rightarrow> qctx \<Rightarrow> nat list \<Rightarrow> (nat \<times> qctx) option \<Rightarrow> bool" where
  "puts place mp s xs res \<longleftrightarrow> (\<exists>r s'. res = Some (r, s') \<and> r \<le> 2 \<and> queue_ok s' (if r = 0 then xs else place mp xs) \<and>
     (r = 0 \<longrightarrow> \<not> is_pri (mem s mp) \<and> 0 < b_band (mem s mp)) \<and>
     (\<forall>z. z \<notin> insert mp (set xs) \<longrightarrow> mem s' z = mem s z) \<and>
     (\<forall>x. prio (mem s' x) = prio (mem s x) \<and> b_datap (mem s' x) = b_datap (mem s x)))"

lemma placed_puts:
  assumes "queue_ok s xs" "mp \<notin> set xs" "placed s mp xs ys res" "ys = place mp xs"
    "ys = behind (\<lambda>x. prio (mem s x)) mp xs \<or> ys = before (\<lambda>x. prio (mem s x)) mp xs"
    "\<And>r s'. res = Some (r, s') \<Longrightarrow> counted s' (if r = 0 then set xs else insert mp (set xs))"
  shows "puts place mp s xs res"
proof -
  obtain r s' where r: "res = Some (r, s')" "r \<le> 2" "on_queue s' (if r = 0 then xs else ys)"
    "\<forall>z. z \<notin> insert mp (set xs) \<longrightarrow> mem s' z = mem s z"
    "if r = 0 then same_contents s s' \<and> \<not> is_pri (mem s mp) \<and> 0 < b_band (mem s mp) else same_prio mp s s'"
    using assms(3) unfolding placed_def by blast
  have p: "same_prio mp s s'" using r(5) same_contents_prio by (auto split: if_splits)
  have "ordered s' (if r = 0 then xs else ys)"
    using ordered_placed[OF p assms(2) queue_okD(2)[OF assms(1)]] ordered_same_prio[OF p assms(2)] queue_okD(2)[OF assms(1)]
      assms(5) by auto
  moreover have "set ys = insert mp (set xs)" using assms(5) by auto
  ultimately have "queue_ok s' (if r = 0 then xs else place mp xs)"
    using r(3) assms(4) assms(6)[OF r(1)] by (auto simp: queue_ok_def split: if_splits)
  moreover have "\<forall>x. prio (mem s' x) = prio (mem s x) \<and> b_datap (mem s' x) = b_datap (mem s x)" using p by (simp add: same_prio_def)
  ultimately show ?thesis using r by (auto simp: puts_def split: if_splits)
qed

lemma put_ok:
  assumes "queue_ok s xs" "mp \<notin> set xs"
  shows "puts (behind (\<lambda>x. prio (mem s x))) mp s xs (putq_locked mp s)"
    "puts (before (\<lambda>x. prio (mem s x))) mp s xs (putbq_locked mp s)"
    "puts (behind (\<lambda>x. prio (mem s x))) mp s xs (insq_locked None mp s)"
  using putq_placed[OF queue_okD(1,2)[OF assms(1)] assms(2) queue_okD(5)[OF assms(1)]]
    put_counted[OF queue_okD(3)[OF assms(1)] assms(2)]
  by (blast intro: placed_puts[OF assms])+

section \<open>Taking\<close>

lemma ordered_same_contents: "same_contents s s' \<Longrightarrow> ordered s' xs = ordered s xs"
proof -
  assume c: "same_contents s s'"
  have "(\<lambda>x. prio (mem s' x)) = (\<lambda>x. prio (mem s x))" using same_contentsD[OF c] by (auto simp: prio_def fun_eq_iff)
  then show ?thesis using same_contentsD[OF c] by (simp add: ordered_def)
qed

lemma ordered_filter: "ordered s xs \<Longrightarrow> ordered s (filter P xs)"
  by (auto simp: ordered_def descending_filter)

lemma ordered_take: "ordered s (xs @ mp # ys) \<Longrightarrow> ordered s (xs @ ys)"
  by (auto simp: ordered_def descending_def sorted_wrt_append)

lemma band_index:
  assumes "counted s X" "mp \<in> X" "0 < b_band (mem s mp)"
  shows "find_qband (que s) (b_band (mem s mp)) = Some (unat (q_nband (que s)) - unat (b_band (mem s mp)))"
    "unat (q_nband (que s)) - unat (b_band (mem s mp)) < length (q_bandp (que s))"
proof -
  have le: "b_band (mem s mp) \<le> q_nband (que s)" using countedD(4)[OF assms(1,2)] .
  show "find_qband (que s) (b_band (mem s mp)) = Some (unat (q_nband (que s)) - unat (b_band (mem s mp)))"
    using find_qband_eq[OF countedD(1)[OF assms(1)] assms(3) le] .
  have "0 < unat (b_band (mem s mp))" using assms(3) by (simp add: word_gt_0 unat_gt_0)
  then show "unat (q_nband (que s)) - unat (b_band (mem s mp)) < length (q_bandp (que s))"
    using le countedD(1)[OF assms(1)] by (simp add: bands_ok_def word_le_nat_alt)
qed

text \<open>A statement sequence that unlinks, adjusts the pointers of a band and counts the message out.\<close>

lemma band_taken_counted:
  assumes "counted s (insert mp X)" "finite X" "mp \<notin> X" "0 < b_band (mem s mp)"
    "i = unat (q_nband (que s)) - unat (b_band (mem s mp))"
    "mem t = mem t0" "same_contents s t0" "q_msgs (que t) = q_msgs (que s) - 1" "q_count (que t) = q_count (que s)"
    "q_nband (que t) = q_nband (que s)" "q_blocked (que t) = q_blocked (que s)"
    "q_bandp (que t) = (q_bandp (que s))[i := (q_bandp (que s) ! i)\<lparr>qb_first := f, qb_last := l\<rparr>]"
    "q_flag (que t) = q_flag (que s)"
  shows "counted (snd (band_count_out i mp t)) X"
proof -
  have il: "i < length (q_bandp (que s))" using band_index(2)[OF assms(1) _ assms(4)] assms(5) by simp
  define b where "b = (q_bandp (que s) ! i)\<lparr>qb_first := f, qb_last := l\<rparr>"
  define n where "n = msgsize (mem s mp)"
  define c where "c = band_out n b"
  have n: "msgsize (mem t mp) = n" using same_contentsD(4)[OF assms(7)] assms(6) by (simp add: n_def)
  have bt: "band_at t i = b" using il assms(12) by (simp add: b_def)
  have e: "snd (band_count_out i mp t) = add_blocked (- of_bool (qb_flag b QB_FULL \<and> \<not> qb_flag c QB_FULL)) (upd_band i (\<lambda>_. c) t)"
    using band_count_out_eq[of i t mp] il assms(12) unfolding Let_def n bt c_def by simp
  have bs: "qb_msgs b = qb_msgs (band_at s i)" "qb_count b = qb_count (band_at s i)" "qb_flag b = qb_flag (band_at s i)"
    by (simp_all add: b_def)
  have cs: "qb_msgs c = qb_msgs (band_at s i) - 1" "qb_count c = qb_count (band_at s i) - of_nat (msgsize (mem s mp))"
    "qb_flag c QB_FULL \<longrightarrow> qb_flag (band_at s i) QB_FULL" "qb_flag c QB_FULL \<Longrightarrow> qb_count c \<noteq> 0"
    "qb_flag (band_at s i) QB_WANTW \<longrightarrow> qb_flag (band_at s i) QB_FULL \<Longrightarrow> qb_flag c QB_WANTW \<longrightarrow> qb_flag c QB_FULL"
    using band_out_simps[of n b] band_out_flow[where n = n and qb = b] unfolding bs[symmetric] c_def n_def by blast+
  have m: "b_band (mem t x) = b_band (mem s x) \<and> msgsize (mem t x) = msgsize (mem s x)" for x
    using same_contentsD(1,4)[OF assms(7)] assms(6) by simp
  define s' where "s' = add_blocked (- of_bool (qb_flag b QB_FULL \<and> \<not> qb_flag c QB_FULL)) (upd_band i (\<lambda>_. c) t)"
  have s': "mem s' = mem t" "q_msgs (que s') = q_msgs (que s) - 1" "q_count (que s') = q_count (que s)"
    "q_nband (que s') = q_nband (que s)" "q_bandp (que s') = (q_bandp (que s))[i := c]" "q_flag (que s') = q_flag (que s)"
    "q_blocked (que s') = q_blocked (que s) - of_bool (qb_flag (band_at s i) QB_FULL \<and> \<not> qb_flag c QB_FULL)"
    unfolding s'_def by (simp_all add: assms(8-13) bs(3))
  have "counted s' X"
    using counted_sub_band[OF assms(1-4) _ assms(5) s'(2-5) cs(1-3) s'(7,6) cs(4,5)] m s'(1) by simp
  then show ?thesis unfolding e s'_def .
qed

lemma norm_taken_counted:
  assumes "counted s (insert mp X)" "finite X" "mp \<notin> X" "b_band (mem s mp) = 0"
    "same_contents s t" "q_msgs (que t) = q_msgs (que s) - 1" "q_count (que t) = q_count (que s)"
    "q_nband (que t) = q_nband (que s)" "q_blocked (que t) = q_blocked (que s)" "q_bandp (que t) = q_bandp (que s)"
    "q_flag (que t) = q_flag (que s)"
  shows "counted (snd (count_out mp t)) X"
proof (rule counted_sub_norm[OF assms(1-4)])
  have "q_flag (que t) QWANTW \<longrightarrow> q_flag (que t) QFULL"
    using countedD(9)[OF assms(1)] assms(11) by (simp add: flow_ok_def)
  then show "q_flag (que (snd (count_out mp t))) QWANTW \<Longrightarrow> q_flag (que (snd (count_out mp t))) QFULL"
    using count_out_flow(2) by blast
qed (use assms count_out_flow(1)[of mp t] in \<open>auto simp: same_contentsD[OF assms(5)]\<close>)

lemma queue_ok_taken:
  assumes "queue_ok s (xs @ mp # ys)" "on_queue t (xs @ ys)" "same_contents s t" "counted t (set (xs @ ys))"
  shows "queue_ok t (xs @ ys)"
  using assms ordered_take[OF queue_okD(2)[OF assms(1)]] ordered_same_contents[OF assms(3)] by (simp add: queue_ok_def)

lemma rmvq_ok:
  assumes "queue_ok s (xs @ mp # ys)"
  shows "\<exists>be s'. rmvq_locked mp s = Some (be, s') \<and> queue_ok s' (xs @ ys) \<and> same_contents s s'"
proof -
  let ?X = "set (xs @ ys)"
  have c: "counted s (insert mp ?X)" using queue_okD(3)[OF assms] by simp
  have mp: "mp \<notin> ?X" using queue_okD(4)[OF assms] by simp
  let ?u = "rmvq_unlink mp s"
  note on = rmvq_unlink_on[OF queue_okD(1)[OF assms]]
  have sc: "same_contents s ?u" by simp
  show ?thesis
  proof (cases "b_band (mem s mp) = 0")
    case True
    let ?t = "snd (count_out mp ?u)"
    have "counted ?t ?X" by (rule norm_taken_counted[OF c _ mp True sc]) simp_all
    moreover have "same_contents s ?t" using same_contents_trans[OF sc same_contents_mem] by simp
    ultimately have "queue_ok ?t (xs @ ys)" using queue_ok_taken[OF assms] on by simp
    then show ?thesis using True \<open>same_contents s ?t\<close>
      by (auto simp: rmvq_locked_def rmvq_norm_def intro!: exI[of _ "fst (count_out mp ?u)"] exI[of _ ?t])
  next
    case False
    then have z: "0 < b_band (mem s mp)" by (simp add: word_gt_0)
    define i where "i = unat (q_nband (que s)) - unat (b_band (mem s mp))"
    have f: "find_qband (que ?u) (b_band (mem ?u mp)) = Some i"
      using band_index(1)[OF c _ z] same_contentsD(1)[OF sc, of mp] by (simp add: find_qband_def i_def)
    let ?pv = "b_prev (mem s mp)" and ?nx = "b_next (mem s mp)"
    define w where "w = (if qb_first (band_at ?u i) = Some mp \<and> qb_last (band_at ?u i) = Some mp
        then upd_band i (\<lambda>qb. qb\<lparr>qb_first := None, qb_last := None\<rparr>) ?u
        else steps [
          ifthen (\<lambda>s. qb_first (band_at s i) = Some mp) (upd_band i (qb_first_update (\<lambda>_. ?nx))),
          ifthen (\<lambda>s. qb_last (band_at s i) = Some mp) (upd_band i (qb_last_update (\<lambda>_. ?pv)))] ?u)"
    have il: "i < length (q_bandp (que s))" using band_index(2)[OF c _ z] i_def by simp
    obtain f l where w: "mem w = mem ?u" "q_msgs (que w) = q_msgs (que ?u)" "q_count (que w) = q_count (que ?u)"
      "q_nband (que w) = q_nband (que ?u)" "q_blocked (que w) = q_blocked (que ?u)"
      "q_first (que w) = q_first (que ?u)" "q_last (que w) = q_last (que ?u)" "q_flag (que w) = q_flag (que ?u)"
      "q_bandp (que w) = (q_bandp (que s))[i := (q_bandp (que s) ! i)\<lparr>qb_first := f, qb_last := l\<rparr>]"
    proof
      show "q_bandp (que w) = (q_bandp (que s))[i := (q_bandp (que s) ! i)\<lparr>qb_first := qb_first (band_at w i),
          qb_last := qb_last (band_at w i)\<rparr>]"
        using il by (auto simp: w_def ifthen_def list_update_same_conv)
    qed (auto simp: w_def ifthen_def)
    let ?t = "snd (band_count_out i mp w)"
    have r: "rmvq_locked mp s = Some (band_count_out i mp w)"
      using False f by (simp add: rmvq_locked_def rmvq_band_def Let_def w_def)
    have "counted ?t ?X"
      by (rule band_taken_counted[OF c _ mp z i_def w(1) sc _ _ _ _ w(9)]) (use w in simp_all)
    moreover have m: "same_contents s ?t" using same_contents_trans[OF sc same_contents_mem] w(1) by simp
    moreover have "on_queue w (xs @ ys)" using on w by (simp add: on_queue_def)
    ultimately have "queue_ok ?t (xs @ ys)" using queue_ok_taken[OF assms] by simp
    then show ?thesis using r m by (cases "band_count_out i mp w") auto
  qed
qed

lemma getq_outside:
  assumes "on_queue s xs" "getq_locked s = Some (m, be, s')" "z \<notin> set xs"
  shows "mem s' z = mem s z"
proof (cases xs)
  case Nil
  then show ?thesis using assms by (auto simp: getq_locked_def on_queue_def)
next
  case (Cons mp ys)
  have q: "q_first (que s) = Some mp" "b_next (mem s mp) = first ys None" using assms(1) Cons by (simp_all add: on_queue_def)
  have "mem s' = mem (getq_unlink mp s)"
  proof -
    have c: "mem t' = mem t" if "count_out mp t = (be, t')" for be t t' using acct_mem(3)[of mp t] that by simp
    have b: "mem t' = mem t" if "band_count_out i mp t = (be, t')" for i be t t'
      using acct_mem(4)[of i mp t] that by simp
    show ?thesis using assms(2) q(1)
      by (auto simp: getq_locked_def Let_def ifthen_def dest: c b split: option.splits if_splits prod.splits)
  qed
  moreover have "mem (getq_unlink mp s) z = mem s z"
    using assms(3) q Cons by (cases ys) (auto simp: getq_unlink_def msgs_dec_def ifthen_def)
  ultimately show ?thesis by simp
qed

lemma getq_ok:
  assumes "queue_ok s xs"
  shows "\<exists>be s'. getq_locked s = Some (first xs None, be, s') \<and> queue_ok s' (tl xs) \<and> same_contents s s' \<and>
    q_flag (que s') QWANTR = (xs = [])"
proof (cases xs)
  case Nil
  then have "getq_locked s = Some (None, False, set_flag QWANTR s)"
    using queue_okD(1)[OF assms] by (simp add: getq_locked_def on_queue_def)
  then show ?thesis using Nil queue_ok_same_counts[OF flags_same_counts(1) assms, of QWANTR]
    by (auto simp: same_contents_mem)
next
  case (Cons mp ys)
  have q: "queue_ok s ([] @ mp # ys)" using assms Cons by simp
  let ?X = "set ys"
  have c: "counted s (insert mp ?X)" using queue_okD(3)[OF q] by simp
  have mp: "mp \<notin> ?X" using queue_okD(4)[OF q] by simp
  have qf: "q_first (que s) = Some mp" using queue_okD(1)[OF q] by (simp add: on_queue_def)
  let ?u = "getq_unlink mp s"
  have on: "on_queue ?u ys" using getq_unlink_on[of s mp ys] queue_okD(1)[OF q] by simp
  have sc: "same_contents s ?u" by simp
  have bd: "b_band (mem ?u mp) = b_band (mem s mp)" using same_contentsD(1)[OF sc] .
  show ?thesis
  proof (cases "b_band (mem s mp) = 0")
    case True
    let ?t = "clear_flag QWANTR (snd (count_out mp ?u))"
    have "counted (snd (count_out mp ?u)) ?X" by (rule norm_taken_counted[OF c _ mp True sc]) simp_all
    moreover have "same_contents s (snd (count_out mp ?u))" using same_contents_trans[OF sc same_contents_mem] by simp
    ultimately have "queue_ok (snd (count_out mp ?u)) ys" using queue_ok_taken[OF q] on by simp
    then have "queue_ok ?t ys" by (rule queue_ok_same_counts[OF flags_same_counts(2), rotated 2]) simp_all
    moreover have "same_contents s ?t" using same_contents_trans[OF sc same_contents_mem] by simp
    ultimately show ?thesis using True qf Cons bd
      by (simp add: getq_locked_def Let_def case_prod_unfold)
  next
    case False
    then have z: "0 < b_band (mem s mp)" by (simp add: word_gt_0)
    define i where "i = unat (q_nband (que s)) - unat (b_band (mem s mp))"
    have f: "find_qband (que ?u) (b_band (mem ?u mp)) = Some i"
      using band_index(1)[OF c _ z] bd by (simp add: find_qband_def i_def)
    define w where "w = steps [
        upd_band i (qb_first_update (\<lambda>_. q_first (que ?u))),
        ifthen (\<lambda>s. qb_last (band_at s i) = Some mp) (upd_band i (qb_last_update (\<lambda>_. None)))] ?u"
    have il: "i < length (q_bandp (que s))" using band_index(2)[OF c _ z] i_def by simp
    have w: "mem w = mem ?u" "q_msgs (que w) = q_msgs (que ?u)" "q_count (que w) = q_count (que ?u)"
      "q_nband (que w) = q_nband (que ?u)" "q_blocked (que w) = q_blocked (que ?u)"
      "q_first (que w) = q_first (que ?u)" "q_last (que w) = q_last (que ?u)" "q_flag (que w) = q_flag (que ?u)"
      "q_bandp (que w) = (q_bandp (que s))[i := (q_bandp (que s) ! i)\<lparr>qb_first := qb_first (band_at w i),
          qb_last := qb_last (band_at w i)\<rparr>]"
      using il by (auto simp: w_def ifthen_def)
    let ?t = "snd (band_count_out i mp w)"
    have r: "getq_locked s = Some (Some mp, fst (band_count_out i mp w), clear_flag QWANTR ?t)"
      using False f qf bd by (simp add: getq_locked_def Let_def w_def case_prod_unfold)
    have "counted ?t ?X"
      by (rule band_taken_counted[OF c _ mp z i_def w(1) sc _ _ _ _ w(9)]) (use w in simp_all)
    moreover have m: "same_contents s ?t" using same_contents_trans[OF sc same_contents_mem] w(1) by simp
    moreover have "on_queue w ys" using on w by (simp add: on_queue_def)
    ultimately have "queue_ok ?t ys" using queue_ok_taken[OF q] by simp
    then have "queue_ok (clear_flag QWANTR ?t) ys" by (rule queue_ok_same_counts[OF flags_same_counts(2), rotated 2]) simp_all
    moreover have "same_contents s (clear_flag QWANTR ?t)" using m by (simp add: same_contents_def)
    ultimately show ?thesis using r Cons by simp
  qed
qed

text \<open>Taking a message off touches no message that was not on the queue.\<close>

lemma rmvq_outside:
  assumes "on_queue s (xs @ mp # ys)" "rmvq_locked mp s = Some (be, s')" "z \<notin> set (xs @ mp # ys)"
  shows "mem s' z = mem s z"
proof -
  have "mem s' = mem (rmvq_unlink mp s)"
  proof (cases "b_band (mem s mp) = 0")
    case True
    then have "s' = snd (count_out mp (rmvq_unlink mp s))" using assms(2) by (simp add: rmvq_locked_def rmvq_norm_def)
    then show ?thesis by simp
  next
    case False
    have "mem s' = mem t" if "band_count_out i mp t = (be, s')" for i t
      using acct_mem(4)[of i mp t] that by simp
    then show ?thesis using False assms(2)
      by (auto simp: rmvq_locked_def rmvq_band_def Let_def ifthen_def split: option.splits if_splits)
  qed
  moreover have "b_prev (mem s mp) = final None xs" "b_next (mem s mp) = first ys None"
    using on_queueD(4)[OF assms(1)] by simp_all
  then have "mem (rmvq_unlink mp s) z = mem s z"
    using assms(3) by (cases xs rule: rev_cases; cases ys) (auto simp: rmvq_unlink_def msgs_dec_def ifthen_def Let_def)
  ultimately show ?thesis by simp
qed

section \<open>Flags\<close>

text \<open>The operations under the lock change no flag but those of flow control and of waiting for a message.\<close>

definition keeps_flags :: "qctx \<Rightarrow> qctx \<Rightarrow> bool" where
  "keeps_flags s s' \<longleftrightarrow> (\<forall>f. f \<noteq> QFULL \<and> f \<noteq> QWANTW \<and> f \<noteq> QWANTR \<longrightarrow> q_flag (que s') f = q_flag (que s) f) \<and>
     q_nbsrv (que s') = q_nbsrv (que s) \<and> q_nfsrv (que s') = q_nfsrv (que s) \<and> q_next (que s') = q_next (que s)"

lemma keeps_flags_refl [simp]: "keeps_flags s s"
  by (simp add: keeps_flags_def)

lemma keeps_flags_trans: "keeps_flags s t \<Longrightarrow> keeps_flags t u \<Longrightarrow> keeps_flags s u"
  by (simp add: keeps_flags_def)

lemma keeps_flags_que: "que s' = que s \<Longrightarrow> keeps_flags s s'"
  by (simp add: keeps_flags_def)

lemma link_neighbours [simp]:
  "keeps_flags s (queue_link mp pv nx s)" "keeps_flags s (head_link mp s)" "keeps_flags s (tail_link mp s)"
  "keeps_flags s (rmvq_unlink mp s)" "keeps_flags s (getq_unlink mp s)"
  by (auto simp: keeps_flags_def queue_link_def head_link_def tail_link_def rmvq_unlink_def getq_unlink_def
      msgs_inc_def msgs_dec_def ifthen_def on_ptr_def Let_def split: option.split)

lemma acct_keeps_flags [simp]:
  "keeps_flags s (count_in mp s)" "keeps_flags s (snd (count_out mp s))" "keeps_flags s (upd_band i g s)"
  "keeps_flags s (set_flag QWANTR s)" "keeps_flags s (clear_flag QWANTR s)" "keeps_flags s (upd_mem x h s)"
  "keeps_flags s (add_blocked n s)"
  by (auto simp: keeps_flags_def count_in_def count_out_eq ifthen_def Let_def upd_band_def add_blocked_def)

definition neighbours :: "qctx \<Rightarrow> (qflag \<Rightarrow> bool) \<times> nat option \<times> nat option \<times> nat option" where
  "neighbours s = (q_flag (que s), q_nbsrv (que s), q_nfsrv (que s), q_next (que s))"

lemma neighbours_simps [simp]:
  "neighbours (upd_band i g s) = neighbours s"
  "neighbours (upd_que (\<lambda>q. q\<lparr>q_blocked := h q\<rparr>) s) = neighbours s"
  "(\<And>s. neighbours (f s) = neighbours s) \<Longrightarrow> neighbours (ifthen b f s) = neighbours s"
  by (simp_all add: neighbours_def upd_band_def ifthen_def)

lemma neighbours_keeps: "neighbours s' = neighbours s \<Longrightarrow> keeps_flags s s'"
  by (simp add: neighbours_def keeps_flags_def)

lemma band_keeps_flags [simp]: "keeps_flags s (band_link i mp pv nx s)" "keeps_flags s (snd (band_count_out i mp s))"
proof -
  show "keeps_flags s (band_link i mp pv nx s)"
    by (rule neighbours_keeps) (simp add: band_link_def band_count_in_def)
  show "keeps_flags s (snd (band_count_out i mp s))"
    by (rule neighbours_keeps) (simp add: band_count_out_def Let_def)
qed

lemma get_qband_keeps_flags: "keeps_flags s (snd (get_qband band s))"
proof -
  have "keeps_flags s (snd (get_qband_loop band s))"
  proof (induction band s rule: get_qband_loop.induct)
    case (1 band s)
    define t where "t as = s\<lparr>allocs := as, que := (que s)\<lparr>q_bandp := new_qband (que s) # q_bandp (que s),
      q_nband := q_nband (que s) + 1\<rparr>\<rparr>" for as
    have k: "keeps_flags s (t as)" "keeps_flags s (s\<lparr>allocs := as\<rparr>)" for as by (simp_all add: keeps_flags_def t_def)
    show ?case
    proof (cases "allocs s")
      case (Cons a as)
      have "keeps_flags s (snd (get_qband_loop band (t as)))" if "a" "q_nband (que (t as)) < band"
        using keeps_flags_trans[OF k(1)[of as] "1.IH"[of a as "que s" "t as"]] Cons that by (auto simp: t_def)
      then show ?thesis using Cons k[of as]
        by (cases a) (auto simp: get_qband_loop.simps[of band s] Let_def t_def)
    qed (simp add: get_qband_loop.simps[of band s])
  qed
  then show ?thesis by (simp add: get_qband_def)
qed

lemma put_keeps_flags:
  assumes "putq_locked mp s = Some (r, s') \<or> putbq_locked mp s = Some (r, s') \<or> insq_locked None mp s = Some (r, s')"
  shows "keeps_flags s s'"
proof -
  have n: "keeps_flags s (count_in mp (tail_link mp s))" "keeps_flags s (count_in mp (queue_link mp pv nx s))"
    "keeps_flags s (count_in mp (head_link mp (upd_mem mp h s)))" for pv nx h
    using keeps_flags_trans[OF link_neighbours(3) acct_keeps_flags(1)] keeps_flags_trans[OF link_neighbours(1) acct_keeps_flags(1)]
      keeps_flags_trans[OF acct_keeps_flags(6) keeps_flags_trans[OF link_neighbours(2) acct_keeps_flags(1)]] by blast+
  have p: "keeps_flags s (queue_link mp pv nx (count_in mp (upd_mem mp h s)))" for pv nx h
    using keeps_flags_trans[OF acct_keeps_flags(6) keeps_flags_trans[OF acct_keeps_flags(1) link_neighbours(1)]] .
  have b: "keeps_flags s (queue_link mp pv nx (band_link i mp pv' nx' t))" if "get_qband k s = (a, t)" for pv nx i pv' nx' t a k
    using keeps_flags_trans[OF get_qband_keeps_flags[of s k] keeps_flags_trans[OF band_keeps_flags(1) link_neighbours(1)]] that by simp
  have g: "keeps_flags s t" if "get_qband k s = (a, t)" for a t k using get_qband_keeps_flags[of s k] that by simp
  obtain a t where e: "get_qband (b_band (mem s mp)) s = (a, t)" by fastforce
  have bands: "putq_band mp s = Some (r, s') \<Longrightarrow> keeps_flags s s'" "putbq_band mp s = Some (r, s') \<Longrightarrow> keeps_flags s s'"
    using g[OF e] b[OF e] e
    by (cases a; auto simp: putq_band_def putbq_band_def bind_eq_Some_conv Let_def split: prod.splits)+
  have norms: "putq_norm mp s = Some (r, s') \<Longrightarrow> keeps_flags s s'" "putbq_norm mp s = Some (r, s') \<Longrightarrow> keeps_flags s s'"
    using bands n by (auto simp: putq_norm_def putbq_norm_def bind_eq_Some_conv Let_def split: if_splits)
  have pris: "putq_pri mp x s = Some (r, s') \<Longrightarrow> keeps_flags s s'" "putbq_pri mp s = (r, s') \<Longrightarrow> keeps_flags s s'" for x
    using p n by (auto simp: putq_pri_def putbq_pri_def bind_eq_Some_conv Let_def)
  show ?thesis using assms norms pris
    by (auto simp: putq_locked_def putbq_locked_def insq_locked_def putq_insq_def split: if_splits)
qed

lemma rmvq_keeps_flags: "rmvq_locked mp s = Some (be, s') \<Longrightarrow> keeps_flags s s'"
proof -
  assume r: "rmvq_locked mp s = Some (be, s')"
  have n: "keeps_flags s (snd (count_out mp (rmvq_unlink mp s)))"
    using keeps_flags_trans[OF link_neighbours(4) acct_keeps_flags(2)] .
  have b: "keeps_flags s t'" if "band_count_out i mp t = (be, t')" "keeps_flags s t" for i t t'
    using keeps_flags_trans[OF that(2) band_keeps_flags(2)[of t i mp]] that(1) by simp
  have u1: "keeps_flags s (upd_band i f (rmvq_unlink mp s))" for i f
    by (rule keeps_flags_trans[OF link_neighbours(4) acct_keeps_flags(3)])
  have u2: "keeps_flags s (upd_band j g (upd_band i f (rmvq_unlink mp s)))" for i f j g
    by (rule keeps_flags_trans[OF u1 acct_keeps_flags(3)])
  show ?thesis using r n b[OF _ u1] b[OF _ u2] b[OF _ link_neighbours(4)]
    by (auto simp: rmvq_locked_def rmvq_norm_def rmvq_band_def Let_def ifthen_def split: option.splits if_splits)
qed

lemma getq_keeps_flags: "getq_locked s = Some (m, be, s') \<Longrightarrow> keeps_flags s s'"
proof -
  assume r: "getq_locked s = Some (m, be, s')"
  have n: "keeps_flags s (clear_flag QWANTR t')" if "count_out mp (getq_unlink mp s) = (be, t')" for mp t'
  proof -
    have "keeps_flags s t'"
      using keeps_flags_trans[OF link_neighbours(5)[of s mp] acct_keeps_flags(2)[of _ mp]] that by simp
    then show ?thesis using acct_keeps_flags(5) by (rule keeps_flags_trans)
  qed
  have b: "keeps_flags s (clear_flag QWANTR t')" if "band_count_out i mp t = (be, t')" "keeps_flags s t" for i t t' mp
  proof -
    have "keeps_flags s t'" using keeps_flags_trans[OF that(2) band_keeps_flags(2)[of t i mp]] that(1) by simp
    then show ?thesis using acct_keeps_flags(5) by (rule keeps_flags_trans)
  qed
  have u1: "keeps_flags s (upd_band i f (getq_unlink mp s))" for i f mp
    by (rule keeps_flags_trans[OF link_neighbours(5) acct_keeps_flags(3)])
  have u2: "keeps_flags s (upd_band j g (upd_band i f (getq_unlink mp s)))" for i f j g mp
    by (rule keeps_flags_trans[OF u1 acct_keeps_flags(3)])
  show ?thesis using r n b[OF _ u1] b[OF _ u2]
    by (auto simp: getq_locked_def Let_def ifthen_def split: option.splits if_splits prod.splits)
qed

end
