(* ===== verification/STR_Flush.thy ===== *)
theory STR_Flush
  imports STR_Invariant
begin

text \<open>
  Flushing a STREAMS queue: \<open>__flushq\<close> takes everything, or the data messages, off the queue and leaves them on a
  chain, in order, for \<open>freechain\<close>.
\<close>

section \<open>The chain of messages to be freed\<close>

fun nexts :: "(nat \<Rightarrow> msgb) \<Rightarrow> nat list \<Rightarrow> nat option \<Rightarrow> bool" where
  "nexts h [] n \<longleftrightarrow> True"
| "nexts h (x # xs) n \<longleftrightarrow> b_next (h x) = first xs n \<and> nexts h xs n"

lemma nexts_append [simp]: "nexts h (xs @ ys) n \<longleftrightarrow> nexts h xs (first ys n) \<and> nexts h ys n"
  by (induction xs) auto

lemma nexts_upd [simp]: "x \<notin> set xs \<Longrightarrow> nexts (h(x := v)) xs n = nexts h xs n"
  by (induction xs) auto

lemma nexts_cong: "(\<And>x. x \<in> set xs \<Longrightarrow> b_next (h x) = b_next (h' x)) \<Longrightarrow> nexts h xs n = nexts h' xs n"
  by (induction xs) auto

lemma chain_nexts: "chain h p xs n \<Longrightarrow> nexts h xs n"
  by (induction xs arbitrary: p) auto

definition freed :: "fchain \<Rightarrow> qctx \<Rightarrow> nat list \<Rightarrow> bool" where
  "freed c s fs \<longleftrightarrow> distinct fs \<and> c_head c = first fs None \<and>
     c_tail c = (if fs = [] then Head else Next (final None fs)) \<and> nexts (mem s) fs None"

lemma freed_empty [simp]: "freed empty_chain s []"
  by (simp add: freed_def empty_chain_def)

text \<open>Adding a message to the chain.\<close>

lemma chain_add:
  assumes "freed c s fs" "x \<notin> set fs"
  shows "\<exists>cs ds. put_tail (Some x) (c, s) = Some cs \<and>
    put_tail None (fst cs\<lparr>c_tail := Next (Some x)\<rparr>, snd cs) = Some ds \<and> freed (fst ds) (snd ds) (fs @ [x]) \<and>
    que (snd ds) = que s \<and> same_contents s (snd ds) \<and> (\<forall>z. z \<notin> insert x (set fs) \<longrightarrow> mem (snd ds) z = mem s z)"
proof (cases fs rule: rev_cases)
  case Nil
  then show ?thesis using assms by (auto simp: freed_def put_tail_def same_contents_def)
next
  case (snoc gs y)
  then show ?thesis using assms by (auto simp: freed_def put_tail_def same_contents_def)
qed

lemma freechain_frees:
  assumes "distinct fs" "nexts (mem s) fs None"
  shows "\<exists>s'. freechain_loop (first fs None) acc s = Some (acc @ fs, s') \<and> que s' = que s \<and>
    same_contents s s' \<and> (\<forall>z. z \<notin> set fs \<longrightarrow> mem s' z = mem s z)"
  using assms
proof (induction fs arbitrary: acc s)
  case Nil
  then show ?case by (simp add: freechain_loop.simps[of None] same_contents_def)
next
  case (Cons x fs)
  let ?s = "set_b_prev x None (set_b_next x None s)"
  have n: "nexts (mem ?s) fs None" using Cons.prems by simp
  obtain s' where "freechain_loop (first fs None) (acc @ [x]) ?s = Some (acc @ x # fs, s')" "que s' = que ?s"
    "same_contents ?s s'" "\<forall>z. z \<notin> set fs \<longrightarrow> mem s' z = mem ?s z"
    using Cons.IH[OF _ n, of "acc @ [x]"] Cons.prems(1) by auto
  then show ?case using Cons.prems by (auto simp: freechain_loop.simps[of "Some x"] same_contents_def)
qed

lemma freed_freechain:
  assumes "freed c s fs"
  shows "\<exists>s'. freechain c s = Some (fs, s') \<and> que s' = que s \<and> same_contents s s' \<and>
    (\<forall>z. z \<notin> set fs \<longrightarrow> mem s' z = mem s z)"
  using freechain_frees[of fs s "[]"] assms by (simp add: freed_def freechain_def)

section \<open>Data messages\<close>

lemma flush_data_loop_ok:
  assumes "queue_ok s (zs @ ys)" "freed c s fs" "set fs \<inter> set (zs @ ys) = {}"
  shows "\<exists>bands' c' s'. flush_data_loop (first ys None) bands c s = Some (bands', c', s') \<and>
    queue_ok s' (zs @ filter (\<lambda>x. \<not> isdatamsg (mem s x)) ys) \<and> freed c' s' (fs @ filter (\<lambda>x. isdatamsg (mem s x)) ys) \<and>
    same_contents s s' \<and> keeps_flags s s' \<and> (\<forall>z. z \<notin> set (zs @ ys) \<union> set fs \<longrightarrow> mem s' z = mem s z)"
  using assms
proof (induction ys arbitrary: zs fs c s bands)
  case Nil
  then show ?case by (simp add: flush_data_loop.simps[of None] same_contents_def)
next
  case (Cons y ys)
  have nx: "b_next (mem s y) = first ys None" using on_queueD(4)[OF queue_okD(1)[OF Cons.prems(1)]] by simp
  show ?case
  proof (cases "isdatamsg (mem s y)")
    case False
    have "queue_ok s ((zs @ [y]) @ ys)" "set fs \<inter> set ((zs @ [y]) @ ys) = {}" using Cons.prems by auto
    from Cons.IH[OF this(1) Cons.prems(2) this(2), of bands]
    show ?thesis using False nx by (simp add: flush_data_loop.simps[of "Some y"])
  next
    case True
    obtain be s1 where r: "rmvq_locked y s = Some (be, s1)" "queue_ok s1 (zs @ ys)" "same_contents s s1"
      using rmvq_ok[OF Cons.prems(1)] by blast
    have m1: "mem s1 z = mem s z" if "z \<notin> set (zs @ y # ys)" for z
      using rmvq_outside[OF queue_okD(1)[OF Cons.prems(1)] r(1) that] .
    have f1: "freed c s1 fs"
      using Cons.prems(2,3) m1 nexts_cong[of fs "mem s1" "mem s"] by (auto simp: freed_def disjoint_iff)
    have yf: "y \<notin> set fs" using Cons.prems(3) by auto
    obtain cs ds where d: "put_tail (Some y) (c, s1) = Some cs"
      "put_tail None (fst cs\<lparr>c_tail := Next (Some y)\<rparr>, snd cs) = Some ds" "freed (fst ds) (snd ds) (fs @ [y])"
      "que (snd ds) = que s1" "same_contents s1 (snd ds)" "\<forall>z. z \<notin> insert y (set fs) \<longrightarrow> mem (snd ds) z = mem s1 z"
      using chain_add[OF f1 yf] by blast
    have dis: "distinct (zs @ y # ys)" using queue_okD(4)[OF Cons.prems(1)] .
    have "mem (snd ds) z = mem s1 z" if "z \<in> set (zs @ ys)" for z
      using that d(6) dis Cons.prems(3) by (auto simp: disjoint_iff)
    then have q2: "queue_ok (snd ds) (zs @ ys)" by (rule queue_ok_outside[OF r(2) d(4)])
    have "set (fs @ [y]) \<inter> set (zs @ ys) = {}" using dis Cons.prems(3) by auto
    from Cons.IH[OF q2 d(3) this, of "if be then bands @ [b_band (mem s y)] else bands"]
    obtain bands' c' s' where i: "flush_data_loop (first ys None) (if be then bands @ [b_band (mem s y)] else bands)
        (fst ds) (snd ds) = Some (bands', c', s')"
      "queue_ok s' (zs @ filter (\<lambda>x. \<not> isdatamsg (mem (snd ds) x)) ys)"
      "freed c' s' ((fs @ [y]) @ filter (\<lambda>x. isdatamsg (mem (snd ds) x)) ys)" "same_contents (snd ds) s'" "keeps_flags (snd ds) s'"
      "\<forall>z. z \<notin> set (zs @ ys) \<union> set (fs @ [y]) \<longrightarrow> mem s' z = mem (snd ds) z"
      by blast
    have sc: "same_contents s (snd ds)" using same_contents_trans[OF r(3) d(5)] .
    have "flush_data_loop (Some y) bands c s = Some (bands', c', s')"
      using True r(1) d(1,2) i(1) nx
      by (cases be) (simp_all add: flush_data_loop.simps[of "Some y"])
    moreover have "same_contents s s'" using same_contents_trans[OF sc i(4)] .
    moreover have "\<forall>z. z \<notin> set (zs @ y # ys) \<union> set fs \<longrightarrow> mem s' z = mem s z"
      using i(6) d(6) m1 by simp
    moreover have "keeps_flags s s'"
      using keeps_flags_trans[OF rmvq_keeps_flags[OF r(1)] keeps_flags_trans[OF keeps_flags_que[OF d(4)] i(5)]] .
    ultimately show ?thesis using i(2,3) True by (simp add: same_contentsD[OF sc])
  qed
qed

section \<open>Everything\<close>

definition flushed_band :: "qband \<Rightarrow> qband" where
  "flushed_band qb = qb\<lparr>qb_first := None, qb_last := None, qb_count := 0, qb_msgs := 0,
     qb_flag := if qb_flag qb QB_FULL then (qb_flag qb)(QB_FULL := False, QB_WANTW := False) else qb_flag qb\<rparr>"

lemma flush_bands_eq: "fst (flush_bands qbs n bands) = map flushed_band qbs"
  by (induction qbs n bands rule: flush_bands.induct)
    (auto simp: flushed_band_def Let_def case_prod_unfold fun_upd_idem)

lemma full_bands_flushed [simp]: "full_bands (map flushed_band qbs) = 0"
  by (simp add: full_bands_def flushed_band_def filter_empty_conv)

lemma flush_norm_neighbours [simp]:
  "q_nbsrv (que (snd (flush_norm s))) = q_nbsrv (que s)" "q_nfsrv (que (snd (flush_norm s))) = q_nfsrv (que s)"
  "q_next (que (snd (flush_norm s))) = q_next (que s)"
  by (simp_all add: flush_norm_def Let_def)

lemma flush_norm_fields [simp]:
  "mem (snd (flush_norm s)) = mem s" "q_first (que (snd (flush_norm s))) = q_first (que s)"
  "q_last (que (snd (flush_norm s))) = q_last (que s)" "q_msgs (que (snd (flush_norm s))) = q_msgs (que s)"
  "q_count (que (snd (flush_norm s))) = q_count (que s)" "q_bandp (que (snd (flush_norm s))) = q_bandp (que s)"
  "q_nband (que (snd (flush_norm s))) = q_nband (que s)" "q_lowat (que (snd (flush_norm s))) = q_lowat (que s)"
  "q_hiwat (que (snd (flush_norm s))) = q_hiwat (que s)"
  "q_flag (que (snd (flush_norm s))) = (if q_flag (que s) QFULL then (q_flag (que s))(QFULL := False, QWANTW := False)
     else q_flag (que s))"
  by (auto simp: flush_norm_def Let_def fun_upd_idem)

lemma flushq_all_ok:
  assumes "queue_ok s xs"
  shows "\<exists>bands c s'. flushq_locked FLUSHALL s = Some (bands, c, s') \<and> queue_ok s' [] \<and> freed c s' xs \<and>
    keeps_flags s s' \<and> same_contents s s' \<and> (\<forall>z. z \<notin> set xs \<longrightarrow> mem s' z = mem s z)"
proof (cases xs rule: rev_cases)
  case Nil
  then show ?thesis using assms queue_okD(1)[OF assms] by (auto simp: flushq_locked_def on_queue_def same_contents_def)
next
  case (snoc ys y)
  have q: "q_first (que s) = first xs None" "q_last (que s) = Some y" "chain (mem s) None xs None" "distinct xs"
    using queue_okD(1)[OF assms] snoc by (simp_all add: on_queue_def)
  obtain b where b: "first xs None = Some b" using snoc by (metis first_final_Some(2) first_simps(2,3))
  have bo: "bands_ok (que s)" using queue_okD(5)[OF assms] .
  have bn: "band_no q' k = flushed_band (band_no (que s) k)"
    if "q_bandp q' = map flushed_band (q_bandp (que s))" "q_nband q' = q_nband (que s)" "0 < k" "k \<le> q_nband (que s)" for q' k
  proof -
    have "0 < unat k" using that(3) by (simp add: word_gt_0 unat_gt_0)
    then show ?thesis using that bo by (simp add: band_no_def bands_ok_def word_le_nat_alt)
  qed
  define c where "c = \<lparr>c_head = Some b, c_tail = Next (Some y)\<rparr>"
  obtain bands s' where f: "flushq_locked FLUSHALL s = Some (bands, c, s')"
    "mem s' = (mem s)(y := (mem s y)\<lparr>b_next := None\<rparr>)" "c_head c = Some b" "c_tail c = Next (Some y)"
    "q_first (que s') = None" "q_last (que s') = None" "q_msgs (que s') = 0" "q_count (que s') = 0"
    "q_bandp (que s') = map flushed_band (q_bandp (que s))" "q_nband (que s') = q_nband (que s)" "q_blocked (que s') = 0"
    "q_flag (que s') = (if q_flag (que s) QFULL then (q_flag (que s))(QFULL := False, QWANTW := False) else q_flag (que s))"
    "keeps_flags s s'"
    using q b
    by (auto simp: flushq_locked_def put_tail_def empty_chain_def Let_def case_prod_unfold flush_bands_eq c_def keeps_flags_def)
  have "counted s' {}"
    using f bo bn[of "que s'"] countedD(8,9)[OF queue_okD(3)[OF assms]]
    by (auto simp: counted_def bands_ok_def in_band_def band_bytes_def flushed_band_def flow_ok_def)
  then have "queue_ok s' []" using f by (simp add: queue_ok_def on_queue_def ordered_def)
  moreover have "freed c s' xs"
    using q b f(2-4) snoc chain_nexts[OF q(3)] by (auto simp: freed_def)
  moreover have "\<forall>z. z \<notin> set xs \<longrightarrow> mem s' z = mem s z" using f(2) snoc by simp
  moreover have "same_contents s s'" using f(2) by (simp add: same_contents_def)
  ultimately show ?thesis using f(1,13) by blast
qed

lemma flushq_data_ok:
  assumes "queue_ok s xs"
  shows "\<exists>bands c s'. flushq_locked FLUSHDATA s = Some (bands, c, s') \<and>
    queue_ok s' (filter (\<lambda>x. \<not> isdatamsg (mem s x)) xs) \<and> freed c s' (filter (\<lambda>x. isdatamsg (mem s x)) xs) \<and>
    keeps_flags s s' \<and> same_contents s s' \<and> (\<forall>z. z \<notin> set xs \<longrightarrow> mem s' z = mem s z)"
proof (cases xs)
  case Nil
  then show ?thesis using assms queue_okD(1)[OF assms] by (auto simp: flushq_locked_def on_queue_def same_contents_def)
next
  case (Cons x ys)
  have "q_first (que s) = Some x" using queue_okD(1)[OF assms] Cons by (simp add: on_queue_def)
  then show ?thesis
    using flush_data_loop_ok[of s "[]" xs empty_chain "[]" "[]"] assms Cons by (auto simp: flushq_locked_def)
qed

end
