(* ===== verification/STR_Stream.thy ===== *)
theory STR_Stream
  imports STR_Flush
begin

text \<open>
  The queue utilities of STREAMS as modules and drivers call them (\<open>src/src/kernel/strutil.c\<close>): each takes the lock
  of its queue for one operation of the earlier theories, and then, without the lock, enables a service procedure
  or back-enables the queue behind.  The run list of the scheduler and its loop over it are those of
  \<open>src/src/kernel/strsched.c\<close>.

  The state is that of all queues, of all messages, and of the run list of the executing thread.  An operation on
  a queue is atomic, as its lock makes it; the locks of the stream and of the freeze protect what does not change
  here, and have no counterpart.
\<close>

section \<open>State\<close>

record strs =
  s_que :: "nat \<Rightarrow> queue"
  s_mem :: "nat \<Rightarrow> msgb"
  s_allocs :: "bool list"
  run_list :: "nat list"
  qrunflag :: bool

text \<open>What an operation under the lock of queue \<open>q\<close> sees, and its result stored back.\<close>

definition q_ctx :: "nat \<Rightarrow> strs \<Rightarrow> qctx" where
  "q_ctx q s = \<lparr>que = s_que s q, mem = s_mem s, allocs = s_allocs s\<rparr>"

definition set_ctx :: "nat \<Rightarrow> qctx \<Rightarrow> strs \<Rightarrow> strs" where
  "set_ctx q c s = s\<lparr>s_que := (s_que s)(q := que c), s_mem := mem c, s_allocs := allocs c\<rparr>"

abbreviation tst :: "qflag \<Rightarrow> nat \<Rightarrow> strs \<Rightarrow> bool" where
  "tst f q s \<equiv> q_flag (s_que s q) f"

definition on_flag :: "qflag \<Rightarrow> bool \<Rightarrow> nat \<Rightarrow> strs \<Rightarrow> strs" where
  "on_flag f v q s = s\<lparr>s_que := (s_que s)(q := (s_que s q)\<lparr>q_flag := (q_flag (s_que s q))(f := v)\<rparr>)\<rparr>"

section \<open>Scheduling\<close>

text \<open>\<open>qschedule\<close>: a queue not yet enabled goes to the end of the run list; \<open>setqsched\<close> raises the scheduler.\<close>

definition qschedule :: "nat \<Rightarrow> strs \<Rightarrow> strs" where
  "qschedule q s =
     (if tst QENAB q s then s
      else steps [on_flag QENAB True q, \<lambda>s. s\<lparr>run_list := run_list s @ [q]\<rparr>, \<lambda>s. s\<lparr>qrunflag := True\<rparr>] s)"

definition qenable :: "nat \<Rightarrow> strs \<Rightarrow> strs" where
  "qenable q s = ifthen (tst QSRVP q) (qschedule q) s"

definition enableq :: "nat \<Rightarrow> strs \<Rightarrow> int \<times> strs" where
  "enableq q s = (if tst QSRVP q s \<and> \<not> tst QNOENB q s then (1, qenable q s) else (0, s))"

definition enableok :: "nat \<Rightarrow> strs \<Rightarrow> strs" where
  "enableok q = on_flag QNOENB False q"

definition noenable :: "nat \<Rightarrow> strs \<Rightarrow> strs" where
  "noenable q = on_flag QNOENB True q"

definition canenable :: "nat \<Rightarrow> strs \<Rightarrow> bool" where
  "canenable q s \<longleftrightarrow> \<not> tst QNOENB q s"

text \<open>The service procedures are the modules': a parameter \<open>srv\<close>.  \<open>srvp_fast\<close> runs the one of a queue that is
  enabled and has its procedures on.\<close>

definition srvp_fast :: "(nat \<Rightarrow> strs \<Rightarrow> strs) \<Rightarrow> nat \<Rightarrow> strs \<Rightarrow> strs" where
  "srvp_fast srv q s = ifthen (tst QENAB q)
     (\<lambda>s. steps [
        on_flag QENAB False q,
        ifthen (\<lambda>s. \<not> tst QPROCS q s)
          (\<lambda>s. steps [on_flag QSVCBUSY True q, srv q, on_flag QSVCBUSY False q] s)] s) s"

text \<open>\<open>queuerun\<close>: the list is taken over and its queues are served in order; queues enabled meanwhile wait for the
  next pass, of which there are ten at most.\<close>

definition run_pass :: "(nat \<Rightarrow> strs \<Rightarrow> strs) \<Rightarrow> strs \<Rightarrow> strs" where
  "run_pass srv s = fold (srvp_fast srv) (run_list s) (s\<lparr>qrunflag := False, run_list := []\<rparr>)"

fun queuerun_loop :: "(nat \<Rightarrow> strs \<Rightarrow> strs) \<Rightarrow> nat \<Rightarrow> strs \<Rightarrow> strs" where
  "queuerun_loop srv 0 s = s"
| "queuerun_loop srv (Suc n) s = (let s = run_pass srv s in if qrunflag s then queuerun_loop srv n s else s)"

definition queuerun :: "(nat \<Rightarrow> strs \<Rightarrow> strs) \<Rightarrow> strs \<Rightarrow> strs" where
  "queuerun srv s = queuerun_loop srv 10 s"

section \<open>Back-enabling\<close>

definition mark_band :: "u8 \<Rightarrow> qctx \<Rightarrow> qctx" where
  "mark_band band c = (case get_qband band c of
      (None, c) \<Rightarrow> c
    | (Some i, c) \<Rightarrow> upd_band i (\<lambda>qb. qb\<lparr>qb_flag := (qb_flag qb)(QB_BACK := True)\<rparr>) c)"

text \<open>\<open>__qbackenable_bands\<close>: from the highest band down.\<close>

fun mark_bands :: "nat \<Rightarrow> u8 list \<Rightarrow> qctx \<Rightarrow> qctx" where
  "mark_bands 0 bands c = c"
| "mark_bands (Suc n) bands c =
     mark_bands n bands (ifthen (\<lambda>_. of_nat (Suc n) \<in> set bands) (mark_band (of_nat (Suc n))) c)"

definition qbackenable_bands :: "u8 \<Rightarrow> u8 list \<Rightarrow> qctx \<Rightarrow> qctx" where
  "qbackenable_bands band bands c =
     mark_bands (unat band) bands (ifthen (\<lambda>_. 0 \<in> set bands) (set_flag QBACK) c)"

text \<open>\<open>bands\<close> is \<open>None\<close> for the null pointer.\<close>

definition qbackenable :: "nat \<Rightarrow> u8 \<Rightarrow> u8 list option \<Rightarrow> strs \<Rightarrow> strs" where
  "qbackenable q band bands s =
     (if tst QPROCS q s then s
      else (case q_nbsrv (s_que s q) of
          None \<Rightarrow> s
        | Some nb \<Rightarrow>
            if \<not> tst QPROCS nb s \<and> tst QSRVP nb s then
              (let c = (case bands of
                  None \<Rightarrow> if band = 0 then set_flag QBACK (q_ctx nb s) else mark_band band (q_ctx nb s)
                | Some bs \<Rightarrow> qbackenable_bands band bs (q_ctx nb s))
               in qenable nb (set_ctx nb c s))
            else s))"

section \<open>Flow control\<close>

text \<open>\<open>__bcanput_slow\<close> and \<open>__bcanput\<close>: \<open>None\<close> would be a band structure that is not there.\<close>

definition bcanput_slow :: "u8 \<Rightarrow> qctx \<Rightarrow> (bool \<times> qctx) option" where
  "bcanput_slow band c =
     (if band \<le> q_nband (que c) \<and> 0 < q_blocked (que c) then
        (case find_qband (que c) band of
           None \<Rightarrow> None
         | Some i \<Rightarrow>
             if qb_flag (band_at c i) QB_FULL
             then Some (False, upd_band i (\<lambda>qb. qb\<lparr>qb_flag := (qb_flag qb)(QB_WANTW := True)\<rparr>) c)
             else Some (True, c))
      else Some (True, c))"

definition bcanput_locked :: "u8 \<Rightarrow> qctx \<Rightarrow> (bool \<times> qctx) option" where
  "bcanput_locked band c =
     (if band = 0 then
        (if q_flag (que c) QFULL then Some (False, set_flag QWANTW c) else Some (True, c))
      else bcanput_slow band c)"

text \<open>An operation on one queue, lifted to the state of them all.\<close>

definition at_queue :: "nat \<Rightarrow> (qctx \<Rightarrow> ('a \<times> qctx) option) \<Rightarrow> strs \<Rightarrow> ('a \<times> strs) option" where
  "at_queue q f s = map_option (\<lambda>(r, c). (r, set_ctx q c s)) (f (q_ctx q s))"

definition bcanputnext_locked :: "nat \<Rightarrow> u8 \<Rightarrow> strs \<Rightarrow> (bool \<times> strs) option" where
  "bcanputnext_locked q band s = (case q_nfsrv (s_que s q) of
      None \<Rightarrow> Some (False, s)
    | Some nf \<Rightarrow> if tst QPROCS nf s then Some (False, s) else at_queue nf (bcanput_locked band) s)"

definition bcanputnext :: "nat \<Rightarrow> u8 \<Rightarrow> strs \<Rightarrow> (bool \<times> strs) option" where
  "bcanputnext q band s = (if tst QPROCS q s then Some (False, s) else bcanputnext_locked q band s)"

definition bcanput :: "nat \<Rightarrow> u8 \<Rightarrow> strs \<Rightarrow> (bool \<times> strs) option" where
  "bcanput q band s =
     (if tst QPROCS q s then Some (False, s)
      else if tst QSRVP q s \<or> q_next (s_que s q) = None then at_queue q (bcanput_locked band) s
      else bcanputnext_locked q band s)"

definition canput :: "nat \<Rightarrow> strs \<Rightarrow> (bool \<times> strs) option" where
  "canput q s = bcanput q 0 s"

definition canputnext :: "nat \<Rightarrow> strs \<Rightarrow> (bool \<times> strs) option" where
  "canputnext q s = bcanputnext q 0 s"

definition bcanputany_locked :: "queue \<Rightarrow> bool" where
  "bcanputany_locked q \<longleftrightarrow> q_blocked q < q_nband q"

definition bcanputnextany_locked :: "nat \<Rightarrow> strs \<Rightarrow> bool" where
  "bcanputnextany_locked q s = (case q_nfsrv (s_que s q) of
      None \<Rightarrow> False
    | Some nf \<Rightarrow> \<not> tst QPROCS nf s \<and> bcanputany_locked (s_que s nf))"

definition bcanputnextany :: "nat \<Rightarrow> strs \<Rightarrow> bool" where
  "bcanputnextany q s \<longleftrightarrow> \<not> tst QPROCS q s \<and> bcanputnextany_locked q s"

definition bcanputany :: "nat \<Rightarrow> strs \<Rightarrow> bool" where
  "bcanputany q s \<longleftrightarrow> \<not> tst QPROCS q s \<and>
     (if tst QSRVP q s \<or> q_next (s_que s q) = None then bcanputany_locked (s_que s q) else bcanputnextany_locked q s)"

text \<open>Messages waiting: \<open>bcanget\<close> and \<open>bcangetany\<close>.\<close>

definition bcanget :: "nat \<Rightarrow> u8 \<Rightarrow> strs \<Rightarrow> bool option" where
  "bcanget q band s = do {
     (pv, nx) \<leftarrow> skip is_pri (s_mem s) None (q_first (s_que s q));
     (pv, nx) \<leftarrow> skip (\<lambda>b. band < b_band b) (s_mem s) pv nx;
     Some (case nx of None \<Rightarrow> False | Some b \<Rightarrow> b_band (s_mem s b) = band)
   }"

definition canget :: "nat \<Rightarrow> strs \<Rightarrow> bool option" where
  "canget q s = bcanget q 0 s"

definition bcangetany :: "nat \<Rightarrow> strs \<Rightarrow> u8 option" where
  "bcangetany q s = do {
     (pv, nx) \<leftarrow> skip is_pri (s_mem s) None (q_first (s_que s q));
     Some (case nx of None \<Rightarrow> 0 | Some b \<Rightarrow> b_band (s_mem s b))
   }"

definition qsize :: "nat \<Rightarrow> strs \<Rightarrow> int" where
  "qsize q s = q_msgs (s_que s q)"

section \<open>Putting and taking\<close>

text \<open>The result 2 of the operation under the lock asks for the queue to be enabled.\<close>

definition put_result :: "nat \<Rightarrow> (nat \<times> strs) option \<Rightarrow> (nat \<times> strs) option" where
  "put_result q res = map_option (\<lambda>(r, s). if r < 2 then (r, s) else (1, qenable q s)) res"

definition putq :: "nat \<Rightarrow> nat \<Rightarrow> strs \<Rightarrow> (nat \<times> strs) option" where
  "putq q mp s = put_result q (at_queue q (putq_locked mp) s)"

definition putbq :: "nat \<Rightarrow> nat \<Rightarrow> strs \<Rightarrow> (nat \<times> strs) option" where
  "putbq q mp s = put_result q (at_queue q (putbq_locked mp) s)"

definition insq :: "nat \<Rightarrow> nat option \<Rightarrow> nat \<Rightarrow> strs \<Rightarrow> (nat \<times> strs) option" where
  "insq q emp nmp s = put_result q (at_queue q (insq_locked emp nmp) s)"

definition appq :: "nat \<Rightarrow> nat option \<Rightarrow> nat \<Rightarrow> strs \<Rightarrow> (nat \<times> strs) option" where
  "appq q emp nmp s =
     put_result q (at_queue q (insq_locked (case emp of None \<Rightarrow> None | Some e \<Rightarrow> b_next (s_mem s e)) nmp) s)"

definition getq :: "nat \<Rightarrow> strs \<Rightarrow> (nat option \<times> strs) option" where
  "getq q s = (case getq_locked (q_ctx q s) of
      None \<Rightarrow> None
    | Some (mp, be, c) \<Rightarrow>
        (let s = set_ctx q c s in
         Some (mp, if be then on_ptr mp (\<lambda>m. qbackenable q (b_band (s_mem s m)) None) s else s)))"

definition rmvq :: "nat \<Rightarrow> nat \<Rightarrow> strs \<Rightarrow> strs option" where
  "rmvq q mp s = (case rmvq_locked mp (q_ctx q s) of
      None \<Rightarrow> None
    | Some (be, c) \<Rightarrow>
        (let s = set_ctx q c s in Some (if be then qbackenable q (b_band (s_mem s mp)) None s else s)))"

text \<open>The flushes return the messages they free, in order.\<close>

definition flushband :: "nat \<Rightarrow> u8 \<Rightarrow> fflag \<Rightarrow> strs \<Rightarrow> (nat list \<times> strs) option" where
  "flushband q band flag s = do {
     (be, ch, c) \<leftarrow> flushband_locked band flag (q_ctx q s);
     s \<leftarrow> Some (ifthen (\<lambda>_. be) (qbackenable q band None) (set_ctx q c s));
     at_queue q (freechain ch) s
   }"

definition flushq :: "nat \<Rightarrow> fflag \<Rightarrow> strs \<Rightarrow> (nat list \<times> strs) option" where
  "flushq q flag s = do {
     (bands, ch, c) \<leftarrow> flushq_locked flag (q_ctx q s);
     s \<leftarrow> Some (ifthen (\<lambda>_. bands \<noteq> []) (qbackenable q (q_nband (s_que s q)) (Some bands)) (set_ctx q c s));
     at_queue q (freechain ch) s
   }"

end
