(* ===== verification/STR_Reach.thy ===== *)
theory STR_Reach
  imports STR_Stream
begin

text \<open>
  All the queues of a system together: each satisfies the invariant of a queue, no message is on two of them, and
  the run list holds each enabled queue once.  Every operation keeps this, whatever the order in which modules and
  drivers call them, and answers as the operation on lists does.
\<close>

section \<open>The invariant\<close>

definition streams_ok :: "strs \<Rightarrow> (nat \<Rightarrow> nat list) \<Rightarrow> bool" where
  "streams_ok s X \<longleftrightarrow> (\<forall>q. queue_ok (q_ctx q s) (X q)) \<and> (\<forall>q q'. q \<noteq> q' \<longrightarrow> set (X q) \<inter> set (X q') = {})"

lemma streams_okD: "streams_ok s X \<Longrightarrow> queue_ok (q_ctx q s) (X q)"
  by (simp add: streams_ok_def)

lemma q_ctx_simps [simp]: "que (q_ctx q s) = s_que s q" "mem (q_ctx q s) = s_mem s" "allocs (q_ctx q s) = s_allocs s"
  by (simp_all add: q_ctx_def)

lemma set_ctx_simps [simp]:
  "s_que (set_ctx q c s) = (s_que s)(q := que c)" "s_mem (set_ctx q c s) = mem c" "s_allocs (set_ctx q c s) = allocs c"
  "run_list (set_ctx q c s) = run_list s" "qrunflag (set_ctx q c s) = qrunflag s"
  by (simp_all add: set_ctx_def)

lemma q_ctx_set_ctx [simp]: "q_ctx q (set_ctx q c s) = c"
  by (simp add: q_ctx_def)

text \<open>An operation on queue \<open>q\<close> may touch the messages on it and messages that are on no queue.\<close>

lemma set_ctx_ok:
  assumes "streams_ok s X" "queue_ok c ys" "\<And>z. z \<notin> set (X q) \<union> M \<Longrightarrow> mem c z = s_mem s z"
    "\<And>q'. M \<inter> set (X q') = {}" "set ys \<subseteq> set (X q) \<union> M"
  shows "streams_ok (set_ctx q c s) (X(q := ys))"
proof -
  have d: "set (X q) \<inter> set (X q') = {}" if "q' \<noteq> q" for q' using assms(1) that by (auto simp: streams_ok_def)
  have "queue_ok (q_ctx q' (set_ctx q c s)) ((X(q := ys)) q')" for q'
  proof (cases "q' = q")
    case True
    then show ?thesis using assms(2) by simp
  next
    case False
    have "mem c z = s_mem s z" if "z \<in> set (X q')" for z
      using that d[OF False] assms(4)[of q'] by (intro assms(3)) auto
    then show ?thesis using queue_ok_outside[OF streams_okD[OF assms(1), of q'], of "q_ctx q' (set_ctx q c s)"] False
      by simp
  qed
  moreover have "set ys \<inter> set (X q') = {}" if "q' \<noteq> q" for q' using d[OF that] assms(4)[of q'] assms(5) by auto
  ultimately show ?thesis using assms(1) by (auto simp: streams_ok_def)
qed

lemma set_ctx_same:
  assumes "streams_ok s X" "queue_ok c (X q)" "mem c = s_mem s"
  shows "streams_ok (set_ctx q c s) X"
  using set_ctx_ok[OF assms(1,2), of q "{}"] assms(3) by simp

section \<open>Flags and bands\<close>

lemma on_flag_eq: "on_flag f v q s =
    set_ctx q (upd_que (\<lambda>qu. qu\<lparr>q_flag := (q_flag qu)(f := v)\<rparr>) (q_ctx q s)) s"
  by (simp add: on_flag_def set_ctx_def q_ctx_def upd_que_def)

lemma on_flag_ok:
  assumes "streams_ok s X" "f \<noteq> QFULL" "f \<noteq> QWANTW"
  shows "streams_ok (on_flag f v q s) X"
  unfolding on_flag_eq
proof (rule set_ctx_same[OF assms(1)])
  show "queue_ok (upd_que (\<lambda>qu. qu\<lparr>q_flag := (q_flag qu)(f := v)\<rparr>) (q_ctx q s)) (X q)"
    by (rule queue_ok_same_counts[OF _ streams_okD[OF assms(1)]]) (use assms in \<open>auto simp: same_counts_def\<close>)
qed simp

lemma queue_ok_grow:
  assumes "queue_ok c xs" "unat (q_nband (que (grow j as c))) = unat (q_nband (que c)) + j" "bands_ok (que (grow j as c))"
  shows "queue_ok (grow j as c) xs"
  using assms counted_grow[OF queue_okD(3)[OF assms(1)]] by (simp add: queue_ok_def ordered_def)

lemma queue_ok_band_flags:
  assumes "queue_ok c xs" "i < length (q_bandp (que c))" "qb_msgs qb = qb_msgs (band_at c i)"
    "qb_count qb = qb_count (band_at c i)" "qb_flag qb QB_FULL = qb_flag (band_at c i) QB_FULL"
    "qb_flag qb QB_WANTW \<Longrightarrow> qb_flag (band_at c i) QB_WANTW \<or> qb_flag (band_at c i) QB_FULL"
  shows "queue_ok (upd_band i (\<lambda>_. qb) c) xs"
proof -
  let ?c = "upd_band i (\<lambda>_. qb) c"
  note k = countedD[OF queue_okD(3)[OF assms(1)]]
  have b: "band_no (que ?c) k = (if unat (q_nband (que c)) - unat k = i then qb else band_no (que c) k)"
    "unat (q_nband (que c)) - unat k = i \<Longrightarrow> band_at c i = band_no (que c) k"
    if "0 < k" "k \<le> q_nband (que c)" for k
    using assms(2) that by (auto simp: band_no_def nth_list_update)
  have f: "full_bands ((q_bandp (que c))[i := qb]) = full_bands (q_bandp (que c))"
    using full_bands_update[OF assms(2), of qb] assms(5) by simp
  have fl: "flow_ok (qb_flag (band_no (que ?c) k) QB_FULL) (qb_flag (band_no (que ?c) k) QB_WANTW) (in_band c (set xs) k)"
    if "0 < k" "k \<le> q_nband (que c)" for k
    using b[OF that] k(8)[OF that] assms(5,6) by (auto simp: flow_ok_def)
  have m: "qb_msgs (band_no (que ?c) k) = int (card (in_band c (set xs) k))"
    "qb_count (band_no (que ?c) k) = of_nat (band_bytes c (set xs) k)" if "0 < k" "k \<le> q_nband (que c)" for k
    using b[OF that] k(6,7)[OF that] assms(3,4) by (cases "unat (q_nband (que c)) - unat k = i"; simp)+
  have e: "in_band ?c = in_band c" "band_bytes ?c = band_bytes c" by (simp_all add: in_band_def band_bytes_def fun_eq_iff)
  have "counted ?c (set xs)"
    unfolding counted_def e using k(1-5,9) m f fl by (simp add: bands_ok_def)
  then show ?thesis using assms(1) by (simp add: queue_ok_def on_queue_def ordered_def)
qed

lemma mark_band_ok:
  assumes "queue_ok c xs" "0 < band"
  shows "queue_ok (mark_band band c) xs \<and> mem (mark_band band c) = mem c"
proof -
  obtain j as where g: "snd (get_qband band c) = grow j as c"
    "unat (q_nband (que (grow j as c))) = unat (q_nband (que c)) + j" "bands_ok (que (grow j as c))"
    "fst (get_qband band c) = None \<or> band \<le> q_nband (que (grow j as c)) \<and>
       fst (get_qband band c) = Some (unat (q_nband (que (grow j as c))) - unat band)"
    using get_qband_spec[OF queue_okD(5)[OF assms(1)] assms(2)] by metis
  have q: "queue_ok (grow j as c) xs" using queue_ok_grow[OF assms(1) g(2,3)] .
  show ?thesis
  proof (cases "fst (get_qband band c)")
    case None
    then have "mark_band band c = grow j as c" using g(1) by (simp add: mark_band_def case_prod_unfold)
    then show ?thesis using q by simp
  next
    case (Some i)
    have "0 < unat band" using assms(2) by (simp add: word_gt_0 unat_gt_0)
    then have i: "i < length (q_bandp (que (grow j as c)))"
      using g(3,4) Some by (simp add: bands_ok_def word_le_nat_alt)
    define t where "t = grow j as c"
    have "mark_band band c = upd_band i (\<lambda>qb. qb\<lparr>qb_flag := (qb_flag qb)(QB_BACK := True)\<rparr>) t"
      using Some g(1) by (simp add: mark_band_def case_prod_unfold t_def)
    also have "\<dots> = upd_band i (\<lambda>_. (band_at t i)\<lparr>qb_flag := (qb_flag (band_at t i))(QB_BACK := True)\<rparr>) t"
      by (rule upd_band_const)
    finally have e: "mark_band band c = \<dots>" .
    have "queue_ok (mark_band band c) xs"
      unfolding e by (rule queue_ok_band_flags) (use q i in \<open>simp_all add: t_def[symmetric]\<close>)
    then show ?thesis by (simp add: e) (simp add: t_def)
  qed
qed

lemma mark_bands_ok:
  "queue_ok c xs \<Longrightarrow> n < 256 \<Longrightarrow> queue_ok (mark_bands n bands c) xs \<and> mem (mark_bands n bands c) = mem c"
proof (induction n bands c rule: mark_bands.induct)
  case (2 n bands c)
  have "unat (of_nat (Suc n) :: u8) = Suc n" using "2.prems"(2) by (simp add: unat_of_nat del: of_nat_Suc)
  then have z: "0 < (of_nat (Suc n) :: u8)" by (metis unat_gt_0 word_gt_0 zero_less_Suc)
  let ?c = "ifthen (\<lambda>_. of_nat (Suc n) \<in> set bands) (mark_band (of_nat (Suc n))) c"
  have "queue_ok ?c xs \<and> mem ?c = mem c"
    using mark_band_ok[OF "2.prems"(1) z] "2.prems"(1) by (auto simp: ifthen_def)
  then show ?case using "2.IH" "2.prems"(2) by simp
qed simp

lemma set_flag_ok: "queue_ok c xs \<Longrightarrow> f \<noteq> QFULL \<Longrightarrow> f \<noteq> QWANTW \<Longrightarrow> queue_ok (set_flag f c) xs"
  by (rule queue_ok_same_counts) auto

lemma qbackenable_bands_ok:
  assumes "queue_ok c xs"
  shows "queue_ok (qbackenable_bands band bands c) xs \<and> mem (qbackenable_bands band bands c) = mem c"
proof -
  let ?c = "ifthen (\<lambda>_. 0 \<in> set bands) (set_flag QBACK) c"
  have "queue_ok ?c xs \<and> mem ?c = mem c" using set_flag_ok[OF assms] assms by (auto simp: ifthen_def)
  then show ?thesis using mark_bands_ok[of ?c xs "unat band" bands] unsigned_less[of band, where 'a = nat]
    by (simp add: qbackenable_bands_def)
qed

section \<open>Scheduling\<close>

text \<open>The run list holds each enabled queue once; \<open>pending\<close> are the queues the loop has taken over.\<close>

definition run_ok :: "nat list \<Rightarrow> strs \<Rightarrow> bool" where
  "run_ok pending s \<longleftrightarrow> distinct (pending @ run_list s) \<and> (\<forall>q. q \<in> set (pending @ run_list s) \<longleftrightarrow> tst QENAB q s) \<and>
     (run_list s \<noteq> [] \<longrightarrow> qrunflag s)"

lemma run_ok_cong:
  "run_list s' = run_list s \<Longrightarrow> qrunflag s' = qrunflag s \<Longrightarrow> (\<And>q. tst QENAB q s' = tst QENAB q s) \<Longrightarrow>
    run_ok p s' = run_ok p s"
  by (simp add: run_ok_def)

lemma qenable_run_ok: "run_ok p s \<Longrightarrow> run_ok p (qenable q s)"
  by (auto simp: qenable_def qschedule_def ifthen_def run_ok_def on_flag_def)

lemma qenable_ok: "streams_ok s X \<Longrightarrow> streams_ok (qenable q s) X"
  using on_flag_ok[of s X QENAB True q]
  by (auto simp: qenable_def qschedule_def ifthen_def streams_ok_def q_ctx_def)

lemma qenable_mem [simp]: "s_mem (qenable q s) = s_mem s"
  by (simp add: qenable_def qschedule_def ifthen_def on_flag_def)

lemma mark_flags [simp]: "q_flag (que (mark_band band c)) = q_flag (que c)"
proof -
  have "q_flag (que (snd (get_qband_loop band c))) = q_flag (que c)"
    by (induction band c rule: get_qband_loop.induct)
      (subst get_qband_loop.simps, auto simp: Let_def split: list.split bool.split)
  then have "q_flag (que (snd (get_qband band c))) = q_flag (que c)" by (simp add: get_qband_def)
  then show ?thesis by (simp add: mark_band_def case_prod_unfold split: option.split)
qed

lemma mark_bands_flags [simp]: "q_flag (que (mark_bands n bands c)) = q_flag (que c)"
  by (induction n bands c rule: mark_bands.induct) (simp_all add: ifthen_def)

lemma qbackenable_ok:
  assumes "streams_ok s X" "run_ok p s"
  shows "streams_ok (qbackenable q band bands s) X" "run_ok p (qbackenable q band bands s)"
    "s_mem (qbackenable q band bands s) = s_mem s"
proof -
  define c where "c nb = (case bands of
      None \<Rightarrow> if band = 0 then set_flag QBACK (q_ctx nb s) else mark_band band (q_ctx nb s)
    | Some bs \<Rightarrow> qbackenable_bands band bs (q_ctx nb s))" for nb
  have c: "queue_ok (c nb) (X nb) \<and> mem (c nb) = s_mem s" for nb
    using set_flag_ok[of "q_ctx nb s" "X nb" QBACK] mark_band_ok[of "q_ctx nb s" "X nb" band]
      qbackenable_bands_ok[of "q_ctx nb s" "X nb" band] streams_okD[OF assms(1), of nb]
    by (auto simp: c_def word_gt_0 split: option.split)
  have f: "q_flag (que (c nb)) QENAB = tst QENAB nb s" for nb
    by (auto simp: c_def qbackenable_bands_def ifthen_def split: option.split)
  have b: "qbackenable q band bands s = s \<or> (\<exists>nb. qbackenable q band bands s = qenable nb (set_ctx nb (c nb) s))"
    by (auto simp: qbackenable_def c_def Let_def split: option.split)
  have "streams_ok (set_ctx nb (c nb) s) X" for nb using set_ctx_same[OF assms(1)] c by simp
  moreover have "run_ok p (set_ctx nb (c nb) s)" for nb using assms(2) f by (auto simp: run_ok_def)
  ultimately show "streams_ok (qbackenable q band bands s) X" "run_ok p (qbackenable q band bands s)"
    "s_mem (qbackenable q band bands s) = s_mem s"
    using b assms(1,2) qenable_ok qenable_run_ok c by auto
qed

section \<open>Operations\<close>

text \<open>What no operation changes of a message: its priority and its data.\<close>

definition fixed :: "strs \<Rightarrow> strs \<Rightarrow> bool" where
  "fixed s s' \<longleftrightarrow> (\<forall>x. prio (s_mem s' x) = prio (s_mem s x) \<and> b_datap (s_mem s' x) = b_datap (s_mem s x))"

lemma fixed_refl [simp]: "fixed s s"
  by (simp add: fixed_def)

lemma fixed_trans: "fixed s t \<Longrightarrow> fixed t u \<Longrightarrow> fixed s u"
  by (simp add: fixed_def)

lemma fixed_mem: "s_mem s' = s_mem s \<Longrightarrow> fixed s s'"
  by (simp add: fixed_def)

lemma fixed_contents: "same_contents (q_ctx q s) c \<Longrightarrow> s_mem s' = mem c \<Longrightarrow> fixed s s'"
  using same_contentsD[of "q_ctx q s" c] by (simp add: fixed_def prio_def)

lemma set_ctx_run_ok: "run_ok p s \<Longrightarrow> keeps_flags (q_ctx q s) c \<Longrightarrow> run_ok p (set_ctx q c s)"
  by (auto simp: run_ok_def keeps_flags_def)

lemma put_step:
  assumes "streams_ok s X" "run_ok p s" "\<And>q'. m \<notin> set (X q')"
    "puts place m (q_ctx q s) (X q) (f (q_ctx q s))" "\<And>r c. f (q_ctx q s) = Some (r, c) \<Longrightarrow> keeps_flags (q_ctx q s) c"
    "set (place m (X q)) = insert m (set (X q))"
  shows "\<exists>r s'. put_result q (at_queue q f s) = Some (r, s') \<and> r \<le> 1 \<and>
    (r = 0 \<longrightarrow> \<not> is_pri (s_mem s m) \<and> 0 < b_band (s_mem s m)) \<and>
    streams_ok s' (if r = 0 then X else X(q := place m (X q))) \<and> run_ok p s' \<and> fixed s s'"
proof -
  obtain r c where r: "f (q_ctx q s) = Some (r, c)" "r \<le> 2" "queue_ok c (if r = 0 then X q else place m (X q))"
    "r = 0 \<longrightarrow> \<not> is_pri (s_mem s m) \<and> 0 < b_band (s_mem s m)"
    "\<forall>z. z \<notin> insert m (set (X q)) \<longrightarrow> mem c z = s_mem s z"
    "\<forall>x. prio (mem c x) = prio (s_mem s x) \<and> b_datap (mem c x) = b_datap (s_mem s x)"
    using assms(4) unfolding puts_def by auto
  let ?ys = "if r = 0 then X q else place m (X q)"
  have ok: "streams_ok (set_ctx q c s) (X(q := ?ys))"
    using r(5) assms(3,6) by (intro set_ctx_ok[OF assms(1) r(3), of q "{m}"]) (auto split: if_splits)
  have run: "run_ok p (set_ctx q c s)" using set_ctx_run_ok[OF assms(2) assms(5)[OF r(1)]] .
  have fx: "fixed s (set_ctx q c s)" "fixed s (qenable q (set_ctx q c s))" using r(6) by (simp_all add: fixed_def)
  show ?thesis
  proof (cases "r < 2")
    case True
    then show ?thesis using r(1,4) ok run fx by (auto simp: put_result_def at_queue_def split: if_splits)
  next
    case False
    then show ?thesis using r(1,2) qenable_ok[OF ok, of q] qenable_run_ok[OF run, of q] fx
      by (auto simp: put_result_def at_queue_def)
  qed
qed

lemma put_steps:
  fixes q :: nat
  assumes "streams_ok s X" "run_ok p s" "\<And>q'. m \<notin> set (X q')"
  defines "ok place res \<equiv> (\<exists>r s'. res = Some (r, s') \<and> r \<le> 1 \<and>
    (r = 0 \<longrightarrow> \<not> is_pri (s_mem s m) \<and> 0 < b_band (s_mem s m)) \<and>
    streams_ok s' (if r = 0 then X else X(q := place (\<lambda>x. prio (s_mem s x)) m (X q))) \<and> run_ok p s' \<and>
    fixed s s')"
  shows "ok behind (putq q m s)" "ok before (putbq q m s)" "ok behind (insq q None m s)"
proof -
  note pk = put_ok[OF streams_okD[OF assms(1), of q] assms(3)[of q]]
  note st = put_step[OF assms(1,2,3)]
  show "ok behind (putq q m s)" unfolding ok_def putq_def
    using pk(1) put_keeps_flags by (intro st) auto
  show "ok before (putbq q m s)" unfolding ok_def putbq_def
    using pk(2) put_keeps_flags by (intro st) auto
  show "ok behind (insq q None m s)" unfolding ok_def insq_def
    using pk(3) put_keeps_flags by (intro st) auto
qed

lemma getq_step:
  assumes "streams_ok s X" "run_ok p s"
  shows "\<exists>s'. getq q s = Some (first (X q) None, s') \<and> streams_ok s' (X(q := tl (X q))) \<and> run_ok p s' \<and>
    fixed s s'"
proof -
  note q = streams_okD[OF assms(1), of q]
  obtain be c where g: "getq_locked (q_ctx q s) = Some (first (X q) None, be, c)" "queue_ok c (tl (X q))"
    "same_contents (q_ctx q s) c"
    using getq_ok[OF q] by blast
  have ok: "streams_ok (set_ctx q c s) (X(q := tl (X q)))"
    using getq_outside[OF queue_okD(1)[OF q] g(1)]
    by (intro set_ctx_ok[OF assms(1) g(2), of q "{}"]) (cases "X q"; auto)+
  have run: "run_ok p (set_ctx q c s)" using set_ctx_run_ok[OF assms(2) getq_keeps_flags[OF g(1)]] .
  show ?thesis
    using g(1) ok run qbackenable_ok[OF ok run] fixed_contents[OF g(3)]
    by (cases "first (X q) None") (auto simp: getq_def Let_def)
qed

lemma rmvq_step:
  assumes "streams_ok s X" "run_ok p s" "m \<in> set (X q)"
  shows "\<exists>s'. rmvq q m s = Some s' \<and> streams_ok s' (X(q := remove1 m (X q))) \<and> run_ok p s' \<and> fixed s s'"
proof -
  obtain xs ys where x: "X q = xs @ m # ys" using split_list[OF assms(3)] by blast
  have q: "queue_ok (q_ctx q s) (xs @ m # ys)" using streams_okD[OF assms(1), of q] x by simp
  have r: "remove1 m (X q) = xs @ ys" using queue_okD(4)[OF q] x by (simp add: remove1_append)
  obtain be c where g: "rmvq_locked m (q_ctx q s) = Some (be, c)" "queue_ok c (xs @ ys)" "same_contents (q_ctx q s) c"
    using rmvq_ok[OF q] by blast
  have ok: "streams_ok (set_ctx q c s) (X(q := xs @ ys))"
    using rmvq_outside[OF queue_okD(1)[OF q] g(1)] x
    by (intro set_ctx_ok[OF assms(1) g(2), of q "{}"]) auto
  have run: "run_ok p (set_ctx q c s)" using set_ctx_run_ok[OF assms(2) rmvq_keeps_flags[OF g(1)]] .
  show ?thesis using g(1) ok run qbackenable_ok[OF ok run] r fixed_contents[OF g(3)] by (auto simp: rmvq_def Let_def)
qed

definition flush_keeps :: "fflag \<Rightarrow> strs \<Rightarrow> nat \<Rightarrow> bool" where
  "flush_keeps flag s x \<longleftrightarrow> flag = FLUSHDATA \<and> \<not> isdatamsg (s_mem s x)"

lemma flush_keeps_fun:
  "flush_keeps FLUSHALL s = (\<lambda>_. False)" "flush_keeps FLUSHDATA s = (\<lambda>x. \<not> isdatamsg (s_mem s x))"
  by (simp_all add: flush_keeps_def fun_eq_iff)

lemma flushq_step:
  assumes "streams_ok s X" "run_ok p s"
  shows "\<exists>s'. flushq q flag s = Some (filter (\<lambda>x. \<not> flush_keeps flag s x) (X q), s') \<and>
    streams_ok s' (X(q := filter (flush_keeps flag s) (X q))) \<and> run_ok p s' \<and> fixed s s'"
proof -
  let ?ys = "filter (flush_keeps flag s) (X q)" and ?fs = "filter (\<lambda>x. \<not> flush_keeps flag s x) (X q)"
  note q = streams_okD[OF assms(1), of q]
  obtain bands ch c where g: "flushq_locked flag (q_ctx q s) = Some (bands, ch, c)" "queue_ok c ?ys" "freed ch c ?fs"
    "keeps_flags (q_ctx q s) c" "same_contents (q_ctx q s) c" "\<forall>z. z \<notin> set (X q) \<longrightarrow> mem c z = s_mem s z"
    using flushq_all_ok[OF q] flushq_data_ok[OF q] by (cases flag) (auto simp: flush_keeps_fun)
  have ok: "streams_ok (set_ctx q c s) (X(q := ?ys))"
    using g(6) by (intro set_ctx_ok[OF assms(1) g(2), of q "{}"]) auto
  have run: "run_ok p (set_ctx q c s)" using set_ctx_run_ok[OF assms(2) g(4)] .
  define t where "t = ifthen (\<lambda>_. bands \<noteq> []) (qbackenable q (q_nband (s_que s q)) (Some bands)) (set_ctx q c s)"
  have t: "streams_ok t (X(q := ?ys))" "run_ok p t" "s_mem t = mem c"
    using ok run qbackenable_ok[OF ok run] by (auto simp: t_def ifthen_def)
  have "freed ch (q_ctx q t) ?fs" using g(3) t(3) by (simp add: freed_def)
  then obtain c' where f: "freechain ch (q_ctx q t) = Some (?fs, c')" "que c' = s_que t q"
    "same_contents (q_ctx q t) c'" "\<forall>z. z \<notin> set ?fs \<longrightarrow> mem c' z = s_mem t z"
    using freed_freechain[of ch "q_ctx q t" ?fs] by auto
  have d: "set ?fs \<inter> set ((X(q := ?ys)) q') = {}" for q'
    using assms(1) by (cases "q' = q") (auto simp: streams_ok_def)
  have "queue_ok c' ?ys"
    using queue_ok_outside[OF streams_okD[OF t(1), of q], of c'] f(2,4) by simp
  then have "streams_ok (set_ctx q c' t) ((X(q := ?ys))(q := ?ys))"
    using f(4) d by (intro set_ctx_ok[OF t(1), of _ _ q "set ?fs"]) auto
  moreover have "run_ok p (set_ctx q c' t)" using t(2) f(2) by (intro set_ctx_run_ok keeps_flags_que) simp_all
  moreover have "fixed s (set_ctx q c' t)"
    using fixed_trans[OF fixed_contents[OF g(5) t(3)] fixed_contents[OF f(3)]] by simp
  ultimately show ?thesis using g(1) f(1) by (auto simp: flushq_def at_queue_def t_def)
qed

text \<open>Asking whether a queue can take a message changes at most the flags that say that a writer waits.\<close>

lemma bcanput_locked_ok:
  assumes "queue_ok c xs"
  shows "\<exists>b c'. bcanput_locked band c = Some (b, c') \<and> queue_ok c' xs \<and> mem c' = mem c \<and> keeps_flags c c'"
proof (cases "band = 0")
  case True
  have "queue_ok (set_flag QWANTW c) xs" if "q_flag (que c) QFULL"
  proof -
    have "counted (set_flag QWANTW c) (set xs)"
      using queue_okD(3)[OF assms] that
      by (simp add: counted_def flow_ok_def bands_ok_def in_band_def band_bytes_def band_no_def)
    then show ?thesis using assms by (simp add: queue_ok_def on_queue_def ordered_def)
  qed
  then show ?thesis using True assms by (auto simp: bcanput_locked_def keeps_flags_def)
next
  case False
  then have z: "0 < band" by (simp add: word_gt_0)
  show ?thesis
  proof (cases "band \<le> q_nband (que c) \<and> 0 < q_blocked (que c)")
    case True
    define i where "i = unat (q_nband (que c)) - unat band"
    have f: "find_qband (que c) band = Some i"
      using find_qband_eq[OF queue_okD(5)[OF assms] z] True i_def by blast
    have "0 < unat band" using z by (simp add: word_gt_0 unat_gt_0)
    then have il: "i < length (q_bandp (que c))"
      using True queue_okD(5)[OF assms] by (simp add: i_def bands_ok_def word_le_nat_alt)
    define w where "w = upd_band i (\<lambda>_. (band_at c i)\<lparr>qb_flag := (qb_flag (band_at c i))(QB_WANTW := True)\<rparr>) c"
    have w: "upd_band i (\<lambda>qb. qb\<lparr>qb_flag := (qb_flag qb)(QB_WANTW := True)\<rparr>) c = w"
      unfolding w_def by (rule upd_band_const)
    have "queue_ok w xs" if "qb_flag (band_at c i) QB_FULL"
      unfolding w_def by (rule queue_ok_band_flags[OF assms il]) (use that in simp_all)
    moreover have "mem w = mem c" "keeps_flags c w" unfolding w_def by simp_all
    ultimately show ?thesis using True False f assms w
      by (auto simp: bcanput_locked_def bcanput_slow_def)
  qed (use False assms in \<open>auto simp: bcanput_locked_def bcanput_slow_def\<close>)
qed

lemma bcanput_at:
  assumes "streams_ok s X" "run_ok p s"
  shows "\<exists>b s'. at_queue q (bcanput_locked band) s = Some (b, s') \<and> streams_ok s' X \<and> run_ok p s' \<and> fixed s s'"
proof -
  obtain b c where c: "bcanput_locked band (q_ctx q s) = Some (b, c)" "queue_ok c (X q)" "mem c = s_mem s"
    "keeps_flags (q_ctx q s) c"
    using bcanput_locked_ok[OF streams_okD[OF assms(1), of q], of band] by auto
  have "streams_ok (set_ctx q c s) X" using set_ctx_same[OF assms(1) c(2,3)] .
  moreover have "run_ok p (set_ctx q c s)" using set_ctx_run_ok[OF assms(2) c(4)] .
  ultimately show ?thesis using c(1,3) by (auto simp: at_queue_def fixed_def)
qed

lemma bcanput_step:
  assumes "streams_ok s X" "run_ok p s"
  shows "\<exists>b s'. bcanput q band s = Some (b, s') \<and> streams_ok s' X \<and> run_ok p s' \<and> fixed s s'"
    "\<exists>b s'. bcanputnext q band s = Some (b, s') \<and> streams_ok s' X \<and> run_ok p s' \<and> fixed s s'"
  using assms bcanput_at[OF assms]
  by (auto simp: bcanput_def bcanputnext_def bcanputnext_locked_def split: option.split)

end
