(* ===== verification/STR_Insert.thy ===== *)
theory STR_Insert
  imports STR_Reach
begin

text \<open>
  Inserting a message before another one or behind it (\<open>insq\<close>, \<open>appq\<close>), and the flushes of band zero that keep the
  queue in order: what they do to the list of messages, and when \<open>insq\<close> accepts.
\<close>

section \<open>Linking before a message\<close>

lemma insq_link_simps [simp]:
  "q_last (que (insq_link e m s)) = q_last (que s)" "q_count (que (insq_link e m s)) = q_count (que s)"
  "q_flag (que (insq_link e m s)) = q_flag (que s)" "q_msgs (que (insq_link e m s)) = q_msgs (que s) + 1"
  "q_nband (que (insq_link e m s)) = q_nband (que s)" "q_bandp (que (insq_link e m s)) = q_bandp (que s)"
  "q_blocked (que (insq_link e m s)) = q_blocked (que s)" "same_contents s (insq_link e m s)" "keeps_flags s (insq_link e m s)"
  by (auto simp: insq_link_def msgs_inc_def ifthen_def on_ptr_def same_contents_def keeps_flags_def split: option.split)

lemma insq_link_on:
  assumes "on_queue s (xs @ e # ys)" "n \<notin> set (xs @ e # ys)"
  shows "on_queue (insq_link e n s) (xs @ n # e # ys)"
  using assms
  by (cases xs rule: rev_cases; cases ys) (auto simp: on_queue_def insq_link_def msgs_inc_def ifthen_def dest: first_Some_in)

lemma insq_link_outside:
  assumes "on_queue s (xs @ e # ys)" "z \<notin> insert n (set (xs @ e # ys))"
  shows "mem (insq_link e n s) z = mem s z"
proof -
  have "b_prev (mem s e) = final None xs" using assms(1) by (simp add: on_queue_def)
  moreover have "final None xs \<noteq> Some z" using assms(2) by (intro end_outside) simp
  ultimately show ?thesis using assms(2)
    by (auto simp: insq_link_def msgs_inc_def ifthen_def on_ptr_def split: option.split)
qed

text \<open>It is independent of the statements on the bands.\<close>

lemma insq_link_upd_band:
  "insq_link e m (upd_band i f s) = upd_band i f (insq_link e m s)"
  "insq_link e m (add_blocked n s) = add_blocked n (insq_link e m s)"
  by (simp_all add: insq_link_def msgs_inc_def ifthen_def on_ptr_def upd_band_def upd_que_def upd_mem_def add_blocked_def
      split: option.split)

lemma insq_link_band_count:
  assumes "i < length (q_bandp (que s))"
  shows "band_count_in i m (insq_link e m s) = insq_link e m (band_count_in i m s)"
  using assms same_contentsD(4)[OF insq_link_simps(8)[of s e m]]
  by (simp add: band_count_in_eq Let_def insq_link_upd_band)

lemma insq_band_link:
  assumes "i < length (q_bandp (que s))"
  shows "steps [
      ifthen (\<lambda>s. qb_last (band_at s i) = pv \<or> qb_last (band_at s i) = None) (upd_band i (qb_last_update (\<lambda>_. Some m))),
      ifthen (\<lambda>s. qb_first (band_at s i) = b_next (mem s e) \<or> qb_first (band_at s i) = None)
        (upd_band i (qb_first_update (\<lambda>_. Some m))),
      insq_link e m,
      upd_band i (\<lambda>qb. qb\<lparr>qb_msgs := qb_msgs qb + 1\<rparr>),
      band_count_in i m] s = insq_link e m (band_link i m pv (b_next (mem s e)) s)" (is "steps [?f, ?g, _, ?h, ?c] s = _")
proof -
  let ?nx = "b_next (mem s e)"
  let ?g' = "ifthen (\<lambda>s. qb_first (band_at s i) = ?nx \<or> qb_first (band_at s i) = None) (upd_band i (qb_first_update (\<lambda>_. Some m)))"
  define t where "t = ?g (?f s)"
  have t: "t = ?g' (?f s)" "length (q_bandp (que t)) = length (q_bandp (que s))" by (simp_all add: t_def ifthen_def)
  then have l: "i < length (q_bandp (que (?h t)))" using assms by simp
  have "steps [?f, ?g, insq_link e m, ?h, ?c] s = ?c (insq_link e m (?h t))"
    unfolding insq_link_upd_band(1) by (simp add: t_def)
  also have "\<dots> = insq_link e m (?c (?h t))"
    by (rule insq_link_band_count[OF l])
  also have "?c (?h t) = band_link i m pv ?nx s"
    by (simp add: band_link_def t(1))
  finally show ?thesis .
qed

section \<open>The specification\<close>

definition insert_before :: "nat \<Rightarrow> nat \<Rightarrow> nat list \<Rightarrow> nat list" where
  "insert_before e m xs = takeWhile (\<lambda>x. x \<noteq> e) xs @ m # dropWhile (\<lambda>x. x \<noteq> e) xs"

text \<open>When \<open>insq\<close> accepts: a high priority message behind none but high priority messages; another one before one that
  is not of high priority and not of a lower band, and behind one that is of high priority or not of a higher band.\<close>

definition insq_takes :: "(nat \<Rightarrow> nat) \<Rightarrow> nat \<Rightarrow> nat \<Rightarrow> nat list \<Rightarrow> bool" where
  "insq_takes pr e m xs \<longleftrightarrow> (let ps = takeWhile (\<lambda>x. x \<noteq> e) xs in
     if pr m = 256 then ps = [] \<or> pr (last ps) = 256
     else pr e < 256 \<and> pr m \<le> pr e \<and> (ps = [] \<or> pr (last ps) = 256 \<or> pr (last ps) \<le> pr m))"

definition next_of :: "nat \<Rightarrow> nat list \<Rightarrow> nat option" where
  "next_of e xs = first (tl (dropWhile (\<lambda>x. x \<noteq> e) xs)) None"

lemma around:
  assumes "distinct (ps @ e # ys)"
  shows "takeWhile (\<lambda>x. x \<noteq> e) (ps @ e # ys) = ps" "dropWhile (\<lambda>x. x \<noteq> e) (ps @ e # ys) = e # ys"
    "insert_before e m (ps @ e # ys) = ps @ m # e # ys" "next_of e (ps @ e # ys) = first ys None"
proof -
  have p: "\<And>x. x \<in> set ps \<Longrightarrow> x \<noteq> e" using assms by auto
  show "takeWhile (\<lambda>x. x \<noteq> e) (ps @ e # ys) = ps" "dropWhile (\<lambda>x. x \<noteq> e) (ps @ e # ys) = e # ys"
    using p by simp_all
  then show "insert_before e m (ps @ e # ys) = ps @ m # e # ys" "next_of e (ps @ e # ys) = first ys None"
    by (simp_all add: insert_before_def next_of_def)
qed

lemma set_insert_before: "set (insert_before e m xs) = insert m (set xs)"
  unfolding insert_before_def by (metis Un_insert_right list.simps(15) set_append takeWhile_dropWhile_id)

lemma prio_compare:
  "\<not> is_pri b \<Longrightarrow> \<not> is_pri b' \<Longrightarrow> prio b < prio b' \<longleftrightarrow> b_band b < b_band b'"
  "prio b < 256 \<longleftrightarrow> \<not> is_pri b"
  using prio_le[of b] prio_pri[of b] by (auto simp: prio_def word_less_nat_alt)

text \<open>What the code tests on the message before.\<close>

lemma prev_norm_eq:
  assumes "on_queue s (ps @ e # ys)"
  shows "prev_norm P e s \<longleftrightarrow> ps \<noteq> [] \<and> \<not> is_pri (mem s (last ps)) \<and> P (mem s (last ps))"
proof -
  have "b_prev (mem s e) = final None ps" using assms by (simp add: on_queue_def)
  then show ?thesis by (auto simp: prev_norm_def final_def)
qed

lemma insq_takes_eq:
  assumes "on_queue s (ps @ e # ys)"
  shows "insq_takes (\<lambda>x. prio (mem s x)) e m (ps @ e # ys) \<longleftrightarrow>
    (if is_pri (mem s m) then \<not> prev_norm (\<lambda>_. True) e s
     else \<not> is_pri (mem s e) \<and> \<not> b_band (mem s e) < b_band (mem s m) \<and> \<not> prev_norm (\<lambda>b. b_band (mem s m) < b_band b) e s)"
proof -
  note a = around(1)[OF on_queueD(1)[OF assms]]
  note p = prev_norm_eq[OF assms]
  show ?thesis
  proof (cases "is_pri (mem s m)")
    case True
    then have "prio (mem s m) = 256" by (simp add: prio_pri)
    then show ?thesis unfolding insq_takes_def Let_def a using True by (auto simp: p prio_pri)
  next
    case False
    then have "prio (mem s m) \<noteq> 256" by (simp add: prio_pri)
    then show ?thesis unfolding insq_takes_def Let_def a
      using False prio_compare(1)[OF _ False] prio_compare(1)[OF False] prio_compare(2)
      by (auto simp: p prio_pri not_less simp flip: not_less)
  qed
qed

section \<open>What inserting does\<close>

text \<open>A message that is refused for its place is refused before anything is changed.\<close>

lemma insq_refuses:
  assumes "on_queue s (ps @ e # ys)" "\<not> insq_takes (\<lambda>x. prio (mem s x)) e m (ps @ e # ys)"
  shows "insq_locked (Some e) m s = Some (0, s)"
  using assms(2) unfolding insq_takes_eq[OF assms(1)]
  by (auto simp: insq_locked_def insq_middle_def not_le split: if_splits)

lemma descending_insert:
  assumes "descending pr (ps @ e # ys)" "pr e \<le> pr m" "insq_takes pr e m (ps @ e # ys)" "distinct (ps @ e # ys)"
    "\<And>x. pr x \<le> 256"
  shows "descending pr (ps @ m # e # ys)"
proof -
  have pe: "pr x \<ge> pr e" "x \<in> set ps \<Longrightarrow> pr x \<ge> pr (last ps)" if "x \<in> set ps" for x
  proof -
    show "pr x \<ge> pr e" using assms(1) that by (simp add: descending_def sorted_wrt_append)
    have "descending pr ps" using assms(1) by (simp add: descending_def sorted_wrt_append)
    then show "x \<in> set ps \<Longrightarrow> pr x \<ge> pr (last ps)"
      by (cases ps rule: rev_cases) (auto simp: descending_def sorted_wrt_append)
  qed
  have "pr m \<le> pr x" if "x \<in> set ps" for x
    using assms(3)[unfolded insq_takes_def Let_def around(1)[OF assms(4)]] pe[OF that] that assms(5)[of m]
    by (auto split: if_splits)
  moreover have "pr y \<le> pr m" if "y \<in> set (e # ys)" for y
  proof -
    have "pr y \<le> pr e" using assms(1) that by (auto simp: descending_def sorted_wrt_append)
    then show ?thesis using assms(2) by simp
  qed
  ultimately show ?thesis using assms(1) by (auto simp: descending_def sorted_wrt_append)
qed

text \<open>The states it may end in.\<close>

lemma insq_taken:
  assumes "on_queue s (ps @ e # ys)" "insq_takes (\<lambda>x. prio (mem s x)) e m (ps @ e # ys)"
  defines "pri \<equiv> is_pri (mem s m)" and "k \<equiv> b_band (mem s m)"
  shows "\<exists>r s'. insq_locked (Some e) m s = Some (r, s') \<and> r \<le> 2 \<and>
    (if r = 0 then \<not> pri \<and> 0 < k \<and> get_qband k s = (None, s')
     else if pri then s' = count_in m (insq_link e m (upd_mem m (b_band_update (\<lambda>_. 0)) s))
     else if k = 0 then s' = count_in m (insq_link e m s)
     else \<exists>i t nx. get_qband k s = (Some i, t) \<and>
       (i < length (q_bandp (que t)) \<longrightarrow> s' = insq_link e m (band_link i m (Some e) nx t)))"
  using assms(2) unfolding insq_takes_eq[OF assms(1)]
proof (cases pri)
  case True
  then show ?thesis
    using assms(2) unfolding insq_takes_eq[OF assms(1)]
    by (simp add: insq_locked_def insq_middle_def insq_result_def pri_def)
next
  case False
  note t = assms(2)[unfolded insq_takes_eq[OF assms(1)]]
  show ?thesis
  proof (cases "k = 0")
    case True
    then show ?thesis using t False by (simp add: insq_locked_def insq_middle_def insq_result_def pri_def k_def)
  next
    case nz: False
    obtain a t' where g: "get_qband k s = (a, t')"
      by fastforce
    show ?thesis
    proof (cases a)
      case None
      then show ?thesis using t False nz g
        by (simp add: insq_locked_def insq_middle_def insq_result_def pri_def k_def word_gt_0)
    next
      case (Some i)
      have "insq_locked (Some e) m s = Some (insq_result m (steps [
             ifthen (\<lambda>s. qb_last (band_at s i) = Some e \<or> qb_last (band_at s i) = None)
               (upd_band i (qb_last_update (\<lambda>_. Some m))),
             ifthen (\<lambda>s. qb_first (band_at s i) = b_next (mem s e) \<or> qb_first (band_at s i) = None)
               (upd_band i (qb_first_update (\<lambda>_. Some m))),
             insq_link e m,
             upd_band i (\<lambda>qb. qb\<lparr>qb_msgs := qb_msgs qb + 1\<rparr>),
             band_count_in i m] t'))" (is "_ = Some (insq_result m ?s')")
        using t False nz g Some by (simp add: insq_locked_def insq_middle_def pri_def k_def del: steps.simps)
      moreover have "i < length (q_bandp (que t')) \<longrightarrow> ?s' = insq_link e m (band_link i m (Some e) (b_next (mem t' e)) t')"
        by (intro impI insq_band_link)
      ultimately show ?thesis using False nz g Some unfolding insq_result_def by fastforce
    qed
  qed
qed

lemma get_qband_ok:
  assumes "queue_ok s xs" "0 < k" "get_qband k s = (a, t)"
  shows "queue_ok t xs" "mem t = mem s" "keeps_flags s t"
    "a = Some i \<Longrightarrow> i = unat (q_nband (que t)) - unat k \<and> k \<le> q_nband (que t) \<and> i < length (q_bandp (que t))"
proof -
  obtain j as where g: "snd (get_qband k s) = grow j as s"
    "unat (q_nband (que (grow j as s))) = unat (q_nband (que s)) + j" "bands_ok (que (grow j as s))"
    "fst (get_qband k s) = None \<or> k \<le> q_nband (que (grow j as s)) \<and>
       fst (get_qband k s) = Some (unat (q_nband (que (grow j as s))) - unat k)"
    using get_qband_spec[OF queue_okD(5)[OF assms(1)] assms(2)] by metis
  have t: "t = grow j as s" using g(1) assms(3) by simp
  show "queue_ok t xs" "mem t = mem s" "keeps_flags s t"
    using queue_ok_grow[OF assms(1) g(2,3)] get_qband_keeps_flags[of s k] assms(3) by (simp_all add: t)
  have "0 < unat k" using assms(2) by (simp add: word_gt_0 unat_gt_0)
  then show "a = Some i \<Longrightarrow> i = unat (q_nband (que t)) - unat k \<and> k \<le> q_nband (que t) \<and> i < length (q_bandp (que t))"
    using g(3,4) assms(3) t by (auto simp: bands_ok_def word_le_nat_alt)
qed

lemma insq_ok:
  assumes "queue_ok s xs" "m \<notin> set xs" "e \<in> set xs" "insq_takes (\<lambda>x. prio (mem s x)) e m xs"
    "prio (mem s e) \<le> prio (mem s m)"
  shows "puts (insert_before e) m s xs (insq_locked (Some e) m s)"
    "insq_locked (Some e) m s = Some (r, s') \<Longrightarrow> keeps_flags s s'"
proof -
  obtain ps ys where x: "xs = ps @ e # ys" using split_list[OF assms(3)] by blast
  note q = assms(1)[unfolded x]
  note on = queue_okD(1)[OF q] and dist = queue_okD(4)[OF q]
  let ?k = "b_band (mem s m)"
  obtain r0 s0 where r: "insq_locked (Some e) m s = Some (r0, s0)" "r0 \<le> 2"
    "if r0 = 0 then \<not> is_pri (mem s m) \<and> 0 < ?k \<and> get_qband ?k s = (None, s0)
     else if is_pri (mem s m) then s0 = count_in m (insq_link e m (upd_mem m (b_band_update (\<lambda>_. 0)) s))
     else if ?k = 0 then s0 = count_in m (insq_link e m s)
     else \<exists>i t nx. get_qband ?k s = (Some i, t) \<and>
       (i < length (q_bandp (que t)) \<longrightarrow> s0 = insq_link e m (band_link i m (Some e) nx t))"
    using insq_taken[OF on assms(4)[unfolded x]] by blast
  have desc: "descending (\<lambda>x. prio (mem s x)) (ps @ m # e # ys)"
    using descending_insert[OF _ assms(5) assms(4)[unfolded x] dist prio_le] queue_okD(2)[OF q] by (simp add: ordered_def)
  have placed: "insert_before e m xs = ps @ m # e # ys" "set (ps @ m # e # ys) = insert m (set xs)"
    using around(3)[OF dist] x by auto
  have mn: "m \<notin> set (ps @ e # ys)" using assms(2) x by simp
  have ok: "queue_ok t (ps @ m # e # ys)" if "on_queue t (ps @ m # e # ys)" "same_prio m s t" "counted t (insert m (set xs))" for t
  proof -
    have "(\<lambda>x. prio (mem t x)) = (\<lambda>x. prio (mem s x))" using that(2) by (simp add: same_prio_def)
    moreover have "b_band (mem t x) = 0" if "x \<in> set (ps @ m # e # ys)" "is_pri (mem t x)" for x
      using that \<open>same_prio m s t\<close> queue_okD(2)[OF q] by (cases "x = m") (auto simp: same_prio_def ordered_def)
    ultimately have "ordered t (ps @ m # e # ys)" using desc by (auto simp: ordered_def)
    then show ?thesis using that(1,3) placed(2) by (simp add: queue_ok_def)
  qed
  consider (none) "r0 = 0" "0 < ?k" "get_qband ?k s = (None, s0)"
    | (pri) "r0 \<noteq> 0" "is_pri (mem s m)" "s0 = count_in m (insq_link e m (upd_mem m (b_band_update (\<lambda>_. 0)) s))"
    | (norm) "r0 \<noteq> 0" "\<not> is_pri (mem s m)" "?k = 0" "s0 = count_in m (insq_link e m s)"
    | (band) i t nx where "r0 \<noteq> 0" "\<not> is_pri (mem s m)" "0 < ?k" "get_qband ?k s = (Some i, t)"
        "i < length (q_bandp (que t)) \<longrightarrow> s0 = insq_link e m (band_link i m (Some e) nx t)"
    using r(3) by (auto simp: word_gt_0 split: if_splits)
  then have main: "queue_ok s0 (if r0 = 0 then xs else ps @ m # e # ys) \<and> keeps_flags s s0 \<and>
    (\<forall>z. z \<notin> insert m (set xs) \<longrightarrow> mem s0 z = mem s z) \<and>
    (\<forall>x. prio (mem s0 x) = prio (mem s x) \<and> b_datap (mem s0 x) = b_datap (mem s x))"
  proof cases
    case none
    then show ?thesis using get_qband_ok[OF assms(1) none(2,3)] by simp
  next
    case pri
    let ?t = "upd_mem m (b_band_update (\<lambda>_. 0)) s"
    have t: "on_queue ?t (ps @ e # ys)" using on mn by (simp add: on_queue_def)
    note c = same_contentsD[OF insq_link_simps(8)[of ?t e m]]
    have sp: "same_prio m s s0" using c pri by (auto simp: same_prio_def prio_def)
    moreover have "on_queue s0 (ps @ m # e # ys)" using insq_link_on[OF t mn] pri(3) by simp
    moreover have "counted s0 (insert m (set xs))"
      by (rule counted_add_norm[OF queue_okD(3)[OF assms(1)]]) (use c assms(2) pri(3) in \<open>auto simp: msgsize_def\<close>)
    moreover have "keeps_flags s s0" unfolding pri(3)
      by (rule keeps_flags_trans[OF acct_keeps_flags(6) keeps_flags_trans[OF insq_link_simps(9) acct_keeps_flags(1)]])
    moreover have "mem s0 z = mem s z" if "z \<notin> insert m (set xs)" for z
      using insq_link_outside[OF t, of z m] that x pri(3) by simp
    ultimately show ?thesis using ok pri(1) by (auto simp: same_prio_def)
  next
    case norm
    note c = same_contentsD[OF insq_link_simps(8)[of s e m]]
    have sc: "same_contents s s0" unfolding norm(4) by (rule same_contents_acct) simp
    then have sp: "same_prio m s s0" using norm(2) by (rule same_contents_prio)
    moreover have "on_queue s0 (ps @ m # e # ys)" using insq_link_on[OF on mn] norm(4) by simp
    moreover have "counted s0 (insert m (set xs))"
      by (rule counted_add_norm[OF queue_okD(3)[OF assms(1)]])
        (use c same_contentsD[OF sc] assms(2) norm(3,4) in simp_all)
    moreover have "keeps_flags s s0" unfolding norm(4)
      by (rule keeps_flags_trans[OF insq_link_simps(9) acct_keeps_flags(1)])
    moreover have "mem s0 z = mem s z" if "z \<notin> insert m (set xs)" for z
      using insq_link_outside[OF on, of z m] that x norm(4) by simp
    ultimately show ?thesis using ok norm(1) by (auto simp: same_prio_def)
  next
    case band
    note g = get_qband_ok[OF assms(1) band(3,4)]
    have i: "i = unat (q_nband (que t)) - unat ?k" "?k \<le> q_nband (que t)" "i < length (q_bandp (que t))"
      using g(4)[of i] by simp_all
    let ?t = "band_link i m (Some e) nx t"
    have s0: "s0 = insq_link e m ?t" using band(5) i(3) by simp
    have t: "on_queue ?t (ps @ e # ys)" using queue_okD(1)[OF g(1)] x by simp
    note c = same_contentsD[OF insq_link_simps(8)[of ?t e m]]
    have sc: "same_contents s s0" using c g(2) by (simp add: s0 same_contents_def)
    then have sp: "same_prio m s s0" using band(2) by (rule same_contents_prio)
    moreover have "on_queue s0 (ps @ m # e # ys)" using insq_link_on[OF t mn] s0 by simp
    moreover have "counted s0 (insert m (set xs))"
    proof (rule counted_add_band[where s = t and i = i and pv = "Some e" and nx = nx])
      show "counted t (set xs)" using queue_okD(3)[OF g(1)] .
      show "b_band (mem s0 x) = b_band (mem t x) \<and> msgsize (mem s0 x) = msgsize (mem t x)" for x
        using c[of x] by (simp add: s0)
    qed (use assms(2) band(3) g(2) i in \<open>simp_all add: s0 band_link_eq Let_def\<close>)
    moreover have "keeps_flags s s0" unfolding s0
      by (rule keeps_flags_trans[OF g(3) keeps_flags_trans[OF band_keeps_flags(1) insq_link_simps(9)]])
    moreover have "mem s0 z = mem s z" if "z \<notin> insert m (set xs)" for z
      using insq_link_outside[OF t, of z m] that x g(2) by (simp add: s0)
    ultimately show ?thesis using ok band(1) by (auto simp: same_prio_def)
  qed
  show "puts (insert_before e) m s xs (insq_locked (Some e) m s)"
    using r main placed(1) by (auto simp: puts_def split: if_splits)
  show "insq_locked (Some e) m s = Some (r, s') \<Longrightarrow> keeps_flags s s'" using r(1) main by simp
qed

section \<open>Flushing band zero\<close>

lemma descending_zero: "descending pr xs \<Longrightarrow> x \<in> set (dropWhile (\<lambda>x. 0 < pr x) xs) \<Longrightarrow> pr x = 0"
  by (induction xs) (fastforce simp: descending_Cons split: if_splits)+

lemma flush_first_norm_eq:
  assumes "queue_ok c xs"
  shows "flush_first_norm c = Some (first (dropWhile (\<lambda>x. 0 < prio (mem c x)) xs) None)"
proof -
  have "(\<lambda>x. 0 < prio (mem c x)) = (\<lambda>x. is_pri (mem c x) \<or> 0 < b_band (mem c x))"
    using band_gt_prio[of _ 0] by (simp add: fun_eq_iff)
  then show ?thesis
    using skip_pri[OF queue_okD(1)[OF assms]] skip_bands[OF queue_okD(1,2)[OF assms], of _ "\<lambda>b. 0 < b_band b"]
    by (simp add: flush_first_norm_def)
qed

definition of_zero :: "(nat \<Rightarrow> nat) \<Rightarrow> (nat \<Rightarrow> bool) \<Rightarrow> nat \<Rightarrow> bool" where
  "of_zero pr dat x \<longleftrightarrow> pr x = 0 \<and> dat x"

lemma flushband_zero_ok:
  fixes flag c xs
  defines "P \<equiv> of_zero (\<lambda>x. prio (mem c x)) (\<lambda>x. flag = FLUSHALL \<or> isdatamsg (mem c x))"
  assumes "queue_ok c xs" "flag = FLUSHALL \<longrightarrow> (\<forall>x \<in> set xs. 0 < prio (mem c x))"
  shows "\<exists>be ch c'. flushband_locked 0 flag c = Some (be, ch, c') \<and> queue_ok c' (filter (\<lambda>x. \<not> P x) xs) \<and>
    freed ch c' (filter P xs) \<and> keeps_flags c c' \<and> same_contents c c' \<and> (\<forall>z. z \<notin> set xs \<longrightarrow> mem c' z = mem c z)"
proof -
  let ?R = "\<lambda>x. 0 < prio (mem c x)"
  have xs: "xs = takeWhile ?R xs @ dropWhile ?R xs" by simp
  have z: "prio (mem c x) = 0" if "x \<in> set (dropWhile ?R xs)" for x
    using descending_zero[of "\<lambda>x. prio (mem c x)" xs x] queue_okD(2)[OF assms(2)] that by (simp add: ordered_def)
  have nz: "\<not> P x" if "x \<in> set (takeWhile ?R xs)" for x
    using that by (auto simp: P_def of_zero_def dest: set_takeWhileD)
  show ?thesis
  proof (cases flag)
    case FLUSHALL
    then have d: "dropWhile ?R xs = []" "takeWhile ?R xs = xs" using assms(3) by (simp_all add: takeWhile_eq_all_conv)
    have "filter (\<lambda>x. \<not> P x) xs = xs" "filter P xs = []" using nz d(2) by (auto simp: filter_empty_conv filter_id_conv)
    moreover have "freed \<lparr>c_head = None, c_tail = Head\<rparr> c []" by (simp add: freed_def)
    ultimately show ?thesis
      using flush_first_norm_eq[OF assms(2)] d assms(2) FLUSHALL
      by (intro exI[of _ False]) (simp add: flushband_locked_def flush_all_norm_def put_tail_def empty_chain_def same_contents_def)
  next
    case FLUSHDATA
    have e: "P x \<longleftrightarrow> isdatamsg (mem c x)" if "x \<in> set (dropWhile ?R xs)" for x
      using z[OF that] FLUSHDATA by (simp add: P_def of_zero_def)
    have f: "filter P xs = filter (\<lambda>x. isdatamsg (mem c x)) (dropWhile ?R xs)"
      "filter (\<lambda>x. \<not> P x) xs = takeWhile ?R xs @ filter (\<lambda>x. \<not> isdatamsg (mem c x)) (dropWhile ?R xs)"
    proof -
      have "filter P (takeWhile ?R xs) = []" "filter (\<lambda>x. \<not> P x) (takeWhile ?R xs) = takeWhile ?R xs"
        using nz by (simp_all add: filter_empty_conv filter_id_conv)
      moreover have "filter P (dropWhile ?R xs) = filter (\<lambda>x. isdatamsg (mem c x)) (dropWhile ?R xs)"
        "filter (\<lambda>x. \<not> P x) (dropWhile ?R xs) = filter (\<lambda>x. \<not> isdatamsg (mem c x)) (dropWhile ?R xs)"
        using e by (auto intro: filter_cong)
      ultimately show "filter P xs = filter (\<lambda>x. isdatamsg (mem c x)) (dropWhile ?R xs)"
        "filter (\<lambda>x. \<not> P x) xs = takeWhile ?R xs @ filter (\<lambda>x. \<not> isdatamsg (mem c x)) (dropWhile ?R xs)"
        by (metis append_Nil filter_append xs)+
    qed
    obtain bands ch c' where "flush_data_loop (first (dropWhile ?R xs) None) [] empty_chain c = Some (bands, ch, c')"
      "queue_ok c' (takeWhile ?R xs @ filter (\<lambda>x. \<not> isdatamsg (mem c x)) (dropWhile ?R xs))"
      "freed ch c' ([] @ filter (\<lambda>x. isdatamsg (mem c x)) (dropWhile ?R xs))"
      "same_contents c c'" "keeps_flags c c'" "\<forall>z. z \<notin> set (takeWhile ?R xs @ dropWhile ?R xs) \<union> set [] \<longrightarrow> mem c' z = mem c z"
      using flush_data_loop_ok[of c "takeWhile ?R xs" "dropWhile ?R xs" empty_chain "[]" "[]"] assms(2) by auto
    then show ?thesis
      using flush_first_norm_eq[OF assms(2)] FLUSHDATA f by (simp add: flushband_locked_def)
  qed
qed

section \<open>In the system\<close>

lemma insq_step:
  assumes "streams_ok s X" "run_ok p s" "\<And>q'. m \<notin> set (X q')" "e \<in> set (X q)"
  defines "takes \<equiv> insq_takes (\<lambda>x. prio (s_mem s x)) e m (X q)"
  assumes "takes \<Longrightarrow> prio (s_mem s e) \<le> prio (s_mem s m)"
  shows "\<exists>r s'. insq q (Some e) m s = Some (r, s') \<and> r \<le> 1 \<and> (r = 1 \<longrightarrow> takes) \<and>
    (r = 0 \<longrightarrow> \<not> takes \<or> \<not> is_pri (s_mem s m) \<and> 0 < b_band (s_mem s m)) \<and>
    streams_ok s' (if r = 0 then X else X(q := insert_before e m (X q))) \<and> run_ok p s' \<and> fixed s s'"
proof (cases takes)
  case True
  note q = streams_okD[OF assms(1), of q]
  have t: "insq_takes (\<lambda>x. prio (mem (q_ctx q s) x)) e m (X q)" "prio (mem (q_ctx q s) e) \<le> prio (mem (q_ctx q s) m)"
    using True assms(6) by (simp_all add: takes_def)
  note ok = insq_ok[OF q assms(3,4) t]
  have k: "\<And>r c. insq_locked (Some e) m (q_ctx q s) = Some (r, c) \<Longrightarrow> keeps_flags (q_ctx q s) c"
    using ok(2) .
  show ?thesis
    using put_step[where f = "insq_locked (Some e) m", OF assms(1-3) ok(1) k set_insert_before] True
    unfolding insq_def by auto
next
  case False
  obtain ps ys where x: "X q = ps @ e # ys" using split_list[OF assms(4)] by blast
  have "insq_locked (Some e) m (q_ctx q s) = Some (0, q_ctx q s)"
    using insq_refuses[of "q_ctx q s" ps e ys m] queue_okD(1)[OF streams_okD[OF assms(1), of q]] False x
    by (simp add: takes_def)
  moreover have "set_ctx q (q_ctx q s) s = s" by (simp add: set_ctx_def q_ctx_def)
  ultimately have "insq q (Some e) m s = Some (0, s)" unfolding insq_def put_result_def at_queue_def by simp
  then show ?thesis using assms(1,2) False by simp
qed

text \<open>\<open>appq\<close> inserts before the message that follows, or at the end.\<close>

lemma appq_insq:
  assumes "streams_ok s X" "e \<in> set (X q)"
  shows "appq q (Some e) m s = insq q (next_of e (X q)) m s"
proof -
  obtain ps ys where x: "X q = ps @ e # ys" using split_list[OF assms(2)] by blast
  have on: "on_queue (q_ctx q s) (ps @ e # ys)" using queue_okD(1)[OF streams_okD[OF assms(1), of q]] x by simp
  then have "b_next (s_mem s e) = first ys None" by (simp add: on_queue_def)
  then show ?thesis using around(4)[OF on_queueD(1)[OF on]] x by (simp add: appq_def insq_def)
qed

lemma next_of_in: "next_of e xs = Some y \<Longrightarrow> y \<in> set xs"
  unfolding next_of_def first_def
  by (auto split: list.splits) (metis list.set_intros(1) list.set_sel(2) list.sel(2) set_dropWhileD list.distinct(1))

lemma flushband_step:
  assumes "streams_ok s X" "run_ok p s" "flag = FLUSHALL \<longrightarrow> (\<forall>x \<in> set (X q). 0 < prio (s_mem s x))"
  defines "P \<equiv> of_zero (\<lambda>x. prio (s_mem s x)) (\<lambda>x. flag = FLUSHALL \<or> isdatamsg (s_mem s x))"
  shows "\<exists>s'. flushband q 0 flag s = Some (filter P (X q), s') \<and>
    streams_ok s' (X(q := filter (\<lambda>x. \<not> P x) (X q))) \<and> run_ok p s' \<and> fixed s s'"
proof -
  let ?ys = "filter (\<lambda>x. \<not> P x) (X q)" and ?fs = "filter P (X q)"
  note q = streams_okD[OF assms(1), of q]
  obtain be ch c where g: "flushband_locked 0 flag (q_ctx q s) = Some (be, ch, c)" "queue_ok c ?ys" "freed ch c ?fs"
    "keeps_flags (q_ctx q s) c" "same_contents (q_ctx q s) c" "\<forall>z. z \<notin> set (X q) \<longrightarrow> mem c z = s_mem s z"
    using flushband_zero_ok[OF q, of flag] assms(3) by (auto simp: P_def)
  have ok: "streams_ok (set_ctx q c s) (X(q := ?ys))"
    using g(6) by (intro set_ctx_ok[OF assms(1) g(2), of q "{}"]) auto
  have run: "run_ok p (set_ctx q c s)" using set_ctx_run_ok[OF assms(2) g(4)] .
  define t where "t = ifthen (\<lambda>_. be) (qbackenable q 0 None) (set_ctx q c s)"
  have t: "streams_ok t (X(q := ?ys))" "run_ok p t" "s_mem t = mem c"
    using ok run qbackenable_ok[OF ok run] by (auto simp: t_def ifthen_def)
  have "freed ch (q_ctx q t) ?fs" using g(3) t(3) by (simp add: freed_def)
  then obtain c' where f: "freechain ch (q_ctx q t) = Some (?fs, c')" "que c' = s_que t q"
    "same_contents (q_ctx q t) c'" "\<forall>z. z \<notin> set ?fs \<longrightarrow> mem c' z = s_mem t z"
    using freed_freechain[of ch "q_ctx q t" ?fs] by auto
  have d: "set ?fs \<inter> set ((X(q := ?ys)) q') = {}" for q'
    using assms(1) by (cases "q' = q") (auto simp: streams_ok_def)
  have "queue_ok c' ?ys"
    using queue_ok_outside[OF streams_okD[OF t(1), of q], of c'] f(2,4) by simp
  then have "streams_ok (set_ctx q c' t) ((X(q := ?ys))(q := ?ys))"
    using f(4) d by (intro set_ctx_ok[OF t(1), of _ _ q "set ?fs"]) auto
  moreover have "run_ok p (set_ctx q c' t)" using t(2) f(2) by (intro set_ctx_run_ok keeps_flags_que) simp_all
  moreover have "fixed s (set_ctx q c' t)"
    using fixed_trans[OF fixed_contents[OF g(5) t(3)] fixed_contents[OF f(3)]] by simp
  ultimately show ?thesis using g(1) f(1) by (auto simp: flushband_def at_queue_def t_def)
qed

end
