(* ===== verification/STR_History.thy ===== *)
theory STR_History
  imports STR_Insert
begin

text \<open>
  Histories of the queues of a system: any sequence of the calls of \<open>strop\<close> that are \<open>allowed\<close>, on any of the queues, with
  the messages that are on no queue changed between the calls by whoever holds them, and with the cache of band
  structures answering as it will.  The specification of a call is on lists of messages.

  Three uses of the utilities are left out, because the code breaks the queue there (\<open>STR_Faults\<close>): \<open>flushband\<close> of a band
  other than zero; \<open>flushband\<close> of all messages of band zero while there are any; and \<open>insq\<close> or \<open>appq\<close> of a message in front
  of the first one that is not of high priority, when that one is of a higher band.
\<close>

section \<open>Calls and their answers\<close>

datatype strop =
  Putq nat nat | Putbq nat nat | Putend nat nat | Getq nat | Rmvq nat nat | Flushq nat fflag
| Bcanput nat u8 | Bcanputnext nat u8 | Qenable nat | Enableq nat | Enableok nat | Noenable nat
| Strqset nat qfield u8 int | Strqget nat qfield u8 | Insq nat nat nat | Appq nat nat nat | Flushzero nat fflag

datatype sans = Placed nat | Taken "nat option" | Freed "nat list" | Answer bool | Code int | Value int "qvalue option" | Done

text \<open>\<open>Putend q m\<close> is \<open>insq(q, NULL, m)\<close> and \<open>appq(q, NULL, m)\<close>; \<open>Flushzero q flag\<close> is \<open>flushband(q, 0, flag)\<close>; \<open>canput\<close> and
  \<open>canputnext\<close> are \<open>Bcanput\<close> and \<open>Bcanputnext\<close> with band zero.\<close>

definition strop_do :: "strop \<Rightarrow> strs \<Rightarrow> (sans \<times> strs) option" where
  "strop_do op s = (case op of
      Putq q m \<Rightarrow> map_option (apfst Placed) (putq q m s)
    | Putbq q m \<Rightarrow> map_option (apfst Placed) (putbq q m s)
    | Putend q m \<Rightarrow> map_option (apfst Placed) (insq q None m s)
    | Getq q \<Rightarrow> map_option (apfst Taken) (getq q s)
    | Rmvq q m \<Rightarrow> map_option (Pair Done) (rmvq q m s)
    | Flushq q flag \<Rightarrow> map_option (apfst Freed) (flushq q flag s)
    | Bcanput q band \<Rightarrow> map_option (apfst Answer) (bcanput q band s)
    | Bcanputnext q band \<Rightarrow> map_option (apfst Answer) (bcanputnext q band s)
    | Qenable q \<Rightarrow> Some (Done, qenable q s)
    | Enableq q \<Rightarrow> Some (apfst Code (enableq q s))
    | Enableok q \<Rightarrow> Some (Done, enableok q s)
    | Noenable q \<Rightarrow> Some (Done, noenable q s)
    | Strqset q what band val \<Rightarrow> map_option (apfst Code) (at_queue q (\<lambda>c. Some (strqset what band val c)) s)
    | Strqget q what band \<Rightarrow>
        map_option (apfst (case_prod Value)) (at_queue q (\<lambda>c. Some (strqget what band c)) s)
    | Insq q e m \<Rightarrow> map_option (apfst Placed) (insq q (Some e) m s)
    | Appq q e m \<Rightarrow> map_option (apfst Placed) (appq q (Some e) m s)
    | Flushzero q flag \<Rightarrow> map_option (apfst Freed) (flushband q 0 flag s))"

text \<open>What the callers owe: a message is put on one queue at a time, and taken off or used as a neighbour on the queue
  it is on; and they keep clear of the two uses of \<open>insq\<close> and \<open>flushband\<close> that break the queue.\<close>

definition clear_of :: "(nat \<Rightarrow> nat) \<Rightarrow> nat \<Rightarrow> nat \<Rightarrow> nat list \<Rightarrow> bool" where
  "clear_of pr e m xs \<longleftrightarrow> (insq_takes pr e m xs \<longrightarrow> pr e \<le> pr m)"

definition allowed :: "(nat \<Rightarrow> nat) \<Rightarrow> (nat \<Rightarrow> nat list) \<Rightarrow> strop \<Rightarrow> bool" where
  "allowed pr X op = (case op of
      Putq q m \<Rightarrow> \<forall>q'. m \<notin> set (X q')
    | Putbq q m \<Rightarrow> \<forall>q'. m \<notin> set (X q')
    | Putend q m \<Rightarrow> \<forall>q'. m \<notin> set (X q')
    | Rmvq q m \<Rightarrow> m \<in> set (X q)
    | Insq q e m \<Rightarrow> (\<forall>q'. m \<notin> set (X q')) \<and> e \<in> set (X q) \<and> clear_of pr e m (X q)
    | Appq q e m \<Rightarrow> (\<forall>q'. m \<notin> set (X q')) \<and> e \<in> set (X q) \<and>
        (case next_of e (X q) of None \<Rightarrow> True | Some n \<Rightarrow> clear_of pr n m (X q))
    | Flushzero q FLUSHALL \<Rightarrow> (\<forall>x \<in> set (X q). 0 < pr x)
    | _ \<Rightarrow> True)"

text \<open>The calls on lists.  A message with a band of its own may be refused, when no structure for the band is to be
  had; any other is placed by priority.\<close>

definition place_ans :: "(nat \<Rightarrow> nat) \<Rightarrow> (nat \<Rightarrow> nat list \<Rightarrow> nat list) \<Rightarrow> nat \<Rightarrow> nat \<Rightarrow> (nat \<Rightarrow> nat list) \<Rightarrow> sans \<Rightarrow>
    (nat \<Rightarrow> nat list) \<Rightarrow> bool" where
  "place_ans pr place q m X a X' \<longleftrightarrow>
     a = Placed 1 \<and> X' = X(q := place m (X q)) \<or> a = Placed 0 \<and> X' = X \<and> 0 < pr m \<and> pr m < 256"

text \<open>Inserting before \<open>e\<close> is refused for its place, or for want of a band structure.\<close>

definition insert_ans :: "(nat \<Rightarrow> nat) \<Rightarrow> nat \<Rightarrow> nat \<Rightarrow> nat \<Rightarrow> (nat \<Rightarrow> nat list) \<Rightarrow> sans \<Rightarrow> (nat \<Rightarrow> nat list) \<Rightarrow> bool" where
  "insert_ans pr q e m X a X' \<longleftrightarrow>
     a = Placed 1 \<and> insq_takes pr e m (X q) \<and> X' = X(q := insert_before e m (X q)) \<or>
     a = Placed 0 \<and> X' = X \<and> (insq_takes pr e m (X q) \<longrightarrow> 0 < pr m \<and> pr m < 256)"

definition on_lists :: "(nat \<Rightarrow> nat) \<Rightarrow> (nat \<Rightarrow> bool) \<Rightarrow> strop \<Rightarrow> (nat \<Rightarrow> nat list) \<Rightarrow> sans \<Rightarrow> (nat \<Rightarrow> nat list) \<Rightarrow> bool" where
  "on_lists pr dat op X a X' = (case op of
      Putq q m \<Rightarrow> place_ans pr (behind pr) q m X a X'
    | Putbq q m \<Rightarrow> place_ans pr (before pr) q m X a X'
    | Putend q m \<Rightarrow> place_ans pr (behind pr) q m X a X'
    | Getq q \<Rightarrow> a = Taken (first (X q) None) \<and> X' = X(q := tl (X q))
    | Rmvq q m \<Rightarrow> a = Done \<and> X' = X(q := remove1 m (X q))
    | Flushq q FLUSHALL \<Rightarrow> a = Freed (X q) \<and> X' = X(q := [])
    | Flushq q FLUSHDATA \<Rightarrow> a = Freed (filter dat (X q)) \<and> X' = X(q := filter (\<lambda>x. \<not> dat x) (X q))
    | Insq q e m \<Rightarrow> insert_ans pr q e m X a X'
    | Appq q e m \<Rightarrow> (case next_of e (X q) of
        None \<Rightarrow> place_ans pr (behind pr) q m X a X'
      | Some n \<Rightarrow> insert_ans pr q n m X a X')
    | Flushzero q flag \<Rightarrow> (let P = of_zero pr (\<lambda>x. flag = FLUSHALL \<or> dat x) in
        a = Freed (filter P (X q)) \<and> X' = X(q := filter (\<lambda>x. \<not> P x) (X q)))
    | _ \<Rightarrow> X' = X)"

abbreviation pr_of :: "strs \<Rightarrow> nat \<Rightarrow> nat" where
  "pr_of s \<equiv> \<lambda>x. prio (s_mem s x)"

abbreviation dat_of :: "strs \<Rightarrow> nat \<Rightarrow> bool" where
  "dat_of s \<equiv> \<lambda>x. isdatamsg (s_mem s x)"

section \<open>One call\<close>

lemma strqset_ok:
  assumes "queue_ok c xs"
  shows "queue_ok (snd (strqset what band val c)) xs \<and> mem (snd (strqset what band val c)) = mem c \<and>
    keeps_flags c (snd (strqset what band val c))"
proof -
  have sc: "queue_ok t xs" if "same_counts c' t" "queue_ok c' xs" for c' t using queue_ok_same_counts that by blast
  have q: "queue_ok (upd_que f c') xs \<and> mem (upd_que f c') = mem c' \<and> keeps_flags c' (upd_que f c')"
    if "f \<in> {q_maxpsz_update (\<lambda>_. val), q_minpsz_update (\<lambda>_. val), q_hiwat_update (\<lambda>_. word_of_int val),
      q_lowat_update (\<lambda>_. word_of_int val)}" "queue_ok c' xs" for f c'
    using that by (auto simp: same_counts_def keeps_flags_def intro!: sc[of c'])
  show ?thesis
  proof (cases "band = 0")
    case True
    then show ?thesis using q[OF _ assms] assms by (cases what) (simp_all add: strqset_def)
  next
    case False
    then have z: "0 < band" by (simp add: word_gt_0)
    obtain j as where g: "snd (get_qband band c) = grow j as c"
      "unat (q_nband (que (grow j as c))) = unat (q_nband (que c)) + j" "bands_ok (que (grow j as c))"
      "fst (get_qband band c) = None \<or> band \<le> q_nband (que (grow j as c)) \<and>
         fst (get_qband band c) = Some (unat (q_nband (que (grow j as c))) - unat band)"
      using get_qband_spec[OF queue_okD(5)[OF assms] z] by metis
    define t where "t = grow j as c"
    have t: "queue_ok t xs" "mem t = mem c" "keeps_flags c t"
      using queue_ok_grow[OF assms g(2,3)] get_qband_keeps_flags[of c band] g(1) by (simp_all add: t_def)
    show ?thesis
    proof (cases "fst (get_qband band c)")
      case None
      then show ?thesis using t g(1) False by (simp add: strqset_def case_prod_unfold t_def)
    next
      case (Some i)
      have "0 < unat band" using z by (simp add: word_gt_0 unat_gt_0)
      then have i: "i < length (q_bandp (que t))"
        using g(3,4) Some by (simp add: bands_ok_def word_le_nat_alt t_def)
      have b: "queue_ok (upd_band i f t) xs \<and> mem (upd_band i f t) = mem t \<and> keeps_flags t (upd_band i f t)"
        if "f = qb_hiwat_update (\<lambda>_. v) \<or> f = qb_lowat_update (\<lambda>_. v)" for f v
        unfolding upd_band_const[of i f t]
        by (intro conjI queue_ok_band_flags[OF t(1) i]) (use that in auto)
      note bb = b[of "qb_hiwat_update (\<lambda>_. v)" v for v] b[of "qb_lowat_update (\<lambda>_. v)" v for v]
      have "snd (strqset what band val c) \<in> {t, upd_que (q_maxpsz_update (\<lambda>_. val)) t, upd_que (q_minpsz_update (\<lambda>_. val)) t,
          upd_band i (qb_hiwat_update (\<lambda>_. word_of_int val)) t, upd_band i (qb_lowat_update (\<lambda>_. word_of_int val)) t}"
        using False Some g(1) by (cases what) (simp_all add: strqset_def case_prod_unfold t_def)
      then show ?thesis using bb q[OF _ t(1)] t keeps_flags_trans[OF t(3)] by auto
    qed
  qed
qed

lemma simple_steps:
  assumes "streams_ok s X" "run_ok p s"
  shows "streams_ok (qenable q s) X" "run_ok p (qenable q s)" "fixed s (qenable q s)"
    "streams_ok (on_flag QNOENB v q s) X" "run_ok p (on_flag QNOENB v q s)" "fixed s (on_flag QNOENB v q s)"
  using qenable_ok[OF assms(1)] qenable_run_ok[OF assms(2)] on_flag_ok[OF assms(1)] assms(2)
  by (auto simp: fixed_mem run_ok_def on_flag_def)

lemma strqset_step:
  assumes "streams_ok s X" "run_ok p s"
  shows "\<exists>a s'. strop_do (Strqset q what band val) s = Some (a, s') \<and> streams_ok s' X \<and> run_ok p s' \<and> fixed s s'"
proof -
  let ?c = "snd (strqset what band val (q_ctx q s))"
  have c: "queue_ok ?c (X q)" "mem ?c = s_mem s" "keeps_flags (q_ctx q s) ?c"
    using strqset_ok[OF streams_okD[OF assms(1), of q]] by auto
  have "streams_ok (set_ctx q ?c s) X" "run_ok p (set_ctx q ?c s)"
    using set_ctx_same[OF assms(1) c(1,2)] set_ctx_run_ok[OF assms(2) c(3)] .
  then show ?thesis using c(2)
    by (simp add: strop_do_def at_queue_def case_prod_unfold fixed_def)
qed

lemma strqget_step:
  assumes "streams_ok s X" "run_ok p s"
  shows "\<exists>a s'. strop_do (Strqget q what band) s = Some (a, s') \<and> streams_ok s' X \<and> run_ok p s' \<and> fixed s s'"
proof -
  let ?c = "snd (strqget what band (q_ctx q s))"
  note q = streams_okD[OF assms(1), of q]
  have "queue_ok ?c (X q) \<and> mem ?c = s_mem s \<and> keeps_flags (q_ctx q s) ?c"
  proof (cases "band = 0")
    case True
    then show ?thesis using q by (simp add: strqget_def)
  next
    case False
    then have z: "0 < band" by (simp add: word_gt_0)
    obtain b t where g: "get_qband band (q_ctx q s) = (b, t)" by fastforce
    show ?thesis using get_qband_ok[OF q z g] False g by (cases b) (simp_all add: strqget_def)
  qed
  then have "streams_ok (set_ctx q ?c s) X" "run_ok p (set_ctx q ?c s)" "s_mem (set_ctx q ?c s) = s_mem s"
    using set_ctx_same[OF assms(1)] set_ctx_run_ok[OF assms(2)] by auto
  then show ?thesis by (simp add: strop_do_def at_queue_def case_prod_unfold fixed_def)
qed

lemma put_place_ans:
  assumes "res = Some (r, s')" "r \<le> 1" "r = 0 \<longrightarrow> \<not> is_pri (s_mem s m) \<and> 0 < b_band (s_mem s m)"
    "streams_ok s' (if r = 0 then X else X(q := place m (X q)))" "run_ok p s'" "fixed s s'"
  shows "\<exists>a s' X'. map_option (apfst Placed) res = Some (a, s') \<and> place_ans (pr_of s) place q m X a X' \<and>
    streams_ok s' X' \<and> run_ok p s' \<and> fixed s s'"
proof -
  have "r = 0 \<or> r = 1" using assms(2) by auto
  moreover have "0 < prio (s_mem s m) \<and> prio (s_mem s m) < 256" if "r = 0"
    using assms(3) that unsigned_less[of "b_band (s_mem s m)", where 'a = nat]
    by (simp add: prio_def word_gt_0 unat_gt_0)
  ultimately show ?thesis using assms by (auto simp: place_ans_def)
qed

lemma insq_insert_ans:
  assumes "streams_ok s X" "run_ok p s" "\<And>q'. m \<notin> set (X q')" "e \<in> set (X q)" "clear_of (pr_of s) e m (X q)"
  shows "\<exists>a s' X'. map_option (apfst Placed) (insq q (Some e) m s) = Some (a, s') \<and> insert_ans (pr_of s) q e m X a X' \<and>
    streams_ok s' X' \<and> run_ok p s' \<and> fixed s s'"
proof -
  have c: "insq_takes (pr_of s) e m (X q) \<Longrightarrow> pr_of s e \<le> pr_of s m"
    using assms(5) by (simp add: clear_of_def)
  obtain r s' where r: "insq q (Some e) m s = Some (r, s')" "r \<le> 1" "r = 1 \<longrightarrow> insq_takes (pr_of s) e m (X q)"
    "r = 0 \<longrightarrow> \<not> insq_takes (pr_of s) e m (X q) \<or> \<not> is_pri (s_mem s m) \<and> 0 < b_band (s_mem s m)"
    "streams_ok s' (if r = 0 then X else X(q := insert_before e m (X q)))" "run_ok p s'" "fixed s s'"
    using insq_step[OF assms(1-4) c] by blast
  have "0 < prio (s_mem s m) \<and> prio (s_mem s m) < 256" if "\<not> is_pri (s_mem s m)" "0 < b_band (s_mem s m)"
    using that unsigned_less[of "b_band (s_mem s m)", where 'a = nat] by (simp add: prio_def word_gt_0 unat_gt_0)
  moreover have "r = 0 \<or> r = 1" using r(2) by auto
  ultimately show ?thesis using r by (auto simp: insert_ans_def)
qed

lemma strop_step:
  assumes "streams_ok s X" "run_ok p s" "allowed (pr_of s) X op"
  shows "\<exists>a s' X'. strop_do op s = Some (a, s') \<and> on_lists (pr_of s) (dat_of s) op X a X' \<and>
    streams_ok s' X' \<and> run_ok p s' \<and> fixed s s'"
proof (cases op)
  case (Putq q m)
  then show ?thesis using put_steps(1)[OF assms(1,2), of m q] assms(3) put_place_ans[of "putq q m s"]
    by (simp add: strop_do_def on_lists_def allowed_def) blast
next
  case (Putbq q m)
  then show ?thesis using put_steps(2)[OF assms(1,2), of m q] assms(3) put_place_ans[of "putbq q m s"]
    by (simp add: strop_do_def on_lists_def allowed_def) blast
next
  case (Putend q m)
  then show ?thesis using put_steps(3)[OF assms(1,2), of m q] assms(3) put_place_ans[of "insq q None m s"]
    by (simp add: strop_do_def on_lists_def allowed_def) blast
next
  case (Getq q)
  then show ?thesis using getq_step[OF assms(1,2), of q] by (auto simp: strop_do_def on_lists_def)
next
  case (Rmvq q m)
  then show ?thesis using rmvq_step[OF assms(1,2), of m q] assms(3) by (auto simp: strop_do_def on_lists_def allowed_def)
next
  case (Flushq q flag)
  then show ?thesis using flushq_step[OF assms(1,2), of q flag]
    by (cases flag) (auto simp: strop_do_def on_lists_def flush_keeps_fun)
next
  case (Bcanput q band)
  then show ?thesis using bcanput_step(1)[OF assms(1,2), of q band] by (auto simp: strop_do_def on_lists_def)
next
  case (Bcanputnext q band)
  then show ?thesis using bcanput_step(2)[OF assms(1,2), of q band] by (auto simp: strop_do_def on_lists_def)
next
  case (Strqget q what band)
  then show ?thesis using strqget_step[OF assms(1,2), of q what band] by (auto simp: on_lists_def)
next
  case (Insq q e m)
  then show ?thesis using insq_insert_ans[OF assms(1,2), of m e q] assms(3) by (simp add: strop_do_def on_lists_def allowed_def)
next
  case (Appq q e m)
  then have al: "\<And>q'. m \<notin> set (X q')" "e \<in> set (X q)" using assms(3) by (simp_all add: allowed_def)
  note ai = appq_insq[OF assms(1) al(2), of m]
  show ?thesis
  proof (cases "next_of e (X q)")
    case None
    then show ?thesis using Appq ai put_steps(3)[OF assms(1,2) al(1), of q] put_place_ans[of "insq q None m s"]
      by (simp add: strop_do_def on_lists_def) blast
  next
    case (Some n)
    then show ?thesis using Appq ai insq_insert_ans[OF assms(1,2) al(1) next_of_in[OF Some]] assms(3)
      by (simp add: strop_do_def on_lists_def allowed_def)
  qed
next
  case (Flushzero q flag)
  have "flag = FLUSHALL \<longrightarrow> (\<forall>x \<in> set (X q). 0 < prio (s_mem s x))"
    using assms(3) Flushzero by (auto simp: allowed_def)
  then show ?thesis using flushband_step[OF assms(1,2), of flag q] Flushzero by (auto simp: strop_do_def on_lists_def Let_def)
next
  case (Strqset q what band val)
  then show ?thesis using strqset_step[OF assms(1,2), of q what band val] by (auto simp: on_lists_def)
qed (use simple_steps[OF assms(1,2)] assms in
  \<open>auto simp: strop_do_def on_lists_def enableq_def enableok_def noenable_def\<close>)

section \<open>Histories\<close>

text \<open>A system starts with its queues as \<open>allocq\<close> leaves them: empty, with nothing to run.\<close>

definition new_queue :: "queue \<Rightarrow> bool" where
  "new_queue q \<longleftrightarrow> q_first q = None \<and> q_last q = None \<and> q_msgs q = 0 \<and> q_count q = 0 \<and> q_bandp q = [] \<and> q_nband q = 0 \<and>
     q_blocked q = 0 \<and> \<not> q_flag q QFULL \<and> \<not> q_flag q QWANTW \<and> \<not> q_flag q QENAB"

inductive history :: "strs \<Rightarrow> (nat \<Rightarrow> nat list) \<Rightarrow> bool" where
  start: "(\<And>q. new_queue (s_que s q)) \<Longrightarrow> run_list s = [] \<Longrightarrow> history s (\<lambda>_. [])"
| call: "history s X \<Longrightarrow> allowed (pr_of s) X op \<Longrightarrow> strop_do op s = Some (a, s') \<Longrightarrow>
    on_lists (pr_of s) (dat_of s) op X a X' \<Longrightarrow> history s' X'"
| own: "history s X \<Longrightarrow> (\<And>q. m \<notin> set (X q)) \<Longrightarrow> history (s\<lparr>s_mem := (s_mem s)(m := v)\<rparr>) X"
| cache: "history s X \<Longrightarrow> history (s\<lparr>s_allocs := as\<rparr>) X"

text \<open>The answer determines the lists.\<close>

lemma on_lists_fun: "on_lists pr dat op X a X' \<Longrightarrow> on_lists pr dat op X a X'' \<Longrightarrow> X'' = X'"
  by (auto simp: on_lists_def place_ans_def insert_ans_def Let_def split: strop.splits fflag.splits option.splits)

lemma new_queue_ok: "new_queue (que c) \<Longrightarrow> queue_ok c []"
  by (auto simp: new_queue_def queue_ok_def on_queue_def ordered_def descending_def counted_def bands_ok_def in_band_def
      band_bytes_def full_bands_def flow_ok_def)

lemma history_ok: "history s X \<Longrightarrow> streams_ok s X \<and> run_ok [] s"
proof (induction rule: history.induct)
  case (start s)
  then show ?case using new_queue_ok[of "q_ctx q s" for q] by (auto simp: streams_ok_def run_ok_def new_queue_def)
next
  case (call s X op a s' X')
  then obtain X'' where "on_lists (pr_of s) (dat_of s) op X a X''" "streams_ok s' X''" "run_ok [] s'"
    using strop_step[of s X "[]" op] by auto
  then show ?case using on_lists_fun[OF call.hyps(4)] by simp
next
  case (own s X m v)
  have "queue_ok (q_ctx q (s\<lparr>s_mem := (s_mem s)(m := v)\<rparr>)) (X q)" for q
    by (rule queue_ok_outside[OF streams_okD[of s X q]]) (use own in \<open>auto simp: q_ctx_def\<close>)
  then show ?case using own by (simp add: streams_ok_def run_ok_def)
next
  case (cache s X as)
  have "queue_ok (q_ctx q (s\<lparr>s_allocs := as\<rparr>)) (X q)" for q
    using queue_ok_outside[OF streams_okD[of s X q]] cache by (auto simp: q_ctx_def)
  then show ?case using cache by (simp add: streams_ok_def run_ok_def)
qed

end
