(* ===== verification/STR_Laws.thy ===== *)
theory STR_Laws
  imports STR_History "HOL-Library.Multiset"
begin

text \<open>
  What the queues of a STREAMS system promise: calls are operations on lists, queues are in order and counted, a
  queue filled and emptied sorts by priority, putting back undoes taking, writers that wait are woken when the
  queue they wait for drains, and the scheduler serves each enabled queue once.
\<close>

section \<open>Sequences of calls\<close>

fun str_run :: "strop list \<Rightarrow> strs \<Rightarrow> (sans list \<times> strs) option" where
  "str_run [] s = Some ([], s)"
| "str_run (op # ops) s = do {
     (a, s) \<leftarrow> strop_do op s;
     (as, s) \<leftarrow> str_run ops s;
     Some (a # as, s)
   }"

text \<open>The messages that were accepted.\<close>

definition accepted :: "nat list \<Rightarrow> sans list \<Rightarrow> nat list" where
  "accepted ms as = map fst (filter (\<lambda>(m, a). a = Placed 1) (zip ms as))"

lemma accepted_simps [simp]:
  "accepted [] as = []" "accepted (m # ms) (a # as) = (if a = Placed 1 then m # accepted ms as else accepted ms as)"
  by (simp_all add: accepted_def)

lemma fixed_keys: "fixed s s' \<Longrightarrow> pr_of s' = pr_of s" "fixed s s' \<Longrightarrow> dat_of s' = dat_of s"
  by (simp_all add: fixed_def)

lemma put_run:
  assumes "streams_ok s X" "run_ok [] s" "distinct ms" "\<And>m q'. m \<in> set ms \<Longrightarrow> m \<notin> set (X q')"
  shows "\<exists>as s'. str_run (map (Putq q) ms) s = Some (as, s') \<and> length as = length ms \<and> run_ok [] s' \<and> fixed s s' \<and>
    streams_ok s' (X(q := fold (behind (pr_of s)) (accepted ms as) (X q)))"
  using assms
proof (induction ms arbitrary: s X)
  case (Cons m ms)
  have al: "allowed (pr_of s) X (Putq q m)" using Cons.prems(4) by (simp add: allowed_def)
  obtain a s1 X1 where 1: "strop_do (Putq q m) s = Some (a, s1)" "place_ans (pr_of s) (behind (pr_of s)) q m X a X1"
    "streams_ok s1 X1" "run_ok [] s1" "fixed s s1"
    using strop_step[OF Cons.prems(1,2) al] by (auto simp: on_lists_def)
  have d: "distinct ms" using Cons.prems(3) by simp
  have "m' \<notin> set (X1 q')" if "m' \<in> set ms" for m' q'
    using 1(2) that Cons.prems(3,4) by (auto simp: place_ans_def split: if_splits)
  then obtain as s' where 2: "str_run (map (Putq q) ms) s1 = Some (as, s')" "length as = length ms" "run_ok [] s'"
    "fixed s1 s'" "streams_ok s' (X1(q := fold (behind (pr_of s1)) (accepted ms as) (X1 q)))"
    using Cons.IH[OF 1(3,4) d] by blast
  have "X1(q := fold (behind (pr_of s)) (accepted ms as) (X1 q)) =
      X(q := fold (behind (pr_of s)) (accepted (m # ms) (a # as)) (X q))"
    using 1(2) by (auto simp: place_ans_def)
  then have "streams_ok s' (X(q := fold (behind (pr_of s)) (accepted (m # ms) (a # as)) (X q)))"
    using 2(5) fixed_keys(1)[OF 1(5)] by simp
  moreover have "str_run (map (Putq q) (m # ms)) s = Some (a # as, s')" "length (a # as) = length (m # ms)"
    using 1(1) 2(1,2) by simp_all
  ultimately show ?case using 2(3) fixed_trans[OF 1(5) 2(4)] by blast
qed simp

lemma get_run:
  assumes "streams_ok s X" "run_ok [] s"
  shows "\<exists>s'. str_run (replicate (length (X q)) (Getq q)) s = Some (map (\<lambda>m. Taken (Some m)) (X q), s') \<and>
    run_ok [] s' \<and> fixed s s' \<and> streams_ok s' (X(q := []))"
proof -
  have "\<exists>s'. str_run (replicate (length xs) (Getq q)) s = Some (map (\<lambda>m. Taken (Some m)) xs, s') \<and>
    run_ok [] s' \<and> fixed s s' \<and> streams_ok s' (X(q := []))"
    if "streams_ok s (X(q := xs))" "run_ok [] s" for xs s
    using that
  proof (induction xs arbitrary: s)
    case (Cons m xs)
    obtain s1 where 1: "getq q s = Some (Some m, s1)" "streams_ok s1 (X(q := xs))" "run_ok [] s1" "fixed s s1"
      using getq_step[OF Cons.prems, of q] by (auto simp flip: fun_upd_def)
    show ?case using Cons.IH[OF 1(2,3)] 1(1,4) fixed_trans by (fastforce simp: strop_do_def)
  qed simp
  from this[of s "X q"] show ?thesis using assms by simp
qed

lemma str_run_append:
  "str_run (xs @ ys) s = do { (as, s) \<leftarrow> str_run xs s; (bs, s) \<leftarrow> str_run ys s; Some (as @ bs, s) }"
  by (induction xs arbitrary: s) (auto split: bind_splits)

section \<open>Sorting\<close>

lemma filter_behind:
  "descending pr ys \<Longrightarrow> filter (\<lambda>y. pr y = k) (behind pr x ys) =
    (if pr x = k then filter (\<lambda>y. pr y = k) ys @ [x] else filter (\<lambda>y. pr y = k) ys)"
proof (induction ys)
  case (Cons y ys)
  show ?case
  proof (cases "pr x \<le> pr y")
    case False
    then have "filter (\<lambda>z. pr z = pr x) ys = []" "pr y \<noteq> pr x"
      using Cons.prems by (fastforce simp: descending_Cons filter_empty_conv)+
    then show ?thesis using False by (auto simp: behind_Cons)
  qed (use Cons in \<open>auto simp: behind_Cons descending_Cons\<close>)
qed simp

lemma fold_behind:
  assumes "descending pr ys"
  shows "descending pr (fold (behind pr) xs ys) \<and> mset (fold (behind pr) xs ys) = mset ys + mset xs \<and>
    filter (\<lambda>y. pr y = k) (fold (behind pr) xs ys) = filter (\<lambda>y. pr y = k) ys @ filter (\<lambda>y. pr y = k) xs"
  using assms
proof (induction xs arbitrary: ys)
  case (Cons x xs)
  have "mset (behind pr x ys) = add_mset x (mset ys)"
    unfolding behind_def by simp (metis mset_append takeWhile_dropWhile_id)
  then show ?case using Cons.IH[OF descending_behind[OF Cons.prems]] filter_behind[OF Cons.prems, of k x] by simp
qed simp

lemma behind_sorts:
  assumes "\<And>x. pr x \<le> n"
  shows "fold (behind pr) xs [] = sort_key (\<lambda>x. n - pr x) xs"
proof (rule properties_for_sort_key[symmetric])
  note f = fold_behind[OF descending_nil[of pr], of xs]
  show "mset (fold (behind pr) xs []) = mset xs" using f by simp
  show "filter (\<lambda>x. n - pr k = n - pr x) (fold (behind pr) xs []) = filter (\<lambda>x. n - pr k = n - pr x) xs"
    if "k \<in> set (fold (behind pr) xs [])" for k
  proof -
    have "(n - pr k = n - pr x) = (pr x = pr k)" for x using assms[of x] assms[of k] by auto
    then show ?thesis using f[of "pr k"] by simp
  qed
  show "sorted (map (\<lambda>x. n - pr x) (fold (behind pr) xs []))"
    unfolding sorted_map
    by (rule sorted_wrt_mono_rel[of _ "\<lambda>x y. pr y \<le> pr x"]) (use f in \<open>auto simp: descending_def\<close>)
qed

section \<open>Waking writers\<close>

text \<open>Writers wait for a band of a queue; the queue is wired to the one behind it that has a service procedure.\<close>

definition waiting :: "u8 \<Rightarrow> queue \<Rightarrow> bool" where
  "waiting k q \<longleftrightarrow> (if k = 0 then q_flag q QWANTW else k \<le> q_nband q \<and> qb_flag (band_no q k) QB_WANTW)"

definition wired :: "nat \<Rightarrow> nat \<Rightarrow> strs \<Rightarrow> bool" where
  "wired q w s \<longleftrightarrow> q \<noteq> w \<and> q_nbsrv (s_que s q) = Some w \<and> \<not> tst QPROCS q s \<and> \<not> tst QPROCS w s \<and> tst QSRVP w s"

lemma waiting_flow:
  assumes "queue_ok c xs" "waiting k (que c)"
  shows "\<exists>x \<in> set xs. b_band (mem c x) = k"
proof -
  note n = countedD(8,9)[OF queue_okD(3)[OF assms(1)]]
  have "in_band c (set xs) k \<noteq> {}"
    using n(1)[of k] n(2) assms(2) by (auto simp: waiting_def flow_ok_def word_gt_0 split: if_splits)
  then show ?thesis by (auto simp: in_band_def)
qed

lemma band_no_at:
  assumes "bands_ok q" "0 < k" "k \<le> q_nband q" "0 < k'" "k' \<le> q_nband q"
  shows "unat (q_nband q) - unat k < length (q_bandp q)"
    "unat (q_nband q) - unat k = unat (q_nband q) - unat k' \<longleftrightarrow> k = k'"
proof -
  have "0 < unat k" "0 < unat k'" using assms(2,4) by (simp_all add: word_gt_0 unat_gt_0)
  then show "unat (q_nband q) - unat k < length (q_bandp q)"
    "unat (q_nband q) - unat k = unat (q_nband q) - unat k' \<longleftrightarrow> k = k'"
    using assms by (auto simp: bands_ok_def word_le_nat_alt intro!: unsigned_word_eqI[where 'a = nat])
qed

lemma band_out_wants:
  assumes "qb_flag qb QB_WANTW"
  shows "qb_flag (band_out n qb) QB_WANTW \<or> qb_flag qb QB_FULL \<and> \<not> qb_flag (band_out n qb) QB_FULL"
proof -
  define q where "q = qb\<lparr>qb_msgs := qb_msgs qb - 1, qb_count := qb_count qb - of_nat n\<rparr>"
  have "band_out n qb = (if drained q then q\<lparr>qb_flag := (qb_flag q)(QB_FULL := False, QB_WANTW := False)\<rparr> else q)"
    by (simp add: band_out_def q_def Let_def)
  moreover have "qb_flag q = qb_flag qb" by (simp add: q_def)
  moreover have "drained q \<longrightarrow> qb_flag q QB_FULL" by (simp add: drained_def)
  ultimately show ?thesis using assms by simp
qed

text \<open>\<open>__getq\<close> on a queue that is not empty: the message leaves the count of band zero or of its own band, whose
  pointers have been adjusted.\<close>

lemma getq_locked_cases:
  assumes "queue_ok c (m # xs)" "getq_locked c = Some (m', be, c')"
  obtains (norm) c1 where "m' = Some m" "b_band (mem c m) = 0" "count_out m (getq_unlink m c) = (be, c1)"
      "c' = clear_flag QWANTR c1"
  | (band) i t c1 f l where "m' = Some m" "0 < b_band (mem c m)" "b_band (mem c m) \<le> q_nband (que c)"
      "i = unat (q_nband (que c)) - unat (b_band (mem c m))" "i < length (q_bandp (que c))"
      "band_count_out i m t = (be, c1)" "c' = clear_flag QWANTR c1" "mem t = mem (getq_unlink m c)"
      "q_bandp (que t) = (q_bandp (que c))[i := (q_bandp (que c) ! i)\<lparr>qb_first := f, qb_last := l\<rparr>]"
      "q_flag (que t) = q_flag (que c)" "q_nband (que t) = q_nband (que c)" "q_count (que t) = q_count (que c)"
      "q_hiwat (que t) = q_hiwat (que c)" "q_lowat (que t) = q_lowat (que c)" "f = first xs None"
      "l = (if qb_last (q_bandp (que c) ! i) = Some m then None else qb_last (q_bandp (que c) ! i))"
proof -
  have qf: "q_first (que c) = Some m" using queue_okD(1)[OF assms(1)] by (simp add: on_queue_def)
  have bd: "b_band (mem (getq_unlink m c) m) = b_band (mem c m)" by (rule same_contentsD(1)) simp
  show thesis
  proof (cases "b_band (mem c m) = 0")
    case True
    then show ?thesis using assms(2) qf bd
      by (auto simp: getq_locked_def Let_def split: prod.splits intro: norm)
  next
    case False
    then have z: "0 < b_band (mem c m)" by (simp add: word_gt_0)
    have mm: "m \<in> set (m # xs)" by simp
    have le: "b_band (mem c m) \<le> q_nband (que c)" using countedD(4)[OF queue_okD(3)[OF assms(1)] mm] .
    define i where "i = unat (q_nband (que c)) - unat (b_band (mem c m))"
    have f: "find_qband (que (getq_unlink m c)) (b_band (mem (getq_unlink m c) m)) = Some i"
      using find_qband_eq[OF queue_okD(5)[OF assms(1)] z le] bd by (simp add: find_qband_def i_def)
    have il: "i < length (q_bandp (que c))"
      using band_no_at(1)[OF queue_okD(5)[OF assms(1)] z le z le] by (simp add: i_def)
    define t where "t = steps [upd_band i (qb_first_update (\<lambda>_. q_first (que (getq_unlink m c)))),
      ifthen (\<lambda>s. qb_last (band_at s i) = Some m) (upd_band i (qb_last_update (\<lambda>_. None)))] (getq_unlink m c)"
    have un: "q_first (que (getq_unlink m c)) = first xs None"
      using getq_unlink_on[OF queue_okD(1)[OF assms(1)]] by (simp add: on_queue_def)
    have t: "mem t = mem (getq_unlink m c)" "q_flag (que t) = q_flag (que c)" "q_nband (que t) = q_nband (que c)"
      "q_count (que t) = q_count (que c)" "q_hiwat (que t) = q_hiwat (que c)" "q_lowat (que t) = q_lowat (que c)"
      "q_bandp (que t) = (q_bandp (que c))[i := (q_bandp (que c) ! i)\<lparr>qb_first := first xs None,
         qb_last := if qb_last (q_bandp (que c) ! i) = Some m then None else qb_last (q_bandp (que c) ! i)\<rparr>]"
      using il un by (auto simp: t_def ifthen_def list_update_same_conv)
    obtain c1 where "band_count_out i m t = (be, c1)" "c' = clear_flag QWANTR c1" "m' = Some m"
      using assms(2) qf False bd f by (auto simp: getq_locked_def Let_def t_def split: prod.splits)
    then show ?thesis using band[OF _ z le i_def il _ _ t(1,7,2-6) refl refl] by blast
  qed
qed

lemma getq_locked_waiting:
  assumes "queue_ok c (m # xs)" "getq_locked c = Some (Some m, be, c')" "waiting k (que c)"
  shows "waiting k (que c') \<or> be \<and> b_band (mem c m) = k"
  using assms(1,2)
proof (cases rule: getq_locked_cases)
  case (norm c1)
  then show ?thesis using assms(3)
    by (auto simp: count_out_eq Let_def waiting_def band_no_def split: if_splits)
next
  case (band i t c1 f l)
  have il': "i < length (q_bandp (que t))" and w: "qb_flag (band_at t j) = qb_flag (band_at c j)" for j
    using band(5,9) by (auto simp: nth_list_update)
  define b where "b = band_out (msgsize (mem t m)) (band_at t i)"
  have e: "be \<longleftrightarrow> qb_flag (band_at t i) QB_FULL \<and> \<not> qb_flag b QB_FULL \<and> qb_flag (band_at t i) QB_WANTW"
    "c1 = add_blocked (- of_bool (qb_flag (band_at t i) QB_FULL \<and> \<not> qb_flag b QB_FULL)) (upd_band i (\<lambda>_. b) t)"
    using band(6) unfolding band_count_out_eq[OF il'] Let_def b_def by simp_all
  have "qb_flag (band_at t i) QB_WANTW \<longrightarrow> qb_flag b QB_WANTW \<or> be"
    using e(1) band_out_wants[of "band_at t i"] by (auto simp: b_def)
  then have be: "be \<or> (qb_flag (band_at c i) QB_WANTW \<longrightarrow> qb_flag (band_at c1 i) QB_WANTW)"
    "\<And>j. j \<noteq> i \<Longrightarrow> band_at c1 j = band_at t j" "q_flag (que c1) = q_flag (que c)" "q_nband (que c1) = q_nband (que c)"
    unfolding e(2) using il' w band(10,11) by auto
  show ?thesis
  proof (cases "k = 0 \<or> k = b_band (mem c m)")
    case True
    then show ?thesis using assms(3) be(1,3,4) band(2,4,7)
      by (cases be) (auto simp: waiting_def band_no_def)
  next
    case False
    then have k: "0 < k" "k \<le> q_nband (que c)" using assms(3) by (simp_all add: waiting_def word_gt_0)
    have "unat (q_nband (que c)) - unat k \<noteq> i"
      using band_no_at(2)[OF queue_okD(5)[OF assms(1)] k band(2,3)] False band(4) by simp
    then show ?thesis using be(2,4) w band(7) k assms(3) by (simp add: waiting_def band_no_def word_gt_0)
  qed
qed

lemma wired_qbackenable:
  assumes "wired q w s"
  shows "s_que (qbackenable q band None s) q = s_que s q" "tst QENAB w (qbackenable q band None s)"
    "wired q w (qbackenable q band None s)"
  using assms
  by (auto simp: qbackenable_def wired_def qenable_def qschedule_def on_flag_def ifthen_def Let_def)

lemma getq_wired:
  assumes "wired q w s" "streams_ok s X" "run_ok [] s" "X q = m # xs" "getq q s = Some (Some m, s')"
  shows "wired q w s' \<and> (tst QENAB w s \<longrightarrow> tst QENAB w s') \<and>
    (waiting k (s_que s q) \<longrightarrow> waiting k (s_que s' q) \<or> tst QENAB w s')"
proof -
  have q: "queue_ok (q_ctx q s) (m # xs)" using streams_okD[OF assms(2), of q] assms(4) by simp
  obtain be c where c: "getq_locked (q_ctx q s) = Some (Some m, be, c)"
    "s' = (if be then qbackenable q (b_band (mem c m)) None (set_ctx q c s) else set_ctx q c s)"
    using assms(5) by (auto simp: getq_def Let_def split: option.splits)
  have k: "keeps_flags (q_ctx q s) c" using getq_keeps_flags[OF c(1)] .
  have w: "wired q w (set_ctx q c s)" using assms(1) k by (auto simp: wired_def keeps_flags_def)
  have e: "tst QENAB w s \<longrightarrow> tst QENAB w (set_ctx q c s)" using k by (auto simp: keeps_flags_def)
  have wt: "waiting k (s_que s q) \<longrightarrow> waiting k (que c) \<or> be" using getq_locked_waiting[OF q c(1), of k] by auto
  show ?thesis
    using c(2) w e wt wired_qbackenable[OF w, of "b_band (mem c m)"] by (cases be) auto
qed

lemma drain_wakes:
  assumes "wired q w s" "streams_ok s X" "run_ok [] s" "waiting k (s_que s q) \<or> tst QENAB w s"
    "str_run (replicate (length (X q)) (Getq q)) s = Some (as, s')"
  shows "tst QENAB w s'"
  using assms
proof (induction "X q" arbitrary: s X as)
  case Nil
  then have "\<not> waiting k (s_que s q)" using waiting_flow[of "q_ctx q s" "[]" k] streams_okD[of s X q] by auto
  then show ?case using Nil by auto
next
  case (Cons m xs)
  obtain s1 where 1: "getq q s = Some (Some m, s1)" "streams_ok s1 (X(q := xs))" "run_ok [] s1"
    using getq_step[OF Cons.prems(2,3), of q] Cons.hyps(2) by (metis first_simps(2) list.sel(3))
  have 2: "wired q w s1" "waiting k (s_que s1 q) \<or> tst QENAB w s1"
    using getq_wired[OF Cons.prems(1-3) Cons.hyps(2)[symmetric] 1(1)] Cons.prems(4) by auto
  obtain as' where "str_run (replicate (length xs) (Getq q)) s1 = Some (as', s')"
    using Cons.prems(5) 1(1) Cons.hyps(2)[symmetric] by (auto simp: strop_do_def split: bind_splits)
  then show ?case using Cons.hyps(1)[of "X(q := xs)" s1 as'] 1(2,3) 2 by simp
qed

section \<open>Putting back\<close>

lemma putbq_locked_accepts:
  assumes "putbq_locked m c = Some (r, c')" "bands_ok (que c)" "b_band (mem c m) \<le> q_nband (que c)"
  shows "r \<noteq> 0"
proof (cases "QPCTL \<le> db_type (b_datap (mem c m)) \<or> b_band (mem c m) = 0")
  case True
  then show ?thesis using assms(1)
    by (auto simp: putbq_locked_def putbq_pri_def putbq_norm_def bind_eq_Some_conv Let_def split: if_splits)
next
  case False
  then have "get_qband (b_band (mem c m)) c = (Some (unat (q_nband (que c)) - unat (b_band (mem c m))), c)"
    using find_qband_eq[OF assms(2) _ assms(3)] assms(3) by (simp add: get_qband_def word_gt_0)
  then show ?thesis using assms(1) False
    by (auto simp: putbq_locked_def putbq_norm_def putbq_band_def bind_eq_Some_conv Let_def split: if_splits)
qed

lemma getq_locked_nband:
  assumes "getq_locked c = Some (m, be, c')"
  shows "q_nband (que c') = q_nband (que c)"
proof -
  have a: "q_nband (que t') = q_nband (que t)" if "count_out x t = (b, t')" for x t b t'
    using count_out_fields(3)[of x t] that by simp
  have b: "q_nband (que t') = q_nband (que t)" if "band_count_out i x t = (b, t')" for i x t b t'
  proof -
    have "q_nband (que (snd (band_count_out i x t))) = q_nband (que t)"
      by (simp add: band_count_out_def Let_def ifthen_def)
    then show ?thesis using that by simp
  qed
  show ?thesis using assms
    by (auto simp: getq_locked_def Let_def ifthen_def dest: a b split: option.splits if_splits prod.splits)
qed

lemma mark_band_nband:
  assumes "bands_ok (que c)" "0 < band"
  shows "q_nband (que c) \<le> q_nband (que (mark_band band c))"
proof -
  obtain j as where g: "snd (get_qband band c) = grow j as c"
    "unat (q_nband (que (grow j as c))) = unat (q_nband (que c)) + j"
    using get_qband_spec[OF assms] by metis
  have "q_nband (que (mark_band band c)) = q_nband (que (grow j as c))"
    using g(1) by (auto simp: mark_band_def case_prod_unfold split: option.split)
  then show ?thesis using g(2) by (simp add: word_le_nat_alt)
qed

lemma qbackenable_nband:
  assumes "streams_ok s X"
  shows "q_nband (s_que s q) \<le> q_nband (s_que (qbackenable q' band None s) q)"
  using mark_band_nband[of "q_ctx nb s" band for nb] queue_okD(5)[OF streams_okD[OF assms]]
  by (auto simp: qbackenable_def qenable_def qschedule_def on_flag_def ifthen_def Let_def word_gt_0 split: option.split)

lemma getq_room:
  assumes "streams_ok s X" "X q = m # xs" "getq q s = Some (Some m, s')" "run_ok [] s"
  shows "b_band (s_mem s' m) \<le> q_nband (s_que s' q)"
proof -
  have q: "queue_ok (q_ctx q s) (m # xs)" using streams_okD[OF assms(1), of q] assms(2) by simp
  obtain be c where c: "getq_locked (q_ctx q s) = Some (Some m, be, c)"
    "s' = (if be then qbackenable q (b_band (mem c m)) None (set_ctx q c s) else set_ctx q c s)"
    using assms(3) by (auto simp: getq_def Let_def split: option.splits)
  have qc: "queue_ok c xs" "same_contents (q_ctx q s) c" using getq_ok[OF q] c(1) by auto
  have ok: "streams_ok (set_ctx q c s) (X(q := xs))"
    using getq_outside[OF queue_okD(1)[OF q] c(1)] assms(2)
    by (intro set_ctx_ok[OF assms(1) qc(1), of q "{}"]) auto
  note t = qbackenable_nband[OF ok, of q q "b_band (mem c m)"]
  note mm = qbackenable_ok(3)[OF ok set_ctx_run_ok[OF assms(4) getq_keeps_flags[OF c(1)]], of q "b_band (mem c m)" None]
  have "m \<in> set (m # xs)" by simp
  then have "b_band (s_mem s m) \<le> q_nband (s_que s q)" using countedD(4)[OF queue_okD(3)[OF q]] by fastforce
  then have "b_band (mem c m) \<le> q_nband (que c)"
    using getq_locked_nband[OF c(1)] same_contentsD(1)[OF qc(2), of m] by simp
  moreover have "s_mem s' = mem c" using c(2) mm by auto
  ultimately show ?thesis using c(2) t by auto
qed

section \<open>The scheduler\<close>

text \<open>Serving one queue, whether or not it is still enabled.\<close>

definition serve :: "(nat \<Rightarrow> strs \<Rightarrow> strs) \<Rightarrow> nat \<Rightarrow> strs \<Rightarrow> strs" where
  "serve srv q t = steps [
     on_flag QENAB False q,
     ifthen (\<lambda>t. \<not> tst QPROCS q t)
       (\<lambda>t. steps [on_flag QSVCBUSY True q, srv q, on_flag QSVCBUSY False q] t)] t"

lemma run_pass_serves:
  assumes "\<And>q p t. run_ok p t \<Longrightarrow> run_ok p (srv q t)" "run_ok [] s"
  shows "run_pass srv s = fold (serve srv) (run_list s) (s\<lparr>qrunflag := False, run_list := []\<rparr>) \<and>
    run_ok [] (run_pass srv s)"
proof -
  have b: "run_ok p (on_flag QSVCBUSY v q t) = run_ok p t" for p v q t
    by (rule run_ok_cong) (auto simp: on_flag_def)
  have e: "run_ok p (on_flag QENAB False q t)" if "run_ok (q # p) t" for p q t
    using that by (auto simp: run_ok_def on_flag_def)
  have o: "srvp_fast srv q t = serve srv q t \<and> run_ok p (serve srv q t)" if "run_ok (q # p) t" for p q t
  proof -
    have "tst QENAB q t" using that by (auto simp: run_ok_def)
    then show ?thesis using e[OF that] assms(1) by (simp add: srvp_fast_def serve_def ifthen_def b)
  qed
  have f: "fold (srvp_fast srv) ps t = fold (serve srv) ps t \<and> run_ok [] (fold (serve srv) ps t)" if "run_ok ps t" for ps t
    using that by (induction ps arbitrary: t) (simp_all add: o)
  have "run_ok (run_list s) (s\<lparr>qrunflag := False, run_list := []\<rparr>)" using assms(2) by (simp add: run_ok_def)
  from f[OF this] show ?thesis unfolding run_pass_def by simp
qed

lemma queuerun_keeps:
  assumes "\<And>q p t. run_ok p t \<Longrightarrow> run_ok p (srv q t)" "run_ok [] s"
  shows "run_ok [] (queuerun srv s)"
proof -
  have "run_ok [] (queuerun_loop srv n s)" if "run_ok [] s" for n s
    using that by (induction n arbitrary: s) (simp_all add: Let_def run_pass_serves[OF assms(1), THEN conjunct2])
  then show ?thesis using assms(2) by (simp add: queuerun_def)
qed

end
