(* ===== verification/STR_Promises.thy ===== *)
theory STR_Promises
  imports STR_Laws
begin

text \<open>
  The properties of the queues of a STREAMS system, over all histories of calls, and a small system on which each
  of them is seen to apply.
\<close>

section \<open>A small system\<close>

text \<open>Queue 1 writes into queue 0; messages have twenty octets, and message \<open>m\<close> the band \<open>m mod 3\<close>.\<close>

definition demo_queue :: "nat \<Rightarrow> queue" where
  "demo_queue q = \<lparr>q_first = None, q_last = None, q_next = None, q_count = 0, q_flag = (\<lambda>f. f = QSRVP), q_minpsz = 0,
     q_maxpsz = 4096, q_hiwat = 16, q_lowat = 8, q_bandp = [], q_nband = 0, q_blocked = 0, q_msgs = 0,
     q_nfsrv = (if q = 1 then Some 0 else None), q_nbsrv = (if q = 0 then Some 1 else None)\<rparr>"

definition demo_msg :: "nat \<Rightarrow> msgb" where
  "demo_msg m = \<lparr>b_next = None, b_prev = None, b_band = of_nat (m mod 3),
     b_datap = \<lparr>db_type = M_PROTO, db_data = replicate 20 0, b_rptr = 0, b_wptr = 20\<rparr>, b_cont = []\<rparr>"

definition demo_strs :: strs where
  "demo_strs = \<lparr>s_que = demo_queue, s_mem = demo_msg, s_allocs = [True, True, True, True], run_list = [], qrunflag = False\<rparr>"

lemma demo_history: "history demo_strs (\<lambda>_. [])"
  by (rule history.start) (simp_all add: demo_strs_def demo_queue_def new_queue_def)

text \<open>Message 3, of band zero, fills queue 0.\<close>

definition demo_full :: strs where
  "demo_full = snd (the (strop_do (Putq 0 3) demo_strs))"

lemma demo_full_que:
  "q_flag (s_que demo_full 0) QFULL" "s_que demo_full 1 = demo_queue 1"
  "q_nbsrv (s_que demo_full 0) = Some 1" "\<not> q_flag (s_que demo_full 0) QPROCS"
  by (simp_all add: demo_full_def strop_do_def putq_def put_result_def at_queue_def putq_locked_def putq_norm_def demo_strs_def
      q_ctx_def demo_queue_def demo_msg_def msg_types tail_link_def queue_acct ifthen_def set_ctx_def msgsize_def)

lemma demo_full_history: "history demo_full ((\<lambda>_. [])(0 := [3]))"
proof -
  have al: "allowed (pr_of demo_strs) (\<lambda>_. []) (Putq 0 3)" by (simp add: allowed_def)
  obtain a s' X' where r: "strop_do (Putq 0 3) demo_strs = Some (a, s')"
    "on_lists (pr_of demo_strs) (dat_of demo_strs) (Putq 0 3) (\<lambda>_. []) a X'"
    using strop_step[OF history_ok[OF demo_history, THEN conjunct1] history_ok[OF demo_history, THEN conjunct2] al] by blast
  have "prio (s_mem demo_strs 3) = 0" by (simp add: prio_def demo_strs_def demo_msg_def msg_types word_le_nat_alt)
  then have "X' = (\<lambda>_. [])(0 := [3])" using r(2) by (auto simp: on_lists_def place_ans_def)
  then show ?thesis using history.call[OF demo_history al r] r(1) by (simp add: demo_full_def)
qed

section \<open>Calls are operations on lists\<close>

text \<open>C5. After any history, of any length and on any queues, and whatever the cache of band structures answers: each
  call of \<open>strop\<close> that is \<open>allowed\<close> returns; it answers, and changes the lists of messages of the queues, as its
  specification \<open>on_lists\<close> says; no message changes its priority, type or data; and the history goes on.  The
  calls are \<open>putq\<close> (behind the messages of its priority), \<open>putbq\<close> (before them), \<open>getq\<close> (the first), \<open>rmvq\<close>, \<open>flushq\<close>,
  \<open>flushband\<close> of band zero, \<open>insq\<close> and \<open>appq\<close> at a message and at the end (refused, or exactly there), and \<open>bcanput\<close>, \<open>bcanputnext\<close>,
  \<open>qenable\<close>, \<open>enableq\<close>, \<open>enableok\<close>, \<open>noenable\<close>, \<open>strqset\<close> and \<open>strqget\<close>, of which it is claimed here only that they return and
  that no list changes.  Not allowed, besides a message put on two queues or one named that is not there, are \<open>flushband\<close> of
  another band than zero, \<open>flushband\<close> of all of band zero while there are such messages, and \<open>insq\<close> or \<open>appq\<close> of a
  message in front of the first message not of high priority when that one is of a higher band: there the claim does not
  hold of the code.\<close>

theorem streams_refine_lists:
  assumes "history s X" "allowed (pr_of s) X op"
  shows "\<exists>a s' X'. strop_do op s = Some (a, s') \<and> on_lists (pr_of s) (dat_of s) op X a X' \<and> history s' X' \<and>
    fixed s s'"
proof -
  have ok: "streams_ok s X" "run_ok [] s" using history_ok[OF assms(1)] by simp_all
  obtain a s' X' where r: "strop_do op s = Some (a, s')" "on_lists (pr_of s) (dat_of s) op X a X'" "fixed s s'"
    using strop_step[OF ok assms(2)] by blast
  then show ?thesis using history.call[OF assms r(1,2)] by blast
qed

theorem streams_refine_lists_witness:
  "\<exists>a s' X'. strop_do (Flushq 0 FLUSHDATA) demo_full = Some (a, s') \<and>
    on_lists (pr_of demo_full) (dat_of demo_full) (Flushq 0 FLUSHDATA) ((\<lambda>_. [])(0 := [3])) a X' \<and> history s' X' \<and>
    fixed demo_full s'"
  by (rule streams_refine_lists[OF demo_full_history]) (simp add: allowed_def)

section \<open>Queues are in order and counted\<close>

lemma sum_in_band:
  "distinct xs \<Longrightarrow> band_bytes c (set xs) k = (\<Sum>x\<leftarrow>filter (\<lambda>x. b_band (mem c x) = k) xs. msgsize (mem c x))"
  by (simp add: band_bytes_def in_band_def sum_list_distinct_conv_sum_set flip: set_filter)

lemma card_in_band: "distinct xs \<Longrightarrow> card (in_band c (set xs) k) = length (filter (\<lambda>x. b_band (mem c x) = k) xs)"
  by (simp add: in_band_def distinct_card flip: set_filter)

lemma full_bands_small: "bands_ok q \<Longrightarrow> unat (of_nat (full_bands (q_bandp q)) :: u8) = full_bands (q_bandp q)"
proof -
  assume "bands_ok q"
  then have "full_bands (q_bandp q) \<le> unat (q_nband q)"
    unfolding full_bands_def bands_ok_def by (metis length_filter_le)
  then show ?thesis using unsigned_less[of "q_nband q", where 'a = nat] by (simp add: unat_of_nat)
qed

text \<open>What a count of octets and its flags say of the messages they stand for.\<close>

definition counts_of :: "(nat \<Rightarrow> msgb) \<Rightarrow> nat list \<Rightarrow> u64 \<Rightarrow> bool \<Rightarrow> bool \<Rightarrow> bool" where
  "counts_of h xs cnt full wantw \<longleftrightarrow>
     cnt = of_nat (\<Sum>x\<leftarrow>xs. msgsize (h x)) \<and> (full \<longrightarrow> xs \<noteq> []) \<and> (wantw \<longrightarrow> full)"

definition consistent :: "queue \<Rightarrow> (nat \<Rightarrow> msgb) \<Rightarrow> nat list \<Rightarrow> bool" where
  "consistent q h xs \<longleftrightarrow>
     distinct xs \<and> q_first q = first xs None \<and> q_last q = final None xs \<and> chain h None xs None \<and>
     sorted_wrt (\<lambda>x y. prio (h y) \<le> prio (h x)) xs \<and> q_msgs q = int (length xs) \<and>
     counts_of h (filter (\<lambda>x. b_band (h x) = 0) xs) (q_count q) (q_flag q QFULL) (q_flag q QWANTW) \<and>
     (\<forall>k. 0 < k \<and> k \<le> q_nband q \<longrightarrow>
        (let b = q_bandp q ! (unat (q_nband q) - unat k); ys = filter (\<lambda>x. b_band (h x) = k) xs in
         qb_msgs b = int (length ys) \<and> counts_of h ys (qb_count b) (qb_flag b QB_FULL) (qb_flag b QB_WANTW))) \<and>
     unat (q_blocked q) = length (filter (\<lambda>b. qb_flag b QB_FULL) (q_bandp q))"

text \<open>C6. After any sequence of the calls just named, each as \<open>allowed\<close> (so without \<open>flushband\<close> of a band other than
  zero, \<open>flushband\<close> of all of band zero while there are such messages, and \<open>insq\<close> or \<open>appq\<close> in front of a first normal message
  of a higher band), every queue is a chain of its messages in both directions, in order of priority (high
  priority messages, then the bands from the highest down); it counts its messages and the octets of band zero, and
  each band structure those of its band; \<open>q_blocked\<close> is the number of full bands; and a queue or band is full only
  while it holds messages, and has writers waiting only while it is full.\<close>

theorem queues_consistent:
  assumes "history s X"
  shows "consistent (s_que s q) (s_mem s) (X q)"
proof -
  have q: "queue_ok (q_ctx q s) (X q)" using history_ok[OF assms(1)] streams_okD by blast
  note c = countedD[OF queue_okD(3)[OF q]]
  note e = sum_in_band[OF queue_okD(4)[OF q], of "q_ctx q s"] card_in_band[OF queue_okD(4)[OF q], of "q_ctx q s"]
  have n: "in_band (q_ctx q s) (set (X q)) j \<noteq> {} \<longleftrightarrow> filter (\<lambda>x. b_band (s_mem s x) = j) (X q) \<noteq> []" for j
    by (auto simp: in_band_def filter_empty_conv)
  have "sorted_wrt (\<lambda>x y. prio (s_mem s y) \<le> prio (s_mem s x)) (X q)"
    using queue_okD(2)[OF q] by (simp add: ordered_def descending_def)
  moreover have "q_msgs (s_que s q) = int (length (X q))" using c(2) queue_okD(4)[OF q] by (simp add: distinct_card)
  moreover have "counts_of (s_mem s) (filter (\<lambda>x. b_band (s_mem s x) = 0) (X q)) (q_count (s_que s q))
      (tst QFULL q s) (tst QWANTW q s)"
    using c(3,9) n[of 0] e(1)[of 0] by (simp add: counts_of_def flow_ok_def)
  moreover have "let b = q_bandp (s_que s q) ! (unat (q_nband (s_que s q)) - unat k);
        ys = filter (\<lambda>x. b_band (s_mem s x) = k) (X q)
      in qb_msgs b = int (length ys) \<and> counts_of (s_mem s) ys (qb_count b) (qb_flag b QB_FULL) (qb_flag b QB_WANTW)"
    if "0 < k" "k \<le> q_nband (s_que s q)" for k
    using c(6-8)[of k] n[of k] e(1)[of k] e(2)[of k] that by (simp add: counts_of_def flow_ok_def Let_def band_no_def)
  moreover have "unat (q_blocked (s_que s q)) = length (filter (\<lambda>b. qb_flag b QB_FULL) (q_bandp (s_que s q)))"
    using c(5) full_bands_small[OF c(1)] by (simp add: full_bands_def)
  ultimately show ?thesis using queue_okD(1,4)[OF q] by (simp add: consistent_def on_queue_def)
qed

theorem queues_consistent_witness: "consistent (s_que demo_full 0) (s_mem demo_full) [3]"
  using queues_consistent[OF demo_full_history, of 0] by simp

section \<open>A queue sorts by priority\<close>

text \<open>C11. Messages put on an empty queue and taken off again come in the order of a stable sort by priority: all those
  that were accepted, high priority first, then by band, and within a band as they were put.\<close>

theorem queue_sorts:
  assumes "history s X" "X q = []" "distinct ms" "\<And>m q'. m \<in> set ms \<Longrightarrow> m \<notin> set (X q')"
  shows "\<exists>as s1 s2. str_run (map (Putq q) ms) s = Some (as, s1) \<and> length as = length ms \<and>
    str_run (replicate (length (accepted ms as)) (Getq q)) s1 =
      Some (map (\<lambda>m. Taken (Some m)) (sort_key (\<lambda>m. 256 - prio (s_mem s m)) (accepted ms as)), s2) \<and> streams_ok s2 X"
proof -
  have ok: "streams_ok s X" "run_ok [] s" using history_ok[OF assms(1)] by simp_all
  obtain as s1 where 1: "str_run (map (Putq q) ms) s = Some (as, s1)" "length as = length ms" "run_ok [] s1"
    "streams_ok s1 (X(q := fold (behind (pr_of s)) (accepted ms as) []))"
    using put_run[OF ok assms(3,4), of q] assms(2) by metis
  have e: "fold (behind (pr_of s)) (accepted ms as) [] = sort_key (\<lambda>m. 256 - prio (s_mem s m)) (accepted ms as)"
    by (rule behind_sorts) (rule prio_le)
  show ?thesis using get_run[OF 1(4,3), of q] 1(1,2) assms(2) by (fastforce simp: e fun_upd_idem)
qed

theorem queue_sorts_witness:
  "\<exists>as s1 s2. str_run (map (Putq 0) [3, 1, 2, 4]) demo_strs = Some (as, s1) \<and> length as = length [3, 1, 2, 4 :: nat] \<and>
    str_run (replicate (length (accepted [3, 1, 2, 4] as)) (Getq 0)) s1 =
      Some (map (\<lambda>m. Taken (Some m)) (sort_key (\<lambda>m. 256 - prio (s_mem demo_strs m)) (accepted [3, 1, 2, 4] as)), s2) \<and>
    streams_ok s2 (\<lambda>_. [])"
  by (rule queue_sorts[OF demo_history]) auto

section \<open>Putting back undoes taking\<close>

text \<open>C12. \<open>putbq\<close> of the message that \<open>getq\<close> has just taken is never refused and restores the queue, for a message of
  any kind and whether or not taking it woke writers.\<close>

theorem putbq_undoes_getq:
  assumes "history s X" "X q = m # xs"
  shows "\<exists>s1 s2. getq q s = Some (Some m, s1) \<and> putbq q m s1 = Some (1, s2) \<and> history s2 X"
proof -
  have ok: "streams_ok s X" "run_ok [] s" using history_ok[OF assms(1)] by simp_all
  obtain s1 where g: "getq q s = Some (Some m, s1)" "streams_ok s1 (X(q := xs))" "run_ok [] s1" "fixed s s1"
    using getq_step[OF ok, of q] assms(2) by (metis first_simps(2) list.sel(3))
  have h1: "history s1 (X(q := xs))"
    by (rule history.call[OF assms(1), of "Getq q" "Taken (Some m)"])
      (use g assms(2) in \<open>simp_all add: allowed_def strop_do_def on_lists_def\<close>)
  have d: "m \<notin> set xs" "\<And>q'. q' \<noteq> q \<Longrightarrow> m \<notin> set (X q')"
    using ok(1) queue_okD(4)[OF streams_okD[OF ok(1), of q]] assms(2) by (force simp: streams_ok_def)+
  have al: "m \<notin> set ((X(q := xs)) q')" for q' using d by auto
  have desc: "\<And>y. y \<in> set xs \<Longrightarrow> prio (s_mem s y) \<le> prio (s_mem s m)"
    using queue_okD(2)[OF streams_okD[OF ok(1), of q]] assms(2) by (simp add: ordered_def descending_def)
  have b: "before (pr_of s1) m xs = m # xs"
    by (rule before_highest) (use desc g(4) in \<open>simp add: fixed_def\<close>)
  obtain r s2 where p: "putbq q m s1 = Some (r, s2)" "r \<le> 1"
    using put_steps(2)[OF g(2,3) al, of q] by blast
  have "r \<noteq> 0"
  proof -
    have bo: "bands_ok (que (q_ctx q s1))" "b_band (mem (q_ctx q s1) m) \<le> q_nband (que (q_ctx q s1))"
      using queue_okD(5)[OF streams_okD[OF g(2)]] getq_room[OF ok(1) assms(2) g(1) ok(2)] by simp_all
    show ?thesis using p(1) putbq_locked_accepts[OF _ bo]
      by (auto simp: putbq_def put_result_def at_queue_def split: if_splits)
  qed
  then have r: "putbq q m s1 = Some (1, s2)" using p by (simp add: le_Suc_eq)
  have "history s2 X"
    by (rule history.call[OF h1, of "Putbq q m" "Placed 1"])
      (use r al b assms(2) in \<open>auto simp: allowed_def strop_do_def on_lists_def place_ans_def\<close>)
  then show ?thesis using g(1) r by blast
qed

theorem putbq_undoes_getq_witness:
  "\<exists>s1 s2. getq 0 demo_full = Some (Some 3, s1) \<and> putbq 0 3 s1 = Some (1, s2) \<and> history s2 ((\<lambda>_. [])(0 := [3]))"
  by (rule putbq_undoes_getq[OF demo_full_history]) simp

section \<open>Writers that wait are woken\<close>

lemma bcanput_locked_waits:
  assumes "bcanput_locked k c = Some (False, c')" "bands_ok (que c)"
  shows "waiting k (que c')"
proof (cases "k = 0")
  case True
  then show ?thesis using assms(1) by (auto simp: bcanput_locked_def waiting_def split: if_splits)
next
  case False
  then have z: "0 < k" by (simp add: word_gt_0)
  have le: "k \<le> q_nband (que c)"
    using assms(1) False by (auto simp: bcanput_locked_def bcanput_slow_def split: if_splits)
  define i where "i = unat (q_nband (que c)) - unat k"
  have "find_qband (que c) k = Some i" using find_qband_eq[OF assms(2) z le] by (simp add: i_def)
  moreover have "i < length (q_bandp (que c))" using band_no_at(1)[OF assms(2) z le z le] by (simp add: i_def)
  ultimately show ?thesis using assms(1) False le
    by (auto simp: bcanput_locked_def bcanput_slow_def waiting_def band_no_def i_def split: if_splits)
qed

lemma refused_waits:
  assumes "streams_ok s X" "q_nfsrv (s_que s w) = Some q" "wired q w s" "bcanputnext w k s = Some (False, s1)"
  shows "waiting k (s_que s1 q) \<and> wired q w s1"
proof -
  have "at_queue q (bcanput_locked k) s = Some (False, s1)"
    using assms(2-4) by (auto simp: bcanputnext_def bcanputnext_locked_def wired_def)
  then obtain c where c: "bcanput_locked k (q_ctx q s) = Some (False, c)" "s1 = set_ctx q c s"
    by (auto simp: at_queue_def)
  note ok = streams_okD[OF assms(1), of q]
  have "keeps_flags (q_ctx q s) c" using bcanput_locked_ok[OF ok, of k] c(1) by auto
  then have "wired q w s1" using assms(3) c(2) by (auto simp: wired_def keeps_flags_def)
  then show ?thesis using bcanput_locked_waits[OF c(1)] queue_okD(5)[OF ok] c(2) by simp
qed

text \<open>C7. A writer that \<open>bcanputnext\<close> has refused is not forgotten: when the messages of the queue it is to write to have
  been taken off, nothing waits for the band any more and the writer's service procedure is on the run list, with the
  scheduler raised.\<close>

theorem refused_writer_woken:
  assumes "history s X" "q_nfsrv (s_que s w) = Some q" "wired q w s" "bcanputnext w k s = Some (False, s1)"
  shows "\<exists>as s2. str_run (replicate (length (X q)) (Getq q)) s1 = Some (as, s2) \<and> \<not> waiting k (s_que s2 q) \<and>
    tst QENAB w s2 \<and> w \<in> set (run_list s2) \<and> qrunflag s2"
proof -
  have ok: "streams_ok s X" "run_ok [] s" using history_ok[OF assms(1)] by simp_all
  have ok1: "streams_ok s1 X" "run_ok [] s1" using bcanput_step(2)[OF ok, of w k] assms(4) by auto
  note w = refused_waits[OF ok(1) assms(2-4)]
  obtain s2 where g: "str_run (replicate (length (X q)) (Getq q)) s1 = Some (map (\<lambda>m. Taken (Some m)) (X q), s2)"
    "run_ok [] s2" "streams_ok s2 (X(q := []))"
    using get_run[OF ok1, of q] by blast
  have "tst QENAB w s2" using drain_wakes[OF conjunct2[OF w] ok1 _ g(1), of k] w by blast
  moreover have "queue_ok (q_ctx q s2) []" using streams_okD[OF g(3), of q] by simp
  then have "\<not> waiting k (s_que s2 q)" using waiting_flow[of "q_ctx q s2" "[]" k] by auto
  ultimately show ?thesis using g(1,2) by (auto simp: run_ok_def)
qed

theorem refused_writer_woken_witness:
  "\<exists>s1 as s2. bcanputnext 1 0 demo_full = Some (False, s1) \<and>
    str_run (replicate (length [3 :: nat]) (Getq 0)) s1 = Some (as, s2) \<and> \<not> waiting 0 (s_que s2 0) \<and>
    tst QENAB 1 s2 \<and> 1 \<in> set (run_list s2) \<and> qrunflag s2"
proof -
  have w: "wired 0 1 demo_full" using demo_full_que by (simp add: wired_def demo_queue_def)
  have nf: "q_nfsrv (s_que demo_full 1) = Some 0" using demo_full_que(2) by (simp add: demo_queue_def)
  obtain s1 where s1: "bcanputnext 1 0 demo_full = Some (False, s1)"
    using demo_full_que by (simp add: bcanputnext_def bcanputnext_locked_def at_queue_def bcanput_locked_def demo_queue_def)
  show ?thesis using refused_writer_woken[OF demo_full_history nf w s1] s1 by auto
qed

section \<open>The scheduler\<close>

text \<open>C13. Whatever the service procedures do through the queue utilities: one pass of the scheduler serves every queue
  that was on the run list exactly once, in the order in which they were enabled, and none other; and when
  \<open>queuerun\<close> returns, each queue that is enabled is on the run list once, and unless the list is empty the
  scheduler is raised again.\<close>

theorem scheduler_serves:
  assumes "history s X" "\<And>q p t. run_ok p t \<Longrightarrow> run_ok p (srv q t)"
  shows "run_pass srv s = fold (serve srv) (run_list s) (s\<lparr>qrunflag := False, run_list := []\<rparr>) \<and>
    distinct (run_list s) \<and> (\<forall>q. q \<in> set (run_list s) \<longleftrightarrow> tst QENAB q s) \<and>
    distinct (run_list (queuerun srv s)) \<and> (\<forall>q. q \<in> set (run_list (queuerun srv s)) \<longleftrightarrow> tst QENAB q (queuerun srv s)) \<and>
    (run_list (queuerun srv s) = [] \<or> qrunflag (queuerun srv s))"
proof -
  have ok: "run_ok [] s" using history_ok[OF assms(1)] by simp
  have "run_pass srv s = fold (serve srv) (run_list s) (s\<lparr>qrunflag := False, run_list := []\<rparr>)"
    using run_pass_serves[where srv = srv, OF assms(2) ok] by blast
  moreover have "run_ok [] (queuerun srv s)" by (rule queuerun_keeps[OF assms(2) ok])
  ultimately show ?thesis using ok by (auto simp: run_ok_def)
qed

definition demo_enabled :: strs where
  "demo_enabled = qenable 1 demo_full"

lemma demo_enabled_history: "history demo_enabled ((\<lambda>_. [])(0 := [3]))"
  using history.call[OF demo_full_history, of "Qenable 1" Done demo_enabled]
  by (simp add: allowed_def strop_do_def on_lists_def demo_enabled_def)

theorem scheduler_serves_witness:
  "run_pass qenable demo_enabled =
      fold (serve qenable) (run_list demo_enabled) (demo_enabled\<lparr>qrunflag := False, run_list := []\<rparr>) \<and>
    distinct (run_list demo_enabled) \<and> (\<forall>q. q \<in> set (run_list demo_enabled) \<longleftrightarrow> tst QENAB q demo_enabled) \<and>
    distinct (run_list (queuerun qenable demo_enabled)) \<and>
    (\<forall>q. q \<in> set (run_list (queuerun qenable demo_enabled)) \<longleftrightarrow> tst QENAB q (queuerun qenable demo_enabled)) \<and>
    (run_list (queuerun qenable demo_enabled) = [] \<or> qrunflag (queuerun qenable demo_enabled))"
  by (rule scheduler_serves[OF demo_enabled_history]) (rule qenable_run_ok)

end
