(* ===== verification/STR_Levels.thy ===== *)
theory STR_Levels
  imports STR_Promises
begin

text \<open>
  Flow control of a queue and its bands as an automaton: each band has a count of octets between its water marks,
  is full or not, and has writers waiting or not.  Putting a message on fills the level of its band, taking one off
  drains it, and asking for room notes a refused writer; the other bands stay as they are.
\<close>

section \<open>Levels\<close>

record band_state =
  l_count :: u64
  l_hiwat :: u64
  l_lowat :: u64
  l_full :: bool
  l_wantw :: bool

definition band_level :: "qband \<Rightarrow> band_state" where
  "band_level b = \<lparr>l_count = qb_count b, l_hiwat = qb_hiwat b, l_lowat = qb_lowat b, l_full = qb_flag b QB_FULL,
     l_wantw = qb_flag b QB_WANTW\<rparr>"

text \<open>A band that has no structure yet is empty, with the water marks of the queue.\<close>

definition level :: "u8 \<Rightarrow> queue \<Rightarrow> band_state" where
  "level k q =
     (if k = 0 then \<lparr>l_count = q_count q, l_hiwat = q_hiwat q, l_lowat = q_lowat q, l_full = q_flag q QFULL,
        l_wantw = q_flag q QWANTW\<rparr>
      else if k \<le> q_nband q then band_level (band_no q k)
      else \<lparr>l_count = 0, l_hiwat = q_hiwat q, l_lowat = q_lowat q, l_full = False, l_wantw = False\<rparr>)"

definition fill :: "u64 \<Rightarrow> band_state \<Rightarrow> band_state" where
  "fill n l = l\<lparr>l_count := l_count l + n, l_full := l_full l \<or> l_hiwat l < l_count l + n\<rparr>"

definition drain :: "u64 \<Rightarrow> band_state \<Rightarrow> band_state" where
  "drain n l = (let c = l_count l - n in
     if (c = 0 \<or> c < l_lowat l) \<and> l_full l then l\<lparr>l_count := c, l_full := False, l_wantw := False\<rparr>
     else l\<lparr>l_count := c\<rparr>)"

text \<open>The band a message counts for: a high priority message counts for band zero.\<close>

definition band_of :: "msgb \<Rightarrow> u8" where
  "band_of b = (if is_pri b then 0 else b_band b)"

lemma level_cong:
  "q_count q' = q_count q \<Longrightarrow> q_hiwat q' = q_hiwat q \<Longrightarrow> q_lowat q' = q_lowat q \<Longrightarrow> q_flag q' QFULL = q_flag q QFULL \<Longrightarrow>
    q_flag q' QWANTW = q_flag q QWANTW \<Longrightarrow> q_nband q' = q_nband q \<Longrightarrow> q_bandp q' = q_bandp q \<Longrightarrow> level k q' = level k q"
  by (simp add: level_def band_no_def)

lemma level_links [simp]:
  "level k (que (queue_link mp pv nx s)) = level k (que s)" "level k (que (head_link mp s)) = level k (que s)"
  "level k (que (tail_link mp s)) = level k (que s)" "level k (que (getq_unlink mp s)) = level k (que s)"
  "level k (que (upd_mem x f s)) = level k (que s)" "level k (que (clear_flag QWANTR s)) = level k (que s)"
  "level k (que (add_blocked b s)) = level k (que s)"
  by (rule level_cong; simp)+

lemma level_qwantr [simp]: "level k (q\<lparr>q_flag := (q_flag q)(QWANTR := v)\<rparr>) = level k q"
  by (rule level_cong; simp)

lemma level_count_in:
  "level k (que (count_in m s)) = (if k = 0 then fill (of_nat (msgsize (mem s m))) (level 0 (que s)) else level k (que s))"
  by (auto simp: level_def fill_def band_no_def)

lemma level_grow:
  assumes "unat (q_nband (que (grow j as s))) = unat (q_nband (que s)) + j"
  shows "level k (que (grow j as s)) = level k (que s)"
proof (cases "k = 0 \<or> q_nband (que (grow j as s)) < k")
  case True
  then show ?thesis using assms
    by (auto simp: level_def word_le_nat_alt word_less_nat_alt)
next
  case False
  then have k: "k \<noteq> 0" "k \<le> q_nband (que (grow j as s))" by auto
  show ?thesis
  proof (cases "k \<le> q_nband (que s)")
    case True
    have "band_no (que (grow j as s)) k = band_no (que s) k"
      using True assms by (simp add: band_no_def nth_append word_le_nat_alt)
    then show ?thesis using k True by (simp add: level_def)
  next
    case False
    have "band_no (que (grow j as s)) k = new_qband (que s)"
      using False k assms by (simp add: band_no_def nth_append word_le_nat_alt)
    then show ?thesis using k False by (simp add: level_def band_level_def new_qband_def)
  qed
qed

lemma level_upd_band:
  assumes "bands_ok (que s)" "0 < k" "k \<le> q_nband (que s)"
  shows "level j (que (upd_band (unat (q_nband (que s)) - unat k) (\<lambda>_. b) s)) =
    (if j = k then band_level b else level j (que s))"
proof (cases "0 < j \<and> j \<le> q_nband (que s)")
  case True
  then have "band_no (que (upd_band (unat (q_nband (que s)) - unat k) (\<lambda>_. b) s)) j =
      (if j = k then b else band_no (que s) j)"
    using band_no_at[OF assms, of j] by (auto simp: band_no_def nth_list_update)
  then show ?thesis using True assms(2,3) by (auto simp: level_def)
next
  case False
  then show ?thesis using assms(2,3) by (auto simp: level_def word_gt_0)
qed

lemma level_of_band: "0 < k \<Longrightarrow> k \<le> q_nband q \<Longrightarrow> level k q = band_level (q_bandp q ! (unat (q_nband q) - unat k))"
  by (simp add: level_def band_no_def word_gt_0)

section \<open>Putting\<close>

lemma level_band_link:
  assumes "bands_ok (que c)" "0 < b_band (mem c m)" "get_qband (b_band (mem c m)) c = (Some i, t)"
  shows "level j (que (queue_link m pv nx (band_link i m pv' nx' t))) =
    (if j = b_band (mem c m) then fill (of_nat (msgsize (mem c m))) (level j (que c)) else level j (que c))"
proof -
  let ?k = "b_band (mem c m)"
  obtain d as where g: "t = grow d as c" "unat (q_nband (que t)) = unat (q_nband (que c)) + d" "bands_ok (que t)"
    "?k \<le> q_nband (que t)" "i = unat (q_nband (que t)) - unat ?k"
    using get_qband_spec[OF assms(1,2)] assms(3) by (metis fst_conv option.distinct(1) option.inject snd_conv)
  have il: "i < length (q_bandp (que t))" using band_no_at(1)[OF g(3) assms(2) g(4) assms(2) g(4)] g(5) by simp
  have lg: "level j (que t) = level j (que c)" for j using level_grow[of d as c] g(1,2) by simp
  have m: "mem t = mem c" using g(1) by simp
  define b where "b = band_in (msgsize (mem t m)) m pv' nx' (band_at t i)"
  have e: "band_link i m pv' nx' t =
      add_blocked (of_bool (qb_flag b QB_FULL \<and> \<not> qb_flag (band_at t i) QB_FULL)) (upd_band i (\<lambda>_. b) t)"
    using band_link_eq[OF il, of m pv' nx'] unfolding Let_def b_def by simp
  have "band_level b = fill (of_nat (msgsize (mem c m))) (band_level (band_at t i))"
    by (auto simp: b_def band_in_def band_level_def fill_def m)
  moreover have "level ?k (que t) = band_level (band_at t i)" using level_of_band[OF assms(2) g(4)] g(5) by simp
  ultimately have "level j (que (upd_band i (\<lambda>_. b) t)) =
      (if j = ?k then fill (of_nat (msgsize (mem c m))) (level j (que t)) else level j (que t))"
    using level_upd_band[OF g(3) assms(2) g(4), of j b] g(5) by simp
  then show ?thesis unfolding e by (simp add: lg)
qed

lemma level_band_refused:
  assumes "bands_ok (que c)" "0 < k"
  shows "level j (que (snd (get_qband k c))) = level j (que c)"
  using get_qband_spec[OF assms] level_grow by metis

lemma level_placed:
  assumes "bands_ok (que c)" "0 < b_band (mem c m)" "\<not> is_pri (mem c m)"
    "(case get_qband (b_band (mem c m)) c of
        (None, t) \<Rightarrow> r = 0 \<and> c' = t
      | (Some i, t) \<Rightarrow> r \<noteq> 0 \<and> (\<exists>pv nx. c' = queue_link m pv nx (band_link i m pv nx t)))"
  shows "level j (que c') = (if r \<noteq> 0 \<and> j = band_of (mem c m) then fill (of_nat (msgsize (mem c m))) (level j (que c))
    else level j (que c))"
proof (cases "get_qband (b_band (mem c m)) c")
  case (Pair a t)
  show ?thesis
  proof (cases a)
    case None
    then show ?thesis using assms(4) level_band_refused[OF assms(1,2), of j] Pair by simp
  next
    case (Some i)
    then show ?thesis using assms(3,4) level_band_link[OF assms(1,2), of i t] Pair by (auto simp: band_of_def)
  qed
qed

text \<open>A message of high priority has its band cleared before it is counted.\<close>

lemma level_pri:
  assumes "is_pri (mem c m)" "level j (que c') = level j (que (count_in m (upd_mem m (b_band_update (\<lambda>_. 0)) c)))"
  shows "level j (que c') = (if j = band_of (mem c m) then fill (of_nat (msgsize (mem c m))) (level j (que c))
    else level j (que c))"
proof -
  have "msgsize ((mem c m)\<lparr>b_band := 0\<rparr>) = msgsize (mem c m)" by (simp add: msgsize_def)
  then show ?thesis using assms by (simp add: level_count_in band_of_def)
qed

lemma level_links_size [simp]:
  "msgsize (mem (tail_link m c) m) = msgsize (mem c m)" "msgsize (mem (head_link m c) x) = msgsize (mem c x)"
  "msgsize (mem (queue_link m pv nx c) m) = msgsize (mem c m)"
  by (rule same_contentsD(4); simp)+

lemma putq_levels:
  assumes "bands_ok (que c)" "putq_locked m c = Some (r, c')"
  shows "level j (que c') = (if r \<noteq> 0 \<and> j = band_of (mem c m) then fill (of_nat (msgsize (mem c m))) (level j (que c))
    else level j (que c))"
proof (cases "is_pri (mem c m)")
  case True
  then have "\<not> db_type (b_datap (mem c m)) < QPCTL" by (simp add: not_less)
  then have "\<exists>pv nx. c' = queue_link m pv nx (count_in m (upd_mem m (b_band_update (\<lambda>_. 0)) c)) \<and> r \<noteq> 0"
    using assms(2) by (auto simp: putq_locked_def putq_pri_def bind_eq_Some_conv Let_def)
  then show ?thesis using level_pri[OF True, of j c'] by auto
next
  case False
  then have lt: "db_type (b_datap (mem c m)) < QPCTL" by (simp add: not_le)
  show ?thesis
  proof (cases "b_band (mem c m) = 0")
    case True
    then show ?thesis using lt assms(2)
      by (auto simp: putq_locked_def putq_norm_def Let_def level_count_in band_of_def)
  next
    case nz: False
    then have z: "0 < b_band (mem c m)" by (simp add: word_gt_0)
    have p: "putq_band m c = Some (r, c')" using assms(2) lt nz by (simp add: putq_locked_def putq_norm_def)
    show ?thesis by (rule level_placed[OF assms(1) z False])
      (use p in \<open>cases "get_qband (b_band (mem c m)) c"; cases "fst (get_qband (b_band (mem c m)) c)";
        auto simp: putq_band_def bind_eq_Some_conv Let_def\<close>)
  qed
qed

lemma putbq_levels:
  assumes "bands_ok (que c)" "putbq_locked m c = Some (r, c')"
  shows "level j (que c') = (if r \<noteq> 0 \<and> j = band_of (mem c m) then fill (of_nat (msgsize (mem c m))) (level j (que c))
    else level j (que c))"
proof (cases "is_pri (mem c m)")
  case True
  then have "\<not> db_type (b_datap (mem c m)) < QPCTL" by (simp add: not_less)
  then have "c' = count_in m (head_link m (upd_mem m (b_band_update (\<lambda>_. 0)) c)) \<and> r \<noteq> 0"
    using assms(2) by (auto simp: putbq_locked_def putbq_pri_def)
  then show ?thesis using level_pri[OF True, of j c'] by (simp add: level_count_in)
next
  case False
  then have lt: "db_type (b_datap (mem c m)) < QPCTL" by (simp add: not_le)
  show ?thesis
  proof (cases "b_band (mem c m) = 0")
    case True
    then show ?thesis using lt assms(2)
      by (auto simp: putbq_locked_def putbq_norm_def Let_def level_count_in band_of_def bind_eq_Some_conv)
  next
    case nz: False
    then have z: "0 < b_band (mem c m)" by (simp add: word_gt_0)
    have p: "putbq_band m c = Some (r, c')" using assms(2) lt nz by (simp add: putbq_locked_def putbq_norm_def)
    show ?thesis by (rule level_placed[OF assms(1) z False])
      (use p in \<open>cases "get_qband (b_band (mem c m)) c"; cases "fst (get_qband (b_band (mem c m)) c)";
        auto simp: putbq_band_def bind_eq_Some_conv Let_def\<close>)
  qed
qed

section \<open>Taking and asking\<close>

lemma band_level_out: "band_level (band_out n b) = drain (of_nat n) (band_level b)"
proof -
  define q where "q = b\<lparr>qb_msgs := qb_msgs b - 1, qb_count := qb_count b - of_nat n\<rparr>"
  have e: "band_out n b = (if drained q then q\<lparr>qb_flag := (qb_flag q)(QB_FULL := False, QB_WANTW := False)\<rparr> else q)"
    by (simp add: band_out_def q_def Let_def)
  have d: "drained q \<longleftrightarrow> (l_count (band_level b) - of_nat n = 0 \<or> l_count (band_level b) - of_nat n < l_lowat (band_level b)) \<and>
      l_full (band_level b)"
    by (simp add: drained_def q_def band_level_def)
  show ?thesis unfolding e drain_def Let_def d[symmetric]
    by (cases "drained q") (simp_all add: band_level_def q_def)
qed

lemma level_count_out:
  "level k (que (snd (count_out m s))) = (if k = 0 then drain (of_nat (msgsize (mem s m))) (level 0 (que s)) else level k (que s))"
proof -
  define q where "q = (que s)\<lparr>q_count := q_count (que s) - of_nat (msgsize (mem s m))\<rparr>"
  have e: "que (snd (count_out m s)) = (if q_drained q then q\<lparr>q_flag := (q_flag q)(QFULL := False, QWANTW := False)\<rparr> else q)"
    by (simp add: count_out_eq q_def Let_def)
  have d: "q_drained q \<longleftrightarrow> (l_count (level 0 (que s)) - of_nat (msgsize (mem s m)) = 0 \<or>
      l_count (level 0 (que s)) - of_nat (msgsize (mem s m)) < l_lowat (level 0 (que s))) \<and> l_full (level 0 (que s))"
    by (simp add: q_drained_def q_def level_def)
  show ?thesis unfolding e drain_def Let_def d[symmetric]
    by (cases "q_drained q") (simp_all add: level_def band_no_def q_def)
qed

lemma getq_levels:
  assumes "queue_ok c (m # xs)" "getq_locked c = Some (m', be, c')"
  shows "level j (que c') = (if j = band_of (mem c m) then drain (of_nat (msgsize (mem c m))) (level j (que c))
    else level j (que c))"
proof -
  have bo: "band_of (mem c m) = b_band (mem c m)" using queue_okD(2)[OF assms(1)] by (simp add: ordered_def band_of_def)
  have ms: "msgsize (mem (getq_unlink m c) m) = msgsize (mem c m)" by (rule same_contentsD(4)) simp
  show ?thesis using assms
  proof (cases rule: getq_locked_cases)
    case (norm c1)
    then have "c1 = snd (count_out m (getq_unlink m c))" by simp
    then show ?thesis using norm(2,4) by (simp add: level_count_out bo ms)
  next
    case (band i t c1 f l)
    let ?k = "b_band (mem c m)"
    have il': "i < length (q_bandp (que t))" using band(5,9) by simp
    have bt: "bands_ok (que t)" using queue_okD(5)[OF assms(1)] band(9,11) by (simp add: bands_ok_def)
    have bl: "band_level (band_at t x) = band_level (band_at c x)" for x
      using band(5,9) by (cases "x = i") (simp_all add: band_level_def)
    have lt: "level x (que t) = level x (que c)" for x
      using bl[of "unat (q_nband (que c)) - unat x"] band(10-14) by (simp add: level_def band_no_def)
    define b where "b = band_out (msgsize (mem t m)) (band_at t i)"
    have "c1 = add_blocked (- of_bool (qb_flag (band_at t i) QB_FULL \<and> \<not> qb_flag b QB_FULL)) (upd_band i (\<lambda>_. b) t)"
      using band(6) unfolding band_count_out_eq[OF il'] Let_def b_def by simp
    then have "level j (que c') = level j (que (upd_band i (\<lambda>_. b) t))" using band(7) by (simp only: level_links)
    moreover have "band_level b = drain (of_nat (msgsize (mem c m))) (level ?k (que t))"
      using level_of_band[OF band(2), of "que t"] band(3,4,8,11) ms by (simp add: b_def band_level_out)
    ultimately show ?thesis using level_upd_band[OF bt band(2), of j b] band(3,4,11) lt bo by simp
  qed
qed

lemma full_blocked:
  assumes "queue_ok c xs" "0 < k" "k \<le> q_nband (que c)" "l_full (level k (que c))"
  shows "0 < q_blocked (que c)"
proof -
  let ?b = "q_bandp (que c)"
  have il: "unat (q_nband (que c)) - unat k < length ?b"
    using band_no_at(1)[OF queue_okD(5)[OF assms(1)] assms(2,3,2,3)] .
  have "band_no (que c) k \<in> set (filter (\<lambda>qb. qb_flag qb QB_FULL) ?b)"
    using il assms(4) level_of_band[OF assms(2,3)] by (simp add: band_no_def band_level_def)
  then have pos: "0 < full_bands ?b" unfolding full_bands_def by (rule length_pos_if_in_set)
  have "full_bands ?b \<le> unat (q_nband (que c))"
    using queue_okD(5)[OF assms(1)] unfolding full_bands_def bands_ok_def by (metis length_filter_le)
  then have "unat (of_nat (full_bands ?b) :: u8) = full_bands ?b"
    using unsigned_less[of "q_nband (que c)", where 'a = nat] by (simp add: unat_of_nat)
  then have "0 < unat (q_blocked (que c))" using pos countedD(5)[OF queue_okD(3)[OF assms(1)]] by simp
  then show ?thesis by (simp add: word_gt_0 unat_gt_0)
qed

lemma bcanput_levels:
  assumes "queue_ok c xs" "bcanput_locked k c = Some (b, c')"
  shows "(b \<longleftrightarrow> \<not> l_full (level k (que c))) \<and>
    level j (que c') = (if j = k \<and> \<not> b then (level j (que c))\<lparr>l_wantw := True\<rparr> else level j (que c))"
proof (cases "k = 0")
  case True
  then show ?thesis using assms(2)
    by (auto simp: bcanput_locked_def level_def band_no_def split: if_splits)
next
  case False
  then have z: "0 < k" by (simp add: word_gt_0)
  show ?thesis
  proof (cases "k \<le> q_nband (que c) \<and> 0 < q_blocked (que c)")
    case True
    define i where "i = unat (q_nband (que c)) - unat k"
    have i: "find_qband (que c) k = Some i"
      using find_qband_eq[OF queue_okD(5)[OF assms(1)] z] True by (simp add: i_def)
    let ?b = "(band_at c i)\<lparr>qb_flag := (qb_flag (band_at c i))(QB_WANTW := True)\<rparr>"
    have r: "b \<longleftrightarrow> \<not> qb_flag (band_at c i) QB_FULL" "c' = (if b then c else upd_band i (\<lambda>_. ?b) c)"
      using assms(2) False True i upd_band_const[of i "\<lambda>qb. qb\<lparr>qb_flag := (qb_flag qb)(QB_WANTW := True)\<rparr>" c]
      by (auto simp: bcanput_locked_def bcanput_slow_def split: if_splits)
    have lk: "level k (que c) = band_level (band_at c i)" using level_of_band[OF z] True by (simp add: i_def)
    have "level j (que (upd_band i (\<lambda>_. ?b) c)) = (if j = k then band_level ?b else level j (que c))"
      using level_upd_band[OF queue_okD(5)[OF assms(1)] z, of j ?b] True by (simp add: i_def)
    moreover have "band_level ?b = (band_level (band_at c i))\<lparr>l_wantw := True\<rparr>" by (simp add: band_level_def)
    ultimately show ?thesis using r lk by (auto simp: band_level_def)
  next
    case F: False
    then have "b" "c' = c" using assms(2) False by (auto simp: bcanput_locked_def bcanput_slow_def)
    moreover have "\<not> l_full (level k (que c))"
      using full_blocked[OF assms(1) z] F False by (cases "k \<le> q_nband (que c)") (auto simp: level_def)
    ultimately show ?thesis by simp
  qed
qed


section \<open>On the queues of a system\<close>

lemma level_mark_band:
  assumes "bands_ok (que c)" "0 < k"
  shows "level j (que (mark_band k c)) = level j (que c)"
proof -
  obtain a t where g: "get_qband k c = (a, t)" by fastforce
  obtain d as where s: "t = grow d as c" "unat (q_nband (que t)) = unat (q_nband (que c)) + d" "bands_ok (que t)"
    "a = None \<or> k \<le> q_nband (que t) \<and> a = Some (unat (q_nband (que t)) - unat k)"
    using get_qband_spec[OF assms] g by (metis fst_conv snd_conv)
  have t: "level j (que t) = level j (que c)" for j using level_grow[of d as c] s(1,2) by simp
  show ?thesis
  proof (cases a)
    case None
    then show ?thesis using g t by (simp add: mark_band_def)
  next
    case (Some i)
    then have k: "k \<le> q_nband (que t)" "i = unat (q_nband (que t)) - unat k" using s(4) by auto
    let ?b = "(band_at t i)\<lparr>qb_flag := (qb_flag (band_at t i))(QB_BACK := True)\<rparr>"
    have "band_level ?b = level k (que t)" using level_of_band[OF assms(2) k(1)] k(2) by (simp add: band_level_def)
    then have "level j (que (upd_band i (\<lambda>_. ?b) t)) = level j (que t)"
      using level_upd_band[OF s(3) assms(2) k(1), of j ?b] k(2) by simp
    then show ?thesis
      using g Some t upd_band_const[of i "\<lambda>qb. qb\<lparr>qb_flag := (qb_flag qb)(QB_BACK := True)\<rparr>" t] by (simp add: mark_band_def)
  qed
qed

lemma level_on_flag: "f \<notin> {QFULL, QWANTW} \<Longrightarrow> level j (s_que (on_flag f v q s) q') = level j (s_que s q')"
  by (auto simp: on_flag_def intro!: level_cong)

lemma level_qenable: "level j (s_que (qenable q s) q') = level j (s_que s q')"
  by (simp add: qenable_def qschedule_def ifthen_def level_on_flag)

lemma level_qbackenable:
  assumes "\<And>q. bands_ok (s_que s q)"
  shows "level j (s_que (qbackenable q k None s) q') = level j (s_que s q')"
proof -
  have "level j (que (if k = 0 then set_flag QBACK (q_ctx nb s) else mark_band k (q_ctx nb s))) = level j (s_que s nb)" for nb
    using level_mark_band[of "q_ctx nb s" k j] assms[of nb] by (auto simp: word_gt_0 intro!: level_cong)
  then show ?thesis by (auto simp: qbackenable_def level_qenable set_ctx_def Let_def split: option.split)
qed

text \<open>The queue that \<open>bcanput\<close> asks, if any.\<close>

definition asked :: "nat \<Rightarrow> strs \<Rightarrow> nat option" where
  "asked q s =
     (if tst QPROCS q s then None
      else if tst QSRVP q s \<or> q_next (s_que s q) = None then Some q
      else (case q_nfsrv (s_que s q) of None \<Rightarrow> None | Some nf \<Rightarrow> if tst QPROCS nf s then None else Some nf))"

lemma bcanput_asked:
  "bcanput q k s = (case asked q s of None \<Rightarrow> Some (False, s) | Some w \<Rightarrow> at_queue w (bcanput_locked k) s)"
  by (simp add: bcanput_def asked_def bcanputnext_locked_def split: option.split)

text \<open>The levels after a call: those of the bands named change as told, all others stay.\<close>

definition one_level :: "strs \<Rightarrow> strs \<Rightarrow> nat \<Rightarrow> u8 \<Rightarrow> (band_state \<Rightarrow> band_state) \<Rightarrow> bool" where
  "one_level s s' q k f \<longleftrightarrow>
     (\<forall>q' j. level j (s_que s' q') = (if q' = q \<and> j = k then f (level j (s_que s q')) else level j (s_que s q')))"

lemma put_one_level:
  assumes "put_result q (at_queue q f s) = Some (r, s')" "r \<le> 1" "\<And>r c j. f (q_ctx q s) = Some (r, c) \<Longrightarrow>
    level j (que c) = (if r \<noteq> 0 \<and> j = band_of (s_mem s m) then fill n (level j (s_que s q)) else level j (s_que s q))"
  shows "one_level s s' q (band_of (s_mem s m)) (if r = 1 then fill n else id)"
proof -
  obtain r' c where c: "f (q_ctx q s) = Some (r', c)" "s' = (if r' < 2 then set_ctx q c s else qenable q (set_ctx q c s))"
    "r = (if r' < 2 then r' else 1)"
    using assms(1) by (auto simp: put_result_def at_queue_def split: if_splits)
  have l: "level j (s_que s' q') = level j (s_que (set_ctx q c s) q')" for j q' using c(2) by (simp add: level_qenable)
  have "r = 1 \<longleftrightarrow> r' \<noteq> 0" using c(3) assms(2) by auto
  then show ?thesis using assms(3)[OF c(1)] by (auto simp: one_level_def l set_ctx_def)
qed

text \<open>C40. Flow control is an automaton per band of each queue, with the octets counted, the water marks, and the marks
  of full and of writers waiting.  After any history \<open>putq\<close> or \<open>putbq\<close> of a message that is placed fills the level of its band
  (band zero for one of high priority): the octets are added and the band is full once they exceed the high water
  mark; one that is refused changes no level.  \<open>getq\<close> drains the level of the band of the message it takes: a full band
  ends its fullness and its wait when what remains is nothing or below the low water mark.  \<open>bcanput\<close> answers whether
  the band of the queue it asks is not full, and notes the refused writer there.  No call changes another level.\<close>

theorem levels_follow_automaton:
  assumes "history s X" "\<And>q'. m \<notin> set (X q')"
  shows "(\<exists>r s'. putq q m s = Some (r, s') \<and>
      one_level s s' q (band_of (s_mem s m)) (if r = 1 then fill (of_nat (msgsize (s_mem s m))) else id)) \<and>
    (\<exists>r s'. putbq q m s = Some (r, s') \<and>
      one_level s s' q (band_of (s_mem s m)) (if r = 1 then fill (of_nat (msgsize (s_mem s m))) else id)) \<and>
    (\<exists>a s'. getq q s = Some (a, s') \<and> (case a of
        None \<Rightarrow> one_level s s' q 0 id
      | Some x \<Rightarrow> one_level s s' q (band_of (s_mem s x)) (drain (of_nat (msgsize (s_mem s x)))))) \<and>
    (\<exists>s'. case asked q s of
        None \<Rightarrow> bcanput q k s = Some (False, s')
      | Some w \<Rightarrow> bcanput q k s = Some (\<not> l_full (level k (s_que s w)), s') \<and>
          one_level s s' w k (\<lambda>l. if l_full l then l\<lparr>l_wantw := True\<rparr> else l))"
proof (intro conjI)
  have ok: "streams_ok s X" "run_ok [] s" using history_ok[OF assms(1)] by simp_all
  note q = streams_okD[OF ok(1), of q]
  show "\<exists>r s'. putq q m s = Some (r, s') \<and>
      one_level s s' q (band_of (s_mem s m)) (if r = 1 then fill (of_nat (msgsize (s_mem s m))) else id)"
    proof -
    obtain r s' where p: "putq q m s = Some (r, s')" "r \<le> 1" using put_steps(1)[OF ok assms(2), of q] by auto
    have "one_level s s' q (band_of (s_mem s m)) (if r = 1 then fill (of_nat (msgsize (s_mem s m))) else id)"
      by (rule put_one_level[OF p[unfolded putq_def]]) (use putq_levels[OF queue_okD(5)[OF q]] in simp)
    then show ?thesis using p(1) by blast
  qed
  show "\<exists>r s'. putbq q m s = Some (r, s') \<and>
      one_level s s' q (band_of (s_mem s m)) (if r = 1 then fill (of_nat (msgsize (s_mem s m))) else id)"
    proof -
    obtain r s' where p: "putbq q m s = Some (r, s')" "r \<le> 1" using put_steps(2)[OF ok assms(2), of q] by auto
    have "one_level s s' q (band_of (s_mem s m)) (if r = 1 then fill (of_nat (msgsize (s_mem s m))) else id)"
      by (rule put_one_level[OF p[unfolded putbq_def]]) (use putbq_levels[OF queue_okD(5)[OF q]] in simp)
    then show ?thesis using p(1) by blast
  qed
  show "\<exists>a s'. getq q s = Some (a, s') \<and> (case a of
        None \<Rightarrow> one_level s s' q 0 id
      | Some x \<Rightarrow> one_level s s' q (band_of (s_mem s x)) (drain (of_nat (msgsize (s_mem s x)))))"
  proof (cases "X q")
    case Nil
    then have "q_first (s_que s q) = None" using queue_okD(1)[OF q] by (simp add: on_queue_def)
    then show ?thesis by (auto simp: getq_def getq_locked_def one_level_def set_ctx_def Let_def intro!: level_cong)
  next
    case (Cons x xs)
    obtain be c where g: "getq_locked (q_ctx q s) = Some (Some x, be, c)" "queue_ok c xs"
      using getq_ok[OF q] Cons by auto
    have b: "bands_ok (s_que (set_ctx q c s) q')" for q'
      using queue_okD(5)[OF g(2)] queue_okD(5)[OF streams_okD[OF ok(1), of q']] by (simp add: set_ctx_def)
    let ?s' = "if be then qbackenable q (b_band (mem c x)) None (set_ctx q c s) else set_ctx q c s"
    have "getq q s = Some (Some x, ?s')" using g(1) by (simp add: getq_def)
    moreover have "level j (s_que ?s' q') = level j (s_que (set_ctx q c s) q')" for j q'
      by (simp add: level_qbackenable[OF b])
    moreover have qx: "queue_ok (q_ctx q s) (x # xs)" using q Cons by simp
    have "level j (que c) = (if j = band_of (s_mem s x) then drain (of_nat (msgsize (s_mem s x))) (level j (s_que s q))
        else level j (s_que s q))" for j
      using getq_levels[OF qx g(1)] by simp
    ultimately show ?thesis by (auto simp: one_level_def)
  qed
  show "\<exists>s'. case asked q s of
        None \<Rightarrow> bcanput q k s = Some (False, s')
      | Some w \<Rightarrow> bcanput q k s = Some (\<not> l_full (level k (s_que s w)), s') \<and>
          one_level s s' w k (\<lambda>l. if l_full l then l\<lparr>l_wantw := True\<rparr> else l)"
  proof (cases "asked q s")
    case None
    then show ?thesis by (simp add: bcanput_asked)
  next
    case (Some w)
    note w = streams_okD[OF ok(1), of w]
    obtain b c where c: "bcanput_locked k (q_ctx w s) = Some (b, c)" using bcanput_locked_ok[OF w, of k] by blast
    show ?thesis using Some c bcanput_levels[OF w c]
      by (auto simp: bcanput_asked at_queue_def one_level_def set_ctx_def)
  qed
qed

lemma demo_full_srv: "tst QSRVP 0 demo_full"
  by (simp add: demo_full_def strop_do_def putq_def put_result_def at_queue_def putq_locked_def putq_norm_def demo_strs_def
      q_ctx_def demo_queue_def demo_msg_def msg_types tail_link_def queue_acct ifthen_def set_ctx_def msgsize_def)

theorem levels_follow_automaton_witness:
  "(\<exists>r s'. putq 0 4 demo_full = Some (r, s') \<and>
      one_level demo_full s' 0 (band_of (s_mem demo_full 4))
        (if r = 1 then fill (of_nat (msgsize (s_mem demo_full 4))) else id)) \<and>
    (\<exists>r s'. putbq 0 4 demo_full = Some (r, s') \<and>
      one_level demo_full s' 0 (band_of (s_mem demo_full 4))
        (if r = 1 then fill (of_nat (msgsize (s_mem demo_full 4))) else id)) \<and>
    (\<exists>a s'. getq 0 demo_full = Some (a, s') \<and> (case a of
        None \<Rightarrow> one_level demo_full s' 0 0 id
      | Some x \<Rightarrow> one_level demo_full s' 0 (band_of (s_mem demo_full x)) (drain (of_nat (msgsize (s_mem demo_full x)))))) \<and>
    (\<exists>s'. bcanput 0 0 demo_full = Some (False, s') \<and> one_level demo_full s' 0 0 (\<lambda>l. l\<lparr>l_wantw := True\<rparr>))"
proof -
  have a: "asked 0 demo_full = Some 0" "l_full (level 0 (s_que demo_full 0))"
    using demo_full_que demo_full_srv by (simp_all add: asked_def level_def)
  show ?thesis using levels_follow_automaton[OF demo_full_history, of 4 0 0] a by (auto simp: one_level_def)
qed

end
