(* ===== verification/STR_Faults.thy ===== *)
theory STR_Faults
  imports STR_Promises STR_Levels
begin

text \<open>
  What the code does in the uses that \<open>STR_History\<close> leaves out: \<open>flushband\<close> of all of band zero loses the end of the
  queue or writes through a null pointer, \<open>flushband\<close> of another band relies on pointers that \<open>getq\<close> does not keep, and
  \<open>insq\<close> before a message of a band compares the bands the wrong way round.  Last, a use that it does not leave out:
  the test for data messages takes the answers to an ioctl for data, and a flush of data frees them.
\<close>

section \<open>Flushing a band\<close>

lemma flush_first_norm_first:
  assumes "queue_ok c (m # zs)" "\<not> is_pri (mem c m)" "b_band (mem c m) = 0"
  shows "flush_first_norm c = Some (Some m)"
  using assms queue_okD(1)[OF assms(1)] by (simp add: flush_first_norm_def on_queue_def)

text \<open>\<open>flushband(q, 0, FLUSHALL)\<close> on a queue whose first message is of band zero: when it is the only message, the
  pointer to the last message is null by the time the code writes through it; otherwise the messages are freed but the
  queue keeps pointing at the last of them, to which the next message put on the queue will be linked.\<close>

theorem flushband_all_keeps_tail:
  assumes "queue_ok c (m # zs)" "\<not> is_pri (mem c m)" "b_band (mem c m) = 0"
  shows "if zs = [] then flushband_locked 0 FLUSHALL c = None
    else \<exists>ch c' c''. flushband_locked 0 FLUSHALL c = Some (True, ch, c') \<and> freechain ch c' = Some (m # zs, c'') \<and>
      q_first (que c'') = None \<and> q_last (que c'') = Some (last zs)"
proof -
  note q = queue_okD(1)[OF assms(1)]
  have on: "q_first (que c) = Some m" "b_prev (mem c m) = None" "distinct (m # zs)" "chain (mem c) None (m # zs) None"
    using q by (simp_all add: on_queue_def)
  note f = flush_first_norm_first[OF assms]
  show ?thesis
  proof (cases zs rule: rev_cases)
    case Nil
    then have "q_last (que c) = Some m" using q by (simp add: on_queue_def)
    then show ?thesis using Nil f on
      by (simp add: flushband_locked_def flush_all_norm_def put_tail_def empty_chain_def)
  next
    case (snoc ys y)
    then have l: "q_last (que c) = Some y" "y \<noteq> m" using q on(3) by (auto simp: on_queue_def)
    define ch where "ch = \<lparr>c_head = Some m, c_tail = Next (Some y)\<rparr>"
    have h: "c_head ch = Some m" "c_tail ch = Next (Some y)" by (simp_all add: ch_def)
    obtain c' where r: "flushband_locked 0 FLUSHALL c = Some (True, ch, c')"
      "mem c' = (mem c)(y := (mem c y)\<lparr>b_next := None\<rparr>, m := (mem c m)\<lparr>b_prev := None\<rparr>)"
      "q_first (que c') = None" "q_last (que c') = Some y"
      using f on l
      by (simp add: flushband_locked_def flush_all_norm_def put_tail_def empty_chain_def fun_upd_twist ch_def)
    have "b_next (mem c y) = None" using on(4) snoc by simp
    then have "nexts (mem c') (m # zs) None"
      using chain_nexts[OF on(4)] nexts_cong[of "m # zs" "mem c'" "mem c" None] r(2) by auto
    then have "freed ch c' (m # zs)" using h on(3) snoc by (simp add: freed_def)
    then show ?thesis using freed_freechain[of ch c' "m # zs"] r snoc by auto
  qed
qed

lemma demo_full_ok: "queue_ok (q_ctx 0 demo_full) [3]"
  using streams_okD[OF conjunct1[OF history_ok[OF demo_full_history]], of 0] by simp

lemma demo_full_mem: "\<not> is_pri (s_mem demo_full 3)" "b_band (s_mem demo_full 3) = 0"
  by (simp_all add: demo_full_def strop_do_def putq_def put_result_def at_queue_def putq_locked_def putq_norm_def demo_strs_def
      q_ctx_def demo_queue_def demo_msg_def msg_types tail_link_def queue_acct ifthen_def set_ctx_def word_le_nat_alt)

theorem flushband_all_keeps_tail_witness: "flushband_locked 0 FLUSHALL (q_ctx 0 demo_full) = None"
  using flushband_all_keeps_tail[OF demo_full_ok] demo_full_mem by simp

text \<open>A band that the queue has no structure for: the loop of \<open>__find_qband\<close> stops at the first structure, that of the
  highest band, and its messages are flushed.\<close>

lemma flushband_absent_band:
  assumes "q_nband (que c) < band" "0 < q_nband (que c)"
  shows "flushband_locked band flag c = flushband_locked (q_nband (que c)) flag c"
proof -
  have "find_qband (que c) band = find_qband (que c) (q_nband (que c))"
    using assms(1) by (cases "q_bandp (que c)") (auto simp: find_qband_def dest: order_less_asym)
  moreover have "band \<noteq> 0" "q_nband (que c) \<noteq> 0" using assms by auto
  ultimately show ?thesis by (cases flag) (simp_all add: flushband_locked_def flush_all_band_def)
qed

text \<open>\<open>getq\<close> of the last message of a band, when others follow it on the queue, leaves the band pointing at the next
  message of the queue, which is not of the band, with no last message: \<open>flushband\<close> of that band then dereferences a null
  pointer.\<close>

theorem getq_spoils_band:
  assumes "queue_ok c (m # x # zs)" "0 < b_band (mem c m)" "qb_last (band_no (que c) (b_band (mem c m))) = Some m"
  shows "\<exists>be c'. getq_locked c = Some (Some m, be, c') \<and> queue_ok c' (x # zs) \<and>
    qb_first (band_no (que c') (b_band (mem c m))) = Some x \<and> flushband_locked (b_band (mem c m)) FLUSHALL c' = None"
proof -
  let ?k = "b_band (mem c m)"
  obtain be c' where g: "getq_locked c = Some (Some m, be, c')" "queue_ok c' (x # zs)"
    using getq_ok[OF assms(1)] by auto
  from assms(1) g(1) show ?thesis
  proof (cases rule: getq_locked_cases)
    case (norm c1)
    then show ?thesis using assms(2) by simp
  next
    case (band i t c1 f l)
    have il': "i < length (q_bandp (que t))" using band(5,9) by simp
    have bt: "band_at t i = (q_bandp (que c) ! i)\<lparr>qb_first := Some x, qb_last := None\<rparr>"
      using band(4,5,9,15,16) assms(3) by (simp add: band_no_def)
    define b where "b = band_out (msgsize (mem t m)) (band_at t i)"
    have c1: "c1 = add_blocked (- of_bool (qb_flag (band_at t i) QB_FULL \<and> \<not> qb_flag b QB_FULL)) (upd_band i (\<lambda>_. b) t)"
      using band(6) unfolding band_count_out_eq[OF il'] Let_def b_def by simp
    have b: "qb_first b = Some x" "qb_last b = None" using bt by (simp_all add: b_def band_out_def Let_def)
    have c': "band_at c' i = b" "q_nband (que c') = q_nband (que c)" using c1 il' band(7,11) by simp_all
    have fi: "find_qband (que c') ?k = Some i"
      using find_qband_eq[OF queue_okD(5)[OF g(2)] band(2)] band(3,4) c'(2) by simp
    have nz: "?k \<noteq> 0" using band(2) by auto
    have "flushband_locked ?k FLUSHALL c' = None"
      using fi c'(1) b nz by (simp add: flushband_locked_def flush_all_band_def put_tail_def empty_chain_def)
    moreover have "qb_first (band_no (que c') ?k) = Some x" using c' b band(4) by (simp add: band_no_def)
    ultimately show ?thesis using g by blast
  qed
qed

section \<open>Inserting in the middle\<close>

text \<open>The comparisons of bands in \<open>insq\<close> are the wrong way round.  Before the first message \<open>e\<close> of a queue: a message
  of a higher band, which belongs there, is refused; a message of band zero, which belongs behind, is accepted before
  a message of any band, and the queue is out of order.\<close>

theorem insq_misorders:
  assumes "queue_ok c (e # zs)" "n \<notin> set (e # zs)" "\<not> is_pri (mem c e)" "\<not> is_pri (mem c n)"
  shows "(b_band (mem c e) < b_band (mem c n) \<longrightarrow>
      insq_locked (Some e) n c = Some (0, c) \<and> ordered c (n # e # zs)) \<and>
    (b_band (mem c n) = 0 \<and> 0 < b_band (mem c e) \<longrightarrow>
      (\<exists>r c'. insq_locked (Some e) n c = Some (r, c') \<and> r \<noteq> 0 \<and> on_queue c' (n # e # zs) \<and> \<not> ordered c' (n # e # zs)))"
proof (intro conjI impI)
  have pv: "b_prev (mem c e) = None" using queue_okD(1)[OF assms(1)] by (simp add: on_queue_def)
  have p: "prio (mem c e) = unat (b_band (mem c e))" "prio (mem c n) = unat (b_band (mem c n))"
    using assms(3,4) by (simp_all add: prio_def)
  show "insq_locked (Some e) n c = Some (0, c)" if "b_band (mem c e) < b_band (mem c n)"
    using assms(3,4) that by (simp add: insq_locked_def insq_middle_def)
  show "ordered c (n # e # zs)" if "b_band (mem c e) < b_band (mem c n)"
    using queue_okD(2)[OF assms(1)] assms(4) that p
    by (fastforce simp: ordered_def descending_Cons word_less_nat_alt)
  show "\<exists>r c'. insq_locked (Some e) n c = Some (r, c') \<and> r \<noteq> 0 \<and> on_queue c' (n # e # zs) \<and> \<not> ordered c' (n # e # zs)"
    if b: "b_band (mem c n) = 0 \<and> 0 < b_band (mem c e)"
  proof -
    let ?c = "count_in n (insq_link e n c)"
    have r: "insq_locked (Some e) n c = Some (insq_result n ?c)"
      using assms(3,4) b pv by (simp add: insq_locked_def insq_middle_def prev_norm_def not_less)
    have on: "on_queue ?c (n # e # zs)"
      using insq_link_on[of c "[]" e zs n] queue_okD(1)[OF assms(1)] assms(2) by simp
    have "prio (mem ?c n) = prio (mem c n)" "prio (mem ?c e) = prio (mem c e)"
      using pv assms(2) by (auto simp: insq_link_def prio_def msgs_inc_def ifthen_def)
    moreover have "0 < unat (b_band (mem c e))" using b by (simp add: word_gt_0 unat_gt_0)
    ultimately have "\<not> ordered ?c (n # e # zs)" using p b by (simp add: ordered_def descending_Cons)
    then show ?thesis using r on by (simp add: insq_result_def)
  qed
qed

section \<open>Data messages\<close>

text \<open>The test for data messages looks at the type without its high bit, so that \<open>M_IOCACK\<close> and \<open>M_COPYOUT\<close> pass for
  \<open>M_PROTO\<close> and \<open>M_DELAY\<close>: a flush of data messages frees the answer to an ioctl that waits on the queue.\<close>

theorem flushq_loses_answers:
  assumes "history s X" "m \<in> set (X q)" "db_type (b_datap (s_mem s m)) \<in> {M_IOCACK, M_COPYOUT}"
  shows "\<exists>fs s'. flushq q FLUSHDATA s = Some (fs, s') \<and> m \<in> set fs"
proof -
  have "datamsg M_IOCACK" "datamsg M_COPYOUT" by (simp_all add: datamsg_def msg_types shl1_def)
  then have "isdatamsg (s_mem s m)" using assms(3) by auto
  then show ?thesis using flushq_step[of s X "[]" q FLUSHDATA] history_ok[OF assms(1)] assms(2)
    by (auto simp: flush_keeps_fun)
qed

text \<open>Message 5 is an answer.\<close>

definition demo_ack :: strs where
  "demo_ack = demo_strs\<lparr>s_mem := (s_mem demo_strs)(5 := (demo_msg 5)\<lparr>b_datap := (b_datap (demo_msg 5))\<lparr>db_type := M_IOCACK\<rparr>\<rparr>)\<rparr>"

lemma demo_ack_type: "db_type (b_datap (s_mem demo_ack 5)) = M_IOCACK" "prio (s_mem demo_ack 5) = 256"
  by (simp_all add: demo_ack_def prio_def msg_types word_le_nat_alt)

theorem flushq_loses_answers_witness:
  "\<exists>s fs s'. flushq 0 FLUSHDATA s = Some (fs, s') \<and> 5 \<in> set fs \<and> db_type (b_datap (s_mem s 5)) = M_IOCACK"
proof -
  have h: "history demo_ack (\<lambda>_. [])" unfolding demo_ack_def by (rule history.own[OF demo_history]) simp
  have al: "allowed (pr_of demo_ack) (\<lambda>_. []) (Putq 0 5)" by (simp add: allowed_def)
  obtain a s' X' where r: "strop_do (Putq 0 5) demo_ack = Some (a, s')"
    "on_lists (pr_of demo_ack) (dat_of demo_ack) (Putq 0 5) (\<lambda>_. []) a X'" "fixed demo_ack s'"
    using strop_step[OF conjunct1[OF history_ok[OF h]] conjunct2[OF history_ok[OF h]] al] by blast
  have m: "5 \<in> set (X' 0)" using r(2) demo_ack_type(2) by (auto simp: on_lists_def place_ans_def)
  have t: "db_type (b_datap (s_mem s' 5)) = M_IOCACK" using r(3) demo_ack_type(1) by (simp add: fixed_def)
  show ?thesis using flushq_loses_answers[OF history.call[OF h al r(1,2)] m] t by auto
qed

end
