(* ===== verification/Spec2Isabelle.thy ===== *)
theory Spec2Isabelle
  imports Bufq_Heap SL_Transfer SL_Formats SL_Monitors SL_Service SL_Retrieval SL_Traffic HDLC_Elastic HDLC_Units STR_Faults
begin

text \<open>
  A verification library for two parts of OpenSS7.  The first is the SS7 level 2 signalling link, as implemented in the
  X400P-SS7 driver \<open>src/src/drivers/sl_x400p.c\<close> (ITU-T Q.703, ANSI T1.111.3) on the message buffers of
  \<open>src/src/include/sys/os7/bufq.h\<close> and the structures of \<open>src/src/include/ss7/\<close>: the links, the soft HDLC below them and
  the tasklet of the card that drives it.  The second is the queues of the STREAMS subsystem on which all drivers and
  modules of the repository run: \<open>src/src/kernel/strutil.c\<close>, \<open>src/src/include/sys/openss7/stream.h\<close> and the
  scheduler of \<open>src/src/kernel/strsched.c\<close>.

  \<^bold>\<open>The program.\<close>  A channel (\<open>struct ch\<close>) is one signalling link.  Its level 2 consists of cooperating
  state machines: link state control (\<open>sl_lsc_*\<close>), initial alignment control (\<open>sl_iac_*\<close>), transmission control
  (\<open>sl_txc_*\<close>), reception control (\<open>sl_rc_*\<close>), congestion control (\<open>sl_cc_*\<close>), processor outage control
  (\<open>sl_poc_*\<close>), the error rate monitors (\<open>sl_aerm_*\<close>, \<open>sl_suerm_*\<close>, \<open>sl_eim_*\<close>) and the delimitation, alignment and
  error detection of both directions (\<open>sl_daedt_*\<close>, \<open>sl_daedr_*\<close>).  They call each other as functions, share
  the channel structure, and run eight timers.  Level 3 above sends requests and messages down a STREAMS write
  queue and receives messages and indications on the read queue; below, the line interface asks for frames to
  send and hands in frames received.  The line interface is the soft HDLC: \<open>xp_tx_block\<close> turns signal units into octets
  of a time slot (or of a whole span) with flags, block check and zero insertion, \<open>xp_rx_block\<close> turns octets into
  signal units, both by tables over whole octets.  The interrupt of the card moves a block of eight frames in each direction
  between the card and the elastic buffers (\<open>xp_t1_txrx_burst\<close> and its variants); the tasklet (\<open>xp_card_tasklet\<close>,
  \<open>xp_span_process\<close>) runs the soft HDLC of every channel over a block.

  Between modules, messages wait on STREAMS queues: doubly linked blocks in order of priority (high priority messages,
  then bands 255 to 0) with counts of octets and water marks for the queue and for each band.  \<open>putq\<close>, \<open>putbq\<close>, \<open>insq\<close> and
  \<open>appq\<close> put messages on, \<open>getq\<close>, \<open>rmvq\<close>, \<open>flushq\<close> and \<open>flushband\<close> take them off, \<open>canput\<close> and its like ask for room; a
  writer that is refused is marked, and taking messages off back-enables the queue behind: it is put on the run
  list, from which \<open>queuerun\<close> calls service procedures.

  \<^bold>\<open>Modelling.\<close>  The channel is the record \<open>ch\<close>; a C function that changes it is a function on \<open>ch\<close> of the
  same name, written with \<open>steps\<close> (a block of statements), \<open>ifthen\<close> and \<open>ifelse\<close> in the order of the C body; one
  with a result returns a pair, errors as \<open>errno\<close> values.  Where a C function has long inlined parts, each part is
  a definition of its own (\<open>rc_*\<close> of \<open>sl_rc_signal_unit\<close>, \<open>txc_*\<close> of \<open>sl_txc_transmission_request\<close>, \<open>bsnr_*\<close> of
  \<open>sl_txc_bsnr_and_bibr\<close>, \<open>retr_*\<close> of \<open>sl_txc_retrieval_request_and_fsnc\<close>).  Sequence numbers are 16-bit words, status
  and counters 32-bit words with C's wrap-around (signed ones read with \<open>sint\<close>), buffer counters are natural
  numbers.  What a function does to its surroundings is recorded: indications on the read queue
  \<open>rq\<close> of the attached stream, frees and enables in \<open>log\<close>.  What the surroundings decide is an input: the
  outcomes of memory allocations (\<open>allocs\<close>), the answers of \<open>canput\<close> and \<open>canputnext\<close>, the order of events.

  The STREAMS queues are \<open>queue\<close> records and the messages \<open>msgb\<close> records in a store of blocks; an operation under the
  lock of a queue is a function on \<open>qctx\<close> (the queue, the store, and the answers of the cache of band structures), and
  \<open>strs\<close> is the state of all queues with the run list.  A null pointer that the code dereferences is \<open>None\<close>.

  \<^bold>\<open>Theories.\<close>
  \<^item> \<open>Prelude\<close>: machine integers, statement combinators, collections.
  \<^item> \<open>Bufq\<close>: message buffers as lists with counters; the interface \<open>fifo_buffer\<close> and its interpretation.
    \<open>Bufq_Heap\<close>: the same operations on doubly linked blocks in a heap, and their refinement of the lists.
  \<^item> \<open>Seqno\<close>: sequence number arithmetic (\<open>SN_OUTSIDE\<close>, modular distance); the locale \<open>seq_space\<close> is interpreted for
    the two masks the code installs.
  \<^item> \<open>SL_State\<close>: structures and constants.  \<open>SL_Upper\<close>: indications, read queue, timers.  \<open>SL_Congestion\<close>: transmit
    congestion.  \<open>SL_Tx\<close>: transmission control, formats, acknowledgement, retransmission, retrieval.  \<open>SL_Link\<close>:
    the other state machines.  \<open>SL_Events\<close>: requests, frames, expiries; \<open>sl_step\<close> is one event, \<open>sl_run\<close> a
    sequence.  Together these hold every operation of level 2 that changes the state.
  \<^item> \<open>SL_Views\<close>: the locales \<open>ind_view\<close> and \<open>link_view\<close>, contracts of functions of the channel that most
    operations leave alone; interpreted for the fields and abstractions used below.
  \<^item> \<open>SL_Control\<close>, \<open>SL_Step\<close>: the control state and its invariant; \<open>sl_reach\<close> and the locales
    \<open>event_invariant\<close> and \<open>link_invariant\<close>.
  \<^item> \<open>SL_Window\<close>, \<open>SL_Delivery\<close>, \<open>SL_Transfer\<close>, \<open>SL_Retrans\<close>, \<open>SL_Retrieval\<close>: the transmit window, delivery in
    sequence, acknowledgement, retransmission and retrieval.
  \<^item> \<open>SL_Formats\<close>: signal units read back as written.  \<open>SL_Monitors\<close>: error rate monitors against reference
    counters.  \<open>SL_Service\<close>: alignment, failure, processor outage.  \<open>SL_Traffic\<close>: congestion, data requests, read
    service.  \<open>SL_Demo\<close>: concrete channels for the witnesses.
  \<^item> \<open>HDLC_Bits\<close>: the reference for the line: strings of bits, zero insertion (\<open>stuff\<close>), the bit by bit receiver
    (\<open>read_bits\<close>), the shift register of the block check (\<open>crc\<close>).  \<open>HDLC_Tables\<close>: the tables of the driver
    (\<open>bc_table_generate\<close>, \<open>tx_table_valueN\<close>, \<open>rx_table_valueN\<close>) and that they are the reference taken over octets.
  \<^item> \<open>HDLC_Path\<close>: the paths of a channel (\<open>xp_path_t\<close> is split into \<open>tx_path\<close> and \<open>rx_path\<close>; a \<open>line\<close> is a channel with
    both), the block functions with their labels as definitions (\<open>tx_*\<close> of \<open>xp_tx_block\<close>, \<open>rx_*\<close> of \<open>xp_rx_block\<close>), spans,
    cards, tasklet, burst transfer and overflow.
  \<^item> \<open>HDLC_Line\<close>: what a transmit path owes the line.  \<open>HDLC_Receive\<close>, \<open>HDLC_Frames\<close>: what the receive path has read
    since the last flag, frames and streams of octets.  \<open>HDLC_Transfer\<close>: a message over the line.  \<open>HDLC_Checks\<close>: the
    receiver on arbitrary octets.  \<open>HDLC_Units\<close>: signal units at its length check.  \<open>HDLC_Card\<close>: the invariant of
    the lines of a card; the locale \<open>request_view\<close> is what a transmission request leaves alone.  \<open>HDLC_Elastic\<close>: the
    elastic buffers as queues, with the interrupt between any two steps of the tasklet.
  \<^item> \<open>STR_Queue\<close>: messages, bands, queues, accounting and the putting operations.  \<open>STR_Take\<close>: inserting, taking and flushing,
    \<open>strqget\<close> and \<open>strqset\<close>.  \<open>STR_Stream\<close>: the calls of modules and drivers, flow control, back-enabling, the scheduler.
  \<^item> \<open>STR_Chain\<close>, \<open>STR_Order\<close>, \<open>STR_Count\<close>, \<open>STR_Invariant\<close>, \<open>STR_Flush\<close>, \<open>STR_Reach\<close>, \<open>STR_Insert\<close>: the invariant of a
    queue (linked chain, order, counts) and what each operation does to it.
  \<^item> \<open>STR_History\<close>: sequences of calls and their specification on lists.  \<open>STR_Laws\<close>, \<open>STR_Promises\<close>: sorting,
    round trips, waking of writers, the scheduler.  \<open>STR_Levels\<close>: flow control as an automaton.  \<open>STR_Faults\<close>: what the
    code does in the uses that the histories leave out.

  \<^bold>\<open>What is shown.\<close>  The machines and timers agree in every reachable state; the retransmission
  buffer is the transmit window, from a start with an empty buffer on, and what a start does to any other; messages are delivered in sequence, each once; acknowledgements free what they
  acknowledge and negative ones cause exactly the unacknowledged messages to be sent again; a link comes into service
  on the undisturbed sequence of events and goes down completely on a failure; alignment follows the
  table of the standard; the monitors are a leaky bucket and an interval counter; retrieval hands everything back in
  order; the congestion level is exactly what the thresholds, the occupancy and the old level make it;
  the buffers' pointer code implements lists.  The tables of the soft HDLC are zero
  insertion and deletion; a message taken by a transmit path arrives at the link of the other end as it was; whatever the line carries, only frames
  with a correct block check and length are handed up; the tasklet keeps every line well-formed; the elastic buffers are two
  queues of blocks, whenever the interrupt comes, unless it overtakes the tasklet, which then works on a block in transfer.
  Calls on STREAMS queues are operations on lists of messages; the queues stay linked, ordered and counted; a queue filled and
  emptied sorts by priority; putting back undoes taking; refused writers are woken; flow control is an automaton per band;
  the scheduler serves each enabled queue once.  Some theorems show defects of the code: the
  header of extended sequence numbers is misread, the block of a data request is freed while it is queued, the
  discard level is skipped, remote processor outage is not indicated,
  with extended sequence numbers the soft HDLC drops status units, and those of \<open>STR_Faults\<close> on flushing and inserting by
  bands.

  \<^bold>\<open>Bounds.\<close>  The acknowledgement loop \<open>rtb_ack\<close> has a bound on its turns that is never reached
  (\<open>ack_loop_ends\<close>: one turn per sequence number suffices); the loops of the retrieval are bounded by the lengths of the
  buffers they empty.  Every other loop is structural recursion or a \<open>function\<close> with a measure.

  \<^bold>\<open>Assumptions.\<close>  Messages are identified by \<open>mid\<close>; a duplicate shares its data with the original
  (\<open>shared_write\<close>).  A duplicate of a message that has left the retransmission buffer, undefined in C, is \<open>None\<close>.
  Reads past the end of a frame give 0 (the receiver checks lengths).  Configured times are ticks.  Time stamps in
  indications are left out.  In the soft HDLC the blocks of a message are one list of octets and none of them is empty; the size of a block
  (\<open>fastbuf\<close>) and the byte order of the machine are parameters; the maximum length of a frame is configured below \<open>2^31\<close>; a line
  that takes a whole span is channel 0 of it.  The stream is not a monitoring one (\<open>xp->monitor = 0\<close>).  A span that the tasklet
  works on is one step: a burst of the interrupt touches another block, so that it commutes with the work on the span
  (\<open>burst_before_or_after\<close> in \<open>HDLC_Elastic\<close>), or touches the block in work, which is stated as a defect.  A call on a STREAMS
  queue is one step under the lock of the queue; the service procedures of modules are a parameter of the scheduler.
  The counters of the link's buffers do not wrap, as each counts what its list holds.

  \<^bold>\<open>Not modelled.\<close>  Locks and interrupt levels of the link (each event runs to completion, as under the channel
  lock); the registers, alarms and clocks of the cards; the management requests of the driver (LMI, SDL, SDT, ioctls and
  \<open>M_FLUSH\<close>), which are not events of \<open>sl_step\<close>; \<open>sl_pdu_req\<close> is modelled with its own theorems but is not one of them
  either (data for transmission reach a run by \<open>M_DATA\<close>).  The block of a data request that the code frees while it
  is queued stays readable in the model.  Of STREAMS: the stream head, open and close, link and push, the
  utilities that rearrange message blocks, synchronization queues, timeouts and buffer calls, memory caches, and the locks
  of streams and of the freeze.  The other protocol layers of the repository (MTP3, SCCP, TCAP, ISUP, SIGTRAN, SCTP) and SNMP.
\<close>

section \<open>The link as a whole\<close>

text \<open>C1. In every state that a channel can reach from its initial state by requests, data, frames, frame
  errors, transmission requests, timer expiries and queue service, the state machines agree with each other
  and with the timers: initial alignment control is active exactly in initial alignment, T1 runs exactly while
  the link is aligned but not in service, T2, T3 and T4 run exactly while not aligned, aligned and proving, T5
  exactly while congestion control is busy, reception control is in service exactly between start and
  failure, and an aligned link always has its error rate monitor running (the interval monitor with T8 on a
  high speed link, the signal unit monitor otherwise).\<close>

theorem machines_agree:
  assumes "sl_reach (xp_init_ch pv po c sc x) ch"
  shows "(iac_state (statem ch) \<noteq> IAC_IDLE \<longleftrightarrow> lsc_state (statem ch) = LSC_INITIAL_ALIGNMENT) \<and>
    (armed ch T1 \<longleftrightarrow> lsc_state (statem ch) \<in> {LSC_ALIGNED_READY, LSC_ALIGNED_NOT_READY}) \<and>
    (armed ch T2 \<longleftrightarrow> iac_state (statem ch) = IAC_NOT_ALIGNED) \<and>
    (armed ch T3 \<longleftrightarrow> iac_state (statem ch) = IAC_ALIGNED) \<and>
    (armed ch T4 \<longleftrightarrow> iac_state (statem ch) = IAC_PROVING) \<and>
    (armed ch T5 \<longleftrightarrow> cc_state (statem ch) = CC_BUSY) \<and>
    (armed ch T8 \<longleftrightarrow> eim_state (sdt_sm ch) = ST_IN_SERVICE) \<and>
    (rc_state (statem ch) = ST_IN_SERVICE \<longleftrightarrow>
      lsc_state (statem ch) \<notin> {LSC_POWER_OFF, LSC_OUT_OF_SERVICE}) \<and>
    (suerm_state (sdt_sm ch) = ST_IN_SERVICE \<longleftrightarrow> lsc_up (lsc_state (statem ch)) \<and> \<not> hsl ch) \<and>
    (eim_state (sdt_sm ch) = ST_IN_SERVICE \<longleftrightarrow> lsc_up (lsc_state (statem ch)) \<and> hsl ch)"
proof -
  have "ctl_ok (ctl ch)" using ctl_inv.reach[OF assms ok_init] .
  note ok = this[unfolded ctl_ok_def ctl_def, simplified]
  then show ?thesis by (intro conjI) simp_all
qed

theorem machines_agree_witness:
  "armed (sl_run [Req SL_POWER_ON_REQ 1, Req SL_START_REQ 2] (demo_ch 0x102 0)) T2"
proof -
  let ?ch = "sl_run [Req SL_POWER_ON_REQ 1, Req SL_START_REQ 2] (demo_ch 0x102 0)"
  have "sl_reach (demo_ch 0x102 0) ?ch" unfolding reach_iff_run by blast
  note r = this[unfolded demo_ch_def]
  have "iac_state (statem ?ch) = IAC_NOT_ALIGNED" by (simp add: demo_defs exec_def sl_defs)
  then show ?thesis using machines_agree[OF r] by (simp add: demo_ch_def)
qed

text \<open>The undisturbed way into service: power on, start, SIO and then SIN from the other side, the end of the
  proving period, and the first fill-in unit.\<close>

definition align_run :: "sl_event list" where
  "align_run = [Req SL_POWER_ON_REQ 1, Req SL_START_REQ 2,
     Frame \<lparr>mid = 3, octets = [0xff, 0xff, 1, LSSU_SIO]\<rparr>, Frame \<lparr>mid = 4, octets = [0xff, 0xff, 1, LSSU_SIN]\<rparr>,
     Expiry T4, Frame \<lparr>mid = 5, octets = [0xff, 0xff, 0]\<rparr>]"

lemma align_run_result:
  fixes ms :: "rqmsg list"
  assumes "cfg_t4n c \<noteq> cfg_t4e c" "rb_discard c \<noteq> 0" "rb_accept c \<noteq> 0" "\<not> cfg_D sc \<le> 1"
    "pv = 0x101 \<or> pv = 0x102 \<or> pv = 0x301" "po = 0 \<or> po = 2"
  defines "ch \<equiv> sl_run align_run (xp_init_ch pv po c sc (Some \<lparr>rq = ms, rq_canput = True, rq_canputnext = True\<rparr>))"
  shows "lsc_state (statem ch) = LSC_IN_SERVICE"
    "map_option rq (ch_xp ch) = Some (ms @ [RProto SL_IN_SERVICE_IND None])"
  using assms(5,6,1-4) unfolding ch_def align_run_def
  by (elim disjE; simp add: demo_defs exec_def sl_defs Let_def split_def bufq_defs SN_OUTSIDE_def)+

text \<open>C14. A channel of the ITU-T 1993, ITU-T 1996 or ANSI 1992 variant, with basic or preventive cyclic
  retransmission, any configuration of timers and thresholds in which normal and emergency proving differ and the
  receive thresholds are positive, and whatever waits on its read queue, comes into service on the undisturbed
  sequence of events and tells level 3 so, once.\<close>

theorem comes_into_service:
  fixes ms :: "rqmsg list"
  assumes "cfg_t4n c \<noteq> cfg_t4e c" "rb_discard c \<noteq> 0" "rb_accept c \<noteq> 0" "1 < cfg_D sc"
    "pv \<in> {SS7_PVAR_ITUT_93, SS7_PVAR_ITUT_96, SS7_PVAR_ANSI_92}" "po \<in> {0, SS7_POPT_PCR}"
  defines "ch \<equiv> sl_run align_run (xp_init_ch pv po c sc (Some \<lparr>rq = ms, rq_canput = True, rq_canputnext = True\<rparr>))"
  shows "lsc_state (statem ch) = LSC_IN_SERVICE \<and>
    map_option rq (ch_xp ch) = Some (ms @ [RProto SL_IN_SERVICE_IND None])"
  using align_run_result[of c sc pv po ms] assms by auto

theorem comes_into_service_witness:
  "lsc_state (statem (sl_run align_run (demo_ch 0x301 2))) = LSC_IN_SERVICE"
  using comes_into_service[of "sl_default_e1_chan 100" "sdt_default_e1_chan 100" "0x301" 2 "[]"]
  by (simp add: demo_ch_def) (simp add: sl_default_e1_chan_def sdt_default_e1_chan_def)

end
